(* ===== verification/Prelude.thy ===== *)
theory Prelude
  imports Main "HOL-Library.Word" "HOL-Library.Sublist" "HOL-Library.Monad_Syntax"
begin

unbundle bit_operations_syntax

text \<open>
  Names shared by every component: the machine types of the code, byte arrays, the
  little-endian view of integers that the code obtains with \<open>memcpy\<close>, and the generic facts
  on sorted lists that the posting lists, the position lists and the id lists rest on.

  \<^item> \<open>quint64\<close>, \<open>quint32\<close>/\<open>uint\<close> and bytes are words of their width; \<open>QByteArray\<close> is a
    list of bytes, \<open>QString\<close> a list of UTF-16 code units, \<open>QVector<T>\<close> a list.
  \<^item> \<open>le_bytes\<close> and \<open>le_word\<close> are the object representation of an unsigned integer on the
    little-endian machines the README names as supported (x86_64, aarch64).
  \<^item> \<open>asc\<close> is the strictly ascending order that every posting list of the code keeps.
\<close>

type_synonym u8 = "8 word"
type_synonym u32 = "32 word"
type_synonym u64 = "64 word"
type_synonym bytes = "u8 list"
type_synonym QString = "16 word list"

named_theorems codec_simps \<open>round trips of the encoders\<close>
named_theorems lmdb_simps \<open>reads of the key/value store after a write\<close>
named_theorems table_simps \<open>reads of a typed table after a write\<close>

section \<open>Byte strings\<close>

definition lit :: "string \<Rightarrow> bytes" where
  "lit s = map (\<lambda>c. word_of_nat (of_char c)) s"

text \<open>A \<open>u"..."_s\<close> literal: ASCII characters as code units.\<close>

definition qs :: "string \<Rightarrow> QString" where
  "qs s = map (\<lambda>c. word_of_nat (of_char c)) s"

abbreviation slash :: u8 where
  "slash \<equiv> 0x2F"

section \<open>Little-endian object representation\<close>

primrec le_bytes :: "nat \<Rightarrow> 'a::len word \<Rightarrow> bytes" where
  "le_bytes 0 w = []"
| "le_bytes (Suc n) w = ucast w # le_bytes n (drop_bit 8 w)"

primrec le_word :: "bytes \<Rightarrow> 'a::len word" where
  "le_word [] = 0"
| "le_word (b # bs) = ucast b OR push_bit 8 (le_word bs)"

lemma length_le_bytes [simp]: "length (le_bytes n w) = n"
  by (induction n arbitrary: w) auto

lemma le_bytes_not_Nil [simp]: "0 < n \<Longrightarrow> le_bytes n w \<noteq> []"
  by (cases n) auto

lemma le_word_le_bytes_take: "le_word (le_bytes n w) = take_bit (8 * n) w"
proof (induction n arbitrary: w)
  case 0
  then show ?case by simp
next
  case (Suc n)
  show ?case
    by (rule bit_word_eqI) (auto simp: Suc.IH bit_simps)
qed

lemma le_word_le_bytes_32 [codec_simps]: "le_word (le_bytes 4 w) = (w :: u32)"
  by (simp add: le_word_le_bytes_take take_bit_word_eq_self)

lemma le_word_le_bytes_64 [codec_simps]: "le_word (le_bytes 8 w) = (w :: u64)"
  by (simp add: le_word_le_bytes_take take_bit_word_eq_self)

lemma le_word_le_bytes_wider:
  "LENGTH('a::len) \<le> LENGTH('b::len) \<Longrightarrow> (le_word (le_bytes n (w :: 'a word)) :: 'b word) = ucast (take_bit (8 * n) w)"
proof (induction n arbitrary: w)
  case (Suc n)
  show ?case
    by (rule bit_word_eqI) (use Suc.prems in \<open>auto simp: Suc.IH[OF Suc.prems] bit_simps\<close>)
qed simp

lemma le_bytes_64_inject [simp]: "le_bytes 8 v = le_bytes 8 w \<longleftrightarrow> v = (w :: u64)"
  by (metis le_word_le_bytes_64)

lemma le_bytes_32_inject [simp]: "le_bytes 4 v = le_bytes 4 w \<longleftrightarrow> v = (w :: u32)"
  by (metis le_word_le_bytes_32)

lemma le_bytes_le_word:
  assumes "length xs = n" and "8 * n \<le> LENGTH('a::len)"
  shows "le_bytes n (le_word xs :: 'a word) = xs"
  using assms
proof (induction xs arbitrary: n)
  case Nil
  then show ?case by simp
next
  case (Cons x xs)
  then obtain m where n: "n = Suc m" by (cases n) auto
  from Cons.prems n have len: "length xs = m" "8 * m + 8 \<le> LENGTH('a)" by auto
  let ?w = "ucast x OR push_bit 8 (le_word xs) :: 'a word"
  have "ucast ?w = x"
    by (rule bit_word_eqI) (use len in \<open>auto simp: bit_simps\<close>)
  moreover have tail: "take_bit (8 * m) (drop_bit 8 ?w) = take_bit (8 * m) (le_word xs :: 'a word)"
    by (rule bit_word_eqI) (use len in \<open>auto simp: bit_simps dest: bit_imp_le_length\<close>)
  have "le_bytes k v = le_bytes k (take_bit (8 * k) v)" for k and v :: "'a word"
  proof (induction k arbitrary: v)
    case (Suc k)
    have "ucast (take_bit (8 * Suc k) v) = (ucast v :: u8)"
      by (rule bit_word_eqI) (auto simp: bit_simps)
    moreover have "drop_bit 8 (take_bit (8 * Suc k) v) = take_bit (8 * k) (drop_bit 8 v)"
      by (rule bit_word_eqI) (auto simp: bit_simps)
    ultimately show ?case using Suc.IH[of "drop_bit 8 v"] by simp
  qed simp
  then have "le_bytes m (drop_bit 8 ?w) = le_bytes m (le_word xs :: 'a word)"
    using tail by metis
  then have "le_bytes m (drop_bit 8 ?w) = xs"
    using Cons.IH[OF len(1)] len(2) by simp
  ultimately show ?case by (simp add: n)
qed

section \<open>Strictly ascending lists\<close>

abbreviation asc :: "'a::linorder list \<Rightarrow> bool" where
  "asc \<equiv> sorted_wrt (<)"

lemma asc_sorted: "asc xs \<Longrightarrow> sorted xs"
  by (simp add: strict_sorted_iff)

lemma asc_distinct: "asc xs \<Longrightarrow> distinct xs"
  by (simp add: strict_sorted_iff)

lemma asc_sorted_distinct: "asc xs \<longleftrightarrow> sorted xs \<and> distinct xs"
  by (simp add: strict_sorted_iff)

lemma asc_set_unique: "asc xs \<Longrightarrow> asc ys \<Longrightarrow> set xs = set ys \<Longrightarrow> xs = ys"
  by (simp add: strict_sorted_iff sorted_distinct_set_unique)

lemma asc_filter: "asc xs \<Longrightarrow> asc (filter P xs)"
  by (rule sorted_wrt_filter)

lemma asc_remove1: "asc xs \<Longrightarrow> asc (remove1 x xs)"
  by (simp add: strict_sorted_iff sorted_remove1)

lemma asc_drop: "asc xs \<Longrightarrow> asc (drop n xs)"
  by (rule sorted_wrt_drop)

lemma asc_remdups_sort [simp]: "asc (remdups (sort xs))"
  by (simp add: strict_sorted_iff)

lemmas asc_intros = asc_filter asc_remove1 asc_drop asc_remdups_sort

text \<open>\<open>std::sort\<close> followed by \<open>std::unique\<close> and \<open>erase\<close>: the ascending list of the values.\<close>

definition sort_unique :: "'a::linorder list \<Rightarrow> 'a list" where
  "sort_unique xs = remdups_adj (sort xs)"

lemma sorted_asc_remdups_adj: "sorted xs \<Longrightarrow> asc (remdups_adj xs)"
  by (induction xs rule: remdups_adj.induct) (auto simp: less_le)

lemma sort_unique_asc [simp]: "asc (sort_unique xs)"
  by (simp add: sort_unique_def sorted_asc_remdups_adj)

lemma set_sort_unique [simp]: "set (sort_unique xs) = set xs"
  by (simp add: sort_unique_def)

lemma sort_unique_Nil_iff [simp]: "sort_unique xs = [] \<longleftrightarrow> xs = []"
  by (simp flip: set_empty)

text \<open>\<open>std::set_intersection\<close> on two sorted ranges, as the standard library's loop.\<close>

fun set_intersection :: "'a::linorder list \<Rightarrow> 'a list \<Rightarrow> 'a list" where
  "set_intersection [] ys = []"
| "set_intersection xs [] = []"
| "set_intersection (x # xs) (y # ys) =
     (if x < y then set_intersection xs (y # ys)
      else if y < x then set_intersection (x # xs) ys
      else x # set_intersection xs ys)"

lemma set_set_intersection:
  assumes "asc xs" "asc ys"
  shows "set (set_intersection xs ys) = set xs \<inter> set ys"
  using assms
proof (induction xs ys rule: set_intersection.induct)
  case (3 x xs y ys)
  then have xs: "\<And>z. z \<in> set xs \<Longrightarrow> x < z" and ys: "\<And>z. z \<in> set ys \<Longrightarrow> y < z" by auto
  consider "x < y" | "y < x" | "x = y" by (rule linorder_cases)
  then show ?case
  proof cases
    case 1
    then have "x \<notin> set (y # ys)" using ys by fastforce
    with 1 3 show ?thesis by simp
  next
    case 2
    then have "y \<notin> set (x # xs)" using xs by fastforce
    with 2 3 show ?thesis by simp
  next
    case [simp]: 3
    then have "y \<notin> set xs" "y \<notin> set ys" using xs ys by auto
    with "3.IH"(3) "3.prems" show ?thesis by auto
  qed
qed auto

lemma asc_set_intersection: "asc xs \<Longrightarrow> asc ys \<Longrightarrow> asc (set_intersection xs ys)"
proof (induction xs ys rule: set_intersection.induct)
  case (3 x xs y ys)
  then show ?case using set_set_intersection[of xs ys] by auto
qed auto

section \<open>Sorted maps\<close>

text \<open>
  \<open>QMap\<close> keeps its entries in the order of the keys, and the code iterates over it in that
  order: a list of pairs, ascending in the keys.
\<close>

primrec qmap_insert :: "'k::linorder \<Rightarrow> 'v \<Rightarrow> ('k \<times> 'v) list \<Rightarrow> ('k \<times> 'v) list" where
  "qmap_insert k v [] = [(k, v)]"
| "qmap_insert k v (p # m) =
     (if k < fst p then (k, v) # p # m
      else if k = fst p then (k, v) # m
      else p # qmap_insert k v m)"

text \<open>\<open>split\<close> with \<open>SkipEmptyParts\<close>.\<close>

fun split_skip_empty :: "16 word \<Rightarrow> QString \<Rightarrow> QString \<Rightarrow> QString list" where
  "split_skip_empty sep [] acc = (if acc = [] then [] else [acc])"
| "split_skip_empty sep (c # cs) acc =
     (if c = sep then (if acc = [] then [] else [acc]) @ split_skip_empty sep cs []
      else split_skip_empty sep cs (acc @ [c]))"

text \<open>\<open>m[k]\<close> (a default entry if there is none) followed by a change of the entry.\<close>

definition qmap_update :: "'k::linorder \<Rightarrow> 'v \<Rightarrow> ('v \<Rightarrow> 'v) \<Rightarrow> ('k \<times> 'v) list \<Rightarrow> ('k \<times> 'v) list" where
  "qmap_update k dflt f m =
     qmap_insert k (f (case map_of m k of None \<Rightarrow> dflt | Some v \<Rightarrow> v)) m"

definition qmap_of_list :: "('k::linorder \<times> 'v) list \<Rightarrow> ('k \<times> 'v) list" where
  "qmap_of_list es = foldl (\<lambda>m (k, v). qmap_insert k v m) [] es"

abbreviation asc_keys :: "('k::linorder \<times> 'v) list \<Rightarrow> bool" where
  "asc_keys m \<equiv> asc (map fst m)"

lemma keys_qmap_insert: "fst ` set (qmap_insert k v m) = insert k (fst ` set m)"
  by (induction m) auto

lemma ball_keys_qmap_insert:
  "(\<forall>z \<in> set (qmap_insert k v m). Q (fst z)) \<longleftrightarrow> Q k \<and> (\<forall>z \<in> set m. Q (fst z))"
proof -
  have "(\<forall>x \<in> fst ` set (qmap_insert k v m). Q x) \<longleftrightarrow> (\<forall>x \<in> insert k (fst ` set m). Q x)"
    by (simp only: keys_qmap_insert)
  then show ?thesis by simp
qed

lemma asc_keys_qmap_insert [simp]: "asc_keys m \<Longrightarrow> asc_keys (qmap_insert k v m)"
proof (induction m)
  case (Cons p m)
  consider "k < fst p" | "k = fst p" | "fst p < k" by (rule linorder_cases)
  then show ?case
  proof cases
    case 1
    with Cons.prems show ?thesis by (auto intro: less_trans)
  next
    case 2
    with Cons.prems show ?thesis by simp
  next
    case 3
    then have "\<not> k < fst p" "k \<noteq> fst p" by auto
    with 3 Cons show ?thesis by (simp add: ball_keys_qmap_insert)
  qed
qed simp

lemma map_of_qmap_insert:
  "asc_keys m \<Longrightarrow> map_of (qmap_insert k v m) = (map_of m)(k \<mapsto> v)"
proof (induction m)
  case (Cons p m)
  then have "k < fst p \<Longrightarrow> map_of m k = None"
    by (force simp: map_of_eq_None_iff)
  with Cons show ?case by (cases p) (auto simp: fun_eq_iff)
qed simp

lemma qmap_insert_not_Nil [simp]: "qmap_insert k v m \<noteq> []"
  by (cases m) auto

lemma qmap_of_list_snoc: "qmap_of_list (es @ [e]) = qmap_insert (fst e) (snd e) (qmap_of_list es)"
  by (simp add: qmap_of_list_def split_beta)

lemma asc_keys_qmap_of_list [simp]: "asc_keys (qmap_of_list es)"
  by (induction es rule: rev_induct) (simp_all add: qmap_of_list_snoc, simp add: qmap_of_list_def)

lemma qmap_insert_greatest:
  "(\<forall>p \<in> set m. fst p < k) \<Longrightarrow> qmap_insert k v m = m @ [(k, v)]"
  by (induction m) auto

text \<open>Entries that come in the order of their keys stay as they are.\<close>

lemma qmap_of_list_id: "asc_keys es \<Longrightarrow> qmap_of_list es = es"
proof (induction es rule: rev_induct)
  case (snoc e es)
  then show ?case
    using qmap_insert_greatest[of es "fst e" "snd e"]
    by (auto simp: qmap_of_list_snoc sorted_wrt_append)
qed (simp add: qmap_of_list_def)

lemma map_of_qmap_of_list_distinct:
  "distinct (map fst es) \<Longrightarrow> map_of (qmap_of_list es) = map_of es"
proof (induction es rule: rev_induct)
  case (snoc e es)
  then have "fst e \<notin> fst ` set es" "map_of (qmap_of_list es) = map_of es" by auto
  then show ?case
    by (cases e) (auto simp: qmap_of_list_snoc map_of_qmap_insert fun_eq_iff map_add_def
        split: option.splits dest: map_of_SomeD intro: rev_image_eqI)
qed (simp add: qmap_of_list_def)

section \<open>Ranges of sorted lists\<close>

lemma sorted_range:
  fixes f :: "'a \<Rightarrow> 'b::linorder"
  assumes "sorted (map f xs)"
  shows "takeWhile (\<lambda>x. f x \<le> b) (dropWhile (\<lambda>x. f x < a) xs) = filter (\<lambda>x. a \<le> f x \<and> f x \<le> b) xs"
proof -
  have take: "sorted (map f ys) \<Longrightarrow> takeWhile (\<lambda>x. f x \<le> b) ys = filter (\<lambda>x. f x \<le> b) ys" for ys
  proof (induction ys)
    case (Cons y ys)
    then have "\<not> f y \<le> b \<Longrightarrow> filter (\<lambda>x. f x \<le> b) ys = []"
      by (force simp: filter_empty_conv)
    with Cons show ?case by simp
  qed simp
  have drop: "sorted (map f ys) \<Longrightarrow> dropWhile (\<lambda>x. f x < a) ys = filter (\<lambda>x. a \<le> f x) ys" for ys
  proof (induction ys)
    case (Cons y ys)
    then have "\<not> f y < a \<Longrightarrow> filter (\<lambda>x. a \<le> f x) ys = ys"
      by (force intro!: filter_True)
    with Cons show ?case by auto
  qed simp
  have "sorted (map f (filter (\<lambda>x. a \<le> f x) xs))" by (rule sorted_filter[OF assms])
  from take[OF this] show ?thesis by (simp add: drop[OF assms] conj_commute)
qed

end
