(* ===== verification/Coding.thy ===== *)
theory Coding
  imports Prelude
begin

text \<open>
  \<open>src/src/codecs/coding.h\<close> and \<open>coding.cpp\<close>: fixed 64-bit and variable-length 32-bit integers and
  the differential list of variable-length integers. A write cursor into the temporary
  buffer is the list of bytes written so far; a read pointer \<open>p\<close> with its \<open>limit\<close> is the list
  of bytes from \<open>p\<close> up to \<open>limit\<close>, and the null pointer is \<open>None\<close>.
\<close>

section \<open>Fixed-width integers\<close>

definition putFixed64 :: "bytes \<Rightarrow> u64 \<Rightarrow> bytes" where
  "putFixed64 dst value = dst @ le_bytes 8 value"

text \<open>
  \<open>decodeFixed64\<close> copies eight bytes from the pointer. Fewer than eight bytes before the end of
  the buffer is an out-of-bounds read in the code; the model then reads only those there are.
\<close>

definition decodeFixed64 :: "bytes \<Rightarrow> u64" where
  "decodeFixed64 p = le_word (take 8 p)"

lemma decodeFixed64_put [codec_simps]: "decodeFixed64 (le_bytes 8 v @ rest) = v"
  by (simp add: decodeFixed64_def codec_simps)

section \<open>Variable-length integers\<close>

definition encodeVarint32Internal :: "u32 \<Rightarrow> bytes" where
  "encodeVarint32Internal v =
     (let B = 128 in
      if v < 2 ^ 7 then [ucast v]
      else if v < 2 ^ 14 then [ucast (v OR B), ucast (drop_bit 7 v)]
      else if v < 2 ^ 21 then [ucast (v OR B), ucast (drop_bit 7 v OR B), ucast (drop_bit 14 v)]
      else if v < 2 ^ 28 then
        [ucast (v OR B), ucast (drop_bit 7 v OR B), ucast (drop_bit 14 v OR B), ucast (drop_bit 21 v)]
      else
        [ucast (v OR B), ucast (drop_bit 7 v OR B), ucast (drop_bit 14 v OR B),
         ucast (drop_bit 21 v OR B), ucast (drop_bit 28 v)])"

text \<open>\<open>putVarint32Internal\<close> writes at \<open>dst[pos]\<close> and advances \<open>pos\<close>: it appends.\<close>

definition putVarint32Internal :: "bytes \<Rightarrow> u32 \<Rightarrow> bytes" where
  "putVarint32Internal dst v = dst @ encodeVarint32Internal v"

function getVarint32PtrFallback_loop :: "nat \<Rightarrow> u32 \<Rightarrow> bytes \<Rightarrow> (u32 \<times> bytes) option" where
  "getVarint32PtrFallback_loop shift result p =
     (if shift \<le> 28 \<and> p \<noteq> [] then
        let byte = ucast (hd p) in
        if byte AND 128 \<noteq> 0
        then getVarint32PtrFallback_loop (shift + 7)
               (result OR push_bit shift (byte AND 127)) (tl p)
        else Some (result OR push_bit shift byte, tl p)
      else None)"
  by pat_completeness auto
termination
  by (relation "measure (\<lambda>(shift, _, _). 35 - shift)") auto

declare getVarint32PtrFallback_loop.simps [simp del]

definition getVarint32PtrFallback :: "bytes \<Rightarrow> (u32 \<times> bytes) option" where
  "getVarint32PtrFallback p = getVarint32PtrFallback_loop 0 0 p"

fun getVarint32Ptr :: "bytes \<Rightarrow> (u32 \<times> bytes) option" where
  "getVarint32Ptr [] = None"
| "getVarint32Ptr (b # p) =
     (if ucast b AND (128 :: u32) = 0 then Some (ucast b, p)
      else getVarint32PtrFallback (b # p))"

text \<open>
  Reading back what was written: after the bytes below \<open>shift\<close>, the result holds the low
  \<open>shift\<close> bits of the value; a byte with the continuation bit adds seven more, a byte without
  it adds the rest.
\<close>

lemma bit_128_iff: "bit (128 :: u32) n \<longleftrightarrow> n = 7"
proof -
  have "(128 :: u32) = push_bit 7 1" by simp
  then show ?thesis by (simp only: bit_simps) auto
qed

lemma word_127_mask: "(127 :: u32) = mask 7"
  by (simp add: mask_eq_exp_minus_1)

lemma unat_exp_32: "k < 32 \<Longrightarrow> unat (2 ^ k :: u32) = 2 ^ k"
  using unsigned_of_nat[of "2 ^ k", where 'b = 32]
  by (simp add: take_bit_nat_eq_self)

lemma unat_below: "v < 2 ^ k \<Longrightarrow> k < 32 \<Longrightarrow> unat (v :: u32) < 2 ^ k"
  by (simp add: word_less_nat_alt unat_exp_32)

lemma bit_below:
  assumes "v < 2 ^ k" "k < 32" "bit (v :: u32) n"
  shows "n < k"
proof -
  have "bit (take_bit k (unat v)) n"
    using unat_below[OF assms(1,2)] assms(3) by (simp add: take_bit_nat_eq_self bit_unsigned_iff)
  then show ?thesis by (simp add: bit_take_bit_iff)
qed

lemma drop_bit_below:
  assumes "v < 2 ^ (m + n)" "m + n < 32"
  shows "drop_bit m (v :: u32) < 2 ^ n"
proof -
  have "unat v div 2 ^ m < 2 ^ n"
    using unat_below[OF assms] by (simp add: power_add less_mult_imp_div_less mult.commute)
  moreover have "unat (drop_bit m v) = unat v div 2 ^ m"
    by (rule trans[OF unat_drop_bit_eq drop_bit_eq_div])
  ultimately show ?thesis
    using assms(2) by (simp only: word_less_nat_alt unat_exp_32)
qed

text \<open>The continuation bit is kept as a variable, so that no numeral is evaluated bitwise.\<close>

lemma cont_byte_flag_aux:
  assumes "\<And>n. bit (B :: u32) n \<longleftrightarrow> n = 7"
  shows "(ucast (ucast (v OR B) :: u8) AND B) \<noteq> 0"
proof -
  have "bit (ucast (ucast (v OR B) :: u8) AND B) 7" by (simp add: bit_simps assms)
  then show ?thesis by auto
qed

lemma last_byte_flag_aux:
  assumes "\<And>n. bit (B :: u32) n \<longleftrightarrow> n = 7" and "(v :: u32) < 2 ^ 7"
  shows "ucast (ucast v :: u8) AND B = 0"
  using bit_below[OF assms(2), of 7] by (intro bit_word_eqI) (auto simp: bit_simps assms(1))

lemma cont_byte_value_aux:
  assumes "\<And>n. bit (B :: u32) n \<longleftrightarrow> n = 7"
  shows "take_bit s w OR push_bit s (ucast (ucast (drop_bit s w OR B) :: u8) AND mask 7) =
    take_bit (s + 7) w"
  by (rule bit_word_eqI) (auto simp: bit_simps assms)

lemma last_byte_value:
  assumes "drop_bit s w < (2 ^ 7 :: u32)"
  shows "take_bit s w OR push_bit s (ucast (ucast (drop_bit s w) :: u8)) = w"
proof (rule bit_word_eqI)
  fix n
  have "s \<le> n \<Longrightarrow> bit w n \<Longrightarrow> n - s < 7"
    using bit_below[OF assms, of "n - s"] by (simp add: bit_drop_bit_eq)
  then show "bit (take_bit s w OR push_bit s (ucast (ucast (drop_bit s w) :: u8))) n = bit w n"
    if "n < LENGTH(32)" using that by (cases "n < s") (auto simp: bit_simps)
qed

lemmas cont_byte_flag = cont_byte_flag_aux[OF bit_128_iff]
  and last_byte_flag = last_byte_flag_aux[OF bit_128_iff]
  and cont_byte_value = cont_byte_value_aux[OF bit_128_iff, folded word_127_mask]

lemma fallback_cont:
  assumes "s \<le> 28"
  shows "getVarint32PtrFallback_loop s (take_bit s w) (ucast (drop_bit s w OR 128) # p) =
   getVarint32PtrFallback_loop (s + 7) (take_bit (s + 7) w) p"
  unfolding cont_byte_value[of s w, symmetric]
  using assms cont_byte_flag[of "drop_bit s w"]
  by (subst getVarint32PtrFallback_loop.simps) (simp only: Let_def list.sel list.simps if_True simp_thms)

lemma fallback_last:
  assumes "s \<le> 28" "drop_bit s w < 2 ^ 7"
  shows "getVarint32PtrFallback_loop s (take_bit s w) (ucast (drop_bit s w) # p) = Some (w, p)"
  using assms last_byte_flag[of "drop_bit s w"] last_byte_value[of s w]
  by (subst getVarint32PtrFallback_loop.simps) (simp only: Let_def list.sel list.simps simp_thms if_True if_False)

lemma getVarint32Ptr_cont:
  "getVarint32Ptr (ucast (w OR 128) # p) = getVarint32PtrFallback_loop 7 (take_bit 7 w) p"
  using fallback_cont[of 0 w p] cont_byte_flag[of w]
  by (simp only: getVarint32PtrFallback_def getVarint32Ptr.simps if_False) simp

lemma getVarint32Ptr_last: "w < 2 ^ 7 \<Longrightarrow> getVarint32Ptr (ucast w # p) = Some (w, p)"
  using last_byte_flag[of w] last_byte_value[of 0 w]
  by (simp only: getVarint32Ptr.simps if_True) (simp del: unsigned_ucast_eq)

lemma fallback_cont_steps:
  "getVarint32PtrFallback_loop 7 (take_bit 7 w) (ucast (drop_bit 7 w OR 128) # p) =
    getVarint32PtrFallback_loop 14 (take_bit 14 w) p"
  "getVarint32PtrFallback_loop 14 (take_bit 14 w) (ucast (drop_bit 14 w OR 128) # p) =
    getVarint32PtrFallback_loop 21 (take_bit 21 w) p"
  "getVarint32PtrFallback_loop 21 (take_bit 21 w) (ucast (drop_bit 21 w OR 128) # p) =
    getVarint32PtrFallback_loop 28 (take_bit 28 w) p"
  using fallback_cont[of 7 w p] fallback_cont[of 14 w p] fallback_cont[of 21 w p] by simp_all

lemma fallback_last_steps:
  "v < 2 ^ 14 \<Longrightarrow>
    getVarint32PtrFallback_loop 7 (take_bit 7 v) (ucast (drop_bit 7 v) # p) = Some (v, p)"
  "v < 2 ^ 21 \<Longrightarrow>
    getVarint32PtrFallback_loop 14 (take_bit 14 v) (ucast (drop_bit 14 v) # p) = Some (v, p)"
  "v < 2 ^ 28 \<Longrightarrow>
    getVarint32PtrFallback_loop 21 (take_bit 21 v) (ucast (drop_bit 21 v) # p) = Some (v, p)"
  using fallback_last[of 7 v p] fallback_last[of 14 v p] fallback_last[of 21 v p]
    drop_bit_below[of v 7 7] drop_bit_below[of v 14 7] drop_bit_below[of v 21 7]
  by simp_all

lemma fallback_last_byte:
  "getVarint32PtrFallback_loop 28 (take_bit 28 v) (ucast (drop_bit 28 v) # p) = Some (v, p)"
proof -
  have "unat v div 2 ^ 28 < 2 ^ 7" using unsigned_less[of v, where 'a = nat] by simp
  then have "drop_bit 28 v < 2 ^ 7"
    by (simp only: word_less_nat_alt trans[OF unat_drop_bit_eq drop_bit_eq_div]) (simp add: unat_exp_32)
  then show ?thesis using fallback_last[of 28 v p] by simp
qed

lemmas varint_steps = getVarint32Ptr_cont getVarint32Ptr_last
  fallback_cont_steps fallback_last_steps fallback_last_byte

lemma getVarint32Ptr_encode [codec_simps]:
  "getVarint32Ptr (encodeVarint32Internal v @ rest) = Some (v, rest)"
proof -
  consider "v < 2 ^ 7" | "\<not> v < 2 ^ 7" "v < 2 ^ 14" | "\<not> v < 2 ^ 7" "\<not> v < 2 ^ 14" "v < 2 ^ 21"
    | "\<not> v < 2 ^ 7" "\<not> v < 2 ^ 14" "\<not> v < 2 ^ 21" "v < 2 ^ 28"
    | "\<not> v < 2 ^ 7" "\<not> v < 2 ^ 14" "\<not> v < 2 ^ 21" "\<not> v < 2 ^ 28" by blast
  then show ?thesis
    by cases (simp_all only: encodeVarint32Internal_def Let_def if_True if_False append.simps varint_steps)
qed

lemma encodeVarint32Internal_length:
  "1 \<le> length (encodeVarint32Internal v) \<and> length (encodeVarint32Internal v) \<le> 5"
  by (simp add: encodeVarint32Internal_def Let_def)

text \<open>A varint never has a zero-length encoding, and a read that succeeds consumes input.\<close>

lemma getVarint32PtrFallback_loop_consumes:
  "getVarint32PtrFallback_loop s r p = Some (v, q) \<Longrightarrow> length q < length p"
proof (induction s r p rule: getVarint32PtrFallback_loop.induct)
  case (1 s r p)
  then show ?case
    by (subst (asm) (2) getVarint32PtrFallback_loop.simps)
      (fastforce simp: Let_def split: if_splits dest: order_less_le_trans)
qed

lemma getVarint32Ptr_consumes: "getVarint32Ptr p = Some (v, q) \<Longrightarrow> length q < length p"
  by (cases p rule: getVarint32Ptr.cases)
    (auto simp: getVarint32PtrFallback_def split: if_splits
      dest: getVarint32PtrFallback_loop_consumes)

section \<open>Differential lists of variable-length integers\<close>

text \<open>The loop over \<open>vals\<close>: each entry is written as its difference to the one before.\<close>

primrec putDifferential_loop :: "bytes \<Rightarrow> u32 \<Rightarrow> u32 list \<Rightarrow> bytes" where
  "putDifferential_loop buf v [] = buf"
| "putDifferential_loop buf v (n # vals) =
     putDifferential_loop (putVarint32Internal buf (n - v)) n vals"

definition putDifferentialVarInt32 :: "bytes \<Rightarrow> u32 list \<Rightarrow> bytes" where
  "putDifferentialVarInt32 dst vals =
     dst @ putDifferential_loop (putVarint32Internal [] (word_of_nat (length vals))) 0 vals"

text \<open>
  The reading loop: \<open>k\<close> slots of \<open>vals\<close> are left, \<open>out\<close> holds those written. A read that
  fails still stores \<open>n + v\<close> with \<open>n = 0\<close> before the loop sees the null pointer.
\<close>

fun getDifferential_loop :: "bytes option \<Rightarrow> nat \<Rightarrow> u32 \<Rightarrow> u32 list \<Rightarrow> bytes option \<times> u32 list" where
  "getDifferential_loop None k v out = (None, out)"
| "getDifferential_loop (Some p) 0 v out = (Some p, out)"
| "getDifferential_loop (Some p) (Suc k) v out =
     (case getVarint32Ptr p of
        None \<Rightarrow> getDifferential_loop None k (v + 0) (out @ [0 + v])
      | Some (n, p') \<Rightarrow> getDifferential_loop (Some p') k (v + n) (out @ [n + v]))"

definition getDifferentialVarInt32 :: "bytes \<Rightarrow> bytes option \<times> u32 list" where
  "getDifferentialVarInt32 p =
     (case getVarint32Ptr p of
        None \<Rightarrow> getDifferential_loop None 0 0 []
      | Some (n, p') \<Rightarrow> getDifferential_loop (Some p') (unat n) 0 [])"

lemma putDifferential_loop_append:
  "putDifferential_loop (buf @ buf') v vals = buf @ putDifferential_loop buf' v vals"
  by (induction vals arbitrary: buf' v) (auto simp: putVarint32Internal_def)

lemma putDifferential_loop_buf:
  "putDifferential_loop buf v vals = buf @ putDifferential_loop [] v vals"
  using putDifferential_loop_append[of buf "[]"] by simp

lemma getDifferential_loop_put:
  "getDifferential_loop (Some (putDifferential_loop [] v vals @ rest)) (length vals) v out =
   (Some rest, out @ vals)"
proof (induction vals arbitrary: v out)
  case Nil
  then show ?case by simp
next
  case (Cons n vals)
  then show ?case
    by (subst putDifferential_loop.simps, subst putDifferential_loop_buf)
      (simp add: putVarint32Internal_def codec_simps)
qed

lemma getDifferentialVarInt32_put [codec_simps]:
  assumes "length vals < 2 ^ 32"
  shows "getDifferentialVarInt32 (putDifferentialVarInt32 [] vals @ rest) = (Some rest, vals)"
proof -
  have "unat (word_of_nat (length vals) :: u32) = length vals"
    using assms by (simp add: unsigned_of_nat take_bit_nat_eq_self)
  then show ?thesis
    unfolding getDifferentialVarInt32_def putDifferentialVarInt32_def putVarint32Internal_def
    by (subst putDifferential_loop_buf)
      (simp add: codec_simps getDifferential_loop_put)
qed

lemma putDifferentialVarInt32_append:
  "putDifferentialVarInt32 dst vals = dst @ putDifferentialVarInt32 [] vals"
  by (simp add: putDifferentialVarInt32_def)

text \<open>The reader never reports more vals than the length prefix allows.\<close>

lemma getDifferential_loop_consumes:
  "getDifferential_loop (Some p) k v out = (Some q, vs) \<Longrightarrow> length q \<le> length p"
proof (induction "Some p" k v out arbitrary: p rule: getDifferential_loop.induct)
  case (3 p k v out)
  then show ?case
    by (fastforce split: option.splits dest: getVarint32Ptr_consumes)
qed auto

lemma getDifferentialVarInt32_consumes:
  "getDifferentialVarInt32 p = (Some q, vs) \<Longrightarrow> length q < length p"
  by (fastforce simp: getDifferentialVarInt32_def split: option.splits
      dest: getVarint32Ptr_consumes getDifferential_loop_consumes)

end
