(* ===== verification/Codecs.thy ===== *)
theory Codecs
  imports Coding
begin

text \<open>
  The value formats of the index (\<open>src/src/codecs\<close>): posting lists, position lists, term lists,
  and the two C structs stored by \<open>memcpy\<close> (\<open>DocumentTimeDB::TimeInfo\<close>,
  \<open>IdFilenameDB::FilePath\<close>). The locale \<open>codec\<close> is the contract the tables rely on: what was
  encoded decodes to itself. Each format provides it by an interpretation.
\<close>

locale codec =
  fixes enc :: "'v \<Rightarrow> bytes"
    and dec :: "bytes \<Rightarrow> 'v"
    and valid :: "'v \<Rightarrow> bool"
  assumes dec_enc: "valid v \<Longrightarrow> dec (enc v) = v"
begin

lemma enc_inject: "valid v \<Longrightarrow> valid w \<Longrightarrow> enc v = enc w \<longleftrightarrow> v = w"
  by (metis dec_enc)

lemma map_dec_enc: "\<forall>v \<in> set vs. valid v \<Longrightarrow> map (dec \<circ> enc) vs = vs"
  by (induction vs) (auto simp: dec_enc)

end

section \<open>PostingCodec\<close>

type_synonym PostingList = "u64 list"

text \<open>\<open>encode\<close> is the \<open>memcpy\<close> of the vector of 64-bit ids; \<open>decode\<close> refuses other lengths.\<close>

definition PostingCodec_encode :: "PostingList \<Rightarrow> bytes" where
  "PostingCodec_encode xs = concat (map (le_bytes 8) xs)"

text \<open>The \<open>memcpy\<close> of a byte array into a vector of \<open>n\<close> 64-bit ids.\<close>

primrec memcpy_ids :: "nat \<Rightarrow> bytes \<Rightarrow> u64 list" where
  "memcpy_ids 0 arr = []"
| "memcpy_ids (Suc n) arr = le_word (take 8 arr) # memcpy_ids n (drop 8 arr)"

definition PostingCodec_decode :: "bytes \<Rightarrow> PostingList" where
  "PostingCodec_decode arr =
     (if length arr mod 8 \<noteq> 0 then [] else memcpy_ids (length arr div 8) arr)"

lemma length_PostingCodec_encode [simp]: "length (PostingCodec_encode xs) = 8 * length xs"
  by (induction xs) (auto simp: PostingCodec_encode_def)

lemma memcpy_ids_encode [codec_simps]: "memcpy_ids (length xs) (PostingCodec_encode xs) = xs"
  by (induction xs) (auto simp: PostingCodec_encode_def codec_simps)

lemma PostingCodec_decode_encode [codec_simps]: "PostingCodec_decode (PostingCodec_encode xs) = xs"
  by (simp add: PostingCodec_decode_def codec_simps)

lemma PostingCodec_encode_Nil_iff [simp]: "PostingCodec_encode xs = [] \<longleftrightarrow> xs = []"
  by (cases xs) (auto simp: PostingCodec_encode_def)

lemma PostingCodec_encode_memcpy:
  "length arr = 8 * n \<Longrightarrow> PostingCodec_encode (memcpy_ids n arr) = arr"
proof (induction n arbitrary: arr)
  case 0
  then show ?case by (simp add: PostingCodec_encode_def)
next
  case (Suc n)
  then have "le_bytes 8 (le_word (take 8 arr) :: u64) = take 8 arr"
    by (intro le_bytes_le_word) auto
  moreover have "PostingCodec_encode (memcpy_ids n (drop 8 arr)) = drop 8 arr"
    using Suc by simp
  ultimately show ?case by (simp add: PostingCodec_encode_def)
qed

lemma PostingCodec_encode_decode:
  "length arr mod 8 = 0 \<Longrightarrow> PostingCodec_encode (PostingCodec_decode arr) = arr"
  by (auto simp: PostingCodec_decode_def intro!: PostingCodec_encode_memcpy)

interpretation posting_codec: codec PostingCodec_encode PostingCodec_decode "\<lambda>_. True"
  by unfold_locales (simp add: codec_simps)

section \<open>PositionInfo and PositionCodec\<close>

text \<open>
  \<open>positioninfo.h\<close>: the three comparison operators of \<open>PositionInfo\<close> look at \<open>docId\<close> only.
\<close>

record PositionInfo =
  docId :: u64
  positions :: "u32 list"

definition PositionInfo_eq :: "PositionInfo \<Rightarrow> PositionInfo \<Rightarrow> bool" where
  "PositionInfo_eq l r \<longleftrightarrow> docId l = docId r"

definition PositionInfo_less :: "PositionInfo \<Rightarrow> PositionInfo \<Rightarrow> bool" where
  "PositionInfo_less l r \<longleftrightarrow> docId l < docId r"

primrec PositionCodec_encode_loop :: "bytes \<Rightarrow> PositionInfo list \<Rightarrow> bytes" where
  "PositionCodec_encode_loop data [] = data"
| "PositionCodec_encode_loop data (pos # list) =
     PositionCodec_encode_loop
       (putDifferentialVarInt32 (putFixed64 data (docId pos)) (positions pos)) list"

definition PositionCodec_encode :: "PositionInfo list \<Rightarrow> bytes" where
  "PositionCodec_encode list = PositionCodec_encode_loop [] list"

text \<open>
  Where fewer than eight bytes are left, the code reads the id past the end of the buffer and
  then sees that the pointer has passed \<open>end\<close>: the whole value is dropped, as here.
\<close>

function PositionCodec_decode_loop :: "PositionInfo list \<Rightarrow> bytes \<Rightarrow> PositionInfo list" where
  "PositionCodec_decode_loop vec data =
     (if data = [] then vec
      else case getDifferentialVarInt32 (drop 8 data) of
             (None, ps) \<Rightarrow> []
           | (Some data', ps) \<Rightarrow>
               PositionCodec_decode_loop
                 (vec @ [\<lparr>docId = decodeFixed64 data, positions = ps\<rparr>]) data')"
  by pat_completeness auto
termination
  by (relation "measure (\<lambda>(vec, data). length data)")
    (auto dest!: sym[THEN getDifferentialVarInt32_consumes])

declare PositionCodec_decode_loop.simps [simp del]

definition PositionCodec_decode :: "bytes \<Rightarrow> PositionInfo list" where
  "PositionCodec_decode arr = PositionCodec_decode_loop [] arr"

abbreviation positions_fit :: "PositionInfo list \<Rightarrow> bool" where
  "positions_fit list \<equiv> \<forall>pos \<in> set list. length (positions pos) < 2 ^ 32"

definition PositionCodec_entry :: "PositionInfo \<Rightarrow> bytes" where
  "PositionCodec_entry pos = le_bytes 8 (docId pos) @ putDifferentialVarInt32 [] (positions pos)"

lemma PositionCodec_encode_loop_entries:
  "PositionCodec_encode_loop data list = data @ concat (map PositionCodec_entry list)"
proof (induction list arbitrary: data)
  case (Cons pos list)
  then show ?case
    by (simp add: PositionCodec_entry_def putFixed64_def
        putDifferentialVarInt32_append[of "data @ le_bytes 8 (docId pos)"])
qed simp

lemma PositionCodec_decode_loop_entry:
  assumes "length (positions pos) < 2 ^ 32"
  shows "PositionCodec_decode_loop vec (PositionCodec_entry pos @ rest) =
    PositionCodec_decode_loop (vec @ [pos]) rest"
  using assms
  by (subst PositionCodec_decode_loop.simps)
    (cases pos, simp add: PositionCodec_entry_def codec_simps)

lemma PositionCodec_decode_loop_entries:
  "positions_fit list \<Longrightarrow>
   PositionCodec_decode_loop vec (concat (map PositionCodec_entry list)) = vec @ list"
proof (induction list arbitrary: vec)
  case Nil
  then show ?case by (simp add: PositionCodec_decode_loop.simps)
next
  case (Cons pos list)
  then show ?case by (simp add: PositionCodec_decode_loop_entry)
qed

lemma PositionCodec_decode_encode [codec_simps]:
  "positions_fit list \<Longrightarrow> PositionCodec_decode (PositionCodec_encode list) = list"
  by (simp add: PositionCodec_decode_def PositionCodec_encode_def
      PositionCodec_encode_loop_entries PositionCodec_decode_loop_entries)

interpretation position_codec: codec PositionCodec_encode PositionCodec_decode positions_fit
  by unfold_locales (simp add: codec_simps)

section \<open>DocTermsCodec\<close>

text \<open>
  A term that extends the one before it is written as its extension, ended by the byte 1; any
  other term is written whole, ended by the byte 0. The encoder takes the first term of a list
  it asserts to be non-empty: there is no equation for the empty list.
\<close>

definition startsWith :: "bytes \<Rightarrow> bytes \<Rightarrow> bool" where
  "startsWith b p = prefix p b"

lemma startsWith_code [code]: "startsWith b p \<longleftrightarrow> take (length p) b = p"
  unfolding startsWith_def by (metis append_eq_conv_conj prefix_def take_is_prefix)

primrec DocTermsCodec_encode_loop :: "bytes \<Rightarrow> bytes \<Rightarrow> bytes list \<Rightarrow> bytes" where
  "DocTermsCodec_encode_loop full prevTerm [] = full"
| "DocTermsCodec_encode_loop full prevTerm (trm # terms) =
     (if startsWith trm prevTerm
      then DocTermsCodec_encode_loop (full @ drop (length prevTerm) trm @ [1]) trm terms
      else DocTermsCodec_encode_loop (full @ trm @ [0]) trm terms)"

fun DocTermsCodec_encode :: "bytes list \<Rightarrow> bytes" where
  "DocTermsCodec_encode (trm # terms) = DocTermsCodec_encode_loop (trm @ [0]) trm terms"

text \<open>The decoding loop; \<open>word\<close> holds the bytes since \<open>prevWordBoundary\<close>.\<close>

fun DocTermsCodec_decode_loop :: "bytes list \<Rightarrow> bytes \<Rightarrow> bytes \<Rightarrow> bytes list" where
  "DocTermsCodec_decode_loop list word [] = list"
| "DocTermsCodec_decode_loop list word (c # full) =
     (if c = 1 then
        if list = [] then list
        else DocTermsCodec_decode_loop (list @ [last list @ word]) [] full
      else if c = 0 then DocTermsCodec_decode_loop (list @ [word]) [] full
      else DocTermsCodec_decode_loop list (word @ [c]) full)"

definition DocTermsCodec_decode :: "bytes \<Rightarrow> bytes list" where
  "DocTermsCodec_decode full = DocTermsCodec_decode_loop [] [] full"

text \<open>The terms the format can hold: no byte 0 or 1 in them.\<close>

definition term_bytes_ok :: "bytes \<Rightarrow> bool" where
  "term_bytes_ok t \<longleftrightarrow> 0 \<notin> set t \<and> 1 \<notin> set t"

abbreviation term_list_ok :: "bytes list \<Rightarrow> bool" where
  "term_list_ok ts \<equiv> ts \<noteq> [] \<and> (\<forall>t \<in> set ts. term_bytes_ok t)"

lemma DocTermsCodec_decode_word:
  "term_bytes_ok w \<Longrightarrow>
   DocTermsCodec_decode_loop list word (w @ rest) = DocTermsCodec_decode_loop list (word @ w) rest"
  by (induction w arbitrary: word) (auto simp: term_bytes_ok_def)

lemma DocTermsCodec_encode_loop_append:
  "DocTermsCodec_encode_loop (full @ full') prev terms = full @ DocTermsCodec_encode_loop full' prev terms"
  by (induction terms arbitrary: full' prev) auto

lemma DocTermsCodec_encode_loop_buf:
  "DocTermsCodec_encode_loop full prev terms = full @ DocTermsCodec_encode_loop [] prev terms"
  using DocTermsCodec_encode_loop_append[of full "[]"] by simp

lemma term_bytes_ok_drop: "term_bytes_ok t \<Longrightarrow> term_bytes_ok (drop n t)"
  by (auto simp: term_bytes_ok_def dest: in_set_dropD)

lemma DocTermsCodec_decode_loop_encode:
  assumes "\<forall>t \<in> set terms. term_bytes_ok t"
  shows "DocTermsCodec_decode_loop (list @ [prev]) [] (DocTermsCodec_encode_loop [] prev terms)
    = list @ prev # terms"
  using assms
proof (induction terms arbitrary: list prev)
  case Nil
  then show ?case by simp
next
  case (Cons t terms)
  then have t: "term_bytes_ok t" "term_bytes_ok (drop (length prev) t)"
    by (auto intro: term_bytes_ok_drop)
  show ?case
  proof (cases "startsWith t prev")
    case True
    then have "prev @ drop (length prev) t = t"
      by (auto simp: startsWith_def prefix_def)
    with True Cons.IH[of "list @ [prev]" t] Cons.prems show ?thesis
      by (simp add: DocTermsCodec_encode_loop_buf[of "drop _ _ @ _"]
          DocTermsCodec_decode_word[OF t(2)])
  next
    case False
    with Cons.IH[of "list @ [prev]" t] Cons.prems show ?thesis
      by (simp add: DocTermsCodec_encode_loop_buf[of "t @ _"] DocTermsCodec_decode_word[OF t(1)])
  qed
qed

lemma DocTermsCodec_decode_encode [codec_simps]:
  assumes "term_list_ok ts"
  shows "DocTermsCodec_decode (DocTermsCodec_encode ts) = ts"
proof -
  from assms obtain t us where ts: "ts = t # us" and ok: "term_bytes_ok t" "\<forall>t \<in> set us. term_bytes_ok t"
    by (cases ts) auto
  then show ?thesis
    using DocTermsCodec_decode_loop_encode[OF ok(2), of "[]" t]
    by (simp add: DocTermsCodec_decode_def DocTermsCodec_encode_loop_buf[of "t @ _"]
        DocTermsCodec_decode_word)
qed

interpretation doc_terms_codec: codec DocTermsCodec_encode DocTermsCodec_decode term_list_ok
  by unfold_locales (simp add: codec_simps)

section \<open>The stored structs\<close>

text \<open>\<open>DocumentTimeDB::TimeInfo\<close>: two \<open>quint32\<close>, stored as they lie in memory.\<close>

record TimeInfo =
  mTime :: u32
  cTime :: u32

definition TimeInfo_bytes :: "TimeInfo \<Rightarrow> bytes" where
  "TimeInfo_bytes info = le_bytes 4 (mTime info) @ le_bytes 4 (cTime info)"

definition TimeInfo_of_bytes :: "bytes \<Rightarrow> TimeInfo" where
  "TimeInfo_of_bytes v = \<lparr>mTime = le_word (take 4 v), cTime = le_word (take 4 (drop 4 v))\<rparr>"

lemma TimeInfo_roundtrip [codec_simps]: "TimeInfo_of_bytes (TimeInfo_bytes info) = info"
  by (simp add: TimeInfo_of_bytes_def TimeInfo_bytes_def codec_simps)

interpretation time_codec: codec TimeInfo_bytes TimeInfo_of_bytes "\<lambda>_. True"
  by unfold_locales (simp add: codec_simps)

text \<open>\<open>IdFilenameDB::FilePath\<close>: eight bytes of parent id, then the name.\<close>

record FilePath =
  parentId :: u64
  name :: bytes

definition FilePath_bytes :: "FilePath \<Rightarrow> bytes" where
  "FilePath_bytes path = le_bytes 8 (parentId path) @ name path"

text \<open>A value shorter than the parent id is refused (\<open>None\<close>).\<close>

definition FilePath_of_bytes :: "bytes \<Rightarrow> FilePath option" where
  "FilePath_of_bytes v =
     (if length v < 8 then None
      else Some \<lparr>parentId = le_word (take 8 v), name = drop 8 v\<rparr>)"

lemma FilePath_roundtrip [codec_simps]: "FilePath_of_bytes (FilePath_bytes path) = Some path"
  by (simp add: FilePath_of_bytes_def FilePath_bytes_def codec_simps)

interpretation path_codec: codec "FilePath_bytes \<circ> the" FilePath_of_bytes "\<lambda>p. p \<noteq> None"
  by unfold_locales (auto simp: codec_simps)

end
