(* ===== verification/Document.thy ===== *)
theory Document
  imports Prelude Codecs "HOL-Library.List_Lexorder"
begin

text \<open>
  \<open>document.h\<close>/\<open>document.cpp\<close>: the words of one file with their positions, in three maps (content
  and properties, extended attributes, file name), and the file's id, parent, url and times.
  A \<open>TermData\<close> is its list of positions. \<open>QJsonDocument\<close> is a parameter: \<open>json\<close> gives the compact
  form of an object with the one member \<open>M\<close>.
\<close>

type_synonym term_map = "(bytes \<times> u32 list) list"

record Document =
  m_id :: u64
  m_parentId :: u64
  m_terms :: term_map
  m_xattrTerms :: term_map
  m_fileNameTerms :: term_map
  m_url :: bytes
  m_contentIndexing :: bool
  m_mTime :: u32
  m_cTime :: u32
  m_data :: bytes
  m_mimetype :: QString

definition Document_new :: Document where
  "Document_new =
     \<lparr>m_id = 0, m_parentId = 0, m_terms = [], m_xattrTerms = [], m_fileNameTerms = [], m_url = [],
      m_contentIndexing = False, m_mTime = 0, m_cTime = 0, m_data = [], m_mimetype = []\<rparr>"

definition Document_addTerm :: "Document \<Rightarrow> bytes \<Rightarrow> Document" where
  "Document_addTerm doc t = doc\<lparr>m_terms := qmap_update t [] (\<lambda>td. td) (m_terms doc)\<rparr>"

definition Document_addPositionTerm :: "Document \<Rightarrow> bytes \<Rightarrow> u32 \<Rightarrow> Document" where
  "Document_addPositionTerm doc t position =
     doc\<lparr>m_terms := qmap_update t [] (\<lambda>td. td @ [position]) (m_terms doc)\<rparr>"

definition Document_addXattrPositionTerm :: "Document \<Rightarrow> bytes \<Rightarrow> u32 \<Rightarrow> Document" where
  "Document_addXattrPositionTerm doc t position =
     doc\<lparr>m_xattrTerms := qmap_update t [] (\<lambda>td. td @ [position]) (m_xattrTerms doc)\<rparr>"

definition Document_addXattrTerm :: "Document \<Rightarrow> bytes \<Rightarrow> Document" where
  "Document_addXattrTerm doc t =
     doc\<lparr>m_xattrTerms := qmap_update t [] (\<lambda>td. td) (m_xattrTerms doc)\<rparr>"

definition Document_addFileNameTerm :: "Document \<Rightarrow> bytes \<Rightarrow> Document" where
  "Document_addFileNameTerm doc t =
     doc\<lparr>m_fileNameTerms := qmap_update t [] (\<lambda>td. td) (m_fileNameTerms doc)\<rparr>"

definition Document_setId :: "Document \<Rightarrow> u64 \<Rightarrow> Document" where
  "Document_setId doc i = doc\<lparr>m_id := i\<rparr>"

definition Document_setParentId :: "Document \<Rightarrow> u64 \<Rightarrow> Document" where
  "Document_setParentId doc p = doc\<lparr>m_parentId := p\<rparr>"

definition Document_setUrl :: "Document \<Rightarrow> bytes \<Rightarrow> Document" where
  "Document_setUrl doc url = doc\<lparr>m_url := url\<rparr>"

definition Document_setMimetype :: "Document \<Rightarrow> QString \<Rightarrow> Document" where
  "Document_setMimetype doc mimetype = doc\<lparr>m_mimetype := mimetype\<rparr>"

definition Document_setContentIndexing :: "Document \<Rightarrow> bool \<Rightarrow> Document" where
  "Document_setContentIndexing doc val = doc\<lparr>m_contentIndexing := val\<rparr>"

definition Document_setMTime :: "Document \<Rightarrow> u32 \<Rightarrow> Document" where
  "Document_setMTime doc val = doc\<lparr>m_mTime := val\<rparr>"

definition Document_setCTime :: "Document \<Rightarrow> u32 \<Rightarrow> Document" where
  "Document_setCTime doc val = doc\<lparr>m_cTime := val\<rparr>"

definition Document_setData :: "Document \<Rightarrow> bytes \<Rightarrow> Document" where
  "Document_setData doc data = doc\<lparr>m_data := data\<rparr>"

definition Document_data :: "(QString \<Rightarrow> bytes) \<Rightarrow> Document \<Rightarrow> bytes" where
  "Document_data json doc =
     (if m_data doc \<noteq> [] then m_data doc
      else if m_mimetype doc = [] then []
      else json (m_mimetype doc))"

section \<open>Well-formed documents\<close>

text \<open>The maps are \<open>QMap\<close>s (ascending keys); the operations keep that.\<close>

definition Document_inv :: "Document \<Rightarrow> bool" where
  "Document_inv doc \<longleftrightarrow>
     asc_keys (m_terms doc) \<and> asc_keys (m_xattrTerms doc) \<and> asc_keys (m_fileNameTerms doc)"

definition map_terms :: "term_map \<Rightarrow> bytes list" where
  "map_terms m = map fst m"

lemmas Document_op_defs =
  Document_addTerm_def Document_addPositionTerm_def Document_addXattrPositionTerm_def
  Document_addXattrTerm_def Document_addFileNameTerm_def Document_setId_def
  Document_setParentId_def Document_setUrl_def Document_setMimetype_def
  Document_setContentIndexing_def Document_setMTime_def Document_setCTime_def
  Document_setData_def

lemma asc_keys_qmap_update [simp]: "asc_keys m \<Longrightarrow> asc_keys (qmap_update k v f m)"
  by (simp add: qmap_update_def)

lemma map_of_qmap_update:
  "asc_keys m \<Longrightarrow> map_of (qmap_update k dflt f m) k' =
     (if k' = k then Some (f (case map_of m k of None \<Rightarrow> dflt | Some v \<Rightarrow> v)) else map_of m k')"
  by (simp add: qmap_update_def map_of_qmap_insert)

lemma Document_inv_ops:
  "Document_inv Document_new"
  "Document_inv doc \<Longrightarrow> Document_inv (Document_addTerm doc t)"
  "Document_inv doc \<Longrightarrow> Document_inv (Document_addPositionTerm doc t pos)"
  "Document_inv doc \<Longrightarrow> Document_inv (Document_addXattrTerm doc t)"
  "Document_inv doc \<Longrightarrow> Document_inv (Document_addXattrPositionTerm doc t pos)"
  "Document_inv doc \<Longrightarrow> Document_inv (Document_addFileNameTerm doc t)"
  by (auto simp: Document_inv_def Document_op_defs Document_new_def)

end
