(* ===== verification/PhraseCheck.thy ===== *)
theory PhraseCheck
  imports Prelude
begin

text \<open>
  \<open>PhraseAndIterator::checkIfPositionsMatch\<close>: whether the terms of a phrase stand at successive
  positions in a document. \<open>poss\<close> holds the position list of each term; the code keeps one offset
  into each list and a lower bound for the position of the first term.
\<close>

text \<open>
  The inner \<open>for\<close> loop over \<open>off\<close>. The comparison \<open>pos >= lower_bound + i\<close> is one of 64-bit
  integers (\<open>i\<close> is a \<open>size_t\<close>), so the sum does not wrap.
\<close>

definition find_off :: "u32 list \<Rightarrow> nat \<Rightarrow> u32 \<Rightarrow> nat \<Rightarrow> nat" where
  "find_off poss off lower_bound i =
     off + length (takeWhile (\<lambda>pos. \<not> unat pos \<ge> unat lower_bound + i) (drop off poss))"

text \<open>One pass over the terms from term \<open>i\<close> on; \<open>None\<close> is \<open>return false\<close>.\<close>

fun match_round :: "nat \<Rightarrow> u32 \<Rightarrow> (u32 list \<times> nat) list \<Rightarrow> (u32 \<times> nat list) option" where
  "match_round i lower_bound [] = Some (lower_bound, [])"
| "match_round i lower_bound ((poss, off) # its) =
     (let off' = find_off poss off lower_bound i
      in if off' \<ge> length poss then None
         else case match_round (Suc i) (poss ! off' - word_of_nat i) its of
                None \<Rightarrow> None
              | Some (lb, offs) \<Rightarrow> Some (lb, off' # offs))"

lemma find_off_ge: "off \<le> find_off poss off lb i"
  by (simp add: find_off_def)

lemma match_round_offs:
  "match_round i lb its = Some (lb', offs) \<Longrightarrow>
   length offs = length its \<and> (\<forall>j < length its. snd (its ! j) \<le> offs ! j \<and> offs ! j < length (fst (its ! j)))"
proof (induction i lb its arbitrary: offs rule: match_round.induct)
  case (2 i lb poss off its)
  then show ?case
    using find_off_ge[of off poss lb i]
    by (auto simp: Let_def nth_Cons split: if_splits option.splits nat.split)
qed simp

function check_loop :: "u32 list list \<Rightarrow> nat list \<Rightarrow> u32 \<Rightarrow> bool" where
  "check_loop poss offsets lower_bound =
     (if poss \<noteq> [] \<and> length offsets = length poss \<and> hd offsets < length (hd poss)
      then case match_round 0 lower_bound (zip poss offsets) of
             None \<Rightarrow> False
           | Some (lb, offs) \<Rightarrow>
               if lb = hd poss ! hd offs then True
               else check_loop poss (Suc (hd offs) # tl offs) lb
      else False)"
  by pat_completeness auto
termination
proof (relation "measure (\<lambda>(poss, offsets, _). length (hd poss) - hd offsets)", goal_cases)
  case (2 poss offsets lower_bound p lb offs)
  then obtain ps pss o1 os where "poss = ps # pss" "offsets = o1 # os"
    by (cases poss; cases offsets) auto
  with 2 match_round_offs[of 0 lower_bound "zip poss offsets" lb offs] show ?case
    by (cases offs) auto
qed simp

declare check_loop.simps [simp del]

definition checkIfPositionsMatch :: "u32 list list \<Rightarrow> bool" where
  "checkIfPositionsMatch poss = check_loop poss (replicate (length poss) 0) 0"

section \<open>What it decides\<close>

text \<open>The terms from term \<open>i\<close> on stand at \<open>p + i\<close>, \<open>p + i + 1\<close>, ...\<close>

definition aligned :: "nat \<Rightarrow> u32 list list \<Rightarrow> nat \<Rightarrow> bool" where
  "aligned i poss p \<longleftrightarrow> (\<forall>j < length poss. \<exists>q \<in> set (poss ! j). unat q = p + i + j)"

definition phrase_match :: "u32 list list \<Rightarrow> bool" where
  "phrase_match poss \<longleftrightarrow> (\<exists>p. aligned 0 poss p)"

lemma aligned_Nil [simp]: "aligned i [] p"
  by (simp add: aligned_def)

lemma aligned_Cons:
  "aligned i (ps # poss) p \<longleftrightarrow> (\<exists>q \<in> set ps. unat q = p + i) \<and> aligned (Suc i) poss p"
  unfolding aligned_def by (auto simp: All_less_Suc2)

text \<open>\<open>below_offs\<close>: everything before the offsets is below the bound of its term.\<close>

definition below_offs :: "nat \<Rightarrow> u32 \<Rightarrow> u32 list list \<Rightarrow> nat list \<Rightarrow> bool" where
  "below_offs i lb poss offs \<longleftrightarrow> length offs = length poss \<and>
     (\<forall>j < length poss. \<forall>k < offs ! j. k < length (poss ! j) \<longrightarrow> unat (poss ! j ! k) < unat lb + i + j)"

lemma below_offs_Nil [simp]: "below_offs i lb [] offs \<longleftrightarrow> offs = []"
  by (auto simp: below_offs_def)

lemma below_offs_Cons:
  "below_offs i lb (ps # poss) (off # offs) \<longleftrightarrow>
     (\<forall>k < off. k < length ps \<longrightarrow> unat (ps ! k) < unat lb + i) \<and> below_offs (Suc i) lb poss offs"
  unfolding below_offs_def by (auto simp: All_less_Suc2)

lemma below_offs_mono: "below_offs i lb poss offs \<Longrightarrow> lb \<le> lb' \<Longrightarrow> below_offs i lb' poss offs"
  unfolding below_offs_def word_le_nat_alt by (meson add_le_mono1 order_less_le_trans)

lemma find_off_facts:
  assumes "\<forall>k < off. k < length ps \<longrightarrow> unat (ps ! k) < unat lb + i"
  defines "off' \<equiv> find_off ps off lb i"
  shows "k < off' \<Longrightarrow> k < length ps \<Longrightarrow> unat (ps ! k) < unat lb + i"
    and "off' < length ps \<Longrightarrow> unat lb + i \<le> unat (ps ! off')"
proof -
  let ?P = "\<lambda>pos :: u32. \<not> unat pos \<ge> unat lb + i"
  let ?w = "takeWhile ?P (drop off ps)"
  show "unat (ps ! k) < unat lb + i" if k: "k < off'" "k < length ps"
  proof (cases "k < off")
    case False
    then have "k - off < length ?w" using k by (simp add: off'_def find_off_def)
    then have "?P (?w ! (k - off))" by (metis nth_mem set_takeWhileD)
    then show ?thesis
      using False \<open>k - off < length ?w\<close> k(2) by (simp add: takeWhile_nth)
  qed (use assms(1) k in auto)
  show "unat lb + i \<le> unat (ps ! off')" if "off' < length ps"
  proof -
    have "length ?w < length (drop off ps)" using that by (simp add: off'_def find_off_def)
    then have "\<not> ?P (drop off ps ! length ?w)" by (rule nth_length_takeWhile)
    then show ?thesis using that by (simp add: off'_def find_off_def)
  qed
qed

lemma sub_word_of_nat: "unat lb + i \<le> unat (q :: u32) \<Longrightarrow> unat (q - word_of_nat i) = unat q - i"
proof -
  assume "unat lb + i \<le> unat q"
  then have "i \<le> unat q" by simp
  moreover have "unat q < 2 ^ 32" using unsigned_less[of q, where 'a = nat] by simp
  ultimately have "unat (word_of_nat i :: u32) = i"
    by (simp add: unat_of_nat take_bit_nat_eq_self)
  then show ?thesis using \<open>i \<le> unat q\<close> by (simp add: unat_sub word_le_nat_alt)
qed

lemma match_round_sound:
  assumes "\<forall>ps \<in> set poss. sorted ps" "below_offs i lb poss offs"
  shows "case match_round i lb (zip poss offs) of
      None \<Rightarrow> \<not> (\<exists>p \<ge> unat lb. aligned i poss p)
    | Some (lb', offs') \<Rightarrow> lb \<le> lb' \<and> below_offs i lb' poss offs' \<and>
        (\<forall>p \<ge> unat lb. aligned i poss p \<longrightarrow> unat lb' \<le> p) \<and>
        (lb' = lb \<longrightarrow> aligned i poss (unat lb))"
  using assms
proof (induction poss arbitrary: i lb offs)
  case Nil
  then show ?case by simp
next
  case (Cons ps poss)
  from Cons.prems(2) obtain off offs0 where offs: "offs = off # offs0"
    by (cases offs) (auto simp: below_offs_def)
  note b = Cons.prems(2)[unfolded offs below_offs_Cons]
  let ?off = "find_off ps off lb i"
  note find = find_off_facts[OF b[THEN conjunct1]]
  have sorted: "sorted ps" using Cons.prems(1) by simp
  have first: "?off < length ps \<and> unat (ps ! ?off) \<le> unat q"
    if "q \<in> set ps" "unat lb + i \<le> unat q" for q
  proof -
    from that(1) obtain k where k: "k < length ps" "ps ! k = q" by (metis in_set_conv_nth)
    have off: "?off \<le> k"
    proof (rule ccontr)
      assume "\<not> ?off \<le> k"
      then have "unat (ps ! k) < unat lb + i" using find(1)[of k] k(1) by (simp only: not_le)
      with k(2) that(2) show False by simp
    qed
    then have "ps ! ?off \<le> ps ! k" using sorted k(1) by (simp add: sorted_nth_mono)
    then have "unat (ps ! ?off) \<le> unat q" using k(2) by (simp add: word_le_nat_alt)
    with off k(1) show ?thesis by simp
  qed
  show ?case
  proof (cases "?off < length ps")
    case False
    then have "\<not> (\<exists>p \<ge> unat lb. aligned i (ps # poss) p)"
      using first unfolding aligned_Cons by (metis add_le_mono1)
    with False show ?thesis by (simp add: offs)
  next
    case True
    define lb1 where "lb1 = ps ! ?off - word_of_nat i"
    have ge: "unat lb + i \<le> unat (ps ! ?off)" using find(2) True by blast
    then have lb1: "unat lb1 = unat (ps ! ?off) - i" unfolding lb1_def by (rule sub_word_of_nat)
    then have le1: "lb \<le> lb1" using ge by (simp add: word_le_nat_alt)
    have at: "unat (ps ! ?off) = unat lb1 + i" using ge lb1 by simp
    have "below_offs (Suc i) lb1 poss offs0" using b le1 by (blast intro: below_offs_mono)
    note IH = Cons.IH[OF _ this]
    have up: "unat lb1 \<le> p" if "unat lb \<le> p" "aligned i (ps # poss) p" for p
      using that first at unfolding aligned_Cons by (metis add_le_mono1 nat_add_left_cancel_le add.commute)
    show ?thesis
    proof (cases "match_round (Suc i) lb1 (zip poss offs0)")
      case None
      then have "\<not> (\<exists>p \<ge> unat lb1. aligned (Suc i) poss p)" using IH Cons.prems(1) by simp
      then have "\<not> (\<exists>p \<ge> unat lb. aligned i (ps # poss) p)" using up unfolding aligned_Cons by blast
      with None True show ?thesis by (simp add: offs Let_def lb1_def)
    next
      case (Some r)
      then obtain lb' offs' where r: "match_round (Suc i) lb1 (zip poss offs0) = Some (lb', offs')"
        by (cases r) auto
      have tail: "lb1 \<le> lb'" "below_offs (Suc i) lb' poss offs'"
        "\<forall>p \<ge> unat lb1. aligned (Suc i) poss p \<longrightarrow> unat lb' \<le> p"
        "lb' = lb1 \<longrightarrow> aligned (Suc i) poss (unat lb1)"
        using IH Cons.prems(1) r by auto
      have "lb \<le> lb'" using le1 tail(1) by (rule order_trans)
      moreover have "below_offs i lb' (ps # poss) (?off # offs')"
      proof -
        have "\<forall>k < ?off. k < length ps \<longrightarrow> unat (ps ! k) < unat lb' + i"
          using find(1) \<open>lb \<le> lb'\<close> unfolding word_le_nat_alt by (meson add_le_mono1 order_less_le_trans)
        then show ?thesis using tail(2) unfolding below_offs_Cons by blast
      qed
      moreover have "\<forall>p \<ge> unat lb. aligned i (ps # poss) p \<longrightarrow> unat lb' \<le> p"
        using up tail(3) unfolding aligned_Cons by blast
      moreover have "aligned i (ps # poss) (unat lb)" if "lb' = lb"
      proof -
        have "lb1 = lb" using that le1 tail(1) by simp
        then show ?thesis
          using tail(4) that at True unfolding aligned_Cons by (auto intro!: bexI[of _ "ps ! ?off"])
      qed
      ultimately show ?thesis using r True by (simp add: offs Let_def lb1_def)
    qed
  qed
qed

lemma check_loop_decides:
  assumes "\<forall>ps \<in> set poss. sorted ps" "poss \<noteq> []" "below_offs 0 lb poss offs"
  shows "check_loop poss offs lb \<longleftrightarrow> (\<exists>p \<ge> unat lb. aligned 0 poss p)"
  using assms(3)
proof (induction "length (hd poss) - hd offs" arbitrary: offs lb rule: less_induct)
  case less
  obtain ps pss where poss: "poss = ps # pss" using assms(2) by (cases poss) auto
  obtain off offs0 where offs: "offs = off # offs0"
    using less.prems poss by (cases offs) (auto simp: below_offs_def)
  note b = less.prems[unfolded poss offs below_offs_Cons]
  have len: "length offs = length poss" using less.prems by (simp add: below_offs_def)
  show ?case
  proof (cases "off < length ps")
    case False
    have "\<not> (\<exists>p \<ge> unat lb. aligned 0 poss p)"
    proof
      assume "\<exists>p \<ge> unat lb. aligned 0 poss p"
      then obtain p q where "unat lb \<le> p" "q \<in> set ps" "unat q = p"
        unfolding poss aligned_Cons by auto
      moreover from this obtain k where "k < length ps" "ps ! k = q" by (metis in_set_conv_nth)
      moreover from this have "unat (ps ! k) < unat lb + 0" using b False by auto
      ultimately show False by simp
    qed
    with False show ?thesis by (subst check_loop.simps) (simp add: poss offs)
  next
    case True
    note sound = match_round_sound[OF assms(1) less.prems]
    show ?thesis
    proof (cases "match_round 0 lb (zip poss offs)")
      case None
      with sound True len show ?thesis by (subst check_loop.simps) (simp add: poss offs)
    next
      case (Some r)
      obtain lb' offs' where r: "match_round 0 lb (zip poss offs) = Some (lb', offs')"
        using Some by (cases r) auto
      have s: "lb \<le> lb'" "below_offs 0 lb' poss offs'"
        "\<forall>p \<ge> unat lb. aligned 0 poss p \<longrightarrow> unat lb' \<le> p"
        using sound r by auto
      obtain off' offs1 where offs': "offs' = off' # offs1"
        using s(2) poss by (cases offs') (auto simp: below_offs_def)
      have o: "off \<le> off'" "off' < length ps"
        using match_round_offs[OF r] poss offs offs' by auto
      have step: "check_loop poss offs lb \<longleftrightarrow>
          (if lb' = ps ! off' then True else check_loop poss (Suc off' # offs1) lb')"
        using True len r by (subst check_loop.simps) (simp add: poss offs offs')
      show ?thesis
      proof (cases "lb' = ps ! off'")
        case True
        obtain lb1 where lb1: "lb1 = ps ! off'" "match_round 1 lb1 (zip pss offs0) = Some (lb', offs1)"
          using r \<open>off < length ps\<close> by (auto simp: poss offs offs' Let_def split: if_splits option.splits)
        have "below_offs 1 lb1 pss offs0"
        proof (rule below_offs_mono)
          show "below_offs 1 lb pss offs0" using b by simp
          have "find_off ps off lb 0 = off'"
            using r by (auto simp: poss offs offs' Let_def split: if_splits option.splits)
          then show "lb \<le> lb1"
            using find_off_facts(2)[of off ps lb 0] b o lb1(1) by (simp add: word_le_nat_alt)
        qed
        with match_round_sound[of pss 1 lb1 offs0] lb1 True assms(1) poss
        have "aligned 1 pss (unat lb')" by auto
        moreover have "unat lb \<le> unat lb'" using s(1) by (simp add: word_le_nat_alt)
        ultimately have "\<exists>p \<ge> unat lb. aligned 0 poss p"
          using True o(2) unfolding poss aligned_Cons by (auto intro!: exI[of _ "unat lb'"])
        with step True show ?thesis by simp
      next
        case False
        have "below_offs 0 lb' poss (Suc off' # offs1)"
        proof -
          have "ps ! off' \<le> lb'"
          proof -
            obtain lb1 where lb1: "lb1 = ps ! off'" "match_round 1 lb1 (zip pss offs0) = Some (lb', offs1)"
              using r \<open>off < length ps\<close>
              by (auto simp: poss offs offs' Let_def split: if_splits option.splits)
            have "find_off ps off lb 0 = off'"
              using r by (auto simp: poss offs offs' Let_def split: if_splits option.splits)
            then have "lb \<le> lb1"
              using find_off_facts(2)[of off ps lb 0] b o lb1(1) by (simp add: word_le_nat_alt)
            then have "below_offs 1 lb1 pss offs0" using b below_offs_mono by force
            with match_round_sound[of pss 1 lb1 offs0] lb1 assms(1) poss show ?thesis by auto
          qed
          with False have "ps ! off' < lb'" by simp
          then have "unat (ps ! off') < unat lb'" by (simp add: word_less_nat_alt)
          with s(2) show ?thesis unfolding poss offs' below_offs_Cons by (auto simp: less_Suc_eq)
        qed
        from less.hyps[OF _ this] o
        have "check_loop poss (Suc off' # offs1) lb' \<longleftrightarrow> (\<exists>p \<ge> unat lb'. aligned 0 poss p)"
          by (simp add: poss offs)
        also have "\<dots> \<longleftrightarrow> (\<exists>p \<ge> unat lb. aligned 0 poss p)"
          using s(1,3) unfolding word_le_nat_alt by (meson order_trans)
        finally show ?thesis using step False by simp
      qed
    qed
  qed
qed

lemma checkIfPositionsMatch_decides:
  assumes "\<forall>ps \<in> set poss. sorted ps" "poss \<noteq> []"
  shows "checkIfPositionsMatch poss \<longleftrightarrow> phrase_match poss"
  using check_loop_decides[OF assms, of 0 "replicate (length poss) 0"]
  by (simp add: checkIfPositionsMatch_def phrase_match_def below_offs_def)

end
