(* ===== verification/TermGenerator.thy ===== *)
theory TermGenerator
  imports Document PhraseCheck
begin

text \<open>
  \<open>termgenerator.cpp\<close> and \<open>termgenerator_p.h\<close>: splitting a text into index terms and adding them,
  with prefixes and positions, to a \<open>Document\<close>. Qt's Unicode tables, normalisation, UTF-8 encoder
  and word boundary finder are the record \<open>qt\<close>; the finder is given by the next boundary behind a
  position (a value that is not behind the position and within the text counts as -1, which is what
  the class documents) and by whether a boundary is the start or end of an item.
\<close>

record qt_text =
  qt_isPunct :: "16 word \<Rightarrow> bool"
  qt_isMark :: "16 word \<Rightarrow> bool"
  qt_isSpace :: "16 word \<Rightarrow> bool"
  qt_isPrint :: "16 word \<Rightarrow> bool"
  qt_toLower :: "16 word \<Rightarrow> 16 word"
  qt_normalized_KD :: "QString \<Rightarrow> QString"
  qt_normalized_KC :: "QString \<Rightarrow> QString"
  qt_toUtf8 :: "QString \<Rightarrow> bytes"
  qt_fromUtf8 :: "bytes \<Rightarrow> QString"
  qt_nextBoundary :: "QString \<Rightarrow> nat \<Rightarrow> int"
  qt_itemBoundary :: "QString \<Rightarrow> nat \<Rightarrow> bool"

section \<open>Surrogates\<close>

definition isHighSurrogate :: "16 word \<Rightarrow> bool" where
  "isHighSurrogate c \<longleftrightarrow> 0xD800 \<le> c \<and> c \<le> 0xDBFF"

definition isLowSurrogate :: "16 word \<Rightarrow> bool" where
  "isLowSurrogate c \<longleftrightarrow> 0xDC00 \<le> c \<and> c \<le> 0xDFFF"

definition isSurrogate :: "16 word \<Rightarrow> bool" where
  "isSurrogate c \<longleftrightarrow> 0xD800 \<le> c \<and> c \<le> 0xDFFF"

text \<open>The \<open>for\<close> loop, from index \<open>i\<close>; \<open>False\<close> is \<open>return false\<close>.\<close>

function verify_loop :: "QString \<Rightarrow> nat \<Rightarrow> bool" where
  "verify_loop str i =
     (if i + 1 < length str then
        if \<not> isSurrogate (str ! i) then verify_loop str (i + 1)
        else if isLowSurrogate (str ! i) then False
        else if \<not> isLowSurrogate (str ! (i + 1)) then False
        else verify_loop str (i + 2)
      else True)"
  by pat_completeness auto
termination by (relation "measure (\<lambda>(str, i). length str - i)") auto

declare verify_loop.simps [simp del]

definition verifySurrogates :: "QString \<Rightarrow> bool" where
  "verifySurrogates str =
     (if length str = 1 then \<not> isSurrogate (last str)
      else if length str = 0 then True
      else if \<not> verify_loop str 0 then False
      else if \<not> isSurrogate (last str) then True
      else if isHighSurrogate (last str) then False
      else isHighSurrogate (str ! (length str - 2)))"

text \<open>Well-formed UTF-16: every surrogate belongs to a pair of a high and a low one.\<close>

fun utf16_ok :: "QString \<Rightarrow> bool" where
  "utf16_ok [] = True"
| "utf16_ok [c] = (\<not> isSurrogate c)"
| "utf16_ok (c # c' # str) =
     (if \<not> isSurrogate c then utf16_ok (c' # str)
      else isHighSurrogate c \<and> isLowSurrogate c' \<and> utf16_ok str)"

lemma surrogate_cases: "isSurrogate c \<longleftrightarrow> isHighSurrogate c \<or> isLowSurrogate c"
  unfolding isSurrogate_def isHighSurrogate_def isLowSurrogate_def word_le_nat_alt by auto

lemma surrogate_disjoint: "\<not> (isHighSurrogate c \<and> isLowSurrogate c)"
  unfolding isHighSurrogate_def isLowSurrogate_def word_le_nat_alt by auto

lemma verify_loop_shift: "verify_loop (c # str) (Suc i) = verify_loop str i"
proof (induction "length str - i" arbitrary: i rule: less_induct)
  case less
  then show ?case
    by (subst (1 2) verify_loop.simps) (auto simp: nth_Cons split: nat.split)
qed

definition verify_end :: "QString \<Rightarrow> bool" where
  "verify_end str \<longleftrightarrow> \<not> isSurrogate (last str) \<or>
     \<not> isHighSurrogate (last str) \<and> isHighSurrogate (str ! (length str - 2))"

lemma verify_end_Cons: "2 \<le> length str \<Longrightarrow> verify_end (c # str) = verify_end str"
  by (cases str) (auto simp: verify_end_def nth_Cons split: nat.split)

lemma verifySurrogates_wf: "verifySurrogates str = utf16_ok str"
proof -
  have long: "2 \<le> length str \<Longrightarrow> verify_loop str 0 \<and> verify_end str \<longleftrightarrow> utf16_ok str"
  proof (induction str rule: utf16_ok.induct)
    case (3 c c' str)
    note shift1 = verify_loop_shift[of c "c' # str" 0, simplified]
    have shift2: "verify_loop (c # c' # str) (Suc (Suc 0)) = verify_loop str 0"
      using verify_loop_shift[of c "c' # str" 1] verify_loop_shift[of c' str 0] by simp
    have low: "isSurrogate c \<Longrightarrow> isHighSurrogate c \<longleftrightarrow> \<not> isLowSurrogate c"
      using surrogate_cases surrogate_disjoint by blast
    have step: "verify_loop (c # c' # str) 0 \<longleftrightarrow>
        (if \<not> isSurrogate c then verify_loop (c' # str) 0
         else isHighSurrogate c \<and> isLowSurrogate c' \<and> verify_loop str 0)"
      using low by (subst verify_loop.simps) (auto simp: shift1 shift2)
    have loop1: "verify_loop [x] 0" "verify_loop [] 0" for x
      by (subst verify_loop.simps, simp)+
    show ?case
    proof (cases str)
      case Nil
      then show ?thesis
        using step loop1 low surrogate_cases[of c'] surrogate_disjoint[of c'] surrogate_cases[of c]
        by (auto simp: verify_end_def)
    next
      case (Cons d str')
      have e1: "verify_end (c # c' # str) = verify_end (c' # str)" using Cons by (simp add: verify_end_Cons)
      show ?thesis
      proof (cases "isSurrogate c")
        case False
        then show ?thesis using "3.IH"(1) step e1 Cons by simp
      next
        case True
        have "isLowSurrogate c' \<Longrightarrow> verify_loop str 0 \<and> verify_end (c' # str) \<longleftrightarrow> utf16_ok str"
        proof (cases str')
          case Nil
          assume "isLowSurrogate c'"
          then have "\<not> isHighSurrogate c'" using surrogate_disjoint by blast
          then show ?thesis using Nil Cons loop1 by (simp add: verify_end_def)
        next
          case c2: (Cons d' str'')
          then show ?thesis using "3.IH"(2) True Cons by (simp add: verify_end_Cons)
        qed
        then show ?thesis using step True e1 by auto
      qed
    qed
  qed auto
  consider "str = []" | c where "str = [c]" | "2 \<le> length str"
    by (cases str; cases "tl str") auto
  then show ?thesis
  proof cases
    case 3
    have "verifySurrogates str \<longleftrightarrow> verify_loop str 0 \<and> verify_end str"
      using 3 unfolding verifySurrogates_def verify_end_def by (auto split: if_splits)
    then show ?thesis using long[OF 3] by simp
  qed (simp_all add: verifySurrogates_def)
qed

section \<open>Terms\<close>

definition normalizeTerm :: "qt_text \<Rightarrow> QString \<Rightarrow> QString" where
  "normalizeTerm qt str =
     qt_normalized_KC qt
       (map (qt_toLower qt) (filter (\<lambda>c. \<not> qt_isMark qt c) (qt_normalized_KD qt str)))"

definition maxTermSize :: nat where
  "maxTermSize = 25"

definition appendTerm :: "qt_text \<Rightarrow> bytes list \<Rightarrow> QString \<Rightarrow> bytes list" where
  "appendTerm qt list str =
     (if str = [] then list
      else
        let utf8 = qt_toUtf8 qt (take maxTermSize str)
        in if utf8 \<noteq> [] then list @ [utf8] else list)"

definition isSkipChar :: "qt_text \<Rightarrow> 16 word \<Rightarrow> bool" where
  "isSkipChar qt c \<longleftrightarrow> qt_isPunct qt c \<or> qt_isMark qt c \<or> qt_isSpace qt c \<or>
     \<not> qt_isPrint qt c \<and> \<not> isSurrogate c"

text \<open>\<open>text.indexOf(u'_', from)\<close>, with the length of the text where it is -1.\<close>

definition nextUnderscore_from :: "QString \<Rightarrow> nat \<Rightarrow> nat" where
  "nextUnderscore_from str i =
     (if i \<le> length str then i + length (takeWhile (\<lambda>c. c \<noteq> 0x5F) (drop i str)) else length str)"

text \<open>\<open>while (start < end && isSkipChar(text.at(start))) start++\<close>\<close>

definition skip_start :: "qt_text \<Rightarrow> QString \<Rightarrow> nat \<Rightarrow> nat \<Rightarrow> nat" where
  "skip_start qt str start e = start + length (takeWhile (isSkipChar qt) (take (e - start) (drop start str)))"

lemma nextUnderscore_from_gt:
  "n < length str \<Longrightarrow> n \<le> nu \<Longrightarrow> n < nextUnderscore_from str (Suc nu)"
  by (simp add: nextUnderscore_from_def)

lemma nextUnderscore_from_le: "nextUnderscore_from str i \<le> length str"
proof -
  have "length (takeWhile (\<lambda>c. c \<noteq> 0x5F) (drop i str)) \<le> length (drop i str)"
    by (rule length_takeWhile_le)
  then show ?thesis by (auto simp: nextUnderscore_from_def)
qed

lemma boundary_progress:
  "\<not> \<not> (int pos < b \<and> b \<le> int (length str)) \<Longrightarrow> e = nat b \<Longrightarrow> pos < e \<and> e \<le> length str"
  for str :: QString
  by linarith

text \<open>The \<open>for\<close> loop; \<open>pos\<close> is the position of the boundary finder.\<close>

function termList_loop ::
  "qt_text \<Rightarrow> QString \<Rightarrow> nat \<Rightarrow> nat \<Rightarrow> nat \<Rightarrow> bytes list \<Rightarrow> bytes list" where
  "termList_loop qt str start nextUnderscore pos list =
     (let b = qt_nextBoundary qt str pos
      in if \<not> (int pos < b \<and> b \<le> int (length str)) then list
         else
           let e = nat b; start' = skip_start qt str start e
           in if e = start' then termList_loop qt str start' nextUnderscore e list
              else if nextUnderscore < e then
                let nu = (if nextUnderscore < start' then start' else nextUnderscore)
                in termList_loop qt str nu (nextUnderscore_from str (Suc nu)) nu
                     (appendTerm qt list (normalizeTerm qt (take (nu - start') (drop start' str))))
              else if qt_itemBoundary qt str e \<or> e = length str \<or> isSkipChar qt (str ! e) then
                termList_loop qt str e nextUnderscore e
                  (appendTerm qt list (normalizeTerm qt (take (e - start') (drop start' str))))
              else termList_loop qt str start' nextUnderscore e list)"
  by pat_completeness auto
termination
proof (relation "inv_image (less_than <*lex*> less_than)
    (\<lambda>(qt, str, start, nu, pos, list). (length str - nu, length str - pos))", goal_cases)
  case 1
  show ?case by auto
next
  case (2 qt str start n pos list b e start')
  have "length str - e < length str - pos" using boundary_progress[OF 2(2,3)] by linarith
  then show ?case by simp
next
  case (3 qt str start n pos list b e start' nu)
  note boundary_progress[OF 3(2,3)]
  moreover note 3(6)
  moreover have "n \<le> nu" using 3(7) by simp
  ultimately have "n < length str" "n < nextUnderscore_from str (Suc nu)"
    by (auto intro!: nextUnderscore_from_gt)
  then have "length str - nextUnderscore_from str (Suc nu) < length str - n" by linarith
  then show ?case by simp
next
  case (4 qt str start n pos list b e start')
  have "length str - e < length str - pos" using boundary_progress[OF 4(2,3)] by linarith
  then show ?case by simp
next
  case (5 qt str start n pos list b e start')
  have "length str - e < length str - pos" using boundary_progress[OF 5(2,3)] by linarith
  then show ?case by simp
qed

declare termList_loop.simps [simp del]

definition TermGenerator_termList :: "qt_text \<Rightarrow> QString \<Rightarrow> bytes list" where
  "TermGenerator_termList qt str =
     (if \<not> verifySurrogates str then []
      else termList_loop qt str 0 (nextUnderscore_from str 0) 0 [])"

end
