(* ===== verification/SearchTerm.thy ===== *)
theory SearchTerm
  imports TermGenerator
begin

text \<open>
  \<open>term.cpp\<close> and \<open>term.h\<close>: the tree a search is. A \<open>QString\<close> may be null, which only matters for the
  value: there \<open>None\<close> is the null string. \<open>Term_value\<close> reads it as the code does.
\<close>

datatype Term_Comparator =
  Cmp_Auto | Cmp_Equal | Cmp_Contains | Cmp_Greater | Cmp_GreaterEqual | Cmp_Less | Cmp_LessEqual

datatype Term_Operation = Op_None | Op_And | Op_Or

datatype Term = Term
  (Term_operation: Term_Operation)
  (Term_comparator: Term_Comparator)
  (Term_property: QString)
  (Term_valueOrNull: "QString option")
  (Term_subTerms: "Term list")

definition Term_value :: "Term \<Rightarrow> QString" where
  "Term_value t = (case Term_valueOrNull t of None \<Rightarrow> [] | Some v \<Rightarrow> v)"

section \<open>Constructors\<close>

definition Term_default :: Term where
  "Term_default = Term Op_None Cmp_Auto [] None []"

definition Term_leaf :: "QString \<Rightarrow> QString option \<Rightarrow> Term_Comparator \<Rightarrow> Term" where
  "Term_leaf property val c = Term Op_None (if c = Cmp_Auto then Cmp_Contains else c) property val []"

definition Term_of_op :: "Term_Operation \<Rightarrow> Term" where
  "Term_of_op op = Term op Cmp_Auto [] None []"

definition Term_of_term :: "Term_Operation \<Rightarrow> Term \<Rightarrow> Term" where
  "Term_of_term op t = Term op Cmp_Auto [] None [t]"

definition Term_of_list :: "Term_Operation \<Rightarrow> Term list \<Rightarrow> Term" where
  "Term_of_list op ts = Term op Cmp_Auto [] None ts"

definition Term_isEmpty :: "Term \<Rightarrow> bool" where
  "Term_isEmpty t \<longleftrightarrow> Term_property t = [] \<and> Term_value t = [] \<and> Term_subTerms t = [] \<and>
     Term_comparator t = Cmp_Auto"

text \<open>What an operand of \<open>Term(lhs, op, rhs)\<close> gives to the list: itself or, for the same operation, its terms.\<close>

definition Term_operands :: "Term_Operation \<Rightarrow> Term \<Rightarrow> Term list" where
  "Term_operands op t = (if Term_operation t = op then Term_subTerms t else [t])"

definition Term_combine :: "Term \<Rightarrow> Term_Operation \<Rightarrow> Term \<Rightarrow> Term" where
  "Term_combine lhs op rhs =
     (if Term_isEmpty lhs then rhs
      else if Term_isEmpty rhs then lhs
      else Term_of_list op (Term_operands op lhs @ Term_operands op rhs))"

definition Term_and :: "Term \<Rightarrow> Term \<Rightarrow> Term" where
  "Term_and lhs rhs =
     (if Term_isEmpty lhs then rhs else if Term_isEmpty rhs then lhs else Term_combine lhs Op_And rhs)"

definition Term_or :: "Term \<Rightarrow> Term \<Rightarrow> Term" where
  "Term_or lhs rhs =
     (if Term_isEmpty lhs then rhs else if Term_isEmpty rhs then lhs else Term_combine lhs Op_Or rhs)"

section \<open>Operations\<close>

definition Term_isValid :: "Term \<Rightarrow> bool" where
  "Term_isValid t \<longleftrightarrow> (if Term_operation t \<noteq> Op_None then True else Term_comparator t \<noteq> Cmp_Auto)"

primrec Term_addSubTerm :: "Term \<Rightarrow> Term \<Rightarrow> Term" where
  "Term_addSubTerm (Term op c p v ts) t = Term op c p v (ts @ [t])"

primrec Term_setSubTerms :: "Term \<Rightarrow> Term list \<Rightarrow> Term" where
  "Term_setSubTerms (Term op c p v ts) ts' = Term op c p v ts'"

definition Term_subTerm :: "Term \<Rightarrow> Term" where
  "Term_subTerm t = (case Term_subTerms t of [] \<Rightarrow> Term_default | t' # _ \<Rightarrow> t')"

primrec Term_setOperation :: "Term \<Rightarrow> Term_Operation \<Rightarrow> Term" where
  "Term_setOperation (Term op c p v ts) op' = Term op' c p v ts"

primrec Term_setProperty :: "Term \<Rightarrow> QString \<Rightarrow> Term" where
  "Term_setProperty (Term op c p v ts) p' = Term op c p' v ts"

primrec Term_setValue :: "Term \<Rightarrow> QString option \<Rightarrow> Term" where
  "Term_setValue (Term op c p v ts) v' = Term op c p v' ts"

primrec Term_setComparator :: "Term \<Rightarrow> Term_Comparator \<Rightarrow> Term" where
  "Term_setComparator (Term op c p v ts) c' = Term op c' p v ts"

lemma size_subTerm: "u \<in> set (Term_subTerms t) \<Longrightarrow> size u < size t"
  by (cases t) (auto dest: size_list_estimation'[OF _ order_refl, where f = size])

text \<open>\<open>operator==\<close>: \<open>contains(t)\<close> compares each element of the list, on the left, with \<open>t\<close>.\<close>

function Term_equal :: "Term \<Rightarrow> Term \<Rightarrow> bool" where
  "Term_equal lhs rhs =
     (if Term_operation lhs \<noteq> Term_operation rhs \<or> Term_comparator lhs \<noteq> Term_comparator rhs \<or>
         Term_property lhs \<noteq> Term_property rhs \<or> Term_value lhs \<noteq> Term_value rhs then False
      else if length (Term_subTerms lhs) \<noteq> length (Term_subTerms rhs) then False
      else if Term_subTerms lhs = [] then True
      else list_all (\<lambda>t. list_ex (\<lambda>u. Term_equal u t) (Term_subTerms rhs)) (Term_subTerms lhs))"
  by pat_completeness auto

termination
  by (relation "measure (\<lambda>(lhs, rhs). size lhs + size rhs)") (auto dest!: size_subTerm)

declare Term_equal.simps [simp del]

section \<open>As text\<close>

primrec comparatorToString :: "Term_Comparator \<Rightarrow> QString" where
  "comparatorToString Cmp_Auto = qs ''Auto''"
| "comparatorToString Cmp_Equal = qs ''=''"
| "comparatorToString Cmp_Contains = qs '':''"
| "comparatorToString Cmp_Less = qs ''<''"
| "comparatorToString Cmp_LessEqual = qs ''<=''"
| "comparatorToString Cmp_Greater = qs ''>''"
| "comparatorToString Cmp_GreaterEqual = qs ''>=''"

primrec operationToString :: "Term_Operation \<Rightarrow> QString" where
  "operationToString Op_None = qs ''NONE''"
| "operationToString Op_And = qs ''AND''"
| "operationToString Op_Or = qs ''OR''"

fun Term_debug :: "Term \<Rightarrow> QString" where
  "Term_debug (Term op c p v ts) =
     (if ts = [] then
        (if Term_isEmpty (Term op c p v ts) then qs ''[EMPTY]''
         else p @ comparatorToString c @ [34] @ (case v of None \<Rightarrow> [] | Some w \<Rightarrow> w) @ [34])
      else qs ''['' @ operationToString op @ concat (map (\<lambda>t. 32 # Term_debug t) ts) @ qs '']'')"

section \<open>Facts\<close>

lemmas Term_new_defs = Term_default_def Term_leaf_def Term_of_op_def Term_of_term_def Term_of_list_def

lemma Term_isEmpty_default [simp]: "Term_isEmpty Term_default"
  by (simp add: Term_isEmpty_def Term_default_def Term_value_def)

lemma Term_isEmpty_leaf [simp]: "\<not> Term_isEmpty (Term_leaf p v c)"
  by (simp add: Term_isEmpty_def Term_leaf_def)

lemma Term_isEmpty_list [simp]: "Term_isEmpty (Term_of_list op ts) \<longleftrightarrow> ts = []"
  by (simp add: Term_isEmpty_def Term_of_list_def Term_value_def)

lemma Term_combine_isEmpty:
  "op \<noteq> Op_None \<Longrightarrow> Term_operation lhs = op \<longrightarrow> Term_subTerms lhs \<noteq> [] \<or> Term_isEmpty lhs \<Longrightarrow>
   Term_isEmpty (Term_combine lhs op rhs) \<longleftrightarrow> Term_isEmpty lhs \<and> Term_isEmpty rhs"
  by (auto simp: Term_combine_def Term_operands_def)

end
