(* ===== verification/QueryParser.thy ===== *)
theory QueryParser
  imports SearchTerm
begin

text \<open>
  \<open>queryparser.cpp\<close>: from the text of a search to its tree. The parser's local variables are a record;
  the tops of its two stacks are the heads of the lists. \<open>None\<close> as the result of a token is the early
  \<open>return Term()\<close>. A token without characters (two quotes) is a null string, see \<open>token_value\<close>.
\<close>

section \<open>Tokens\<close>

definition flush_token :: "QString \<Rightarrow> QString list" where
  "flush_token token = (if token \<noteq> [] then [token] else [])"

text \<open>
  The loop over the characters, here over what is left of the text; \<open>tokenList\<close> is the result so far.
  The characters are the quote 34, the parentheses 40 and 41, and \<open>:\<close> 58, \<open><\<close> 60, \<open>=\<close> 61, \<open>>\<close> 62.
\<close>

fun lex_loop :: "qt_text \<Rightarrow> QString \<Rightarrow> QString \<Rightarrow> bool \<Rightarrow> QString list \<Rightarrow> QString list" where
  "lex_loop qt [] token inQuotes tokenList = tokenList @ flush_token token"
| "lex_loop qt (c # str) token inQuotes tokenList =
     (if c = 34 then
        if inQuotes then lex_loop qt str [] (\<not> inQuotes) (tokenList @ [token])
        else lex_loop qt str token (\<not> inQuotes) tokenList
      else if inQuotes then lex_loop qt str (token @ [c]) inQuotes tokenList
      else if qt_isSpace qt c then lex_loop qt str [] inQuotes (tokenList @ flush_token token)
      else if c = 40 \<or> c = 41 then lex_loop qt str [] inQuotes (tokenList @ flush_token token @ [[c]])
      else if c = 62 \<or> c = 60 \<or> c = 58 \<or> c = 61 then
        if str \<noteq> [] \<and> hd str = 61
        then lex_loop qt (tl str) [] inQuotes (tokenList @ flush_token token @ [[c, 61]])
        else lex_loop qt str [] inQuotes (tokenList @ flush_token token @ [[c]])
      else lex_loop qt str (token @ [c]) inQuotes tokenList)"

definition lex :: "qt_text \<Rightarrow> QString \<Rightarrow> QString list" where
  "lex qt str = lex_loop qt str [] False []"

text \<open>\<open>token.clear()\<close> and the initial \<open>QString token\<close> are null, and \<open>append\<close> of a character is not.\<close>

definition token_value :: "QString \<Rightarrow> QString option" where
  "token_value token = (if token = [] then None else Some token)"

section \<open>The parser\<close>

record parser =
  p_stack :: "Term list"
  p_ops :: "Term_Operation list"
  p_term :: Term
  p_valueExpected :: bool

definition parser_init :: parser where
  "parser_init = \<lparr>p_stack = [Term_default], p_ops = [Op_And], p_term = Term_default, p_valueExpected = False\<rparr>"

text \<open>\<open>ops.top() = op\<close>, and \<open>addTermToStack\<close>.\<close>

definition setTopOp :: "Term_Operation \<Rightarrow> parser \<Rightarrow> parser" where
  "setTopOp op p = p\<lparr>p_ops := op # tl (p_ops p)\<rparr>"

definition addTermToStack :: "Term \<Rightarrow> Term_Operation \<Rightarrow> Term list \<Rightarrow> Term list" where
  "addTermToStack termInConstruction op stack = Term_combine (hd stack) op termInConstruction # tl stack"

definition addPending :: "parser \<Rightarrow> parser" where
  "addPending p = p\<lparr>p_stack := addTermToStack (p_term p) (hd (p_ops p)) (p_stack p)\<rparr>"

text \<open>The two logic operators.\<close>

definition parse_logic :: "Term_Operation \<Rightarrow> parser \<Rightarrow> parser" where
  "parse_logic op p =
     setTopOp op (if \<not> Term_isEmpty (p_term p) then (addPending p)\<lparr>p_term := Term_default\<rparr> else p)"

definition parse_open :: "parser \<Rightarrow> parser" where
  "parse_open p =
     (let p' = (if \<not> Term_isEmpty (p_term p) then setTopOp Op_And (addPending p) else p)
      in p'\<lparr>p_stack := Term_default # p_stack p', p_ops := Op_And # p_ops p', p_term := Term_default\<rparr>)"

definition parse_close :: "parser \<Rightarrow> parser" where
  "parse_close p =
     (if length (p_stack p) > 1 then
        let p1 = (if \<not> Term_isEmpty (p_term p) then addPending p else p);
            ops = tl (p_ops p1)
        in p1\<lparr>p_ops := Op_And # tl ops,
              p_stack := addTermToStack (hd (p_stack p1)) (hd ops) (tl (p_stack p1)),
              p_term := Term_default\<rparr>
      else p)"

definition parse_literal :: "QString \<Rightarrow> parser \<Rightarrow> parser" where
  "parse_literal token p =
     (let p' = (if \<not> Term_isEmpty (p_term p) then setTopOp Op_And (addPending p) else p)
      in p'\<lparr>p_term := Term_leaf [] (token_value token) Cmp_Auto\<rparr>)"

text \<open>The comparator a token stands for; \<open>token[1]\<close> is only read behind a longer token.\<close>

definition token_comparator :: "QString \<Rightarrow> Term_Comparator" where
  "token_comparator token =
     (case token of
        [] \<Rightarrow> Cmp_Auto
      | c # rest \<Rightarrow>
          if c = 58 then Cmp_Contains
          else if c = 61 then Cmp_Equal
          else if c = 60 then
            if rest = [] then Cmp_Less else if hd rest = 61 then Cmp_LessEqual else Cmp_Auto
          else if c = 62 then
            if rest = [] then Cmp_Greater else if hd rest = 61 then Cmp_GreaterEqual else Cmp_Auto
          else Cmp_Auto)"

definition parse_value :: "QString \<Rightarrow> parser \<Rightarrow> parser option" where
  "parse_value token p =
     (let property = Term_value (p_term p)
      in if property = [] then None
         else Some (p\<lparr>p_term := Term_setValue (Term_setProperty (p_term p) property) (token_value token),
                      p_valueExpected := False\<rparr>))"

definition parse_token :: "QString \<Rightarrow> parser \<Rightarrow> parser option" where
  "parse_token token p =
     (if p_valueExpected p then parse_value token p
      else if token = qs ''AND'' then Some (parse_logic Op_And p)
      else if token = qs ''OR'' then Some (parse_logic Op_Or p)
      else if token \<noteq> [] \<and> hd token = 40 then Some (parse_open p)
      else if token \<noteq> [] \<and> hd token = 41 then Some (parse_close p)
      else if token_comparator token \<noteq> Cmp_Auto then
        Some (p\<lparr>p_term := Term_setComparator (p_term p) (token_comparator token), p_valueExpected := True\<rparr>)
      else Some (parse_literal token p))"

primrec parse_tokens :: "QString list \<Rightarrow> parser \<Rightarrow> parser option" where
  "parse_tokens [] p = Some p"
| "parse_tokens (token # tokens) p = Option.bind (parse_token token p) (parse_tokens tokens)"

text \<open>
  The end: a term that still expects its value, the last term, and the parentheses that were not
  closed. \<open>ops.pop()\<close> stands before the loop, not in it.
\<close>

definition parse_noValue :: "parser \<Rightarrow> parser" where
  "parse_noValue p =
     (if p_valueExpected p then
        p\<lparr>p_term := Term_setComparator
              (Term_setValue (Term_setProperty (p_term p) (Term_value (p_term p))) None) Cmp_Contains\<rparr>
      else p)"

lemma addTermToStack_length [simp]: "stack \<noteq> [] \<Longrightarrow> length (addTermToStack t op stack) = length stack"
  by (simp add: addTermToStack_def)

fun close_loop :: "Term_Operation \<Rightarrow> Term list \<Rightarrow> Term list" where
  "close_loop op (t # t' # stack) = close_loop op (addTermToStack t op (t' # stack))"
| "close_loop op stack = stack"

definition parse_end :: "parser \<Rightarrow> Term" where
  "parse_end p =
     (let p1 = parse_noValue p;
          p2 = (if \<not> Term_isEmpty (p_term p1) then addPending p1 else p1)
      in hd (close_loop (hd (tl (p_ops p2))) (p_stack p2)))"

definition QueryParser_parse :: "qt_text \<Rightarrow> QString \<Rightarrow> Term" where
  "QueryParser_parse qt str =
     (case parse_tokens (lex qt str) parser_init of
        None \<Rightarrow> Term_default
      | Some p \<Rightarrow> parse_end p)"

end
