(* ===== verification/IdUtils.thy ===== *)
theory IdUtils
  imports Codecs
begin

text \<open>
  \<open>src/src/engine/idutils.h\<close>: document ids from device and inode numbers, and the sorted
  insertion and removal that every id list and position list of the engine goes through.
  The file system (\<open>lstat\<close>, \<open>statvfs\<close>) is a parameter; a failing call is \<open>None\<close>.
\<close>

section \<open>Document ids\<close>

definition devIdAndInodeToId :: "u32 \<Rightarrow> u32 \<Rightarrow> u64" where
  "devIdAndInodeToId devId inode = le_word (le_bytes 4 devId @ le_bytes 4 inode)"

definition idToInode :: "u64 \<Rightarrow> u32" where
  "idToInode i = le_word (drop 4 (le_bytes 8 i))"

definition idToDeviceId :: "u64 \<Rightarrow> u32" where
  "idToDeviceId i = le_word (take 4 (le_bytes 8 i))"

text \<open>The fields of \<open>struct stat\<close> that Baloo reads.\<close>

record StatBuf =
  st_dev :: u64
  st_ino :: u64
  st_isdir :: bool
  st_size :: int
  st_mtime :: int
  st_ctime :: int

record fs_api =
  QT_LSTAT :: "bytes \<Rightarrow> StatBuf option"
  statvfs_fsid :: "bytes \<Rightarrow> u64 option"

definition statBufToId :: "StatBuf \<Rightarrow> u64" where
  "statBufToId stBuf = devIdAndInodeToId (ucast (st_dev stBuf)) (ucast (st_ino stBuf))"

definition statWithFsid :: "fs_api \<Rightarrow> bytes \<Rightarrow> StatBuf option" where
  "statWithFsid fs path =
     (case QT_LSTAT fs path of
        None \<Rightarrow> None
      | Some statBuf \<Rightarrow>
          (case statvfs_fsid fs path of
             None \<Rightarrow> None
           | Some f_fsid \<Rightarrow>
               if f_fsid \<noteq> 0
               then Some (statBuf\<lparr>st_dev := ucast (ucast (f_fsid XOR drop_bit 32 f_fsid) :: u32)\<rparr>)
               else Some statBuf))"

definition filePathToStat :: "fs_api \<Rightarrow> bytes \<Rightarrow> StatBuf option" where
  "filePathToStat fs filePath = statWithFsid fs filePath"

definition filePathToId :: "fs_api \<Rightarrow> bytes \<Rightarrow> u64" where
  "filePathToId fs filePath =
     (case filePathToStat fs filePath of None \<Rightarrow> 0 | Some statBuf \<Rightarrow> statBufToId statBuf)"

lemma le_bytes_devIdAndInodeToId:
  "le_bytes 8 (devIdAndInodeToId devId inode) = le_bytes 4 devId @ le_bytes 4 inode"
  unfolding devIdAndInodeToId_def by (rule le_bytes_le_word) auto

lemma idToDeviceId_devIdAndInodeToId: "idToDeviceId (devIdAndInodeToId devId inode) = devId"
  by (simp add: idToDeviceId_def le_bytes_devIdAndInodeToId codec_simps)

lemma idToInode_devIdAndInodeToId: "idToInode (devIdAndInodeToId devId inode) = inode"
  by (simp add: idToInode_def le_bytes_devIdAndInodeToId codec_simps)

lemma devIdAndInodeToId_id: "devIdAndInodeToId (idToDeviceId i) (idToInode i) = i"
proof -
  have "le_bytes 4 (idToDeviceId i) = take 4 (le_bytes 8 i)"
    unfolding idToDeviceId_def by (rule le_bytes_le_word) auto
  moreover have "le_bytes 4 (idToInode i) = drop 4 (le_bytes 8 i)"
    unfolding idToInode_def by (rule le_bytes_le_word) auto
  ultimately show ?thesis
    by (simp add: devIdAndInodeToId_def codec_simps)
qed

lemma devIdAndInodeToId_inject:
  "devIdAndInodeToId d i = devIdAndInodeToId d' i' \<longleftrightarrow> d = d' \<and> i = i'"
  by (metis idToDeviceId_devIdAndInodeToId idToInode_devIdAndInodeToId)

section \<open>Sorted insertion and removal\<close>

text \<open>
  The templates are used with the operators of their element type: \<open>lt\<close> is its \<open>operator<\<close>,
  \<open>eq\<close> its \<open>operator==\<close>. \<open>std::lower_bound\<close> gives the first position whose element is not
  less than \<open>id\<close>; \<open>indexOf\<close> the first equal one.
\<close>

definition sortedIdInsert_with ::
  "('a \<Rightarrow> 'a \<Rightarrow> bool) \<Rightarrow> ('a \<Rightarrow> 'a \<Rightarrow> bool) \<Rightarrow> 'a list \<Rightarrow> 'a \<Rightarrow> 'a list" where
  "sortedIdInsert_with lt eq vec i =
     (let before = takeWhile (\<lambda>x. lt x i) vec;
          behind = dropWhile (\<lambda>x. lt x i) vec
      in if behind = [] \<or> \<not> eq i (hd behind) then before @ i # behind else vec)"

definition sortedIdRemove_with :: "('a \<Rightarrow> 'a \<Rightarrow> bool) \<Rightarrow> 'a list \<Rightarrow> 'a \<Rightarrow> 'a list" where
  "sortedIdRemove_with eq vec i =
     takeWhile (\<lambda>x. \<not> eq x i) vec @ drop 1 (dropWhile (\<lambda>x. \<not> eq x i) vec)"

definition sortedIdInsert :: "u64 list \<Rightarrow> u64 \<Rightarrow> u64 list" where
  "sortedIdInsert = sortedIdInsert_with (<) (=)"

definition sortedIdRemove :: "u64 list \<Rightarrow> u64 \<Rightarrow> u64 list" where
  "sortedIdRemove = sortedIdRemove_with (=)"

definition sortedPosInsert :: "PositionInfo list \<Rightarrow> PositionInfo \<Rightarrow> PositionInfo list" where
  "sortedPosInsert = sortedIdInsert_with PositionInfo_less PositionInfo_eq"

definition sortedPosRemove :: "PositionInfo list \<Rightarrow> PositionInfo \<Rightarrow> PositionInfo list" where
  "sortedPosRemove = sortedIdRemove_with PositionInfo_eq"

lemma asc_dropWhile_less:
  "asc (xs :: 'a::linorder list) \<Longrightarrow> dropWhile (\<lambda>x. x < i) xs = filter (\<lambda>x. i \<le> x) xs"
proof (induction xs)
  case (Cons a xs)
  then show ?case
    by (cases "a < i") (auto simp: not_le intro!: filter_id_conv[THEN iffD2, symmetric])
qed simp

lemma asc_takeWhile_less:
  "asc (xs :: 'a::linorder list) \<Longrightarrow> takeWhile (\<lambda>x. x < i) xs = filter (\<lambda>x. x < i) xs"
proof (induction xs)
  case (Cons a xs)
  then show ?case by (fastforce simp: empty_filter_conv)+
qed simp

lemma asc_filter_eq_hd:
  assumes "asc (xs :: 'a::linorder list)"
  shows "i \<in> set xs \<longleftrightarrow> filter (\<lambda>x. i \<le> x) xs \<noteq> [] \<and> hd (filter (\<lambda>x. i \<le> x) xs) = i"
  using assms by (induction xs) (auto simp: not_le)

text \<open>Insertion by key: the list stays ascending in the key, an entry with the key is kept.\<close>

lemma sortedIdInsert_with_key:
  fixes k :: "'a \<Rightarrow> u64" and x :: 'a
  assumes "asc (map k xs)"
  defines "ys \<equiv> sortedIdInsert_with (\<lambda>a b. k a < k b) (\<lambda>a b. k a = k b) xs x"
  shows "asc (map k ys)"
    and "set ys = (if k x \<in> k ` set xs then set xs else insert x (set xs))"
proof -
  let ?lo = "filter (\<lambda>a. k a < k x) xs" and ?hi = "filter (\<lambda>a. k x \<le> k a) xs"
  have lo: "takeWhile (\<lambda>a. k a < k x) xs = ?lo"
    using assms(1) by (induction xs) (fastforce simp: empty_filter_conv)+
  have hi: "dropWhile (\<lambda>a. k a < k x) xs = ?hi"
    using assms(1) by (induction xs) (auto simp: filter_id_conv not_le intro!: filter_True[symmetric])
  have mem: "k x \<in> k ` set xs \<longleftrightarrow> ?hi \<noteq> [] \<and> k x = k (hd ?hi)"
    using assms(1) by (induction xs) (auto simp: not_le)
  have ys: "ys = (if k x \<in> k ` set xs then xs else ?lo @ x # ?hi)"
    unfolding ys_def sortedIdInsert_with_def Let_def lo hi mem by auto
  show "set ys = (if k x \<in> k ` set xs then set xs else insert x (set xs))"
    unfolding ys by auto
  have "asc (map k (filter P xs))" for P
    using assms(1) by (induction xs) auto
  then show "asc (map k ys)"
    using assms(1) unfolding ys by (auto simp: sorted_wrt_append less_le image_iff)
qed

lemma sortedIdRemove_with_key:
  fixes k :: "'a \<Rightarrow> u64" and x :: 'a
  assumes "asc (map k xs)"
  defines "ys \<equiv> sortedIdRemove_with (\<lambda>a b. k a = k b) xs x"
  shows "ys = filter (\<lambda>a. k a \<noteq> k x) xs"
  unfolding ys_def sortedIdRemove_with_def
  using assms(1) by (induction xs) (auto intro!: filter_True[symmetric])

lemma asc_map_filter: "asc (map k xs) \<Longrightarrow> asc (map k (filter P xs))"
  by (induction xs) auto

lemma sortedIdInsert_asc [simp]: "asc xs \<Longrightarrow> asc (sortedIdInsert xs i)"
  using sortedIdInsert_with_key(1)[of id xs i] by (simp add: sortedIdInsert_def)

lemma set_sortedIdInsert [simp]: "asc xs \<Longrightarrow> set (sortedIdInsert xs i) = insert i (set xs)"
  using sortedIdInsert_with_key(2)[of id xs i] by (auto simp: sortedIdInsert_def)

lemma sortedIdRemove_filter: "asc xs \<Longrightarrow> sortedIdRemove xs i = filter (\<lambda>x. x \<noteq> i) xs"
  using sortedIdRemove_with_key[of id xs i] by (simp add: sortedIdRemove_def)

lemma sortedIdRemove_asc [simp]: "asc xs \<Longrightarrow> asc (sortedIdRemove xs i)"
  by (simp add: sortedIdRemove_filter asc_filter)

lemma set_sortedIdRemove [simp]: "asc xs \<Longrightarrow> set (sortedIdRemove xs i) = set xs - {i}"
  by (auto simp: sortedIdRemove_filter)

abbreviation asc_pos :: "PositionInfo list \<Rightarrow> bool" where
  "asc_pos ps \<equiv> asc (map docId ps)"

lemma PositionInfo_ops:
  "PositionInfo_less = (\<lambda>a b. docId a < docId b)" "PositionInfo_eq = (\<lambda>a b. docId a = docId b)"
  by (auto simp: fun_eq_iff PositionInfo_less_def PositionInfo_eq_def)

lemma sortedPosInsert_asc [simp]: "asc_pos ps \<Longrightarrow> asc_pos (sortedPosInsert ps p)"
  unfolding sortedPosInsert_def PositionInfo_ops by (rule sortedIdInsert_with_key(1))

lemma set_sortedPosInsert:
  "asc_pos ps \<Longrightarrow> set (sortedPosInsert ps p) =
     (if docId p \<in> docId ` set ps then set ps else insert p (set ps))"
  unfolding sortedPosInsert_def PositionInfo_ops by (rule sortedIdInsert_with_key(2))

lemma sortedPosRemove_filter:
  "asc_pos ps \<Longrightarrow> sortedPosRemove ps p = filter (\<lambda>x. docId x \<noteq> docId p) ps"
  unfolding sortedPosRemove_def PositionInfo_ops by (rule sortedIdRemove_with_key)

lemma sortedPosRemove_asc [simp]: "asc_pos ps \<Longrightarrow> asc_pos (sortedPosRemove ps p)"
  by (simp add: sortedPosRemove_filter asc_map_filter)

lemma set_sortedPosRemove:
  "asc_pos ps \<Longrightarrow> set (sortedPosRemove ps p) = {x \<in> set ps. docId x \<noteq> docId p}"
  by (auto simp: sortedPosRemove_filter)

lemma sortedIdInsert_not_Nil [simp]: "asc xs \<Longrightarrow> sortedIdInsert xs i \<noteq> []"
  using set_sortedIdInsert[of xs i] by (metis insert_not_empty set_empty)

end
