(* ===== verification/Lmdb.thy ===== *)
theory Lmdb
  imports IdUtils "HOL-Library.List_Lexorder"
begin

text \<open>
  LMDB is not part of the repository. The engine's code uses it through the operations of
  \<open>lmdb\<close> below, which every definition that calls LMDB takes as its argument \<open>L\<close>; \<open>'s\<close> is the
  type of a transaction's view of the environment, which only LMDB knows.

  \<^item> \<open>mdb_get\<close> is \<open>None\<close> for every non-zero return code: the code tells \<open>MDB_NOTFOUND\<close> from the
    others only in what it logs. \<open>mdb_put\<close> and \<open>mdb_del\<close> return the new view; their return code is
    only logged by the code.
  \<^item> A cursor loop is modelled by the entries it visits until a call returns non-zero:
    \<open>mdb_scan\<close> for \<open>MDB_NEXT\<close> on a fresh cursor, \<open>mdb_scan_from\<close> for \<open>MDB_SET_RANGE\<close> followed by
    \<open>MDB_NEXT\<close>, \<open>mdb_scan_dup\<close> for \<open>MDB_SET\<close> followed by \<open>MDB_NEXT_DUP\<close>. The code never writes
    while a cursor is open.
  \<^item> \<open>mdb_stat_entries\<close> is \<open>ms_entries\<close> of \<open>mdb_stat\<close>.

  \<open>lmdb_ok L\<close> states the documented behaviour of LMDB that the theorems rely on; \<open>ref_lmdb\<close> is
  a small store that has it, for the closed examples.
\<close>

section \<open>The sub-databases\<close>

text \<open>
  \<open>databasedbis.h\<close>: one handle per sub-database. LMDB gives distinct handles to distinct names, so
  a handle is the member it is stored in.
\<close>

datatype MDB_dbi =
  postingDbi | positionDBi | docTermsDbi | docFilenameTermsDbi | docXattrTermsDbi
| idTreeDbi | idFilenameDbi | docTimeDbi | docDataDbi | contentIndexingDbi | failedIdDbi | mtimeDbi

text \<open>
  The flags the \<open>create\<close> functions pass: \<open>postingdb\<close> and \<open>positiondb\<close> have byte-string keys, all
  others \<open>MDB_INTEGERKEY\<close> keys of eight bytes (\<open>mtimedb\<close>: four); only \<open>mtimedb\<close> is
  \<open>MDB_DUPSORT\<close> (with \<open>MDB_INTEGERDUP\<close> values of eight bytes).
\<close>

definition integer_key :: "MDB_dbi \<Rightarrow> bool" where
  "integer_key d \<longleftrightarrow> d \<noteq> postingDbi \<and> d \<noteq> positionDBi"

definition dup_sort :: "MDB_dbi \<Rightarrow> bool" where
  "dup_sort d \<longleftrightarrow> d = mtimeDbi"

section \<open>The operations\<close>

record 's lmdb =
  mdb_get :: "'s \<Rightarrow> MDB_dbi \<Rightarrow> bytes \<Rightarrow> bytes option"
  mdb_put :: "'s \<Rightarrow> MDB_dbi \<Rightarrow> bytes \<Rightarrow> bytes \<Rightarrow> 's"
  mdb_del :: "'s \<Rightarrow> MDB_dbi \<Rightarrow> bytes \<Rightarrow> bytes option \<Rightarrow> 's"
  mdb_scan :: "'s \<Rightarrow> MDB_dbi \<Rightarrow> (bytes \<times> bytes) list"
  mdb_scan_from :: "'s \<Rightarrow> MDB_dbi \<Rightarrow> bytes \<Rightarrow> (bytes \<times> bytes) list"
  mdb_scan_dup :: "'s \<Rightarrow> MDB_dbi \<Rightarrow> bytes \<Rightarrow> bytes list"
  mdb_stat_entries :: "'s \<Rightarrow> MDB_dbi \<Rightarrow> nat"

section \<open>The documented behaviour\<close>

text \<open>
  A key is accepted when it is not empty, not longer than the default maximum of 511 bytes, and
  of the fixed size in a database with integer keys.
\<close>

definition key_ok :: "MDB_dbi \<Rightarrow> bytes \<Rightarrow> bool" where
  "key_ok d k \<longleftrightarrow> k \<noteq> [] \<and> length k \<le> 511 \<and>
     (integer_key d \<longrightarrow> length k = (if d = mtimeDbi then 4 else 8))"

definition key_less :: "MDB_dbi \<Rightarrow> bytes \<Rightarrow> bytes \<Rightarrow> bool" where
  "key_less d k k' \<longleftrightarrow>
     (if integer_key d then (le_word k :: u64) < le_word k' else k < k')"

definition entry_less :: "MDB_dbi \<Rightarrow> bytes \<times> bytes \<Rightarrow> bytes \<times> bytes \<Rightarrow> bool" where
  "entry_less d e e' \<longleftrightarrow>
     key_less d (fst e) (fst e') \<or>
     dup_sort d \<and> fst e = fst e' \<and> (le_word (snd e) :: u64) < le_word (snd e')"

text \<open>\<open>lmdb_ok\<close>: reads, order of the entries, and the effect of a write on the entries.\<close>

definition lmdb_reads_ok :: "'s lmdb \<Rightarrow> bool" where
  "lmdb_reads_ok L \<longleftrightarrow>
     (\<forall>s d k. mdb_get L s d k = map_of (mdb_scan L s d) k) \<and>
     (\<forall>s d k. mdb_scan_from L s d k = dropWhile (\<lambda>e. key_less d (fst e) k) (mdb_scan L s d)) \<and>
     (\<forall>s d k. mdb_scan_dup L s d k = map snd (filter (\<lambda>e. fst e = k) (mdb_scan L s d))) \<and>
     (\<forall>s d. mdb_stat_entries L s d = length (mdb_scan L s d))"

definition lmdb_order_ok :: "'s lmdb \<Rightarrow> bool" where
  "lmdb_order_ok L \<longleftrightarrow>
     (\<forall>s d. sorted_wrt (entry_less d) (mdb_scan L s d)) \<and>
     (\<forall>s d. \<forall>e \<in> set (mdb_scan L s d). key_ok d (fst e) \<and> (dup_sort d \<longrightarrow> length (snd e) = 8))"

definition value_ok :: "MDB_dbi \<Rightarrow> bytes \<Rightarrow> bool" where
  "value_ok d v \<longleftrightarrow> (dup_sort d \<longrightarrow> length v = 8)"

definition lmdb_writes_ok :: "'s lmdb \<Rightarrow> bool" where
  "lmdb_writes_ok L \<longleftrightarrow>
     (\<forall>s d k v. key_ok d k \<longrightarrow> value_ok d v \<longrightarrow>
        set (mdb_scan L (mdb_put L s d k v) d) =
        insert (k, v) {e \<in> set (mdb_scan L s d). dup_sort d \<or> fst e \<noteq> k}) \<and>
     (\<forall>s d k v. set (mdb_scan L (mdb_del L s d k v) d) =
        {e \<in> set (mdb_scan L s d). fst e \<noteq> k \<or> dup_sort d \<and> v \<noteq> None \<and> v \<noteq> Some (snd e)}) \<and>
     (\<forall>s d d' k v. d' \<noteq> d \<longrightarrow> mdb_scan L (mdb_put L s d k v) d' = mdb_scan L s d') \<and>
     (\<forall>s d d' k v. d' \<noteq> d \<longrightarrow> mdb_scan L (mdb_del L s d k v) d' = mdb_scan L s d')"

definition lmdb_ok :: "'s lmdb \<Rightarrow> bool" where
  "lmdb_ok L \<longleftrightarrow> lmdb_reads_ok L \<and> lmdb_order_ok L \<and> lmdb_writes_ok L"

lemma mdb_get_scan: "lmdb_ok L \<Longrightarrow> mdb_get L s d k = map_of (mdb_scan L s d) k"
  by (simp add: lmdb_ok_def lmdb_reads_ok_def)

lemma mdb_scan_from_scan:
  "lmdb_ok L \<Longrightarrow> mdb_scan_from L s d k = dropWhile (\<lambda>e. key_less d (fst e) k) (mdb_scan L s d)"
  by (simp add: lmdb_ok_def lmdb_reads_ok_def)

lemma mdb_scan_dup_scan:
  "lmdb_ok L \<Longrightarrow> mdb_scan_dup L s d k = map snd (filter (\<lambda>e. fst e = k) (mdb_scan L s d))"
  by (simp add: lmdb_ok_def lmdb_reads_ok_def)

lemma mdb_stat_entries_scan: "lmdb_ok L \<Longrightarrow> mdb_stat_entries L s d = length (mdb_scan L s d)"
  by (simp add: lmdb_ok_def lmdb_reads_ok_def)

lemma mdb_scan_sorted: "lmdb_ok L \<Longrightarrow> sorted_wrt (entry_less d) (mdb_scan L s d)"
  by (simp add: lmdb_ok_def lmdb_order_ok_def)

lemma mdb_scan_key_ok: "lmdb_ok L \<Longrightarrow> e \<in> set (mdb_scan L s d) \<Longrightarrow> key_ok d (fst e)"
  by (simp add: lmdb_ok_def lmdb_order_ok_def)

lemma mdb_scan_value_length:
  "lmdb_ok L \<Longrightarrow> dup_sort d \<Longrightarrow> e \<in> set (mdb_scan L s d) \<Longrightarrow> length (snd e) = 8"
  by (simp add: lmdb_ok_def lmdb_order_ok_def)

lemma set_mdb_scan_put:
  "lmdb_ok L \<Longrightarrow> key_ok d k \<Longrightarrow> value_ok d v \<Longrightarrow>
   set (mdb_scan L (mdb_put L s d k v) d) =
   insert (k, v) {e \<in> set (mdb_scan L s d). dup_sort d \<or> fst e \<noteq> k}"
  by (simp add: lmdb_ok_def lmdb_writes_ok_def)

lemma set_mdb_scan_del:
  "lmdb_ok L \<Longrightarrow>
   set (mdb_scan L (mdb_del L s d k v) d) =
   {e \<in> set (mdb_scan L s d). fst e \<noteq> k \<or> dup_sort d \<and> v \<noteq> None \<and> v \<noteq> Some (snd e)}"
  by (simp add: lmdb_ok_def lmdb_writes_ok_def)

lemma mdb_scan_other [lmdb_simps]:
  "lmdb_ok L \<Longrightarrow> d' \<noteq> d \<Longrightarrow> mdb_scan L (mdb_put L s d k v) d' = mdb_scan L s d'"
  "lmdb_ok L \<Longrightarrow> d' \<noteq> d \<Longrightarrow> mdb_scan L (mdb_del L s d k w) d' = mdb_scan L s d'"
  by (simp_all add: lmdb_ok_def lmdb_writes_ok_def)

section \<open>Reads after writes\<close>

text \<open>In a database without duplicates the keys of the entries are distinct.\<close>

lemma key_less_irrefl [simp]: "\<not> key_less d k k"
  by (simp add: key_less_def)

lemma distinct_keys: "sorted_wrt (entry_less d) es \<Longrightarrow> \<not> dup_sort d \<Longrightarrow> distinct (map fst es)"
  by (induction es) (auto simp: entry_less_def)

lemma mdb_scan_distinct: "lmdb_ok L \<Longrightarrow> \<not> dup_sort d \<Longrightarrow> distinct (map fst (mdb_scan L s d))"
  by (blast intro: distinct_keys mdb_scan_sorted)

lemma map_of_set_eq:
  "distinct (map fst xs) \<Longrightarrow> map_of xs k = Some v \<longleftrightarrow> (k, v) \<in> set xs"
  by (simp add: map_of_eq_Some_iff)

lemma mdb_get_iff:
  "lmdb_ok L \<Longrightarrow> \<not> dup_sort d \<Longrightarrow> mdb_get L s d k = Some v \<longleftrightarrow> (k, v) \<in> set (mdb_scan L s d)"
  by (simp add: mdb_get_scan mdb_scan_distinct map_of_set_eq)

lemma option_extI: "(\<And>v. x = Some v \<longleftrightarrow> y = Some v) \<Longrightarrow> x = y"
  by (metis option.exhaust)

lemma mdb_get_put [lmdb_simps]:
  assumes "lmdb_ok L" "\<not> dup_sort d" "key_ok d k"
  shows "mdb_get L (mdb_put L s d k v) d k' = (if k' = k then Some v else mdb_get L s d k')"
  by (rule option_extI)
    (use assms in \<open>auto simp: set_mdb_scan_put value_ok_def mdb_get_iff\<close>)

lemma mdb_get_del [lmdb_simps]:
  assumes "lmdb_ok L" "\<not> dup_sort d"
  shows "mdb_get L (mdb_del L s d k w) d k' = (if k' = k then None else mdb_get L s d k')"
  by (rule option_extI) (use assms in \<open>auto simp: set_mdb_scan_del mdb_get_iff\<close>)

lemma mdb_get_other [lmdb_simps]:
  "lmdb_ok L \<Longrightarrow> d' \<noteq> d \<Longrightarrow> mdb_get L (mdb_put L s d k v) d' k' = mdb_get L s d' k'"
  "lmdb_ok L \<Longrightarrow> d' \<noteq> d \<Longrightarrow> mdb_get L (mdb_del L s d k w) d' k' = mdb_get L s d' k'"
  by (simp_all add: mdb_get_scan lmdb_simps)

lemma key_ok_le_bytes [simp]: "integer_key d \<Longrightarrow> d \<noteq> mtimeDbi \<Longrightarrow> key_ok d (le_bytes 8 i)"
  "key_ok mtimeDbi (le_bytes 4 t)"
  by (auto simp: key_ok_def)

lemma dup_sort_simps [simp]: "dup_sort d \<longleftrightarrow> d = mtimeDbi"
  by (simp add: dup_sort_def)

lemma integer_key_simps [simp]:
  "\<not> integer_key postingDbi" "\<not> integer_key positionDBi" "integer_key docTermsDbi"
  "integer_key docFilenameTermsDbi" "integer_key docXattrTermsDbi" "integer_key idTreeDbi"
  "integer_key idFilenameDbi" "integer_key docTimeDbi" "integer_key docDataDbi"
  "integer_key contentIndexingDbi" "integer_key failedIdDbi" "integer_key mtimeDbi"
  by (auto simp: integer_key_def)

end
