(* ===== verification/Tables.thy ===== *)
theory Tables
  imports Lmdb
begin

text \<open>
  The typed sub-databases of \<open>src/src/engine\<close>: each class wraps one LMDB handle with \<open>put\<close>,
  \<open>get\<close>, \<open>del\<close> and \<open>contains\<close> on encoded keys and values. The class members \<open>m_txn\<close> and \<open>m_dbi\<close> are
  the arguments \<open>s\<close> and \<open>d\<close>; \<open>Q_ASSERT\<close>s are not part of a release build and are not modelled.

  The locale \<open>table\<close> states the shape every such class has (a read decodes what \<open>mdb_get\<close> found
  at the encoded key, or gives a default) over the contract \<open>codec\<close> of its value format; what a
  read returns after a write is proved there once and every class gets it by interpretation.
\<close>

section \<open>The contract of a table\<close>

locale table = codec enc dec valid
  for enc :: "'v \<Rightarrow> bytes" and dec :: "bytes \<Rightarrow> 'v" and valid :: "'v \<Rightarrow> bool" +
  fixes kb :: "'k \<Rightarrow> bytes"
    and kvalid :: "MDB_dbi \<Rightarrow> 'k \<Rightarrow> bool"
    and absent :: 'v
    and tget :: "'s lmdb \<Rightarrow> MDB_dbi \<Rightarrow> 's \<Rightarrow> 'k \<Rightarrow> 'v"
  assumes tget_read:
      "tget L d s k = (case mdb_get L s d (kb k) of None \<Rightarrow> absent | Some v \<Rightarrow> dec v)"
    and kb_inject: "kb k = kb k' \<longleftrightarrow> k = k'"
    and kb_ok: "kvalid d k \<Longrightarrow> key_ok d (kb k) \<and> \<not> dup_sort d"
begin

lemma get_put [table_simps]:
  "lmdb_ok L \<Longrightarrow> kvalid d k \<Longrightarrow> valid v \<Longrightarrow>
   tget L d (mdb_put L s d (kb k) (enc v)) k' = (if k' = k then v else tget L d s k')"
  using kb_ok[of d k] by (simp add: tget_read lmdb_simps kb_inject dec_enc del: dup_sort_simps)

lemma get_del [table_simps]:
  "lmdb_ok L \<Longrightarrow> kvalid d k \<Longrightarrow>
   tget L d (mdb_del L s d (kb k) w) k' = (if k' = k then absent else tget L d s k')"
  using kb_ok[of d k] by (simp add: tget_read lmdb_simps kb_inject del: dup_sort_simps)

lemma get_other [table_simps]:
  "lmdb_ok L \<Longrightarrow> d \<noteq> d' \<Longrightarrow> tget L d (mdb_put L s d' kk vv) k' = tget L d s k'"
  "lmdb_ok L \<Longrightarrow> d \<noteq> d' \<Longrightarrow> tget L d (mdb_del L s d' kk w) k' = tget L d s k'"
  by (simp_all add: tget_read lmdb_simps)

lemma get_cong:
  "lmdb_ok L \<Longrightarrow> mdb_scan L s d = mdb_scan L s' d \<Longrightarrow> tget L d s k = tget L d s' k"
  by (simp add: tget_read mdb_get_scan)

end

definition term_key_ok :: "MDB_dbi \<Rightarrow> bytes \<Rightarrow> bool" where
  "term_key_ok d t \<longleftrightarrow> (d = postingDbi \<or> d = positionDBi) \<and> t \<noteq> [] \<and> length t \<le> 511"

definition id_key_ok :: "MDB_dbi \<Rightarrow> u64 \<Rightarrow> bool" where
  "id_key_ok d i \<longleftrightarrow> integer_key d \<and> d \<noteq> mtimeDbi"

lemma term_key_ok_key: "term_key_ok d t \<Longrightarrow> key_ok d t \<and> \<not> dup_sort d"
  by (auto simp: term_key_ok_def key_ok_def)

lemma id_key_ok_key: "id_key_ok d i \<Longrightarrow> key_ok d (le_bytes 8 i) \<and> \<not> dup_sort d"
  by (auto simp: id_key_ok_def)

lemma id_key_ok_simps [simp]:
  "id_key_ok docTermsDbi i" "id_key_ok docFilenameTermsDbi i" "id_key_ok docXattrTermsDbi i"
  "id_key_ok idTreeDbi i" "id_key_ok idFilenameDbi i" "id_key_ok docTimeDbi i"
  "id_key_ok docDataDbi i" "id_key_ok contentIndexingDbi i" "id_key_ok failedIdDbi i"
  by (auto simp: id_key_ok_def)

lemma term_key_ok_simps [simp]:
  "term_key_ok postingDbi t \<longleftrightarrow> t \<noteq> [] \<and> length t \<le> 511"
  "term_key_ok positionDBi t \<longleftrightarrow> t \<noteq> [] \<and> length t \<le> 511"
  by (auto simp: term_key_ok_def)

section \<open>PostingDB\<close>

definition PostingDB_put :: "'s lmdb \<Rightarrow> MDB_dbi \<Rightarrow> 's \<Rightarrow> bytes \<Rightarrow> PostingList \<Rightarrow> 's" where
  "PostingDB_put L d s t list = mdb_put L s d t (PostingCodec_encode list)"

definition PostingDB_get :: "'s lmdb \<Rightarrow> MDB_dbi \<Rightarrow> 's \<Rightarrow> bytes \<Rightarrow> PostingList" where
  "PostingDB_get L d s t =
     (case mdb_get L s d t of None \<Rightarrow> [] | Some v \<Rightarrow> PostingCodec_decode v)"

definition PostingDB_del :: "'s lmdb \<Rightarrow> MDB_dbi \<Rightarrow> 's \<Rightarrow> bytes \<Rightarrow> 's" where
  "PostingDB_del L d s t = mdb_del L s d t None"

definition PostingDB_fetchTermsStartingWith :: "'s lmdb \<Rightarrow> MDB_dbi \<Rightarrow> 's \<Rightarrow> bytes \<Rightarrow> bytes list" where
  "PostingDB_fetchTermsStartingWith L d s t =
     takeWhile (\<lambda>arr. startsWith arr t) (map fst (mdb_scan_from L s d t))"

definition PostingDB_toTestMap :: "'s lmdb \<Rightarrow> MDB_dbi \<Rightarrow> 's \<Rightarrow> (bytes \<times> PostingList) list" where
  "PostingDB_toTestMap L d s =
     qmap_of_list (map (\<lambda>(ba, v). (ba, PostingCodec_decode v)) (mdb_scan L s d))"

interpretation posting_tbl:
  table PostingCodec_encode PostingCodec_decode "\<lambda>_. True" "\<lambda>t. t" term_key_ok "[]" PostingDB_get
  by unfold_locales (auto simp: PostingDB_get_def dest: term_key_ok_key split: option.split)

section \<open>PositionDB\<close>

definition PositionDB_put :: "'s lmdb \<Rightarrow> MDB_dbi \<Rightarrow> 's \<Rightarrow> bytes \<Rightarrow> PositionInfo list \<Rightarrow> 's" where
  "PositionDB_put L d s t list = mdb_put L s d t (PositionCodec_encode list)"

definition PositionDB_get :: "'s lmdb \<Rightarrow> MDB_dbi \<Rightarrow> 's \<Rightarrow> bytes \<Rightarrow> PositionInfo list" where
  "PositionDB_get L d s t =
     (case mdb_get L s d t of None \<Rightarrow> [] | Some v \<Rightarrow> PositionCodec_decode v)"

definition PositionDB_del :: "'s lmdb \<Rightarrow> MDB_dbi \<Rightarrow> 's \<Rightarrow> bytes \<Rightarrow> 's" where
  "PositionDB_del L d s t = mdb_del L s d t None"

definition PositionDB_toTestMap :: "'s lmdb \<Rightarrow> MDB_dbi \<Rightarrow> 's \<Rightarrow> (bytes \<times> PositionInfo list) list" where
  "PositionDB_toTestMap L d s =
     qmap_of_list (map (\<lambda>(ba, v). (ba, PositionCodec_decode v)) (mdb_scan L s d))"

interpretation position_tbl:
  table PositionCodec_encode PositionCodec_decode positions_fit "\<lambda>t. t" term_key_ok "[]" PositionDB_get
  by unfold_locales (auto simp: PositionDB_get_def dest: term_key_ok_key split: option.split)

section \<open>DocumentDB\<close>

definition DocumentDB_put :: "'s lmdb \<Rightarrow> MDB_dbi \<Rightarrow> 's \<Rightarrow> u64 \<Rightarrow> bytes list \<Rightarrow> 's" where
  "DocumentDB_put L d s i list = mdb_put L s d (le_bytes 8 i) (DocTermsCodec_encode list)"

definition DocumentDB_get :: "'s lmdb \<Rightarrow> MDB_dbi \<Rightarrow> 's \<Rightarrow> u64 \<Rightarrow> bytes list" where
  "DocumentDB_get L d s i =
     (case mdb_get L s d (le_bytes 8 i) of None \<Rightarrow> [] | Some v \<Rightarrow> DocTermsCodec_decode v)"

definition DocumentDB_del :: "'s lmdb \<Rightarrow> MDB_dbi \<Rightarrow> 's \<Rightarrow> u64 \<Rightarrow> 's" where
  "DocumentDB_del L d s i = mdb_del L s d (le_bytes 8 i) None"

definition DocumentDB_contains :: "'s lmdb \<Rightarrow> MDB_dbi \<Rightarrow> 's \<Rightarrow> u64 \<Rightarrow> bool" where
  "DocumentDB_contains L d s i \<longleftrightarrow> mdb_get L s d (le_bytes 8 i) \<noteq> None"

definition DocumentDB_size :: "'s lmdb \<Rightarrow> MDB_dbi \<Rightarrow> 's \<Rightarrow> u32" where
  "DocumentDB_size L d s = word_of_nat (mdb_stat_entries L s d)"

definition DocumentDB_toTestMap :: "'s lmdb \<Rightarrow> MDB_dbi \<Rightarrow> 's \<Rightarrow> (u64 \<times> bytes list) list" where
  "DocumentDB_toTestMap L d s =
     qmap_of_list (map (\<lambda>(k, v). (le_word k, DocTermsCodec_decode v)) (mdb_scan L s d))"

interpretation document_tbl:
  table DocTermsCodec_encode DocTermsCodec_decode term_list_ok "le_bytes 8" id_key_ok "[]" DocumentDB_get
  by unfold_locales (auto simp: DocumentDB_get_def dest: id_key_ok_key split: option.split)

section \<open>DocumentIdDB\<close>

definition DocumentIdDB_put :: "'s lmdb \<Rightarrow> MDB_dbi \<Rightarrow> 's \<Rightarrow> u64 \<Rightarrow> 's" where
  "DocumentIdDB_put L d s i = mdb_put L s d (le_bytes 8 i) []"

definition DocumentIdDB_contains :: "'s lmdb \<Rightarrow> MDB_dbi \<Rightarrow> 's \<Rightarrow> u64 \<Rightarrow> bool" where
  "DocumentIdDB_contains L d s i \<longleftrightarrow> mdb_get L s d (le_bytes 8 i) \<noteq> None"

definition DocumentIdDB_del :: "'s lmdb \<Rightarrow> MDB_dbi \<Rightarrow> 's \<Rightarrow> u64 \<Rightarrow> 's" where
  "DocumentIdDB_del L d s i = mdb_del L s d (le_bytes 8 i) None"

text \<open>At most \<open>size\<close> keys, in the order of the cursor; a loop bound \<open>size \<le> 0\<close> gives none.\<close>

definition DocumentIdDB_fetchItems :: "'s lmdb \<Rightarrow> MDB_dbi \<Rightarrow> 's \<Rightarrow> int \<Rightarrow> u64 list" where
  "DocumentIdDB_fetchItems L d s n = map (\<lambda>e. le_word (fst e)) (take (nat n) (mdb_scan L s d))"

definition DocumentIdDB_size :: "'s lmdb \<Rightarrow> MDB_dbi \<Rightarrow> 's \<Rightarrow> u32" where
  "DocumentIdDB_size L d s = word_of_nat (mdb_stat_entries L s d)"

definition DocumentIdDB_toTestVector :: "'s lmdb \<Rightarrow> MDB_dbi \<Rightarrow> 's \<Rightarrow> u64 list" where
  "DocumentIdDB_toTestVector L d s = map (\<lambda>e. le_word (fst e)) (mdb_scan L s d)"

text \<open>The presence of a key, seen as a table of Booleans whose stored value is empty.\<close>

interpretation present_codec: codec "\<lambda>_. []" "\<lambda>_. True" "\<lambda>b. b"
  by unfold_locales simp

interpretation id_tbl:
  table "\<lambda>_. []" "\<lambda>_. True" "\<lambda>b. b" "le_bytes 8" id_key_ok False DocumentIdDB_contains
  by unfold_locales (auto simp: DocumentIdDB_contains_def dest: id_key_ok_key split: option.split)

section \<open>DocumentDataDB\<close>

definition DocumentDataDB_put :: "'s lmdb \<Rightarrow> MDB_dbi \<Rightarrow> 's \<Rightarrow> u64 \<Rightarrow> bytes \<Rightarrow> 's" where
  "DocumentDataDB_put L d s i url = mdb_put L s d (le_bytes 8 i) url"

definition DocumentDataDB_get :: "'s lmdb \<Rightarrow> MDB_dbi \<Rightarrow> 's \<Rightarrow> u64 \<Rightarrow> bytes" where
  "DocumentDataDB_get L d s i =
     (case mdb_get L s d (le_bytes 8 i) of None \<Rightarrow> [] | Some v \<Rightarrow> v)"

definition DocumentDataDB_del :: "'s lmdb \<Rightarrow> MDB_dbi \<Rightarrow> 's \<Rightarrow> u64 \<Rightarrow> 's" where
  "DocumentDataDB_del L d s i = mdb_del L s d (le_bytes 8 i) None"

definition DocumentDataDB_contains :: "'s lmdb \<Rightarrow> MDB_dbi \<Rightarrow> 's \<Rightarrow> u64 \<Rightarrow> bool" where
  "DocumentDataDB_contains L d s i \<longleftrightarrow> mdb_get L s d (le_bytes 8 i) \<noteq> None"

definition DocumentDataDB_toTestMap :: "'s lmdb \<Rightarrow> MDB_dbi \<Rightarrow> 's \<Rightarrow> (u64 \<times> bytes) list" where
  "DocumentDataDB_toTestMap L d s =
     qmap_of_list (map (\<lambda>(k, v). (le_word k, v)) (mdb_scan L s d))"

interpretation raw_codec: codec "\<lambda>v. v" "\<lambda>v. v" "\<lambda>_. True"
  by unfold_locales simp

interpretation data_tbl:
  table "\<lambda>v. v" "\<lambda>v. v" "\<lambda>_. True" "le_bytes 8" id_key_ok "[]" DocumentDataDB_get
  by unfold_locales (auto simp: DocumentDataDB_get_def dest: id_key_ok_key split: option.split)

section \<open>DocumentTimeDB\<close>

definition DocumentTimeDB_put :: "'s lmdb \<Rightarrow> MDB_dbi \<Rightarrow> 's \<Rightarrow> u64 \<Rightarrow> TimeInfo \<Rightarrow> 's" where
  "DocumentTimeDB_put L d s i info = mdb_put L s d (le_bytes 8 i) (TimeInfo_bytes info)"

definition DocumentTimeDB_get :: "'s lmdb \<Rightarrow> MDB_dbi \<Rightarrow> 's \<Rightarrow> u64 \<Rightarrow> TimeInfo" where
  "DocumentTimeDB_get L d s i =
     (case mdb_get L s d (le_bytes 8 i) of
        None \<Rightarrow> \<lparr>mTime = 0, cTime = 0\<rparr>
      | Some v \<Rightarrow> TimeInfo_of_bytes v)"

definition DocumentTimeDB_del :: "'s lmdb \<Rightarrow> MDB_dbi \<Rightarrow> 's \<Rightarrow> u64 \<Rightarrow> 's" where
  "DocumentTimeDB_del L d s i = mdb_del L s d (le_bytes 8 i) None"

definition DocumentTimeDB_contains :: "'s lmdb \<Rightarrow> MDB_dbi \<Rightarrow> 's \<Rightarrow> u64 \<Rightarrow> bool" where
  "DocumentTimeDB_contains L d s i \<longleftrightarrow> mdb_get L s d (le_bytes 8 i) \<noteq> None"

definition DocumentTimeDB_toTestMap :: "'s lmdb \<Rightarrow> MDB_dbi \<Rightarrow> 's \<Rightarrow> (u64 \<times> TimeInfo) list" where
  "DocumentTimeDB_toTestMap L d s =
     qmap_of_list (map (\<lambda>(k, v). (le_word k, TimeInfo_of_bytes v)) (mdb_scan L s d))"

interpretation time_tbl:
  table TimeInfo_bytes TimeInfo_of_bytes "\<lambda>_. True" "le_bytes 8" id_key_ok
    "\<lparr>mTime = 0, cTime = 0\<rparr>" DocumentTimeDB_get
  by unfold_locales (auto simp: DocumentTimeDB_get_def dest: id_key_ok_key split: option.split)

end
