(* ===== verification/UrlDB.thy ===== *)
theory UrlDB
  imports Tables
begin

text \<open>
  The file tree of the index (\<open>mtimedb.cpp\<close>, \<open>idtreedb.cpp\<close>, \<open>idfilenamedb.cpp\<close>,
  \<open>documenturldb.cpp\<close>): \<open>IdTreeDB\<close> maps a directory id to the ascending list of the ids in it,
  \<open>IdFilenameDB\<close> maps an id to its parent's id and its name; \<open>DocumentUrlDB\<close> keeps the two
  consistent. \<open>url_inv\<close> is that consistency: an id is in the list of exactly the parent its file
  name entry names.
\<close>

section \<open>MTimeDB\<close>

definition MTimeDB_put :: "'s lmdb \<Rightarrow> MDB_dbi \<Rightarrow> 's \<Rightarrow> u32 \<Rightarrow> u64 \<Rightarrow> 's" where
  "MTimeDB_put L d s mtime i =
     (if i = 0 then s else mdb_put L s d (le_bytes 4 mtime) (le_bytes 8 i))"

definition MTimeDB_get :: "'s lmdb \<Rightarrow> MDB_dbi \<Rightarrow> 's \<Rightarrow> u32 \<Rightarrow> u64 list" where
  "MTimeDB_get L d s mtime = sort_unique (map le_word (mdb_scan_dup L s d (le_bytes 4 mtime)))"

definition MTimeDB_del :: "'s lmdb \<Rightarrow> MDB_dbi \<Rightarrow> 's \<Rightarrow> u32 \<Rightarrow> u64 \<Rightarrow> 's" where
  "MTimeDB_del L d s mtime i = mdb_del L s d (le_bytes 4 mtime) (Some (le_bytes 8 i))"

definition MTimeDB_toTestMap :: "'s lmdb \<Rightarrow> MDB_dbi \<Rightarrow> 's \<Rightarrow> (u32 \<times> u64) list" where
  "MTimeDB_toTestMap L d s = qmap_of_list (map (\<lambda>(k, v). (le_word k, le_word v)) (mdb_scan L s d))"

lemma MTimeDB_get_asc: "asc (MTimeDB_get L d s t)"
  by (simp add: MTimeDB_get_def)

lemma set_MTimeDB_get:
  assumes "lmdb_ok L"
  shows "i \<in> set (MTimeDB_get L mtimeDbi s t) \<longleftrightarrow>
    (le_bytes 4 t, le_bytes 8 i) \<in> set (mdb_scan L s mtimeDbi)"
proof -
  have dec: "le_bytes 8 (le_word v :: u64) = v" if "(k, v) \<in> set (mdb_scan L s mtimeDbi)" for k v
    using mdb_scan_value_length[OF assms _ that] by (intro le_bytes_le_word) auto
  then show ?thesis
    using assms by (force simp: MTimeDB_get_def mdb_scan_dup_scan codec_simps)
qed

lemma set_MTimeDB_get_put [table_simps]:
  "lmdb_ok L \<Longrightarrow>
   set (MTimeDB_get L mtimeDbi (mdb_put L s mtimeDbi (le_bytes 4 t) (le_bytes 8 i)) t') =
   (if t' = t then insert i (set (MTimeDB_get L mtimeDbi s t')) else set (MTimeDB_get L mtimeDbi s t'))"
  by (auto simp: set_MTimeDB_get set_mdb_scan_put value_ok_def)

lemma set_MTimeDB_get_del [table_simps]:
  "lmdb_ok L \<Longrightarrow>
   set (MTimeDB_get L mtimeDbi (mdb_del L s mtimeDbi (le_bytes 4 t) (Some (le_bytes 8 i))) t') =
   (if t' = t then set (MTimeDB_get L mtimeDbi s t') - {i} else set (MTimeDB_get L mtimeDbi s t'))"
  by (auto simp: set_MTimeDB_get set_mdb_scan_del)

lemma MTimeDB_get_other [table_simps]:
  "lmdb_ok L \<Longrightarrow> d \<noteq> d' \<Longrightarrow> MTimeDB_get L d (mdb_put L s d' kk vv) t = MTimeDB_get L d s t"
  "lmdb_ok L \<Longrightarrow> d \<noteq> d' \<Longrightarrow> MTimeDB_get L d (mdb_del L s d' kk w) t = MTimeDB_get L d s t"
  by (simp_all add: MTimeDB_get_def mdb_scan_dup_scan lmdb_simps)

section \<open>IdTreeDB\<close>

definition IdTreeDB_set :: "'s lmdb \<Rightarrow> MDB_dbi \<Rightarrow> 's \<Rightarrow> u64 \<Rightarrow> u64 list \<Rightarrow> 's" where
  "IdTreeDB_set L d s i subDocIds =
     (if subDocIds = [] then mdb_del L s d (le_bytes 8 i) None
      else mdb_put L s d (le_bytes 8 i) (PostingCodec_encode subDocIds))"

text \<open>
  The vector has \<open>mv_size / 8\<close> elements and \<open>memcpy\<close> writes \<open>mv_size\<close> bytes into it: for a size that
  is no multiple of eight that is past its end. The model copies the whole elements.
\<close>

definition IdTreeDB_get :: "'s lmdb \<Rightarrow> MDB_dbi \<Rightarrow> 's \<Rightarrow> u64 \<Rightarrow> u64 list" where
  "IdTreeDB_get L d s i =
     (case mdb_get L s d (le_bytes 8 i) of None \<Rightarrow> [] | Some v \<Rightarrow> memcpy_ids (length v div 8) v)"

definition IdTreeDB_toTestMap :: "'s lmdb \<Rightarrow> MDB_dbi \<Rightarrow> 's \<Rightarrow> (u64 \<times> u64 list) list" where
  "IdTreeDB_toTestMap L d s =
     qmap_of_list (map (\<lambda>(k, v). (le_word k, memcpy_ids (length v div 8) v)) (mdb_scan L s d))"

interpretation idlist_codec: codec PostingCodec_encode "\<lambda>v. memcpy_ids (length v div 8) v" "\<lambda>_. True"
  by unfold_locales (simp add: codec_simps)

interpretation tree_tbl:
  table PostingCodec_encode "\<lambda>v. memcpy_ids (length v div 8) v" "\<lambda>_. True" "le_bytes 8" id_key_ok "[]"
    IdTreeDB_get
  by unfold_locales (auto simp: IdTreeDB_get_def dest: id_key_ok_key split: option.split)

lemma IdTreeDB_get_set [table_simps]:
  "lmdb_ok L \<Longrightarrow> id_key_ok d i \<Longrightarrow>
   IdTreeDB_get L d (IdTreeDB_set L d s i subs) j = (if j = i then subs else IdTreeDB_get L d s j)"
  by (simp add: IdTreeDB_set_def table_simps)

section \<open>IdFilenameDB\<close>

definition IdFilenameDB_put :: "'s lmdb \<Rightarrow> MDB_dbi \<Rightarrow> 's \<Rightarrow> u64 \<Rightarrow> FilePath \<Rightarrow> 's" where
  "IdFilenameDB_put L d s i path = mdb_put L s d (le_bytes 8 i) (FilePath_bytes path)"

text \<open>\<open>bool get(docId, FilePath&)\<close>: \<open>None\<close> where it returns false.\<close>

definition IdFilenameDB_get :: "'s lmdb \<Rightarrow> MDB_dbi \<Rightarrow> 's \<Rightarrow> u64 \<Rightarrow> FilePath option" where
  "IdFilenameDB_get L d s i =
     (case mdb_get L s d (le_bytes 8 i) of None \<Rightarrow> None | Some v \<Rightarrow> FilePath_of_bytes v)"

text \<open>\<open>FilePath get(docId)\<close>: an empty path where there is no entry.\<close>

definition IdFilenameDB_get_path :: "'s lmdb \<Rightarrow> MDB_dbi \<Rightarrow> 's \<Rightarrow> u64 \<Rightarrow> FilePath" where
  "IdFilenameDB_get_path L d s i =
     (case IdFilenameDB_get L d s i of None \<Rightarrow> \<lparr>parentId = 0, name = []\<rparr> | Some path \<Rightarrow> path)"

definition IdFilenameDB_contains :: "'s lmdb \<Rightarrow> MDB_dbi \<Rightarrow> 's \<Rightarrow> u64 \<Rightarrow> bool" where
  "IdFilenameDB_contains L d s i \<longleftrightarrow> mdb_get L s d (le_bytes 8 i) \<noteq> None"

definition IdFilenameDB_del :: "'s lmdb \<Rightarrow> MDB_dbi \<Rightarrow> 's \<Rightarrow> u64 \<Rightarrow> 's" where
  "IdFilenameDB_del L d s i = mdb_del L s d (le_bytes 8 i) None"

definition IdFilenameDB_toTestMap :: "'s lmdb \<Rightarrow> MDB_dbi \<Rightarrow> 's \<Rightarrow> (u64 \<times> FilePath) list" where
  "IdFilenameDB_toTestMap L d s =
     qmap_of_list (map (\<lambda>(k, v). (le_word k,
       \<lparr>parentId = le_word (take 8 v), name = drop 8 v\<rparr>)) (mdb_scan L s d))"

interpretation filename_tbl:
  table "FilePath_bytes \<circ> the" FilePath_of_bytes "\<lambda>p. p \<noteq> None" "le_bytes 8" id_key_ok None
    IdFilenameDB_get
  by unfold_locales (auto simp: IdFilenameDB_get_def dest: id_key_ok_key split: option.split)

lemma IdFilenameDB_get_put [table_simps]:
  "lmdb_ok L \<Longrightarrow> id_key_ok d i \<Longrightarrow>
   IdFilenameDB_get L d (mdb_put L s d (le_bytes 8 i) (FilePath_bytes path)) j =
   (if j = i then Some path else IdFilenameDB_get L d s j)"
  using filename_tbl.get_put[of L d i "Some path" s j] by simp

lemma contains_IdFilenameDB_get:
  "IdFilenameDB_get L d s i \<noteq> None \<Longrightarrow> IdFilenameDB_contains L d s i"
  by (auto simp: IdFilenameDB_get_def IdFilenameDB_contains_def split: option.splits)

section \<open>DocumentUrlDB\<close>

definition lastIndexOf :: "bytes \<Rightarrow> u8 \<Rightarrow> int" where
  "lastIndexOf arr c =
     (let k = length (takeWhile (\<lambda>x. x \<noteq> c) (rev arr))
      in if k = length arr then -1 else int (length arr - 1 - k))"

definition endsWith :: "bytes \<Rightarrow> u8 \<Rightarrow> bool" where
  "endsWith arr c \<longleftrightarrow> arr \<noteq> [] \<and> last arr = c"

definition DocumentUrlDB_add :: "'s lmdb \<Rightarrow> 's \<Rightarrow> u64 \<Rightarrow> u64 \<Rightarrow> bytes \<Rightarrow> 's" where
  "DocumentUrlDB_add L s i parent nm =
     (if i = 0 \<or> nm = [] then s
      else
        let subDocs = IdTreeDB_get L idTreeDbi s parent;
            s1 = IdTreeDB_set L idTreeDbi s parent (sortedIdInsert subDocs i)
        in IdFilenameDB_put L idFilenameDbi s1 i \<lparr>parentId = parent, name = nm\<rparr>)"

definition DocumentUrlDB_put :: "'s lmdb \<Rightarrow> 's \<Rightarrow> u64 \<Rightarrow> u64 \<Rightarrow> bytes \<Rightarrow> bool \<times> 's" where
  "DocumentUrlDB_put L s docId' parent filename =
     (if docId' = 0 \<or> filename = [] \<or> slash \<in> set filename then (False, s)
      else (True, DocumentUrlDB_add L s docId' parent filename))"

lemma lastIndexOf_less: "arr \<noteq> [] \<Longrightarrow> nat (lastIndexOf arr c) < length arr"
  by (auto simp: lastIndexOf_def Let_def)

text \<open>
  The loop of \<open>addPath\<close>; it ends because the path gets shorter and the empty path has no file id.
\<close>

function DocumentUrlDB_addPath_loop :: "'s lmdb \<Rightarrow> fs_api \<Rightarrow> 's \<Rightarrow> bytes \<Rightarrow> u64 \<Rightarrow> bool \<times> 's" where
  "DocumentUrlDB_addPath_loop L fs s arr i =
     (if i = 0 \<or> arr = [] then (False, s)
      else if IdFilenameDB_contains L idFilenameDbi s i then (True, s)
      else
        let pos = lastIndexOf arr slash;
            nm = drop (nat (pos + 1)) arr
        in if pos = 0 then (True, DocumentUrlDB_add L s i 0 nm)
           else
             let arr' = take (nat pos) arr;
                 parent = filePathToId fs arr'
             in if parent = 0 then (False, s)
                else DocumentUrlDB_addPath_loop L fs (DocumentUrlDB_add L s i parent nm) arr' parent)"
  by pat_completeness auto
termination
  by (relation "measure (\<lambda>(_, _, _, arr, _). length arr)") (auto simp: lastIndexOf_less)

declare DocumentUrlDB_addPath_loop.simps [simp del]

definition DocumentUrlDB_addPath :: "'s lmdb \<Rightarrow> fs_api \<Rightarrow> 's \<Rightarrow> bytes \<Rightarrow> bool \<times> 's" where
  "DocumentUrlDB_addPath L fs s url =
     (if url = [] \<or> endsWith url slash then (False, s)
      else DocumentUrlDB_addPath_loop L fs s url (filePathToId fs url))"

definition removeOne :: "'a \<Rightarrow> 'a list \<Rightarrow> bool \<times> 'a list" where
  "removeOne x xs = (x \<in> set xs, remove1 x xs)"

definition DocumentUrlDB_updateUrl :: "'s lmdb \<Rightarrow> 's \<Rightarrow> u64 \<Rightarrow> u64 \<Rightarrow> bytes \<Rightarrow> 's" where
  "DocumentUrlDB_updateUrl L s i newParentId newName =
     (let path = IdFilenameDB_get_path L idFilenameDbi s i;
          s1 = (if parentId path \<noteq> newParentId then
                  let (removed, subDocs) = removeOne i (IdTreeDB_get L idTreeDbi s (parentId path));
                      sa = (if removed then IdTreeDB_set L idTreeDbi s (parentId path) subDocs else s);
                      subDocs' = sortedIdInsert (IdTreeDB_get L idTreeDbi sa newParentId) i
                  in IdTreeDB_set L idTreeDbi sa newParentId subDocs'
                else s)
      in if newName \<noteq> name path \<or> newParentId \<noteq> parentId path
         then IdFilenameDB_put L idFilenameDbi s1 i (path\<lparr>parentId := newParentId, name := newName\<rparr>)
         else s1)"

definition DocumentUrlDB_del :: "'s lmdb \<Rightarrow> 's \<Rightarrow> u64 \<Rightarrow> 's" where
  "DocumentUrlDB_del L s i =
     (if i = 0 then s
      else
        let path = IdFilenameDB_get_path L idFilenameDbi s i;
            (removed, subDocs) = removeOne i (IdTreeDB_get L idTreeDbi s (parentId path));
            s1 = (if removed then IdTreeDB_set L idTreeDbi s (parentId path) subDocs else s)
        in IdFilenameDB_del L idFilenameDbi s1 i)"

definition DocumentUrlDB_contains :: "'s lmdb \<Rightarrow> 's \<Rightarrow> u64 \<Rightarrow> bool" where
  "DocumentUrlDB_contains L s docId' =
     (if docId' = 0 then False else IdFilenameDB_contains L idFilenameDbi s docId')"

text \<open>The loop of \<open>get\<close> with its depth limit; running into the limit gives the empty path.\<close>

fun DocumentUrlDB_get_loop :: "'s lmdb \<Rightarrow> 's \<Rightarrow> nat \<Rightarrow> u64 \<Rightarrow> bytes \<Rightarrow> bytes" where
  "DocumentUrlDB_get_loop L s depth_limit i ret =
     (if i = 0 then ret
      else case IdFilenameDB_get L idFilenameDbi s i of
             None \<Rightarrow> []
           | Some path \<Rightarrow>
               (case depth_limit of
                  0 \<Rightarrow> []
                | Suc n \<Rightarrow> DocumentUrlDB_get_loop L s n (parentId path) (slash # name path @ ret)))"

declare DocumentUrlDB_get_loop.simps [simp del]

definition DocumentUrlDB_get :: "'s lmdb \<Rightarrow> 's \<Rightarrow> u64 \<Rightarrow> bytes" where
  "DocumentUrlDB_get L s docId' =
     (if docId' = 0 then []
      else case IdFilenameDB_get L idFilenameDbi s docId' of
             None \<Rightarrow> []
           | Some path \<Rightarrow> DocumentUrlDB_get_loop L s 512 (parentId path) (slash # name path))"

definition DocumentUrlDB_getChildren :: "'s lmdb \<Rightarrow> 's \<Rightarrow> u64 \<Rightarrow> u64 list" where
  "DocumentUrlDB_getChildren L s docId' = IdTreeDB_get L idTreeDbi s docId'"

primrec DocumentUrlDB_getId_loop :: "'s lmdb \<Rightarrow> 's \<Rightarrow> bytes \<Rightarrow> u64 list \<Rightarrow> u64" where
  "DocumentUrlDB_getId_loop L s fileName [] = 0"
| "DocumentUrlDB_getId_loop L s fileName (i # subFiles) =
     (case IdFilenameDB_get L idFilenameDbi s i of
        Some path \<Rightarrow>
          if name path = fileName then i else DocumentUrlDB_getId_loop L s fileName subFiles
      | None \<Rightarrow> DocumentUrlDB_getId_loop L s fileName subFiles)"

definition DocumentUrlDB_getId :: "'s lmdb \<Rightarrow> 's \<Rightarrow> u64 \<Rightarrow> bytes \<Rightarrow> u64" where
  "DocumentUrlDB_getId L s docId' fileName =
     (if fileName = [] then 0
      else DocumentUrlDB_getId_loop L s fileName (IdTreeDB_get L idTreeDbi s docId'))"

definition DocumentUrlDB_toTestMap :: "'s lmdb \<Rightarrow> 's \<Rightarrow> (u64 \<times> bytes) list" where
  "DocumentUrlDB_toTestMap L s =
     (let idTreeMap = IdTreeDB_toTestMap L idTreeDbi s;
          allIds = sort_unique (concat (map (\<lambda>(k, ids). k # ids) idTreeMap))
      in qmap_of_list (map (\<lambda>i. (i, DocumentUrlDB_get L s i)) (filter (\<lambda>i. i \<noteq> 0) allIds)))"

end
