(* ===== verification/UrlTree.thy ===== *)
theory UrlTree
  imports UrlDB
begin

text \<open>
  What \<open>DocumentUrlDB\<close> promises. The abstract file tree is a map from ids to parent and name
  (\<open>url_tree\<close>); under \<open>url_inv\<close> the child lists are exactly the ascending lists of the ids with
  that parent, every operation is an update of the map, and walking a path down the child lists
  (\<open>Transaction::documentId\<close>) inverts building it up the parents (\<open>DocumentUrlDB::get\<close>).
\<close>

definition url_tree :: "'s lmdb \<Rightarrow> 's \<Rightarrow> u64 \<Rightarrow> FilePath option" where
  "url_tree L s i = IdFilenameDB_get L idFilenameDbi s i"

definition url_inv :: "'s lmdb \<Rightarrow> 's \<Rightarrow> bool" where
  "url_inv L s \<longleftrightarrow>
     (\<forall>p. asc (DocumentUrlDB_getChildren L s p)) \<and>
     (\<forall>p i. i \<in> set (DocumentUrlDB_getChildren L s p) \<longleftrightarrow>
        i \<noteq> 0 \<and> (\<exists>path. url_tree L s i = Some path \<and> parentId path = p))"

lemmas url_write_defs = IdFilenameDB_put_def IdFilenameDB_del_def
lemmas url_read_defs = url_tree_def DocumentUrlDB_getChildren_def

lemma url_inv_asc: "url_inv L s \<Longrightarrow> asc (IdTreeDB_get L idTreeDbi s p)"
  by (simp add: url_inv_def url_read_defs)

lemma url_inv_children:
  "url_inv L s \<Longrightarrow> i \<in> set (IdTreeDB_get L idTreeDbi s p) \<longleftrightarrow>
     i \<noteq> 0 \<and> (\<exists>path. IdFilenameDB_get L idFilenameDbi s i = Some path \<and> parentId path = p)"
  by (simp add: url_inv_def url_read_defs)

lemma IdTreeDB_set_frame [table_simps]:
  "lmdb_ok L \<Longrightarrow> d \<noteq> d' \<Longrightarrow> IdFilenameDB_get L d (IdTreeDB_set L d' s i subs) j = IdFilenameDB_get L d s j"
  by (simp add: IdTreeDB_set_def table_simps)

text \<open>Linking an id below a parent, and unlinking it from the parent its entry names.\<close>

lemma DocumentUrlDB_add_reads:
  assumes "lmdb_ok L" "i \<noteq> 0" "nm \<noteq> []"
  shows "url_tree L (DocumentUrlDB_add L s i p nm) j =
      (if j = i then Some \<lparr>parentId = p, name = nm\<rparr> else url_tree L s j)"
    and "DocumentUrlDB_getChildren L (DocumentUrlDB_add L s i p nm) q =
      (if q = p then sortedIdInsert (DocumentUrlDB_getChildren L s q) i
       else DocumentUrlDB_getChildren L s q)"
  using assms
  by (simp_all add: DocumentUrlDB_add_def url_read_defs url_write_defs Let_def table_simps)

lemma url_inv_add:
  assumes "lmdb_ok L" "url_inv L s"
    and "\<And>path. url_tree L s i = Some path \<Longrightarrow> parentId path = p"
  shows "url_inv L (DocumentUrlDB_add L s i p nm)"
proof (cases "i = 0 \<or> nm = []")
  case True
  then show ?thesis using assms(2) by (simp add: DocumentUrlDB_add_def)
next
  case False
  then show ?thesis
    using assms unfolding url_inv_def
    by (auto simp: DocumentUrlDB_add_reads)
qed

lemma DocumentUrlDB_del_reads:
  assumes "lmdb_ok L" "i \<noteq> 0" "url_inv L s"
  shows "url_tree L (DocumentUrlDB_del L s i) j = (if j = i then None else url_tree L s j)"
    and "DocumentUrlDB_getChildren L (DocumentUrlDB_del L s i) q =
      remove1 i (DocumentUrlDB_getChildren L s q)"
proof -
  show "url_tree L (DocumentUrlDB_del L s i) j = (if j = i then None else url_tree L s j)"
    using assms
    by (simp add: DocumentUrlDB_del_def removeOne_def url_read_defs url_write_defs Let_def table_simps)
  have other: "i \<notin> set (IdTreeDB_get L idTreeDbi s q)"
    if "q \<noteq> parentId (IdFilenameDB_get_path L idFilenameDbi s i)"
    using that assms(2) url_inv_children[OF assms(3), of i q]
    by (auto simp: IdFilenameDB_get_path_def)
  show "DocumentUrlDB_getChildren L (DocumentUrlDB_del L s i) q =
      remove1 i (DocumentUrlDB_getChildren L s q)"
    using assms other
    by (auto simp: DocumentUrlDB_del_def removeOne_def url_read_defs url_write_defs Let_def
        table_simps remove1_idem)
qed

lemma url_inv_del:
  assumes "lmdb_ok L" "url_inv L s"
  shows "url_inv L (DocumentUrlDB_del L s i)"
proof (cases "i = 0")
  case True
  then show ?thesis using assms(2) by (simp add: DocumentUrlDB_del_def)
next
  case False
  have "distinct (DocumentUrlDB_getChildren L s p)" for p
    using assms(2) by (auto simp: url_inv_def intro: asc_distinct)
  then show ?thesis
    using assms False unfolding url_inv_def
    by (auto simp: DocumentUrlDB_del_reads[OF assms(1) False assms(2)] asc_remove1)
qed

lemma DocumentUrlDB_updateUrl_reads:
  assumes "lmdb_ok L" "i \<noteq> 0" "url_inv L s" "url_tree L s i \<noteq> None"
  shows "url_tree L (DocumentUrlDB_updateUrl L s i p nm) j =
      (if j = i then Some \<lparr>parentId = p, name = nm\<rparr> else url_tree L s j)"
    and "set (DocumentUrlDB_getChildren L (DocumentUrlDB_updateUrl L s i p nm) q) =
      (if q = p then insert i (set (DocumentUrlDB_getChildren L s q))
       else set (DocumentUrlDB_getChildren L s q) - {i})"
    and "asc (DocumentUrlDB_getChildren L (DocumentUrlDB_updateUrl L s i p nm) q)"
proof -
  obtain old where old: "IdFilenameDB_get L idFilenameDbi s i = Some old"
    using assms(4) by (auto simp: url_tree_def)
  have path: "IdFilenameDB_get_path L idFilenameDbi s i = old"
    by (simp add: IdFilenameDB_get_path_def old)
  have mem: "i \<in> set (IdTreeDB_get L idTreeDbi s q) \<longleftrightarrow> q = parentId old" for q
    using url_inv_children[OF assms(3)] assms(2) old by auto
  note asc = url_inv_asc[OF assms(3)]
  note defs = DocumentUrlDB_updateUrl_def removeOne_def url_read_defs url_write_defs Let_def path
  show "url_tree L (DocumentUrlDB_updateUrl L s i p nm) j =
      (if j = i then Some \<lparr>parentId = p, name = nm\<rparr> else url_tree L s j)"
    using assms(1) old by (cases old) (auto simp: defs table_simps)
  show "set (DocumentUrlDB_getChildren L (DocumentUrlDB_updateUrl L s i p nm) q) =
      (if q = p then insert i (set (DocumentUrlDB_getChildren L s q))
       else set (DocumentUrlDB_getChildren L s q) - {i})"
    using assms(1) mem asc
    by (auto simp: defs table_simps asc_distinct asc_remove1)
  show "asc (DocumentUrlDB_getChildren L (DocumentUrlDB_updateUrl L s i p nm) q)"
    using assms(1) mem asc
    by (auto simp: defs table_simps asc_remove1)
qed

lemma url_inv_updateUrl:
  assumes "lmdb_ok L" "i \<noteq> 0" "url_inv L s" "url_tree L s i \<noteq> None"
  shows "url_inv L (DocumentUrlDB_updateUrl L s i p nm)"
  using assms(2,3) unfolding url_inv_def
  by (auto simp: DocumentUrlDB_updateUrl_reads[OF assms])

lemma url_inv_addPath_loop:
  "lmdb_ok L \<Longrightarrow> url_inv L s \<Longrightarrow> url_inv L (snd (DocumentUrlDB_addPath_loop L fs s arr i))"
proof (induction L fs s arr i rule: DocumentUrlDB_addPath_loop.induct)
  case (1 L fs s arr i)
  show ?case
  proof (cases "i = 0 \<or> arr = [] \<or> IdFilenameDB_contains L idFilenameDbi s i")
    case True
    then show ?thesis using "1.prems"(2) by (subst DocumentUrlDB_addPath_loop.simps) auto
  next
    case False
    then have "url_tree L s i = None"
      unfolding url_tree_def using contains_IdFilenameDB_get[of L idFilenameDbi s i] by blast
    then have add: "url_inv L (DocumentUrlDB_add L s i p nm)" for p nm
      using "1.prems" by (intro url_inv_add) auto
    show ?thesis
      using False add "1.prems" "1.IH"[OF _ _ refl refl]
      by (subst DocumentUrlDB_addPath_loop.simps) (auto simp: Let_def)
  qed
qed

lemma url_inv_addPath:
  "lmdb_ok L \<Longrightarrow> url_inv L s \<Longrightarrow> url_inv L (snd (DocumentUrlDB_addPath L fs s url))"
  by (simp add: DocumentUrlDB_addPath_def url_inv_addPath_loop)

section \<open>Paths down and up the tree\<close>

text \<open>\<open>QByteArray::split\<close> keeps the empty parts.\<close>

fun split_at :: "u8 \<Rightarrow> bytes \<Rightarrow> bytes list" where
  "split_at c [] = [[]]"
| "split_at c (x # xs) =
     (if x = c then [] # split_at c xs
      else case split_at c xs of
             [] \<Rightarrow> [[x]]
           | w # ws \<Rightarrow> (x # w) # ws)"

primrec Transaction_documentId_loop :: "'s lmdb \<Rightarrow> 's \<Rightarrow> u64 \<Rightarrow> bytes list \<Rightarrow> u64" where
  "Transaction_documentId_loop L s parent [] = parent"
| "Transaction_documentId_loop L s parent (fileName # li) =
     (if fileName = [] then Transaction_documentId_loop L s parent li
      else
        let i = DocumentUrlDB_getId L s parent fileName
        in if i = 0 then 0 else Transaction_documentId_loop L s i li)"

definition Transaction_documentId :: "'s lmdb \<Rightarrow> 's \<Rightarrow> bytes \<Rightarrow> u64" where
  "Transaction_documentId L s path = Transaction_documentId_loop L s 0 (split_at slash path)"

text \<open>Entries with the same parent and name are the same entry; names are proper names.\<close>

definition url_names_ok :: "'s lmdb \<Rightarrow> 's \<Rightarrow> bool" where
  "url_names_ok L s \<longleftrightarrow>
     (\<forall>i path. url_tree L s i = Some path \<longrightarrow> i \<noteq> 0 \<and> name path \<noteq> [] \<and> slash \<notin> set (name path)) \<and>
     (\<forall>i j path. url_tree L s i = Some path \<longrightarrow> url_tree L s j = Some path \<longrightarrow> i = j)"

definition join_path :: "bytes list \<Rightarrow> bytes" where
  "join_path ns = concat (map (\<lambda>n. slash # n) ns)"

lemma split_at_not_Nil [simp]: "split_at c xs \<noteq> []"
  by (cases xs) (auto split: list.split)

lemma split_at_name_slash:
  "slash \<notin> set n \<Longrightarrow> split_at slash (n @ slash # rest) = n # split_at slash rest"
  by (induction n) auto

lemma split_at_name: "slash \<notin> set n \<Longrightarrow> split_at slash n = [n]"
  by (induction n) auto

lemma split_at_join:
  "\<forall>n \<in> set ns. slash \<notin> set n \<Longrightarrow> ns \<noteq> [] \<Longrightarrow> split_at slash (join_path ns) = [] # ns"
proof (induction ns)
  case (Cons n ns)
  have "split_at slash (n @ join_path ns) = n # ns"
  proof (cases ns)
    case Nil
    then show ?thesis using Cons.prems by (simp add: split_at_name join_path_def)
  next
    case (Cons m ms)
    have "split_at slash (join_path ns) = [] # ns"
      using Cons.IH Cons.prems Cons by simp
    moreover have "join_path ns = slash # m @ join_path ms"
      by (simp add: join_path_def Cons)
    ultimately have "split_at slash (m @ join_path ms) = ns" by simp
    with \<open>join_path ns = _\<close> show ?thesis
      using Cons.prems by (simp add: split_at_name_slash)
  qed
  then show ?case by (simp add: join_path_def)
qed simp

lemma getId_loop_unique:
  assumes "url_names_ok L s" "IdFilenameDB_get L idFilenameDbi s i = Some path"
    and "\<forall>j \<in> set js. \<exists>q. IdFilenameDB_get L idFilenameDbi s j = Some q \<and> parentId q = parentId path"
    and "i \<in> set js"
  shows "DocumentUrlDB_getId_loop L s (name path) js = i"
  using assms(3,4)
proof (induction js)
  case (Cons j js)
  then obtain q where q: "IdFilenameDB_get L idFilenameDbi s j = Some q" "parentId q = parentId path"
    by auto
  have "j = i" if "name q = name path"
  proof -
    have "q = path" using that q(2) by simp
    then show ?thesis
      using q(1) assms(1,2) unfolding url_names_ok_def url_tree_def by blast
  qed
  with Cons q assms(2) show ?case by auto
qed simp

lemma getId_of_entry:
  assumes "url_inv L s" "url_names_ok L s" "url_tree L s i = Some path"
  shows "DocumentUrlDB_getId L s (parentId path) (name path) = i"
proof -
  have i: "i \<noteq> 0" "name path \<noteq> []"
    using assms(2,3) by (auto simp: url_names_ok_def)
  then have "i \<in> set (IdTreeDB_get L idTreeDbi s (parentId path))"
    using assms(3) url_inv_children[OF assms(1)] by (auto simp: url_tree_def)
  then have "DocumentUrlDB_getId_loop L s (name path) (IdTreeDB_get L idTreeDbi s (parentId path)) = i"
    using assms(2,3) url_inv_children[OF assms(1)]
    by (intro getId_loop_unique) (auto simp: url_tree_def)
  then show ?thesis using i(2) by (simp add: DocumentUrlDB_getId_def)
qed

lemma documentId_loop_append:
  "Transaction_documentId_loop L s p ns = q \<Longrightarrow> q \<noteq> 0 \<or> ns = [] \<Longrightarrow>
   Transaction_documentId_loop L s p (ns @ ms) = Transaction_documentId_loop L s q ms"
proof (induction ns arbitrary: p)
  case (Cons n ns)
  then show ?case by (cases "ns = []") (auto simp: Let_def split: if_splits)
qed simp

text \<open>
  Walking up from \<open>i\<close> prepends a path whose names lead from the root down to \<open>i\<close> again.
\<close>

lemma get_loop_path:
  assumes inv: "url_inv L s" "url_names_ok L s"
  shows "DocumentUrlDB_get_loop L s n i ret \<noteq> [] \<Longrightarrow>
    \<exists>ns. DocumentUrlDB_get_loop L s n i ret = join_path ns @ ret \<and> (i \<noteq> 0 \<or> ns = []) \<and>
      Transaction_documentId_loop L s 0 ns = i \<and> (\<forall>m \<in> set ns. m \<noteq> [] \<and> slash \<notin> set m)"
proof (induction n arbitrary: i ret)
  case 0
  show ?case
  proof (cases "i = 0")
    case True
    then show ?thesis
      by (intro exI[of _ "[]"]) (subst DocumentUrlDB_get_loop.simps, simp add: join_path_def)
  next
    case False
    with 0 show ?thesis
      by (subst (asm) DocumentUrlDB_get_loop.simps) (auto split: option.splits)
  qed
next
  case (Suc n)
  show ?case
  proof (cases "i = 0")
    case True
    then show ?thesis
      by (intro exI[of _ "[]"]) (subst DocumentUrlDB_get_loop.simps, simp add: join_path_def)
  next
    case False
    with Suc.prems obtain path where path: "IdFilenameDB_get L idFilenameDbi s i = Some path"
      by (subst (asm) DocumentUrlDB_get_loop.simps) (auto split: option.splits)
    then have step: "DocumentUrlDB_get_loop L s (Suc n) i ret =
        DocumentUrlDB_get_loop L s n (parentId path) (slash # name path @ ret)"
      using False by (subst DocumentUrlDB_get_loop.simps) simp
    with Suc.prems obtain ns where ns: "DocumentUrlDB_get_loop L s (Suc n) i ret =
          join_path ns @ slash # name path @ ret"
        "parentId path \<noteq> 0 \<or> ns = []" "Transaction_documentId_loop L s 0 ns = parentId path"
        "\<forall>m \<in> set ns. m \<noteq> [] \<and> slash \<notin> set m"
      using Suc.IH[of "parentId path" "slash # name path @ ret"] by auto
    have tree: "url_tree L s i = Some path" using path by (simp add: url_tree_def)
    then have nm: "name path \<noteq> []" "slash \<notin> set (name path)"
      using inv(2) by (auto simp: url_names_ok_def)
    have "Transaction_documentId_loop L s 0 (ns @ [name path]) = i"
      using documentId_loop_append[OF ns(3,2)] getId_of_entry[OF inv tree] nm(1) by simp
    then show ?thesis
      using ns nm False by (intro exI[of _ "ns @ [name path]"]) (auto simp: join_path_def)
  qed
qed

lemma documentId_DocumentUrlDB_get:
  assumes "url_inv L s" "url_names_ok L s" "DocumentUrlDB_get L s i \<noteq> []"
  shows "Transaction_documentId L s (DocumentUrlDB_get L s i) = i"
proof -
  have "i \<noteq> 0" using assms(3) by (auto simp: DocumentUrlDB_get_def)
  then have "DocumentUrlDB_get L s i = DocumentUrlDB_get_loop L s 513 i []"
    by (subst DocumentUrlDB_get_loop.simps) (simp add: DocumentUrlDB_get_def split: option.split)
  with get_loop_path[OF assms(1,2), of 513 i "[]"] assms(3) obtain ns where
    ns: "DocumentUrlDB_get L s i = join_path ns" "Transaction_documentId_loop L s 0 ns = i"
      "\<forall>m \<in> set ns. m \<noteq> [] \<and> slash \<notin> set m"
    by auto
  then have "ns \<noteq> []" using assms(3) by (auto simp: join_path_def)
  with ns show ?thesis
    by (simp add: Transaction_documentId_def split_at_join)
qed

end
