(* ===== verification/WriteTransaction.thy ===== *)
theory WriteTransaction
  imports UrlTree Document
begin

text \<open>
  \<open>writetransaction.cpp\<close>: the changes of one write transaction. Rows that are keyed by a document
  are written at once; changes of the posting and position lists, which are keyed by a term, are
  queued per term (\<open>m_pendingOperations\<close>) and applied by \<open>commit\<close>, one list at a time.

  \<^item> \<open>QHash<QByteArray, QVector<Operation>>\<close> is a list of pairs with distinct keys. The order in
    which \<open>QHashIterator\<close> visits them is not specified; it is the order of the list here, and
    \<open>commit_reads\<close> gives every row after \<open>commit\<close> without it.
  \<^item> \<open>removeRecursively\<close> recurses over the file tree as it changes. Nothing in the code bounds the
    recursion, so it is a \<open>partial_function\<close>; \<open>None\<close> means it does not return.
\<close>

section \<open>Pending operations\<close>

datatype OperationType = AddId | RemoveId

record Operation =
  op_type :: OperationType
  op_data :: PositionInfo

type_synonym pending = "(bytes \<times> Operation list) list"

record 's wtxn =
  m_txn :: 's
  m_pendingOperations :: pending

text \<open>\<open>m_pendingOperations[term].append(op)\<close>\<close>

primrec pending_append :: "bytes \<Rightarrow> Operation \<Rightarrow> pending \<Rightarrow> pending" where
  "pending_append t op [] = [(t, [op])]"
| "pending_append t op (p # m) =
     (if fst p = t then (t, snd p @ [op]) # m else p # pending_append t op m)"

definition pending_ops :: "pending \<Rightarrow> bytes \<Rightarrow> Operation list" where
  "pending_ops m t = (case map_of m t of None \<Rightarrow> [] | Some ops \<Rightarrow> ops)"

lemma keys_pending_append: "fst ` set (pending_append t op m) = insert t (fst ` set m)"
  by (induction m) auto

lemma distinct_pending_append [simp]:
  "distinct (map fst m) \<Longrightarrow> distinct (map fst (pending_append t op m))"
  by (induction m) (auto simp: keys_pending_append)

lemma pending_ops_append:
  "pending_ops (pending_append t op m) t' =
     (if t' = t then pending_ops m t' @ [op] else pending_ops m t')"
  by (induction m) (auto simp: pending_ops_def)

lemma pending_ops_Nil [simp]: "pending_ops [] t = []"
  by (simp add: pending_ops_def)

section \<open>Queueing\<close>

definition add_op :: "u64 \<Rightarrow> u32 list \<Rightarrow> Operation" where
  "add_op i ps = \<lparr>op_type = AddId, op_data = \<lparr>docId = i, positions = ps\<rparr>\<rparr>"

definition remove_op :: "u64 \<Rightarrow> Operation" where
  "remove_op i = \<lparr>op_type = RemoveId, op_data = \<lparr>docId = i, positions = []\<rparr>\<rparr>"

definition WriteTransaction_addTerms :: "'s wtxn \<Rightarrow> u64 \<Rightarrow> term_map \<Rightarrow> bytes list \<times> 's wtxn" where
  "WriteTransaction_addTerms W i terms =
     foldl (\<lambda>(termList, W) (t, td).
              (termList @ [t],
               W\<lparr>m_pendingOperations := pending_append t (add_op i td) (m_pendingOperations W)\<rparr>))
       ([], W) terms"

definition WriteTransaction_removeTerms :: "'s wtxn \<Rightarrow> u64 \<Rightarrow> bytes list \<Rightarrow> 's wtxn" where
  "WriteTransaction_removeTerms W i terms =
     foldl (\<lambda>W t. W\<lparr>m_pendingOperations := pending_append t (remove_op i) (m_pendingOperations W)\<rparr>)
       W terms"

definition WriteTransaction_replaceTerms ::
  "'s wtxn \<Rightarrow> u64 \<Rightarrow> bytes list \<Rightarrow> term_map \<Rightarrow> bytes list \<times> 's wtxn" where
  "WriteTransaction_replaceTerms W i prevTerms terms =
     (let W1 = foldl (\<lambda>W t. W\<lparr>m_pendingOperations :=
                          pending_append t (remove_op i) (m_pendingOperations W)\<rparr>) W prevTerms
      in WriteTransaction_addTerms W1 i terms)"

section \<open>Documents\<close>

definition txn_map :: "('s \<Rightarrow> 's) \<Rightarrow> 's wtxn \<Rightarrow> 's wtxn" where
  "txn_map f W = W\<lparr>m_txn := f (m_txn W)\<rparr>"

definition filename_of_url :: "bytes \<Rightarrow> bytes" where
  "filename_of_url url = drop (nat (lastIndexOf url slash + 1)) url"

definition WriteTransaction_addDocument ::
  "'s lmdb \<Rightarrow> (QString \<Rightarrow> bytes) \<Rightarrow> fs_api \<Rightarrow> 's wtxn \<Rightarrow> Document \<Rightarrow> 's wtxn" where
  "WriteTransaction_addDocument L json fs W doc =
     (let i = m_id doc;
          url = m_url doc;
          pos = lastIndexOf url slash;
          filename = filename_of_url url;
          (s1, parent) =
            (if pos > 0
             then (snd (DocumentUrlDB_addPath L fs (m_txn W) (take (nat pos) url)), m_parentId doc)
             else (m_txn W, 0));
          (ok, s2) = DocumentUrlDB_put L s1 i parent filename;
          W2 = W\<lparr>m_txn := s2\<rparr>
      in if \<not> ok then W2
         else
           let (docTerms, W3) = WriteTransaction_addTerms W2 i (m_terms doc);
               W4 = txn_map (\<lambda>s. DocumentDB_put L docTermsDbi s i docTerms) W3;
               (docXattrTerms, W5) = WriteTransaction_addTerms W4 i (m_xattrTerms doc);
               W6 = (if docXattrTerms \<noteq> []
                     then txn_map (\<lambda>s. DocumentDB_put L docXattrTermsDbi s i docXattrTerms) W5 else W5);
               (docFileNameTerms, W7) = WriteTransaction_addTerms W6 i (m_fileNameTerms doc);
               W8 = (if docFileNameTerms \<noteq> []
                     then txn_map (\<lambda>s. DocumentDB_put L docFilenameTermsDbi s i docFileNameTerms) W7
                     else W7);
               W9 = (if m_contentIndexing doc
                     then txn_map (\<lambda>s. DocumentIdDB_put L contentIndexingDbi s i) W8 else W8);
               info = \<lparr>mTime = m_mTime doc, cTime = m_cTime doc\<rparr>;
               W10 = txn_map (\<lambda>s. DocumentTimeDB_put L docTimeDbi s i info) W9;
               W11 = txn_map (\<lambda>s. MTimeDB_put L mtimeDbi s (m_mTime doc) i) W10;
               docData = Document_data json doc
           in if docData \<noteq> [] then txn_map (\<lambda>s. DocumentDataDB_put L docDataDbi s i docData) W11
              else W11)"

definition WriteTransaction_removeDocument :: "'s lmdb \<Rightarrow> 's wtxn \<Rightarrow> u64 \<Rightarrow> 's wtxn" where
  "WriteTransaction_removeDocument L W i =
     (let W1 = WriteTransaction_removeTerms W i (DocumentDB_get L docTermsDbi (m_txn W) i);
          W2 = WriteTransaction_removeTerms W1 i (DocumentDB_get L docFilenameTermsDbi (m_txn W1) i);
          W3 = (if DocumentDB_contains L docXattrTermsDbi (m_txn W2) i
                then WriteTransaction_removeTerms W2 i (DocumentDB_get L docXattrTermsDbi (m_txn W2) i)
                else W2);
          s4 = DocumentDB_del L docTermsDbi (m_txn W3) i;
          s5 = DocumentDB_del L docXattrTermsDbi s4 i;
          s6 = DocumentDB_del L docFilenameTermsDbi s5 i;
          s7 = DocumentUrlDB_del L s6 i;
          s8 = DocumentIdDB_del L contentIndexingDbi s7 i;
          s9 = DocumentIdDB_del L failedIdDbi s8 i;
          info = DocumentTimeDB_get L docTimeDbi s9 i;
          s10 = DocumentTimeDB_del L docTimeDbi s9 i;
          s11 = MTimeDB_del L mtimeDbi s10 (mTime info) i;
          s12 = DocumentDataDB_del L docDataDbi s11 i
      in W3\<lparr>m_txn := s12\<rparr>)"

text \<open>\<open>documentoperations.h\<close>: the flags of \<open>replaceDocument\<close>.\<close>

type_synonym DocumentOperations = u32

definition DocumentTerms :: DocumentOperations where "DocumentTerms = 0x1"
definition FileNameTerms :: DocumentOperations where "FileNameTerms = 0x2"
definition XAttrTerms :: DocumentOperations where "XAttrTerms = 0x4"
definition DocumentData :: DocumentOperations where "DocumentData = 0x8"
definition DocumentTime :: DocumentOperations where "DocumentTime = 0x10"
definition DocumentUrl :: DocumentOperations where "DocumentUrl = 0x20"
definition Everything :: DocumentOperations where
  "Everything = DocumentTerms OR FileNameTerms OR XAttrTerms OR DocumentData OR DocumentTime OR DocumentUrl"

lemmas DocumentOperation_defs = DocumentTerms_def FileNameTerms_def XAttrTerms_def
  DocumentData_def DocumentTime_def DocumentUrl_def Everything_def

definition WriteTransaction_replaceDocument ::
  "'s lmdb \<Rightarrow> (QString \<Rightarrow> bytes) \<Rightarrow> 's wtxn \<Rightarrow> Document \<Rightarrow> DocumentOperations \<Rightarrow> 's wtxn" where
  "WriteTransaction_replaceDocument L json W doc operations =
     (let i = m_id doc;
          W1 = (if operations AND DocumentTerms \<noteq> 0 then
                  let prevTerms = DocumentDB_get L docTermsDbi (m_txn W) i;
                      (docTerms, Wa) = WriteTransaction_replaceTerms W i prevTerms (m_terms doc)
                  in if docTerms \<noteq> prevTerms
                     then txn_map (\<lambda>s. DocumentDB_put L docTermsDbi s i docTerms) Wa else Wa
                else W);
          W2 = (if operations AND XAttrTerms \<noteq> 0 then
                  let prevTerms = DocumentDB_get L docXattrTermsDbi (m_txn W1) i;
                      (docXattrTerms, Wa) =
                        WriteTransaction_replaceTerms W1 i prevTerms (m_xattrTerms doc)
                  in if docXattrTerms \<noteq> prevTerms
                     then if docXattrTerms \<noteq> []
                          then txn_map (\<lambda>s. DocumentDB_put L docXattrTermsDbi s i docXattrTerms) Wa
                          else txn_map (\<lambda>s. DocumentDB_del L docXattrTermsDbi s i) Wa
                     else Wa
                else W1);
          W3 = (if operations AND FileNameTerms \<noteq> 0 then
                  let prevTerms = DocumentDB_get L docFilenameTermsDbi (m_txn W2) i;
                      (docFileNameTerms, Wa) =
                        WriteTransaction_replaceTerms W2 i prevTerms (m_fileNameTerms doc)
                  in if docFileNameTerms \<noteq> prevTerms
                     then if docFileNameTerms \<noteq> []
                          then txn_map (\<lambda>s. DocumentDB_put L docFilenameTermsDbi s i docFileNameTerms) Wa
                          else txn_map (\<lambda>s. DocumentDB_del L docFilenameTermsDbi s i) Wa
                     else Wa
                else W2);
          W4 = (if m_contentIndexing doc
                then txn_map (\<lambda>s. DocumentIdDB_put L contentIndexingDbi s i) W3 else W3);
          W5 = (if operations AND DocumentTime \<noteq> 0 then
                  let info = DocumentTimeDB_get L docTimeDbi (m_txn W4) i;
                      Wa = (if mTime info \<noteq> m_mTime doc
                            then txn_map (\<lambda>s. MTimeDB_put L mtimeDbi
                                   (MTimeDB_del L mtimeDbi s (mTime info) i) (m_mTime doc) i) W4
                            else W4)
                  in txn_map (\<lambda>s. DocumentTimeDB_put L docTimeDbi s i
                       (info\<lparr>mTime := m_mTime doc, cTime := m_cTime doc\<rparr>)) Wa
                else W4);
          W6 = (if operations AND DocumentData \<noteq> 0 then
                  let docData = Document_data json doc
                  in if docData \<noteq> [] then txn_map (\<lambda>s. DocumentDataDB_put L docDataDbi s i docData) W5
                     else W5
                else W5)
      in if operations AND DocumentUrl \<noteq> 0
         then txn_map (\<lambda>s. DocumentUrlDB_updateUrl L s i (m_parentId doc) (filename_of_url (m_url doc))) W6
         else W6)"

section \<open>Recursive removal\<close>

text \<open>
  The \<open>for\<close> loop over the children, with the recursive call on each child unfolded into it: the
  call on \<open>i\<close> is the loop over the children of \<open>i\<close> followed by \<open>removeDocument i\<close>.
\<close>

partial_function (option) removeChildren_loop :: "'s lmdb \<Rightarrow> 's wtxn \<Rightarrow> u64 list \<Rightarrow> 's wtxn option" where
  "removeChildren_loop L W children =
     (case children of
        [] \<Rightarrow> Some W
      | i # children' \<Rightarrow>
          if i = 0 then removeChildren_loop L W children'
          else Option.bind (removeChildren_loop L W (DocumentUrlDB_getChildren L (m_txn W) i))
                 (\<lambda>W1. removeChildren_loop L (WriteTransaction_removeDocument L W1 i) children'))"

definition WriteTransaction_removeRecursively :: "'s lmdb \<Rightarrow> 's wtxn \<Rightarrow> u64 \<Rightarrow> 's wtxn option" where
  "WriteTransaction_removeRecursively L W parent =
     Option.bind (removeChildren_loop L W (DocumentUrlDB_getChildren L (m_txn W) parent))
       (\<lambda>W1. Some (WriteTransaction_removeDocument L W1 parent))"

text \<open>The second overload: \<open>isEmpty\<close> is the conjunction of what the calls on the children return.\<close>

definition removeRecursively_finish :: "'s lmdb \<Rightarrow> bool \<Rightarrow> 's wtxn \<Rightarrow> u64 \<Rightarrow> bool \<times> 's wtxn" where
  "removeRecursively_finish L isEmpty W parent =
     (if isEmpty \<and> DocumentUrlDB_getChildren L (m_txn W) parent = []
      then (True, WriteTransaction_removeDocument L W parent)
      else (False, W))"

partial_function (option) removeIf_loop ::
  "'s lmdb \<Rightarrow> (bytes \<Rightarrow> bool) \<Rightarrow> bool \<Rightarrow> 's wtxn \<Rightarrow> u64 list \<Rightarrow> (bool \<times> 's wtxn) option" where
  "removeIf_loop L shouldDelete isEmpty W children =
     (case children of
        [] \<Rightarrow> Some (isEmpty, W)
      | i # children' \<Rightarrow>
          if i = 0 then removeIf_loop L shouldDelete isEmpty W children'
          else if \<not> shouldDelete (DocumentUrlDB_get L (m_txn W) i)
          then removeIf_loop L shouldDelete False W children'
          else Option.bind
                 (removeIf_loop L shouldDelete True W (DocumentUrlDB_getChildren L (m_txn W) i))
                 (\<lambda>(e, W1).
                    let (r, W2) = removeRecursively_finish L e W1 i
                    in removeIf_loop L shouldDelete (isEmpty \<and> r) W2 children'))"

definition WriteTransaction_removeRecursively_if ::
  "'s lmdb \<Rightarrow> (bytes \<Rightarrow> bool) \<Rightarrow> 's wtxn \<Rightarrow> u64 \<Rightarrow> (bool \<times> 's wtxn) option" where
  "WriteTransaction_removeRecursively_if L shouldDelete W parent =
     (if parent \<noteq> 0 \<and> \<not> shouldDelete (DocumentUrlDB_get L (m_txn W) parent) then Some (False, W)
      else Option.bind
             (removeIf_loop L shouldDelete True W (DocumentUrlDB_getChildren L (m_txn W) parent))
             (\<lambda>(e, W1). Some (removeRecursively_finish L e W1 parent)))"

section \<open>Commit\<close>

text \<open>
  The inner loop over the operations of one term; the state is \<open>list\<close>, \<open>fetchedPositionList\<close> and
  \<open>positionList\<close>.
\<close>

definition commit_op ::
  "'s lmdb \<Rightarrow> 's \<Rightarrow> bytes \<Rightarrow> PostingList \<times> bool \<times> PositionInfo list \<Rightarrow> Operation \<Rightarrow>
   PostingList \<times> bool \<times> PositionInfo list" where
  "commit_op L s t = (\<lambda>(list, fetchedPositionList, positionList) op.
     let i = docId (op_data op);
         fetched = (if fetchedPositionList then positionList else PositionDB_get L positionDBi s t)
     in case op_type op of
          AddId \<Rightarrow>
            (if positions (op_data op) \<noteq> []
             then (sortedIdInsert list i, True, sortedPosInsert fetched (op_data op))
             else (sortedIdInsert list i, fetchedPositionList, positionList))
        | RemoveId \<Rightarrow>
            (sortedIdRemove list i, True, sortedPosRemove fetched \<lparr>docId = i, positions = []\<rparr>))"

definition commit_term :: "'s lmdb \<Rightarrow> 's \<Rightarrow> bytes \<times> Operation list \<Rightarrow> 's" where
  "commit_term L s = (\<lambda>(t, operations).
     let (list, fetchedPositionList, positionList) =
           foldl (commit_op L s t) (PostingDB_get L postingDbi s t, False, []) operations;
         s1 = (if list \<noteq> [] then PostingDB_put L postingDbi s t list else PostingDB_del L postingDbi s t)
     in if fetchedPositionList
        then if positionList \<noteq> [] then PositionDB_put L positionDBi s1 t positionList
             else PositionDB_del L positionDBi s1 t
        else s1)"

definition WriteTransaction_commit :: "'s lmdb \<Rightarrow> 's wtxn \<Rightarrow> 's wtxn" where
  "WriteTransaction_commit L W =
     \<lparr>m_txn = foldl (commit_term L) (m_txn W) (m_pendingOperations W), m_pendingOperations = []\<rparr>"

end
