(* ===== verification/WriteIndex.thy ===== *)
theory WriteIndex
  imports WriteTransaction
begin

text \<open>
  What \<open>WriteTransaction\<close> promises. The posting lists are an inverted index of the term lists that
  are stored per document: \<open>index_inv\<close> says that, with the pending operations applied, a document is
  in the posting list of a term exactly when the term is in one of its three term lists, and that
  a document with positions for a term is in the term's posting list. Every operation keeps it, and
  \<open>commit\<close> makes it true of the stored lists.
\<close>

section \<open>The queue as a function\<close>

definition queue_adds :: "u64 \<Rightarrow> term_map \<Rightarrow> pending \<Rightarrow> pending" where
  "queue_adds i terms m = foldl (\<lambda>m (t, td). pending_append t (add_op i td) m) m terms"

definition queue_removes :: "u64 \<Rightarrow> bytes list \<Rightarrow> pending \<Rightarrow> pending" where
  "queue_removes i ts m = foldl (\<lambda>m t. pending_append t (remove_op i) m) m ts"

lemma addTerms_queue:
  "WriteTransaction_addTerms W i terms =
     (map_terms terms, W\<lparr>m_pendingOperations := queue_adds i terms (m_pendingOperations W)\<rparr>)"
proof -
  have "foldl (\<lambda>(termList, W) (t, td).
          (termList @ [t],
           W\<lparr>m_pendingOperations := pending_append t (add_op i td) (m_pendingOperations W)\<rparr>))
       (l, W) terms =
     (l @ map_terms terms, W\<lparr>m_pendingOperations := queue_adds i terms (m_pendingOperations W)\<rparr>)" for l
    by (induction terms arbitrary: l W) (auto simp: map_terms_def queue_adds_def)
  then show ?thesis by (simp add: WriteTransaction_addTerms_def)
qed

lemma removeTerms_queue:
  "WriteTransaction_removeTerms W i ts =
     W\<lparr>m_pendingOperations := queue_removes i ts (m_pendingOperations W)\<rparr>"
  unfolding WriteTransaction_removeTerms_def
  by (induction ts arbitrary: W) (auto simp: queue_removes_def)

lemma replaceTerms_queue:
  "WriteTransaction_replaceTerms W i prev terms =
     (map_terms terms, W\<lparr>m_pendingOperations :=
        queue_adds i terms (queue_removes i prev (m_pendingOperations W))\<rparr>)"
  using removeTerms_queue[of W i prev]
  by (simp add: WriteTransaction_replaceTerms_def addTerms_queue WriteTransaction_removeTerms_def)

lemmas wtxn_queue = addTerms_queue removeTerms_queue replaceTerms_queue

section \<open>The effect of the operations on one term\<close>

definition list_op :: "PostingList \<Rightarrow> Operation \<Rightarrow> PostingList" where
  "list_op list op =
     (case op_type op of AddId \<Rightarrow> sortedIdInsert list (docId (op_data op))
      | RemoveId \<Rightarrow> sortedIdRemove list (docId (op_data op)))"

definition pos_op :: "PositionInfo list \<Rightarrow> Operation \<Rightarrow> PositionInfo list" where
  "pos_op list op =
     (case op_type op of
        AddId \<Rightarrow> if positions (op_data op) \<noteq> [] then sortedPosInsert list (op_data op) else list
      | RemoveId \<Rightarrow> sortedPosRemove list \<lparr>docId = docId (op_data op), positions = []\<rparr>)"

definition set_op :: "u64 set \<Rightarrow> Operation \<Rightarrow> u64 set" where
  "set_op S op =
     (case op_type op of AddId \<Rightarrow> insert (docId (op_data op)) S | RemoveId \<Rightarrow> S - {docId (op_data op)})"

lemma commit_op_step:
  assumes "commit_op L s t (list, fetched, ps) op = (list', fetched', ps')"
  defines "P \<equiv> PositionDB_get L positionDBi s t"
  shows "list' = list_op list op"
    and "(if fetched' then ps' else P) = pos_op (if fetched then ps else P) op"
  using assms(1)
  by (auto simp: commit_op_def list_op_def pos_op_def P_def Let_def
      split: OperationType.splits if_splits)

lemma commit_op_fold:
  assumes "foldl (commit_op L s t) (list, fetched, ps) ops = (list', fetched', ps')"
  defines "P \<equiv> PositionDB_get L positionDBi s t"
  shows "list' = foldl list_op list ops \<and>
    (if fetched' then ps' else P) = foldl pos_op (if fetched then ps else P) ops"
  using assms(1)
proof (induction ops arbitrary: list fetched ps)
  case (Cons op ops)
  obtain l f p where step: "commit_op L s t (list, fetched, ps) op = (l, f, p)"
    by (metis prod_cases3)
  from Cons.prems step have "foldl (commit_op L s t) (l, f, p) ops = (list', fetched', ps')"
    by simp
  from Cons.IH[OF this] show ?case
    using commit_op_step[OF step] unfolding P_def by simp
qed auto

lemma list_op_asc: "asc l \<Longrightarrow> asc (foldl list_op l ops)"
  by (induction ops arbitrary: l) (auto simp: list_op_def split: OperationType.split)

lemma set_list_op: "asc l \<Longrightarrow> set (foldl list_op l ops) = foldl set_op (set l) ops"
proof (induction ops arbitrary: l)
  case (Cons op ops)
  have "asc (list_op l op)" using list_op_asc[OF Cons.prems, of "[op]"] by simp
  then show ?case
    using Cons by (auto simp: list_op_def set_op_def split: OperationType.split)
qed simp

lemma pos_op_asc: "asc_pos l \<Longrightarrow> asc_pos (foldl pos_op l ops)"
  by (induction ops arbitrary: l) (auto simp: pos_op_def split: OperationType.split)

definition ops_fit :: "Operation list \<Rightarrow> bool" where
  "ops_fit ops \<longleftrightarrow> (\<forall>op \<in> set ops. length (positions (op_data op)) < 2 ^ 32)"

lemma set_pos_op: "asc_pos l \<Longrightarrow> set (pos_op l op) \<subseteq> insert (op_data op) (set l)"
  by (auto simp: pos_op_def set_sortedPosInsert set_sortedPosRemove split: OperationType.split if_splits)

lemma pos_op_step:
  assumes "asc_pos l" "length (positions (op_data op)) < 2 ^ 32" "positions_fit l"
  shows "positions_fit (pos_op l op)"
  using set_pos_op[OF assms(1), of op] assms(2,3) by blast

lemma ops_fit_Cons:
  "ops_fit (op # ops) \<longleftrightarrow> length (positions (op_data op)) < 2 ^ 32 \<and> ops_fit ops"
  unfolding ops_fit_def list.set by blast

lemma pos_op_fit: "asc_pos l \<Longrightarrow> positions_fit l \<Longrightarrow> ops_fit ops \<Longrightarrow> positions_fit (foldl pos_op l ops)"
proof (induction ops arbitrary: l)
  case (Cons op ops)
  have "asc_pos (pos_op l op)" using pos_op_asc[OF Cons.prems(1), of "[op]"] by simp
  moreover have "positions_fit (pos_op l op)"
    using pos_op_step Cons.prems unfolding ops_fit_Cons by blast
  ultimately have "positions_fit (foldl pos_op (pos_op l op) ops)"
    using Cons.IH Cons.prems(3) unfolding ops_fit_Cons by blast
  then show ?case unfolding foldl.simps .
next
  case Nil
  then show ?case unfolding foldl.simps by blast
qed

lemma pos_op_subset:
  assumes "asc_pos l" "docId ` set l \<subseteq> S"
  shows "docId ` set (foldl pos_op l ops) \<subseteq> foldl set_op S ops"
  using assms
proof (induction ops arbitrary: l S)
  case (Cons op ops)
  have "docId ` set (pos_op l op) \<subseteq> set_op S op"
    using Cons.prems by (auto simp: pos_op_def set_op_def set_sortedPosInsert set_sortedPosRemove
        split: OperationType.split)
  then show ?case
    using Cons.IH[of "pos_op l op" "set_op S op"] pos_op_asc[OF Cons.prems(1), of "[op]"] by simp
qed simp

section \<open>Commit\<close>

definition word_ok :: "bytes \<Rightarrow> bool" where
  "word_ok t \<longleftrightarrow> t \<noteq> [] \<and> length t \<le> 511 \<and> term_bytes_ok t"

definition pending_ok :: "pending \<Rightarrow> bool" where
  "pending_ok m \<longleftrightarrow> distinct (map fst m) \<and> (\<forall>(t, ops) \<in> set m. word_ok t \<and> ops_fit ops)"

definition lists_ok :: "'s lmdb \<Rightarrow> 's \<Rightarrow> bool" where
  "lists_ok L s \<longleftrightarrow>
     (\<forall>t. asc (PostingDB_get L postingDbi s t)) \<and>
     (\<forall>t. asc_pos (PositionDB_get L positionDBi s t)) \<and>
     (\<forall>t. positions_fit (PositionDB_get L positionDBi s t)) \<and>
     (\<forall>t. docId ` set (PositionDB_get L positionDBi s t) \<subseteq> set (PostingDB_get L postingDbi s t))"

lemma lists_okD:
  assumes "lists_ok L s"
  shows "asc (PostingDB_get L postingDbi s t)" "asc_pos (PositionDB_get L positionDBi s t)"
    "positions_fit (PositionDB_get L positionDBi s t)"
    "docId ` set (PositionDB_get L positionDBi s t) \<subseteq> set (PostingDB_get L postingDbi s t)"
  using assms unfolding lists_ok_def by blast+

lemmas term_write_defs = PostingDB_put_def PostingDB_del_def PositionDB_put_def PositionDB_del_def

lemma commit_term_reads:
  assumes "lmdb_ok L" "lists_ok L s" "word_ok t" "ops_fit ops"
  shows "PostingDB_get L postingDbi (commit_term L s (t, ops)) t' =
      (if t' = t then foldl list_op (PostingDB_get L postingDbi s t') ops
       else PostingDB_get L postingDbi s t')"
    and "PositionDB_get L positionDBi (commit_term L s (t, ops)) t' =
      (if t' = t then foldl pos_op (PositionDB_get L positionDBi s t') ops
       else PositionDB_get L positionDBi s t')"
    and "d \<noteq> postingDbi \<Longrightarrow> d \<noteq> positionDBi \<Longrightarrow>
      mdb_scan L (commit_term L s (t, ops)) d = mdb_scan L s d"
proof -
  let ?P = "PositionDB_get L positionDBi s t"
  obtain l f ps where fold:
    "foldl (commit_op L s t) (PostingDB_get L postingDbi s t, False, []) ops = (l, f, ps)"
    by (metis prod_cases3)
  from commit_op_fold[OF this]
  have l: "l = foldl list_op (PostingDB_get L postingDbi s t) ops"
    and ps: "(if f then ps else ?P) = foldl pos_op ?P ops" by auto
  have key: "term_key_ok postingDbi t" "term_key_ok positionDBi t"
    using assms(3) by (auto simp: word_ok_def)
  have fit: "positions_fit ps" if f
    using pos_op_fit[OF lists_okD(2,3)[OF assms(2)] assms(4), of t] ps that by auto
  note defs = commit_term_def fold term_write_defs Let_def
  show "PostingDB_get L postingDbi (commit_term L s (t, ops)) t' =
      (if t' = t then foldl list_op (PostingDB_get L postingDbi s t') ops
       else PostingDB_get L postingDbi s t')"
    using assms(1) key by (auto simp: defs l[symmetric] table_simps)
  show "d \<noteq> postingDbi \<Longrightarrow> d \<noteq> positionDBi \<Longrightarrow>
      mdb_scan L (commit_term L s (t, ops)) d = mdb_scan L s d"
    using assms(1) by (simp add: defs lmdb_simps)
  show "PositionDB_get L positionDBi (commit_term L s (t, ops)) t' =
      (if t' = t then foldl pos_op (PositionDB_get L positionDBi s t') ops
       else PositionDB_get L positionDBi s t')"
  proof (cases f)
    case True
    with ps have "foldl pos_op ?P ops = ps" by simp
    then show ?thesis
      using assms(1) key fit True by (auto simp: defs table_simps)
  next
    case False
    with ps show ?thesis
      using assms(1) by (auto simp: defs table_simps)
  qed
qed

lemma commit_term_lists_ok:
  assumes "lmdb_ok L" "lists_ok L s" "word_ok t" "ops_fit ops"
  shows "lists_ok L (commit_term L s (t, ops))"
  unfolding lists_ok_def commit_term_reads(1,2)[OF assms]
  using lists_okD[OF assms(2)] pos_op_fit[OF lists_okD(2,3)[OF assms(2)] assms(4)]
    pos_op_subset[OF lists_okD(2,4)[OF assms(2)], of _ ops]
  by (simp add: list_op_asc pos_op_asc set_list_op)

lemma pending_ops_Cons:
  "pending_ops ((t, ops) # m) t' = (if t' = t then ops else pending_ops m t')"
  by (simp add: pending_ops_def)

lemma pending_ops_absent: "t \<notin> fst ` set m \<Longrightarrow> pending_ops m t = []"
  by (auto simp: pending_ops_def map_of_eq_None_iff[THEN iffD2])

text \<open>Every row after \<open>commit\<close>, whatever the order in which the terms are visited.\<close>

lemma commit_fold_reads:
  assumes "lmdb_ok L" "lists_ok L s" "pending_ok m"
  shows "PostingDB_get L postingDbi (foldl (commit_term L) s m) t =
      foldl list_op (PostingDB_get L postingDbi s t) (pending_ops m t) \<and>
    PositionDB_get L positionDBi (foldl (commit_term L) s m) t =
      foldl pos_op (PositionDB_get L positionDBi s t) (pending_ops m t) \<and>
    lists_ok L (foldl (commit_term L) s m) \<and>
    (d \<noteq> postingDbi \<and> d \<noteq> positionDBi \<longrightarrow>
      mdb_scan L (foldl (commit_term L) s m) d = mdb_scan L s d)"
  using assms(2,3)
proof (induction m arbitrary: s)
  case (Cons e m)
  obtain t' ops where e: "e = (t', ops)" by (cases e)
  from Cons.prems e have ok: "word_ok t'" "ops_fit ops" "pending_ok m" and new: "t' \<notin> fst ` set m"
    by (auto simp: pending_ok_def)
  note step = commit_term_reads[OF assms(1) Cons.prems(1) ok(1,2)]
  have "lists_ok L (commit_term L s (t', ops))"
    by (rule commit_term_lists_ok[OF assms(1) Cons.prems(1) ok(1,2)])
  from Cons.IH[OF this ok(3)] show ?case
    using pending_ops_absent[OF new] by (simp add: e step pending_ops_Cons)
qed simp

lemma commit_reads:
  assumes "lmdb_ok L" "lists_ok L (m_txn W)" "pending_ok (m_pendingOperations W)"
  shows "PostingDB_get L postingDbi (m_txn (WriteTransaction_commit L W)) t =
      foldl list_op (PostingDB_get L postingDbi (m_txn W) t) (pending_ops (m_pendingOperations W) t)"
    and "PositionDB_get L positionDBi (m_txn (WriteTransaction_commit L W)) t =
      foldl pos_op (PositionDB_get L positionDBi (m_txn W) t) (pending_ops (m_pendingOperations W) t)"
    and "lists_ok L (m_txn (WriteTransaction_commit L W))"
    and "d \<noteq> postingDbi \<Longrightarrow> d \<noteq> positionDBi \<Longrightarrow>
      mdb_scan L (m_txn (WriteTransaction_commit L W)) d = mdb_scan L (m_txn W) d"
    and "m_pendingOperations (WriteTransaction_commit L W) = []"
  using commit_fold_reads[OF assms] by (auto simp: WriteTransaction_commit_def)

section \<open>The inverted index\<close>

definition doc_words :: "'s lmdb \<Rightarrow> 's \<Rightarrow> u64 \<Rightarrow> bytes set" where
  "doc_words L s i =
     set (DocumentDB_get L docTermsDbi s i) \<union> set (DocumentDB_get L docXattrTermsDbi s i) \<union>
     set (DocumentDB_get L docFilenameTermsDbi s i)"

definition postings :: "'s lmdb \<Rightarrow> 's wtxn \<Rightarrow> bytes \<Rightarrow> u64 set" where
  "postings L W t =
     foldl set_op (set (PostingDB_get L postingDbi (m_txn W) t)) (pending_ops (m_pendingOperations W) t)"

definition index_inv :: "'s lmdb \<Rightarrow> 's wtxn \<Rightarrow> bool" where
  "index_inv L W \<longleftrightarrow>
     lists_ok L (m_txn W) \<and> pending_ok (m_pendingOperations W) \<and>
     (\<forall>i. \<forall>t \<in> doc_words L (m_txn W) i. word_ok t) \<and>
     (\<forall>t. postings L W t = {i. t \<in> doc_words L (m_txn W) i})"

lemma index_invD:
  assumes "index_inv L W"
  shows "lists_ok L (m_txn W)" "pending_ok (m_pendingOperations W)"
    "t \<in> doc_words L (m_txn W) i \<Longrightarrow> word_ok t"
    "i \<in> postings L W t \<longleftrightarrow> t \<in> doc_words L (m_txn W) i"
  using assms unfolding index_inv_def by blast+

lemma doc_words_cong:
  assumes "lmdb_ok L" "\<And>d. d \<in> {docTermsDbi, docXattrTermsDbi, docFilenameTermsDbi} \<Longrightarrow>
    mdb_scan L s d = mdb_scan L s' d"
  shows "doc_words L s i = doc_words L s' i"
  using assms by (simp add: doc_words_def document_tbl.get_cong[OF assms(1), of s _ s'])

text \<open>Queueing additions or removals of one document changes the postings by just that.\<close>

lemma queue_adds_Cons [simp]:
  "queue_adds i ((t, td) # terms) m = queue_adds i terms (pending_append t (add_op i td) m)"
  by (simp add: queue_adds_def)

lemma queue_adds_Nil [simp]: "queue_adds i [] m = m"
  by (simp add: queue_adds_def)

lemma queue_removes_Cons [simp]:
  "queue_removes i (t # ts) m = queue_removes i ts (pending_append t (remove_op i) m)"
  by (simp add: queue_removes_def)

lemma queue_removes_Nil [simp]: "queue_removes i [] m = m"
  by (simp add: queue_removes_def)

lemma set_op_simps [simp]:
  "set_op S (add_op i td) = insert i S" "set_op S (remove_op i) = S - {i}"
  by (simp_all add: set_op_def add_op_def remove_op_def)

lemma fold_queue_adds:
  "foldl set_op S (pending_ops (queue_adds i terms m) t) =
     foldl set_op S (pending_ops m t) \<union> (if t \<in> fst ` set terms then {i} else {})"
proof (induction terms arbitrary: m)
  case (Cons e terms)
  then show ?case by (cases e) (auto simp: pending_ops_append)
qed simp

lemma fold_queue_removes:
  "foldl set_op S (pending_ops (queue_removes i ts m) t) =
     foldl set_op S (pending_ops m t) - (if t \<in> set ts then {i} else {})"
proof (induction ts arbitrary: m)
  case (Cons t' ts)
  show ?case by (auto simp: Cons.IH pending_ops_append)
qed simp

lemma pending_ok_append:
  assumes "pending_ok m" "word_ok t" "length (positions (op_data op)) < 2 ^ 32"
  shows "pending_ok (pending_append t op m)"
proof -
  have "(\<forall>(t, ops) \<in> set m. word_ok t \<and> ops_fit ops) \<Longrightarrow>
    (\<forall>(t, ops) \<in> set (pending_append t op m). word_ok t \<and> ops_fit ops)"
    using assms(2,3) by (induction m) (auto simp: ops_fit_def)
  then show ?thesis using assms(1) by (simp add: pending_ok_def)
qed

definition terms_ok :: "term_map \<Rightarrow> bool" where
  "terms_ok terms \<longleftrightarrow> (\<forall>(t, td) \<in> set terms. word_ok t \<and> length td < 2 ^ 32)"

lemma pending_ok_adds: "pending_ok m \<Longrightarrow> terms_ok terms \<Longrightarrow> pending_ok (queue_adds i terms m)"
proof (induction terms arbitrary: m)
  case (Cons e terms)
  then show ?case
    by (cases e) (auto simp: terms_ok_def add_op_def intro!: Cons.IH pending_ok_append)
qed simp

lemma pending_ok_removes: "pending_ok m \<Longrightarrow> \<forall>t \<in> set ts. word_ok t \<Longrightarrow> pending_ok (queue_removes i ts m)"
proof (induction ts arbitrary: m)
  case (Cons t ts)
  then show ?case
    by (auto simp: remove_op_def intro!: Cons.IH pending_ok_append)
qed simp

section \<open>Every operation keeps the index\<close>

text \<open>
  The words \<open>R\<close> of document \<open>i\<close> are removed and the words \<open>A\<close> added, in the queue and in the stored
  term lists.
\<close>

lemma index_inv_change:
  assumes "lmdb_ok L" "index_inv L W"
    and scan: "mdb_scan L (m_txn W') postingDbi = mdb_scan L (m_txn W) postingDbi"
      "mdb_scan L (m_txn W') positionDBi = mdb_scan L (m_txn W) positionDBi"
    and m: "pending_ok (m_pendingOperations W')"
      "\<And>S t. foldl set_op S (pending_ops (m_pendingOperations W') t) =
        foldl set_op S (pending_ops (m_pendingOperations W) t) - (if t \<in> R then {i} else {}) \<union>
        (if t \<in> A then {i} else {})"
    and words: "\<And>j. doc_words L (m_txn W') j =
      (if j = i then (doc_words L (m_txn W) i - R) \<union> A else doc_words L (m_txn W) j)"
      "\<And>t. t \<in> A \<Longrightarrow> word_ok t"
  shows "index_inv L W'"
proof -
  have get: "PostingDB_get L postingDbi (m_txn W') t = PostingDB_get L postingDbi (m_txn W) t"
    "PositionDB_get L positionDBi (m_txn W') t = PositionDB_get L positionDBi (m_txn W) t" for t
    using posting_tbl.get_cong[OF assms(1) scan(1)] position_tbl.get_cong[OF assms(1) scan(2)]
    by blast+
  have "lists_ok L (m_txn W')"
    using index_invD(1)[OF assms(2)] unfolding lists_ok_def get .
  moreover have "postings L W' t = {j. t \<in> doc_words L (m_txn W') j}" for t
    using index_invD(4)[OF assms(2), of _ t] unfolding postings_def get m(2) words(1) by auto
  moreover have "word_ok t" if "t \<in> doc_words L (m_txn W') j" for t j
    using that words(2) index_invD(3)[OF assms(2)] unfolding words(1) by (auto split: if_splits)
  ultimately show ?thesis
    using m(1) unfolding index_inv_def by blast
qed

lemma index_inv_commit:
  assumes "lmdb_ok L" "index_inv L W"
  shows "index_inv L (WriteTransaction_commit L W)"
proof -
  note commit = commit_reads[OF assms(1) index_invD(1,2)[OF assms(2)]]
  have words: "doc_words L (m_txn (WriteTransaction_commit L W)) i = doc_words L (m_txn W) i" for i
    by (rule doc_words_cong[OF assms(1)]) (auto simp: commit(4))
  have "postings L (WriteTransaction_commit L W) t = postings L W t" for t
    using lists_okD(1)[OF index_invD(1)[OF assms(2)]]
    by (simp add: postings_def commit set_list_op)
  with words commit(3,5) show ?thesis
    using assms(2) by (simp add: index_inv_def pending_ok_def)
qed

end
