(* ===== verification/WriteOps.thy ===== *)
theory WriteOps
  imports WriteIndex
begin

text \<open>
  \<open>addDocument\<close>, \<open>removeDocument\<close> and \<open>replaceDocument\<close> on the stored rows and on the index: what
  each sub-database holds for the document afterwards, that no other document changes, and that
  \<open>index_inv\<close> and \<open>url_inv\<close> are kept.
\<close>

lemmas row_write_defs = DocumentDB_put_def DocumentDB_del_def DocumentIdDB_put_def DocumentIdDB_del_def
  DocumentDataDB_put_def DocumentDataDB_del_def DocumentTimeDB_put_def DocumentTimeDB_del_def
  MTimeDB_put_def MTimeDB_del_def txn_map_def

section \<open>What the file tree operations leave alone\<close>

abbreviation url_dbi :: "MDB_dbi \<Rightarrow> bool" where
  "url_dbi d \<equiv> d = idTreeDbi \<or> d = idFilenameDbi"

lemma IdTreeDB_set_scan:
  "lmdb_ok L \<Longrightarrow> d \<noteq> idTreeDbi \<Longrightarrow> mdb_scan L (IdTreeDB_set L idTreeDbi s i subs) d = mdb_scan L s d"
  by (simp add: IdTreeDB_set_def lmdb_simps)

lemma DocumentUrlDB_add_scan:
  "lmdb_ok L \<Longrightarrow> \<not> url_dbi d \<Longrightarrow> mdb_scan L (DocumentUrlDB_add L s i p nm) d = mdb_scan L s d"
  by (simp add: DocumentUrlDB_add_def url_write_defs Let_def lmdb_simps IdTreeDB_set_scan)

lemma DocumentUrlDB_put_scan:
  "lmdb_ok L \<Longrightarrow> \<not> url_dbi d \<Longrightarrow> mdb_scan L (snd (DocumentUrlDB_put L s i p nm)) d = mdb_scan L s d"
  by (simp add: DocumentUrlDB_put_def DocumentUrlDB_add_scan)

lemma DocumentUrlDB_del_scan:
  "lmdb_ok L \<Longrightarrow> \<not> url_dbi d \<Longrightarrow> mdb_scan L (DocumentUrlDB_del L s i) d = mdb_scan L s d"
  by (simp add: DocumentUrlDB_del_def removeOne_def url_write_defs Let_def lmdb_simps IdTreeDB_set_scan)

lemma DocumentUrlDB_updateUrl_scan:
  "lmdb_ok L \<Longrightarrow> \<not> url_dbi d \<Longrightarrow> mdb_scan L (DocumentUrlDB_updateUrl L s i p nm) d = mdb_scan L s d"
  by (simp add: DocumentUrlDB_updateUrl_def removeOne_def url_write_defs Let_def lmdb_simps
      IdTreeDB_set_scan)

lemma DocumentUrlDB_addPath_loop_scan:
  "lmdb_ok L \<Longrightarrow> \<not> url_dbi d \<Longrightarrow>
   mdb_scan L (snd (DocumentUrlDB_addPath_loop L fs s arr i)) d = mdb_scan L s d"
proof (induction L fs s arr i rule: DocumentUrlDB_addPath_loop.induct)
  case (1 L fs s arr i)
  show ?case
    using "1.IH"[OF _ _ refl refl] "1.prems"
    by (subst DocumentUrlDB_addPath_loop.simps) (auto simp: Let_def DocumentUrlDB_add_scan)
qed

lemma DocumentUrlDB_addPath_scan:
  "lmdb_ok L \<Longrightarrow> \<not> url_dbi d \<Longrightarrow> mdb_scan L (snd (DocumentUrlDB_addPath L fs s url)) d = mdb_scan L s d"
  by (simp add: DocumentUrlDB_addPath_def DocumentUrlDB_addPath_loop_scan)

lemmas url_scans = DocumentUrlDB_add_scan DocumentUrlDB_put_scan DocumentUrlDB_del_scan
  DocumentUrlDB_updateUrl_scan DocumentUrlDB_addPath_scan

section \<open>addDocument\<close>

text \<open>The url part of \<open>addDocument\<close>: the store after \<open>addPath\<close> and \<open>put\<close>, and whether \<open>put\<close> succeeded.\<close>

definition addDocument_url :: "'s lmdb \<Rightarrow> fs_api \<Rightarrow> 's \<Rightarrow> Document \<Rightarrow> bool \<times> 's" where
  "addDocument_url L fs s doc =
     (let url = m_url doc; pos = lastIndexOf url slash;
          (s1, parent) =
            (if pos > 0 then (snd (DocumentUrlDB_addPath L fs s (take (nat pos) url)), m_parentId doc)
             else (s, 0))
      in DocumentUrlDB_put L s1 (m_id doc) parent (filename_of_url url))"

definition addDocument_rows ::
  "'s lmdb \<Rightarrow> (QString \<Rightarrow> bytes) \<Rightarrow> 's \<Rightarrow> Document \<Rightarrow> 's" where
  "addDocument_rows L json s doc =
     (let i = m_id doc;
          s1 = DocumentDB_put L docTermsDbi s i (map_terms (m_terms doc));
          s2 = (if m_xattrTerms doc \<noteq> []
                then DocumentDB_put L docXattrTermsDbi s1 i (map_terms (m_xattrTerms doc)) else s1);
          s3 = (if m_fileNameTerms doc \<noteq> []
                then DocumentDB_put L docFilenameTermsDbi s2 i (map_terms (m_fileNameTerms doc)) else s2);
          s4 = (if m_contentIndexing doc then DocumentIdDB_put L contentIndexingDbi s3 i else s3);
          s5 = DocumentTimeDB_put L docTimeDbi s4 i \<lparr>mTime = m_mTime doc, cTime = m_cTime doc\<rparr>;
          s6 = MTimeDB_put L mtimeDbi s5 (m_mTime doc) i
      in if Document_data json doc \<noteq> []
         then DocumentDataDB_put L docDataDbi s6 i (Document_data json doc) else s6)"

lemma map_terms_Nil [simp]: "map_terms m = [] \<longleftrightarrow> m = []"
  by (simp add: map_terms_def)

lemma set_map_terms [simp]: "set (map_terms m) = fst ` set m"
  by (simp add: map_terms_def)

lemma addDocument_split:
  "WriteTransaction_addDocument L json fs W doc =
     (let (ok, s) = addDocument_url L fs (m_txn W) doc
      in if \<not> ok then W\<lparr>m_txn := s\<rparr>
         else \<lparr>m_txn = addDocument_rows L json s doc,
               m_pendingOperations =
                 queue_adds (m_id doc) (m_fileNameTerms doc)
                   (queue_adds (m_id doc) (m_xattrTerms doc)
                     (queue_adds (m_id doc) (m_terms doc) (m_pendingOperations W)))\<rparr>)"
  by (cases W) (simp add: WriteTransaction_addDocument_def addDocument_url_def addDocument_rows_def
      Let_def wtxn_queue txn_map_def split: prod.split)

lemma addDocument_url_scan:
  "lmdb_ok L \<Longrightarrow> \<not> url_dbi d \<Longrightarrow> mdb_scan L (snd (addDocument_url L fs s doc)) d = mdb_scan L s d"
  by (simp add: addDocument_url_def Let_def url_scans)

definition doc_ok :: "Document \<Rightarrow> bool" where
  "doc_ok doc \<longleftrightarrow> m_terms doc \<noteq> [] \<and> terms_ok (m_terms doc) \<and> terms_ok (m_xattrTerms doc) \<and>
     terms_ok (m_fileNameTerms doc)"

text \<open>For a replacement only the groups that are replaced matter; the stored content terms may not become empty.\<close>

definition doc_fits :: "Document \<Rightarrow> DocumentOperations \<Rightarrow> bool" where
  "doc_fits doc operations \<longleftrightarrow> terms_ok (m_terms doc) \<and> terms_ok (m_xattrTerms doc) \<and>
     terms_ok (m_fileNameTerms doc) \<and> (operations AND DocumentTerms \<noteq> 0 \<longrightarrow> m_terms doc \<noteq> [])"

lemma doc_ok_fits: "doc_ok doc \<Longrightarrow> doc_fits doc operations"
  by (simp add: doc_ok_def doc_fits_def)

lemma terms_ok_list: "terms_ok m \<Longrightarrow> \<forall>t \<in> set (map_terms m). term_bytes_ok t"
  by (auto simp: terms_ok_def word_ok_def)

lemma terms_ok_word: "terms_ok m \<Longrightarrow> t \<in> fst ` set m \<Longrightarrow> word_ok t"
  by (auto simp: terms_ok_def)

text \<open>The rows of the document after \<open>addDocument\<close>, and those of the others.\<close>

lemma addDocument_rows_reads:
  fixes json :: "QString \<Rightarrow> bytes" and s :: 's
  assumes "lmdb_ok L" "doc_ok doc"
  defines "s' \<equiv> addDocument_rows L json s doc" and "i \<equiv> m_id doc"
  shows "DocumentDB_get L docTermsDbi s' j =
      (if j = i then map_terms (m_terms doc) else DocumentDB_get L docTermsDbi s j)"
    and "DocumentDB_get L docXattrTermsDbi s' j =
      (if j = i \<and> m_xattrTerms doc \<noteq> [] then map_terms (m_xattrTerms doc)
       else DocumentDB_get L docXattrTermsDbi s j)"
    and "DocumentDB_get L docFilenameTermsDbi s' j =
      (if j = i \<and> m_fileNameTerms doc \<noteq> [] then map_terms (m_fileNameTerms doc)
       else DocumentDB_get L docFilenameTermsDbi s j)"
    and "DocumentTimeDB_get L docTimeDbi s' j =
      (if j = i then \<lparr>mTime = m_mTime doc, cTime = m_cTime doc\<rparr> else DocumentTimeDB_get L docTimeDbi s j)"
    and "DocumentIdDB_contains L contentIndexingDbi s' j \<longleftrightarrow>
      j = i \<and> m_contentIndexing doc \<or> DocumentIdDB_contains L contentIndexingDbi s j"
    and "DocumentDataDB_get L docDataDbi s' j =
      (if j = i \<and> Document_data json doc \<noteq> [] then Document_data json doc
       else DocumentDataDB_get L docDataDbi s j)"
    and "d \<in> {postingDbi, positionDBi, idTreeDbi, idFilenameDbi, failedIdDbi} \<Longrightarrow>
      mdb_scan L s' d = mdb_scan L s d"
proof -
  have ok: "\<forall>t \<in> fst ` set m. term_bytes_ok t"
    if "m \<in> {m_terms doc, m_xattrTerms doc, m_fileNameTerms doc}" for m
    using that assms(2) terms_ok_list unfolding doc_ok_def by auto
  note defs = s'_def i_def addDocument_rows_def Let_def row_write_defs
  have ne: "m_terms doc \<noteq> []" using assms(2) by (simp add: doc_ok_def)
  show "DocumentDB_get L docTermsDbi s' j =
      (if j = i then map_terms (m_terms doc) else DocumentDB_get L docTermsDbi s j)"
    using assms(1) ne ok[of "m_terms doc"] by (simp add: defs table_simps)
  show "DocumentDB_get L docXattrTermsDbi s' j =
      (if j = i \<and> m_xattrTerms doc \<noteq> [] then map_terms (m_xattrTerms doc)
       else DocumentDB_get L docXattrTermsDbi s j)"
    using assms(1) ok[of "m_xattrTerms doc"] by (simp add: defs table_simps)
  show "DocumentDB_get L docFilenameTermsDbi s' j =
      (if j = i \<and> m_fileNameTerms doc \<noteq> [] then map_terms (m_fileNameTerms doc)
       else DocumentDB_get L docFilenameTermsDbi s j)"
    using assms(1) ok[of "m_fileNameTerms doc"] by (simp add: defs table_simps)
  show "DocumentTimeDB_get L docTimeDbi s' j =
      (if j = i then \<lparr>mTime = m_mTime doc, cTime = m_cTime doc\<rparr> else DocumentTimeDB_get L docTimeDbi s j)"
    using assms(1) by (simp add: defs table_simps)
  show "DocumentIdDB_contains L contentIndexingDbi s' j \<longleftrightarrow>
      j = i \<and> m_contentIndexing doc \<or> DocumentIdDB_contains L contentIndexingDbi s j"
    using assms(1) by (simp add: defs table_simps)
  show "DocumentDataDB_get L docDataDbi s' j =
      (if j = i \<and> Document_data json doc \<noteq> [] then Document_data json doc
       else DocumentDataDB_get L docDataDbi s j)"
    using assms(1) by (simp add: defs table_simps)
  show "d \<in> {postingDbi, positionDBi, idTreeDbi, idFilenameDbi, failedIdDbi} \<Longrightarrow>
      mdb_scan L s' d = mdb_scan L s d"
    using assms(1) by (auto simp: defs lmdb_simps)
qed

lemma index_inv_addDocument:
  assumes "lmdb_ok L" "index_inv L W" "doc_ok doc" "doc_words L (m_txn W) (m_id doc) = {}"
  shows "index_inv L (WriteTransaction_addDocument L json fs W doc)" (is "index_inv L ?W")
proof -
  obtain ok s where url: "addDocument_url L fs (m_txn W) doc = (ok, s)" by (metis prod.exhaust)
  then have scan: "\<not> url_dbi d \<Longrightarrow> mdb_scan L s d = mdb_scan L (m_txn W) d" for d
    using addDocument_url_scan[OF assms(1), of d fs "m_txn W" doc] by simp
  then have words: "doc_words L s j = doc_words L (m_txn W) j" for j
    by (intro doc_words_cong[OF assms(1)]) auto
  note reads = addDocument_rows_reads[OF assms(1,3)]
  have terms: "terms_ok (m_terms doc)" "terms_ok (m_xattrTerms doc)" "terms_ok (m_fileNameTerms doc)"
    using assms(3) by (auto simp: doc_ok_def)
  show ?thesis
  proof (cases ok)
    case False
    then have W: "?W = W\<lparr>m_txn := s\<rparr>" by (simp add: addDocument_split url)
    show ?thesis
      by (rule index_inv_change[OF assms(1,2), where R = "{}" and A = "{}" and i = 0])
        (use index_invD(2)[OF assms(2)] scan words in \<open>auto simp: W\<close>)
  next
    case True
    let ?A = "fst ` set (m_terms doc) \<union> fst ` set (m_xattrTerms doc) \<union> fst ` set (m_fileNameTerms doc)"
    show ?thesis
    proof (rule index_inv_change[OF assms(1,2), where R = "{}" and A = ?A and i = "m_id doc"])
      show "pending_ok (m_pendingOperations ?W)"
        using index_invD(2)[OF assms(2)] terms True
        by (simp add: addDocument_split url pending_ok_adds)
      have none: "DocumentDB_get L d s (m_id doc) = []"
        if "d \<in> {docTermsDbi, docXattrTermsDbi, docFilenameTermsDbi}" for d
        using assms(4) words[of "m_id doc"] that by (auto simp: doc_words_def)
      show "doc_words L (m_txn ?W) j =
          (if j = m_id doc then doc_words L (m_txn W) (m_id doc) - {} \<union> ?A else doc_words L (m_txn W) j)"
        for j
        using True none assms(4) words[of j] by (auto simp: addDocument_split url doc_words_def reads)
      show "word_ok t" if "t \<in> ?A" for t
        using that terms_ok_word[OF terms(1)] terms_ok_word[OF terms(2)] terms_ok_word[OF terms(3)] by blast
    qed (use True scan in \<open>auto simp: addDocument_split url reads fold_queue_adds\<close>)
  qed
qed

text \<open>\<open>addPath\<close> enters only ids of the directories above the file.\<close>

lemma addPath_loop_tree:
  "lmdb_ok L \<Longrightarrow> i = filePathToId fs arr \<Longrightarrow> \<forall>q. prefix q arr \<longrightarrow> filePathToId fs q \<noteq> j \<Longrightarrow>
   url_tree L (snd (DocumentUrlDB_addPath_loop L fs s arr i)) j = url_tree L s j"
proof (induction L fs s arr i rule: DocumentUrlDB_addPath_loop.induct)
  case (1 L fs s arr i)
  have "j \<noteq> i" using "1.prems"(2,3) by auto
  then have add: "url_tree L (DocumentUrlDB_add L s i p nm) j = url_tree L s j" for p nm
    using DocumentUrlDB_add_reads(1)[OF "1.prems"(1), of i nm s p j]
    by (cases "i = 0 \<or> nm = []") (auto simp: DocumentUrlDB_add_def)
  have pre: "\<forall>q. prefix q (take n arr) \<longrightarrow> filePathToId fs q \<noteq> j" for n
    using "1.prems"(3) prefix_order.trans[OF _ take_is_prefix, of _ n arr] by blast
  show ?case
    using "1.IH"[OF _ _ refl refl _ refl refl] "1.prems"(1) add pre
    by (subst DocumentUrlDB_addPath_loop.simps) (simp add: Let_def)
qed

lemma addPath_tree:
  "lmdb_ok L \<Longrightarrow> \<forall>q. prefix q url \<longrightarrow> filePathToId fs q \<noteq> j \<Longrightarrow>
   url_tree L (snd (DocumentUrlDB_addPath L fs s url)) j = url_tree L s j"
  by (simp add: DocumentUrlDB_addPath_def addPath_loop_tree)

lemma url_inv_addDocument_url:
  assumes "lmdb_ok L" "url_inv L s" "url_tree L s (m_id doc) = None"
    and "\<forall>q. strict_prefix q (m_url doc) \<longrightarrow> filePathToId fs q \<noteq> m_id doc"
  shows "url_inv L (snd (addDocument_url L fs s doc))"
proof -
  let ?n = "nat (lastIndexOf (m_url doc) slash)"
  let ?p = "take ?n (m_url doc)"
  have put: "url_inv L (snd (DocumentUrlDB_put L s' (m_id doc) p nm))"
    if "url_inv L s'" "url_tree L s' (m_id doc) = None" for s' p nm
    using that assms(1) by (auto simp: DocumentUrlDB_put_def intro!: url_inv_add)
  have "\<forall>q. prefix q ?p \<longrightarrow> filePathToId fs q \<noteq> m_id doc" if pos: "lastIndexOf (m_url doc) slash > 0"
  proof (intro allI impI)
    fix q assume q: "prefix q ?p"
    from pos have "m_url doc \<noteq> []" by (auto simp: lastIndexOf_def)
    then have "length ?p < length (m_url doc)" using lastIndexOf_less by auto
    with q have "strict_prefix q (m_url doc)"
      by (metis leD prefix_length_le prefix_order.trans strict_prefix_def take_is_prefix)
    then show "filePathToId fs q \<noteq> m_id doc" using assms(4) by blast
  qed
  then show ?thesis
    using assms(1-3) put by (auto simp: addDocument_url_def Let_def url_inv_addPath addPath_tree)
qed

section \<open>removeDocument\<close>

definition removeDocument_rows :: "'s lmdb \<Rightarrow> 's \<Rightarrow> u64 \<Rightarrow> 's" where
  "removeDocument_rows L s i =
     (let s6 = DocumentDB_del L docFilenameTermsDbi
                 (DocumentDB_del L docXattrTermsDbi (DocumentDB_del L docTermsDbi s i) i) i;
          s9 = DocumentIdDB_del L failedIdDbi
                 (DocumentIdDB_del L contentIndexingDbi (DocumentUrlDB_del L s6 i) i) i;
          s11 = MTimeDB_del L mtimeDbi (DocumentTimeDB_del L docTimeDbi s9 i)
                  (mTime (DocumentTimeDB_get L docTimeDbi s9 i)) i
      in DocumentDataDB_del L docDataDbi s11 i)"

lemma removeDocument_split:
  "WriteTransaction_removeDocument L W i =
     \<lparr>m_txn = removeDocument_rows L (m_txn W) i,
      m_pendingOperations =
        queue_removes i (DocumentDB_get L docXattrTermsDbi (m_txn W) i)
          (queue_removes i (DocumentDB_get L docFilenameTermsDbi (m_txn W) i)
            (queue_removes i (DocumentDB_get L docTermsDbi (m_txn W) i) (m_pendingOperations W)))\<rparr>"
proof -
  have "\<not> DocumentDB_contains L docXattrTermsDbi (m_txn W) i \<Longrightarrow>
    DocumentDB_get L docXattrTermsDbi (m_txn W) i = []"
    by (simp add: DocumentDB_contains_def DocumentDB_get_def)
  then show ?thesis
    by (cases W) (simp add: WriteTransaction_removeDocument_def removeDocument_rows_def Let_def wtxn_queue)
qed

lemma removeDocument_rows_reads:
  fixes s :: 's and i :: u64
  assumes "lmdb_ok L"
  defines "s' \<equiv> removeDocument_rows L s i"
  shows "d \<in> {docTermsDbi, docXattrTermsDbi, docFilenameTermsDbi} \<Longrightarrow>
      DocumentDB_get L d s' j = (if j = i then [] else DocumentDB_get L d s j)"
    and "DocumentTimeDB_get L docTimeDbi s' j =
      (if j = i then \<lparr>mTime = 0, cTime = 0\<rparr> else DocumentTimeDB_get L docTimeDbi s j)"
    and "d \<in> {contentIndexingDbi, failedIdDbi} \<Longrightarrow>
      DocumentIdDB_contains L d s' j \<longleftrightarrow> j \<noteq> i \<and> DocumentIdDB_contains L d s j"
    and "DocumentDataDB_get L docDataDbi s' j = (if j = i then [] else DocumentDataDB_get L docDataDbi s j)"
    and "set (MTimeDB_get L mtimeDbi s' t) =
      (if t = mTime (DocumentTimeDB_get L docTimeDbi s i) then set (MTimeDB_get L mtimeDbi s t) - {i}
       else set (MTimeDB_get L mtimeDbi s t))"
    and "d \<in> {postingDbi, positionDBi} \<Longrightarrow> mdb_scan L s' d = mdb_scan L s d"
    and "url_dbi d \<Longrightarrow> mdb_scan L s' d = mdb_scan L (DocumentUrlDB_del L
           (DocumentDB_del L docFilenameTermsDbi
             (DocumentDB_del L docXattrTermsDbi (DocumentDB_del L docTermsDbi s i) i) i) i) d"
proof -
  let ?s6 = "DocumentDB_del L docFilenameTermsDbi
                 (DocumentDB_del L docXattrTermsDbi (DocumentDB_del L docTermsDbi s i) i) i"
  note url = DocumentUrlDB_del_scan[OF assms(1), of _ ?s6 i]
  note defs = s'_def removeDocument_rows_def Let_def row_write_defs
  have time: "DocumentTimeDB_get L docTimeDbi (DocumentUrlDB_del L ?s6 i) k =
    DocumentTimeDB_get L docTimeDbi s k" for k
    using time_tbl.get_cong[OF assms(1) url, of docTimeDbi] assms(1) by (simp add: defs table_simps)
  have docs: "DocumentDB_get L d (DocumentUrlDB_del L ?s6 i) k = DocumentDB_get L d ?s6 k"
    if "\<not> url_dbi d" for d k
    using document_tbl.get_cong[OF assms(1) url] that by simp
  show "DocumentDB_get L d s' j = (if j = i then [] else DocumentDB_get L d s j)"
    if "d \<in> {docTermsDbi, docXattrTermsDbi, docFilenameTermsDbi}"
    using that assms(1) docs[unfolded row_write_defs] by (auto simp: defs table_simps)
  show "DocumentTimeDB_get L docTimeDbi s' j =
      (if j = i then \<lparr>mTime = 0, cTime = 0\<rparr> else DocumentTimeDB_get L docTimeDbi s j)"
    using assms(1) time[unfolded row_write_defs] by (simp add: defs table_simps)
  show "DocumentIdDB_contains L d s' j \<longleftrightarrow> j \<noteq> i \<and> DocumentIdDB_contains L d s j"
    if "d \<in> {contentIndexingDbi, failedIdDbi}"
    using that assms(1) id_tbl.get_cong[OF assms(1) url, of d, unfolded row_write_defs]
    by (auto simp: defs table_simps split: if_splits)
  show "DocumentDataDB_get L docDataDbi s' j = (if j = i then [] else DocumentDataDB_get L docDataDbi s j)"
    using assms(1) data_tbl.get_cong[OF assms(1) url, of docDataDbi, unfolded row_write_defs]
    by (simp add: defs table_simps)
  have mtimes: "MTimeDB_get L mtimeDbi (DocumentUrlDB_del L ?s6 i) t = MTimeDB_get L mtimeDbi s t" for t
    using assms(1) url[of mtimeDbi] by (simp add: MTimeDB_get_def mdb_scan_dup_scan row_write_defs lmdb_simps)
  show "set (MTimeDB_get L mtimeDbi s' t) =
      (if t = mTime (DocumentTimeDB_get L docTimeDbi s i) then set (MTimeDB_get L mtimeDbi s t) - {i}
       else set (MTimeDB_get L mtimeDbi s t))"
    using assms(1) time[unfolded row_write_defs] mtimes[unfolded row_write_defs]
    by (simp add: defs table_simps)
  show "mdb_scan L s' d = mdb_scan L s d" if "d \<in> {postingDbi, positionDBi}"
    using that assms(1) url[of d, unfolded row_write_defs] by (auto simp: defs lmdb_simps)
  show "mdb_scan L s' d = mdb_scan L (DocumentUrlDB_del L ?s6 i) d" if "url_dbi d"
    using that assms(1) by (auto simp: defs lmdb_simps)
qed

lemma index_inv_removeDocument:
  assumes "lmdb_ok L" "index_inv L W"
  shows "index_inv L (WriteTransaction_removeDocument L W i)" (is "index_inv L ?W")
proof (rule index_inv_change[OF assms, where R = "doc_words L (m_txn W) i" and A = "{}" and i = i])
  note reads = removeDocument_rows_reads[OF assms(1)]
  have "\<forall>t \<in> set (DocumentDB_get L d (m_txn W) i). word_ok t"
    if "d \<in> {docTermsDbi, docXattrTermsDbi, docFilenameTermsDbi}" for d
    using that index_invD(3)[OF assms(2), of _ i] by (auto simp: doc_words_def)
  then show "pending_ok (m_pendingOperations ?W)"
    using index_invD(2)[OF assms(2)] unfolding removeDocument_split
    by (auto intro!: pending_ok_removes)
  show "doc_words L (m_txn ?W) j = (if j = i then doc_words L (m_txn W) i - doc_words L (m_txn W) i \<union> {}
      else doc_words L (m_txn W) j)" for j
    by (simp add: removeDocument_split doc_words_def reads)
  show "foldl set_op S (pending_ops (m_pendingOperations ?W) t) =
      foldl set_op S (pending_ops (m_pendingOperations W) t) -
        (if t \<in> doc_words L (m_txn W) i then {i} else {}) \<union> (if t \<in> {} then {i} else {})" for S t
    by (auto simp: removeDocument_split fold_queue_removes doc_words_def)
qed (simp_all add: removeDocument_split removeDocument_rows_reads[OF assms(1)])

lemma url_cong:
  assumes "lmdb_ok L" "\<And>d. url_dbi d \<Longrightarrow> mdb_scan L s d = mdb_scan L s' d"
  shows "url_tree L s i = url_tree L s' i"
    and "DocumentUrlDB_getChildren L s p = DocumentUrlDB_getChildren L s' p"
    and "url_inv L s \<longleftrightarrow> url_inv L s'"
proof -
  show *: "url_tree L s i = url_tree L s' i" for i
    using filename_tbl.get_cong[OF assms] by (simp add: url_tree_def)
  show **: "DocumentUrlDB_getChildren L s p = DocumentUrlDB_getChildren L s' p" for p
    using tree_tbl.get_cong[OF assms] by (simp add: DocumentUrlDB_getChildren_def)
  show "url_inv L s \<longleftrightarrow> url_inv L s'"
    by (simp add: url_inv_def * **)
qed

lemma removeDocument_url:
  fixes i :: u64
  assumes "lmdb_ok L" "url_inv L (m_txn W)"
  defines "s' \<equiv> m_txn (WriteTransaction_removeDocument L W i)"
  shows "url_inv L s'"
    and "i \<noteq> 0 \<Longrightarrow> url_tree L s' j = (if j = i then None else url_tree L (m_txn W) j)"
    and "i \<noteq> 0 \<Longrightarrow> DocumentUrlDB_getChildren L s' q = remove1 i (DocumentUrlDB_getChildren L (m_txn W) q)"
    and "i = 0 \<Longrightarrow> url_tree L s' j = url_tree L (m_txn W) j"
proof -
  let ?s6 = "DocumentDB_del L docFilenameTermsDbi
     (DocumentDB_del L docXattrTermsDbi (DocumentDB_del L docTermsDbi (m_txn W) i) i) i"
  have s6: "url_dbi d \<Longrightarrow> mdb_scan L ?s6 d = mdb_scan L (m_txn W) d" for d
    using assms(1) by (auto simp: row_write_defs lmdb_simps)
  have s': "url_dbi d \<Longrightarrow> mdb_scan L s' d = mdb_scan L (DocumentUrlDB_del L ?s6 i) d" for d
    using removeDocument_rows_reads(7)[OF assms(1)] by (simp add: s'_def removeDocument_split)
  have inv: "url_inv L ?s6" using url_cong(3)[OF assms(1) s6] assms(2) by blast
  note del = DocumentUrlDB_del_reads[OF assms(1) _ inv, of i]
  show "url_inv L s'"
    using url_inv_del[OF assms(1) inv] url_cong(3)[OF assms(1) s'] by blast
  show "url_tree L s' j = (if j = i then None else url_tree L (m_txn W) j)" if "i \<noteq> 0"
    using url_cong(1)[OF assms(1) s'] url_cong(1)[OF assms(1) s6] del(1)[OF that] by simp
  show "DocumentUrlDB_getChildren L s' q = remove1 i (DocumentUrlDB_getChildren L (m_txn W) q)"
    if "i \<noteq> 0"
    using url_cong(2)[OF assms(1) s'] url_cong(2)[OF assms(1) s6] del(2)[OF that] by simp
  show "url_tree L s' j = url_tree L (m_txn W) j" if "i = 0"
    using url_cong(1)[OF assms(1) s'] url_cong(1)[OF assms(1) s6] that
    by (simp add: DocumentUrlDB_del_def)
qed

section \<open>replaceDocument\<close>

text \<open>
  One group of terms: the stored list \<open>prev\<close> is replaced by the document's; a list that becomes
  empty is deleted. \<open>keep_empty\<close> is the content group, whose list is never empty.
\<close>

definition replace_row :: "'s lmdb \<Rightarrow> MDB_dbi \<Rightarrow> 's \<Rightarrow> u64 \<Rightarrow> bool \<Rightarrow> bytes list \<Rightarrow> 's" where
  "replace_row L d s i keep_empty ts =
     (if ts \<noteq> DocumentDB_get L d s i
      then if ts \<noteq> [] \<or> keep_empty then DocumentDB_put L d s i ts else DocumentDB_del L d s i
      else s)"

definition replace_queue :: "'s lmdb \<Rightarrow> MDB_dbi \<Rightarrow> 's \<Rightarrow> u64 \<Rightarrow> term_map \<Rightarrow> pending \<Rightarrow> pending" where
  "replace_queue L d s i terms m = queue_adds i terms (queue_removes i (DocumentDB_get L d s i) m)"

definition replace_terms_rows :: "'s lmdb \<Rightarrow> 's \<Rightarrow> Document \<Rightarrow> DocumentOperations \<Rightarrow> 's" where
  "replace_terms_rows L s doc operations =
     (let i = m_id doc;
          s1 = (if operations AND DocumentTerms \<noteq> 0
                then replace_row L docTermsDbi s i True (map_terms (m_terms doc)) else s);
          s2 = (if operations AND XAttrTerms \<noteq> 0
                then replace_row L docXattrTermsDbi s1 i False (map_terms (m_xattrTerms doc)) else s1)
      in if operations AND FileNameTerms \<noteq> 0
         then replace_row L docFilenameTermsDbi s2 i False (map_terms (m_fileNameTerms doc)) else s2)"

definition replace_other_rows ::
  "'s lmdb \<Rightarrow> (QString \<Rightarrow> bytes) \<Rightarrow> 's \<Rightarrow> Document \<Rightarrow> DocumentOperations \<Rightarrow> 's" where
  "replace_other_rows L json s doc operations =
     (let i = m_id doc;
          s4 = (if m_contentIndexing doc then DocumentIdDB_put L contentIndexingDbi s i else s);
          info = DocumentTimeDB_get L docTimeDbi s4 i;
          sa = (if mTime info \<noteq> m_mTime doc
                then MTimeDB_put L mtimeDbi (MTimeDB_del L mtimeDbi s4 (mTime info) i) (m_mTime doc) i
                else s4);
          s5 = (if operations AND DocumentTime \<noteq> 0
                then DocumentTimeDB_put L docTimeDbi sa i
                       (info\<lparr>mTime := m_mTime doc, cTime := m_cTime doc\<rparr>)
                else s4)
      in if operations AND DocumentData \<noteq> 0 \<and> Document_data json doc \<noteq> []
         then DocumentDataDB_put L docDataDbi s5 i (Document_data json doc) else s5)"

definition replace_pending :: "'s lmdb \<Rightarrow> 's \<Rightarrow> Document \<Rightarrow> DocumentOperations \<Rightarrow> pending \<Rightarrow> pending" where
  "replace_pending L s doc operations m =
     (let i = m_id doc;
          m1 = (if operations AND DocumentTerms \<noteq> 0
                then replace_queue L docTermsDbi s i (m_terms doc) m else m);
          m2 = (if operations AND XAttrTerms \<noteq> 0
                then replace_queue L docXattrTermsDbi s i (m_xattrTerms doc) m1 else m1)
      in if operations AND FileNameTerms \<noteq> 0
         then replace_queue L docFilenameTermsDbi s i (m_fileNameTerms doc) m2 else m2)"

lemma replace_row_get_other:
  "lmdb_ok L \<Longrightarrow> d \<noteq> d' \<Longrightarrow> DocumentDB_get L d (replace_row L d' s i k ts) j = DocumentDB_get L d s j"
  by (simp add: replace_row_def row_write_defs table_simps)

lemma replace_row_scan_other:
  "lmdb_ok L \<Longrightarrow> d \<noteq> d' \<Longrightarrow> mdb_scan L (replace_row L d' s i k ts) d = mdb_scan L s d"
  by (simp add: replace_row_def row_write_defs lmdb_simps)

lemma replace_row_get:
  assumes "lmdb_ok L" "id_key_ok d i" "\<forall>t \<in> set ts. term_bytes_ok t" "k \<longrightarrow> ts \<noteq> []"
  shows "DocumentDB_get L d (replace_row L d s i k ts) j = (if j = i then ts else DocumentDB_get L d s j)"
  using assms by (auto simp: replace_row_def row_write_defs table_simps)

lemma replaceDocument_split:
  assumes "lmdb_ok L"
  shows "WriteTransaction_replaceDocument L json W doc operations =
     \<lparr>m_txn =
        (let s = replace_other_rows L json (replace_terms_rows L (m_txn W) doc operations) doc operations
         in if operations AND DocumentUrl \<noteq> 0
            then DocumentUrlDB_updateUrl L s (m_id doc) (m_parentId doc) (filename_of_url (m_url doc))
            else s),
      m_pendingOperations = replace_pending L (m_txn W) doc operations (m_pendingOperations W)\<rparr>"
proof -
  note split = replace_row_get_other[OF assms]
  define W3 where "W3 = \<lparr>m_txn = replace_terms_rows L (m_txn W) doc operations,
      m_pendingOperations = replace_pending L (m_txn W) doc operations (m_pendingOperations W)\<rparr>"
  have row: "(if ts \<noteq> DocumentDB_get L d (m_txn V) i
      then if ts \<noteq> [] then txn_map (\<lambda>s. DocumentDB_put L d s i ts) (V\<lparr>m_pendingOperations := m\<rparr>)
           else txn_map (\<lambda>s. DocumentDB_del L d s i) (V\<lparr>m_pendingOperations := m\<rparr>)
      else V\<lparr>m_pendingOperations := m\<rparr>) =
    \<lparr>m_txn = replace_row L d (m_txn V) i False ts, m_pendingOperations = m\<rparr>"
    "(if ts \<noteq> DocumentDB_get L d (m_txn V) i
      then txn_map (\<lambda>s. DocumentDB_put L d s i ts) (V\<lparr>m_pendingOperations := m\<rparr>)
      else V\<lparr>m_pendingOperations := m\<rparr>) =
    \<lparr>m_txn = replace_row L d (m_txn V) i True ts, m_pendingOperations = m\<rparr>"
    for V :: "'a wtxn" and d i ts m
    by (cases V; simp add: replace_row_def txn_map_def)+
  have pull: "(if b then \<lparr>m_txn = x, m_pendingOperations = y\<rparr> else \<lparr>m_txn = x', m_pendingOperations = y'\<rparr>) =
    \<lparr>m_txn = (if b then x else x'), m_pendingOperations = (if b then y else y')\<rparr>" for b x y x' and y' :: pending
    by simp
  have tm: "txn_map f \<lparr>m_txn = x, m_pendingOperations = y\<rparr> = \<lparr>m_txn = f x, m_pendingOperations = y\<rparr>"
    for f x and y :: pending by (simp add: txn_map_def)
  obtain s0 m0 where W: "W = \<lparr>m_txn = s0, m_pendingOperations = m0\<rparr>" by (cases W)
  show ?thesis
    unfolding WriteTransaction_replaceDocument_def replaceTerms_queue Let_def prod.case row
    unfolding W replace_terms_rows_def replace_other_rows_def replace_pending_def replace_queue_def Let_def
    by (simp add: pull tm split cong: if_cong)
qed

text \<open>
  The three groups of a document use different prefixes (none, \<open>F\<close>, the attribute prefixes): the
  words of one group, old or new, are not words of another. Without that, replacing one group can
  drop a document from the list of a word it still has in another.
\<close>

definition replaced_flag :: "MDB_dbi \<Rightarrow> DocumentOperations" where
  "replaced_flag d =
     (case d of docTermsDbi \<Rightarrow> DocumentTerms | docXattrTermsDbi \<Rightarrow> XAttrTerms | _ \<Rightarrow> FileNameTerms)"

definition doc_group :: "Document \<Rightarrow> MDB_dbi \<Rightarrow> term_map" where
  "doc_group doc d =
     (case d of docTermsDbi \<Rightarrow> m_terms doc | docXattrTermsDbi \<Rightarrow> m_xattrTerms doc
      | _ \<Rightarrow> m_fileNameTerms doc)"

definition new_words :: "Document \<Rightarrow> DocumentOperations \<Rightarrow> MDB_dbi \<Rightarrow> bytes set" where
  "new_words doc operations d =
     (if operations AND replaced_flag d \<noteq> 0 then fst ` set (doc_group doc d) else {})"

definition groups_apart :: "'s lmdb \<Rightarrow> 's \<Rightarrow> Document \<Rightarrow> DocumentOperations \<Rightarrow> bool" where
  "groups_apart L s doc operations \<longleftrightarrow>
     (let G = (\<lambda>d. set (DocumentDB_get L d s (m_id doc)) \<union> new_words doc operations d)
      in G docTermsDbi \<inter> G docXattrTermsDbi = {} \<and> G docTermsDbi \<inter> G docFilenameTermsDbi = {} \<and>
         G docXattrTermsDbi \<inter> G docFilenameTermsDbi = {})"

lemma replace_other_rows_scan:
  "lmdb_ok L \<Longrightarrow> d \<notin> {contentIndexingDbi, docTimeDbi, mtimeDbi, docDataDbi} \<Longrightarrow>
   mdb_scan L (replace_other_rows L json s doc operations) d = mdb_scan L s d"
  by (simp add: replace_other_rows_def Let_def row_write_defs lmdb_simps)

lemma replaceDocument_scan:
  assumes "lmdb_ok L" "\<not> url_dbi d" "d \<notin> {contentIndexingDbi, docTimeDbi, mtimeDbi, docDataDbi}"
  shows "mdb_scan L (m_txn (WriteTransaction_replaceDocument L json W doc operations)) d =
    mdb_scan L (replace_terms_rows L (m_txn W) doc operations) d"
  using assms by (simp add: replaceDocument_split Let_def DocumentUrlDB_updateUrl_scan
      replace_other_rows_scan)

lemma replace_terms_rows_scan:
  "lmdb_ok L \<Longrightarrow> d \<notin> {docTermsDbi, docXattrTermsDbi, docFilenameTermsDbi} \<Longrightarrow>
   mdb_scan L (replace_terms_rows L s doc operations) d = mdb_scan L s d"
  by (simp add: replace_terms_rows_def Let_def replace_row_scan_other)

lemma replaceDocument_terms:
  assumes "lmdb_ok L" "doc_fits doc operations" "d \<in> {docTermsDbi, docXattrTermsDbi, docFilenameTermsDbi}"
  shows "DocumentDB_get L d (m_txn (WriteTransaction_replaceDocument L json W doc operations)) j =
    (if j = m_id doc \<and> operations AND replaced_flag d \<noteq> 0 then map_terms (doc_group doc d)
     else DocumentDB_get L d (m_txn W) j)"
proof -
  have ok: "\<forall>t \<in> set (map_terms (m_terms doc)). term_bytes_ok t"
    "\<forall>t \<in> set (map_terms (m_xattrTerms doc)). term_bytes_ok t"
    "\<forall>t \<in> set (map_terms (m_fileNameTerms doc)). term_bytes_ok t"
    "operations AND DocumentTerms \<noteq> 0 \<longrightarrow> map_terms (m_terms doc) \<noteq> []"
    using assms(2) by (auto simp del: set_map_terms simp: doc_fits_def dest!: terms_ok_list)
  have "DocumentDB_get L d (m_txn (WriteTransaction_replaceDocument L json W doc operations)) j =
    DocumentDB_get L d (replace_terms_rows L (m_txn W) doc operations) j"
    using assms(3) by (intro document_tbl.get_cong[OF assms(1)] replaceDocument_scan[OF assms(1)]) auto
  also have "\<dots> = (if j = m_id doc \<and> operations AND replaced_flag d \<noteq> 0 then map_terms (doc_group doc d)
     else DocumentDB_get L d (m_txn W) j)"
    using assms(1,3) ok
    by (auto simp del: set_map_terms map_terms_Nil simp: replace_terms_rows_def Let_def
        replace_row_get_other replace_row_get doc_group_def replaced_flag_def)
  finally show ?thesis .
qed

lemma toggle_groups:
  assumes "\<not> ((oD \<or> nD) \<and> (oX \<or> nX))" "\<not> ((oD \<or> nD) \<and> (oF \<or> nF))" "\<not> ((oX \<or> nX) \<and> (oF \<or> nF))"
  shows "((E - (if oD then {i} else {}) \<union> (if nD then {i} else {}))
      - (if oX then {i} else {}) \<union> (if nX then {i} else {}))
      - (if oF then {i} else {}) \<union> (if nF then {i} else {}) =
    E - (if oD \<or> oX \<or> oF then {i} else {}) \<union> (if nD \<or> nX \<or> nF then {i} else {})"
  using assms by (cases "oD \<or> nD"; cases "oX \<or> nX"; cases "oF \<or> nF") auto

lemma index_inv_replaceDocument:
  assumes "lmdb_ok L" "index_inv L W" "doc_fits doc operations" "groups_apart L (m_txn W) doc operations"
  shows "index_inv L (WriteTransaction_replaceDocument L json W doc operations)" (is "index_inv L ?W")
proof -
  define i where "i = m_id doc"
  define old where "old d = set (DocumentDB_get L d (m_txn W) i)" for d
  define on where "on d \<longleftrightarrow> operations AND replaced_flag d \<noteq> 0" for d
  define new where "new d = fst ` set (doc_group doc d)" for d
  let ?D = docTermsDbi and ?X = docXattrTermsDbi and ?F = docFilenameTermsDbi
  define part where "part f d = (if on d then f d else {})" for f :: "MDB_dbi \<Rightarrow> bytes set" and d
  note flags = on_def replaced_flag_def doc_group_def new_def old_def i_def part_def
  let ?R = "part old ?D \<union> part old ?X \<union> part old ?F" and ?A = "part new ?D \<union> part new ?X \<union> part new ?F"
  have apart: "(old ?D \<union> part new ?D) \<inter> (old ?X \<union> part new ?X) = {}"
    "(old ?D \<union> part new ?D) \<inter> (old ?F \<union> part new ?F) = {}"
    "(old ?X \<union> part new ?X) \<inter> (old ?F \<union> part new ?F) = {}"
    using assms(4) unfolding groups_apart_def Let_def new_words_def part_def on_def new_def old_def i_def
    by blast+
  have part_old: "part old d \<subseteq> old d" for d by (simp add: part_def)
  have terms: "terms_ok (doc_group doc d)" for d
    using assms(3) by (auto simp: doc_fits_def doc_group_def split: MDB_dbi.split)
  have words_old: "\<forall>t \<in> set (DocumentDB_get L d (m_txn W) i). word_ok t"
    if "d \<in> {?D, ?X, ?F}" for d
    using that index_invD(3)[OF assms(2), of _ i] by (auto simp: doc_words_def)
  have queue: "pending_ok m \<Longrightarrow> d \<in> {?D, ?X, ?F} \<Longrightarrow>
      pending_ok (replace_queue L d (m_txn W) i (doc_group doc d) m)" for d m
    unfolding replace_queue_def by (intro pending_ok_adds pending_ok_removes words_old terms)
  have words: "doc_words L (m_txn ?W) j = (if j = i then doc_words L (m_txn W) i - ?R \<union> ?A
      else doc_words L (m_txn W) j)" for j
  proof -
    have "doc_words L (m_txn ?W) i = (if on ?D then new ?D else old ?D) \<union> (if on ?X then new ?X else old ?X)
        \<union> (if on ?F then new ?F else old ?F)"
      by (simp add: doc_words_def replaceDocument_terms[OF assms(1,3)] flags)
    moreover have "doc_words L (m_txn W) i = old ?D \<union> old ?X \<union> old ?F"
      by (simp add: doc_words_def old_def)
    moreover have "(if on ?D then new ?D else old ?D) \<union> (if on ?X then new ?X else old ?X) \<union>
        (if on ?F then new ?F else old ?F) = old ?D \<union> old ?X \<union> old ?F - ?R \<union> ?A"
      using apart unfolding part_def
      by (cases "on ?D"; cases "on ?X"; cases "on ?F"; simp only: if_True if_False; blast)
    ultimately have "doc_words L (m_txn ?W) i = doc_words L (m_txn W) i - ?R \<union> ?A" by simp
    moreover have "doc_words L (m_txn ?W) j = doc_words L (m_txn W) j" if "j \<noteq> i"
      using that by (simp add: doc_words_def replaceDocument_terms[OF assms(1,3)] i_def)
    ultimately show ?thesis by simp
  qed
  show ?thesis
  proof (rule index_inv_change[OF assms(1,2), where R = ?R and A = ?A and i = i])
    show "pending_ok (m_pendingOperations ?W)"
      using index_invD(2)[OF assms(2)] queue[of _ ?D] queue[of _ ?X] queue[of _ ?F]
      by (simp add: replaceDocument_split[OF assms(1)] replace_pending_def Let_def i_def doc_group_def)
    show "foldl set_op S (pending_ops (m_pendingOperations ?W) t) =
        foldl set_op S (pending_ops (m_pendingOperations W) t) - (if t \<in> ?R then {i} else {}) \<union>
        (if t \<in> ?A then {i} else {})" for S t
    proof -
      define E where "E = foldl set_op S (pending_ops (m_pendingOperations W) t)"
      have q: "foldl set_op S (pending_ops (replace_queue L d (m_txn W) i (doc_group doc d) m) t) =
          foldl set_op S (pending_ops m t) - (if t \<in> old d then {i} else {}) \<union>
          (if t \<in> new d then {i} else {})" for d m
        by (simp add: replace_queue_def fold_queue_adds fold_queue_removes old_def new_def)
      have step: "foldl set_op S (pending_ops
            (if on d then replace_queue L d (m_txn W) i (doc_group doc d) m else m) t) =
          foldl set_op S (pending_ops m t) - (if t \<in> part old d then {i} else {}) \<union>
          (if t \<in> part new d then {i} else {})" for d m
        by (simp add: q part_def)
      have "m_pendingOperations ?W =
        (let m1 = (if on ?D then replace_queue L ?D (m_txn W) i (doc_group doc ?D) (m_pendingOperations W)
                   else m_pendingOperations W);
             m2 = (if on ?X then replace_queue L ?X (m_txn W) i (doc_group doc ?X) m1 else m1)
         in if on ?F then replace_queue L ?F (m_txn W) i (doc_group doc ?F) m2 else m2)"
        unfolding replaceDocument_split[OF assms(1)] wtxn.select_convs replace_pending_def on_def
          replaced_flag_def doc_group_def i_def Let_def MDB_dbi.case by (rule refl)
      then have "foldl set_op S (pending_ops (m_pendingOperations ?W) t) =
          ((E - (if t \<in> part old ?D then {i} else {}) \<union> (if t \<in> part new ?D then {i} else {}))
            - (if t \<in> part old ?X then {i} else {}) \<union> (if t \<in> part new ?X then {i} else {}))
            - (if t \<in> part old ?F then {i} else {}) \<union> (if t \<in> part new ?F then {i} else {})"
        by (simp only: Let_def step E_def)
      also have "\<dots> = E - (if t \<in> part old ?D \<or> t \<in> part old ?X \<or> t \<in> part old ?F then {i} else {}) \<union>
          (if t \<in> part new ?D \<or> t \<in> part new ?X \<or> t \<in> part new ?F then {i} else {})"
        by (rule toggle_groups) (use apart part_old in blast)+
      finally show ?thesis unfolding E_def by (simp only: Un_iff disj_assoc)
    qed
    have "part new d \<subseteq> fst ` set (doc_group doc d)" for d by (auto simp: part_def new_def)
    then show "word_ok t" if "t \<in> ?A" for t
      using that terms_ok_word[OF terms] by blast
    show "doc_words L (m_txn ?W) j = (if j = i then doc_words L (m_txn W) i - ?R \<union> ?A
      else doc_words L (m_txn W) j)" for j by (rule words)
  qed (simp_all add: replaceDocument_scan[OF assms(1)] replace_terms_rows_scan[OF assms(1)])
qed

end
