(* ===== verification/WriteTree.thy ===== *)
theory WriteTree
  imports WriteOps
begin

text \<open>
  \<open>WriteTransaction::removeRecursively\<close> on the file tree: over a tree without cycles (\<open>ranked\<close>) it
  returns, it removes exactly the document and everything below it, and the index stays consistent.
\<close>

section \<open>Descendants\<close>

inductive below :: "(u64 \<Rightarrow> FilePath option) \<Rightarrow> u64 \<Rightarrow> u64 \<Rightarrow> bool" for T where
  child: "T j = Some path \<Longrightarrow> j \<noteq> 0 \<Longrightarrow> parentId path = p \<Longrightarrow> below T p j"
| deeper: "below T p q \<Longrightarrow> T j = Some path \<Longrightarrow> j \<noteq> 0 \<Longrightarrow> parentId path = q \<Longrightarrow> below T p j"

inductive_cases belowE: "below T p j"

definition subtree :: "(u64 \<Rightarrow> FilePath option) \<Rightarrow> u64 \<Rightarrow> u64 set" where
  "subtree T c = insert c {j. below T c j}"

definition ranked :: "(u64 \<Rightarrow> nat) \<Rightarrow> (u64 \<Rightarrow> FilePath option) \<Rightarrow> bool" where
  "ranked rk T \<longleftrightarrow> (\<forall>j path. T j = Some path \<longrightarrow> j \<noteq> 0 \<longrightarrow> rk j < rk (parentId path))"

definition without :: "(u64 \<Rightarrow> FilePath option) \<Rightarrow> u64 set \<Rightarrow> u64 \<Rightarrow> FilePath option" where
  "without T S j = (if j \<in> S then None else T j)"

definition down_closed :: "(u64 \<Rightarrow> FilePath option) \<Rightarrow> u64 set \<Rightarrow> bool" where
  "down_closed T S \<longleftrightarrow> (\<forall>j path. T j = Some path \<longrightarrow> j \<noteq> 0 \<longrightarrow> parentId path \<in> S \<longrightarrow> j \<in> S)"

lemma ranked_without: "ranked rk T \<Longrightarrow> ranked rk (without T S)"
  by (auto simp: ranked_def without_def split: if_splits)

lemma below_trans: "below T q j \<Longrightarrow> below T p q \<Longrightarrow> below T p j"
  by (induction rule: below.induct) (auto intro: below.intros)

lemma below_unfold:
  "below T p j \<longleftrightarrow> (\<exists>c path. T c = Some path \<and> c \<noteq> 0 \<and> parentId path = p \<and> j \<in> subtree T c)"
proof
  assume "below T p j"
  then show "\<exists>c path. T c = Some path \<and> c \<noteq> 0 \<and> parentId path = p \<and> j \<in> subtree T c"
    by (induction rule: below.induct) (auto simp: subtree_def intro: below.intros)
next
  assume "\<exists>c path. T c = Some path \<and> c \<noteq> 0 \<and> parentId path = p \<and> j \<in> subtree T c"
  then show "below T p j"
    by (auto simp: subtree_def intro: below.intros below_trans)
qed

lemma below_without:
  assumes "down_closed T S"
  shows "{j. below (without T S) c j} \<union> S = {j. below T c j} \<union> S"
proof -
  have "below T c j" if "below (without T S) c j" for j
    using that by (induction rule: below.induct)
      (auto simp: without_def split: if_splits intro: below.intros)
  moreover have "j \<in> S \<or> below (without T S) c j" if "below T c j" for j
    using that
  proof (induction rule: below.induct)
    case (child j path p)
    then show ?case by (auto simp: without_def intro: below.child)
  next
    case (deeper p q j path)
    then show ?case
      using assms by (cases "j \<in> S")
        (auto simp: without_def down_closed_def intro: below.deeper)
  qed
  ultimately show ?thesis by blast
qed

lemma subtree_without: "down_closed T S \<Longrightarrow> subtree (without T S) c \<union> S = subtree T c \<union> S"
  using below_without[of T S c] by (auto simp: subtree_def)

lemma down_closed_subtree: "down_closed T (subtree T c)"
  by (auto simp: down_closed_def subtree_def intro: below.intros)

lemma without_without: "without (without T S) S' = without T (S \<union> S')"
  by (auto simp: without_def fun_eq_iff)

lemma children_below:
  assumes "url_inv L s"
  defines "T \<equiv> url_tree L s"
  shows "(\<Union>c \<in> set (DocumentUrlDB_getChildren L s p) - {0}. subtree T c) = {j. below T p j}"
proof -
  have "set (DocumentUrlDB_getChildren L s p) - {0} = {c. c \<noteq> 0 \<and> (\<exists>path. T c = Some path \<and> parentId path = p)}"
    using assms(1) unfolding url_inv_def T_def by blast
  then show ?thesis using below_unfold[of T p] by (simp only:) blast
qed

section \<open>The loop\<close>

definition removed :: "'s lmdb \<Rightarrow> 's wtxn \<Rightarrow> u64 set \<Rightarrow> 's wtxn \<Rightarrow> bool" where
  "removed L W S W' \<longleftrightarrow>
     url_inv L (m_txn W') \<and>
     url_tree L (m_txn W') = without (url_tree L (m_txn W)) S \<and>
     (\<forall>j. doc_words L (m_txn W') j = (if j \<in> S then {} else doc_words L (m_txn W) j)) \<and>
     (index_inv L W \<longrightarrow> index_inv L W')"

lemma removed_trans:
  "removed L W S W1 \<Longrightarrow> removed L W1 S' W2 \<Longrightarrow> removed L W (S \<union> S') W2"
  by (auto simp: removed_def without_without)

lemma removed_inv: "removed L W S W' \<Longrightarrow> url_inv L (m_txn W')"
  by (simp add: removed_def)

lemma removed_refl: "url_inv L (m_txn W) \<Longrightarrow> removed L W {} W"
  by (auto simp: removed_def without_def)

lemma removed_removeDocument:
  assumes "lmdb_ok L" "url_inv L (m_txn W)" "i \<noteq> 0"
  shows "removed L W {i} (WriteTransaction_removeDocument L W i)"
  using removeDocument_url[OF assms(1,2), of i] assms(3) index_inv_removeDocument[OF assms(1)]
    removeDocument_rows_reads(1)[OF assms(1)]
  by (auto simp: removed_def without_def fun_eq_iff doc_words_def removeDocument_split)

lemma removeChildren_loop_removed:
  assumes "lmdb_ok L"
  shows "url_inv L (m_txn W) \<Longrightarrow> ranked rk (url_tree L (m_txn W)) \<Longrightarrow> \<forall>c \<in> set cs. rk c < n \<Longrightarrow>
    \<exists>W'. removeChildren_loop L W cs = Some W' \<and>
      removed L W (\<Union>c \<in> set cs - {0}. subtree (url_tree L (m_txn W)) c) W'"
proof (induction n arbitrary: W cs rule: less_induct)
  case (less n)
  note outer = less.IH
  show ?case
    using less.prems
  proof (induction cs arbitrary: W)
    case Nil
    then show ?case
      by (subst removeChildren_loop.simps) (auto intro: removed_refl)
  next
    case (Cons c cs)
    let ?T = "url_tree L (m_txn W)"
    show ?case
    proof (cases "c = 0")
      case True
      then show ?thesis
        using Cons by (subst removeChildren_loop.simps) simp
    next
      case False
      let ?ch = "DocumentUrlDB_getChildren L (m_txn W) c"
      have "\<forall>d \<in> set ?ch. rk d < rk c"
        using Cons.prems(1,2) by (auto simp: url_inv_def ranked_def)
      then obtain W1 where W1: "removeChildren_loop L W ?ch = Some W1"
        and r1: "removed L W {j. below ?T c j} W1"
        using outer[of "rk c" W ?ch] Cons.prems children_below[OF Cons.prems(1), of c] by auto
      define W2 where "W2 = WriteTransaction_removeDocument L W1 c"
      have "removed L W1 {c} W2"
        unfolding W2_def by (rule removed_removeDocument[OF assms removed_inv[OF r1] False])
      then have r2: "removed L W (subtree ?T c) W2"
        using removed_trans[OF r1, of "{c}" W2] by (simp add: subtree_def)
      then have T2: "url_tree L (m_txn W2) = without ?T (subtree ?T c)" and inv2: "url_inv L (m_txn W2)"
        by (auto simp: removed_def)
      obtain W3 where W3: "removeChildren_loop L W2 cs = Some W3"
        and r3: "removed L W2 (\<Union>c' \<in> set cs - {0}. subtree (without ?T (subtree ?T c)) c') W3"
        using Cons.IH[of W2] Cons.prems inv2 T2 by (auto simp: ranked_without)
      have "subtree ?T c \<union> (\<Union>c' \<in> set cs - {0}. subtree (without ?T (subtree ?T c)) c') =
          (\<Union>c' \<in> set (c # cs) - {0}. subtree ?T c')"
        using subtree_without[OF down_closed_subtree[of ?T c]] False by auto
      with removed_trans[OF r2 r3] have
        "removed L W (\<Union>c' \<in> set (c # cs) - {0}. subtree ?T c') W3" by simp
      then show ?thesis
        using False W1 W3 by (subst removeChildren_loop.simps) (simp add: W2_def)
    qed
  qed
qed

lemma removeRecursively_removed:
  assumes "lmdb_ok L" "url_inv L (m_txn W)" "ranked rk (url_tree L (m_txn W))" "i \<noteq> 0"
  shows "\<exists>W'. WriteTransaction_removeRecursively L W i = Some W' \<and>
    removed L W (subtree (url_tree L (m_txn W)) i) W'"
proof -
  let ?ch = "DocumentUrlDB_getChildren L (m_txn W) i"
  have "\<forall>d \<in> set ?ch. rk d < rk i"
    using assms(2,3) by (auto simp: url_inv_def ranked_def)
  then obtain W1 where W1: "removeChildren_loop L W ?ch = Some W1"
    and r1: "removed L W {j. below (url_tree L (m_txn W)) i j} W1"
    using removeChildren_loop_removed[OF assms(1-3)] children_below[OF assms(2), of i] by metis
  have "removed L W1 {i} (WriteTransaction_removeDocument L W1 i)"
    by (rule removed_removeDocument[OF assms(1) removed_inv[OF r1] assms(4)])
  from removed_trans[OF r1 this] W1 show ?thesis
    by (simp add: WriteTransaction_removeRecursively_def subtree_def)
qed

end
