(* ===== verification/WriteSteps.thy ===== *)
theory WriteSteps
  imports WriteTree
begin

text \<open>
  What a client may do with a \<open>WriteTransaction\<close>, as a step relation, and the invariant of the inverted
  index over all its runs. The guards are what the callers establish: a document that is added is not
  in the index, and the groups of terms of a document that is replaced use different prefixes.
\<close>

section \<open>Recursive removal keeps the index, whether or not the tree is sound\<close>

text \<open>Whatever \<open>removeDocument\<close> keeps, the recursive removals keep.\<close>

lemma removeChildren_loop_keeps:
  assumes step: "\<And>W i. P W \<Longrightarrow> P (WriteTransaction_removeDocument L W i)"
    and "removeChildren_loop L W cs = Some W'" "P W"
  shows "P W'"
proof -
  have "L = L \<longrightarrow> P W \<longrightarrow> P W'"
  proof (rule removeChildren_loop.raw_induct[
        where P = "\<lambda>L' W _ W'. L' = L \<longrightarrow> P W \<longrightarrow> P W'", OF _ assms(2)], intro impI)
    fix f L' W children W'
    assume IH0: "\<And>L' W cs W'. f L' W cs = Some W' \<Longrightarrow> L' = L \<longrightarrow> P W \<longrightarrow> P W'"
      and run: "(case children of [] \<Rightarrow> Some W | i # children' \<Rightarrow>
          if i = 0 then f L' W children'
          else Option.bind (f L' W (DocumentUrlDB_getChildren L' (m_txn W) i))
                 (\<lambda>W1. f L' (WriteTransaction_removeDocument L' W1 i) children')) = Some W'"
      and L': "L' = L" and keeps: "P W"
    note IH = IH0[rule_format]
    show "P W'"
    proof (cases children)
      case Nil
      then show ?thesis using run keeps by simp
    next
      case (Cons i children')
      show ?thesis
      proof (cases "i = 0")
        case True
        then show ?thesis using Cons run IH[of L' W children' W'] L' keeps by simp
      next
        case False
        then obtain W1 where W1: "f L' W (DocumentUrlDB_getChildren L' (m_txn W) i) = Some W1"
          and rest: "f L' (WriteTransaction_removeDocument L' W1 i) children' = Some W'"
          using Cons run by (auto split: Option.bind_splits)
        have "P (WriteTransaction_removeDocument L W1 i)"
          by (rule step) (rule IH[OF W1 L' keeps])
        then show ?thesis using IH[OF rest L'] L' by simp
      qed
    qed
  qed
  then show ?thesis using assms(3) by blast
qed

lemma removeRecursively_keeps:
  assumes "\<And>W i. P W \<Longrightarrow> P (WriteTransaction_removeDocument L W i)"
    and "WriteTransaction_removeRecursively L W i = Some W'" "P W"
  shows "P W'"
proof -
  obtain W1 where W1: "removeChildren_loop L W (DocumentUrlDB_getChildren L (m_txn W) i) = Some W1"
    and W': "W' = WriteTransaction_removeDocument L W1 i"
    using assms(2) by (auto simp: WriteTransaction_removeRecursively_def split: Option.bind_splits)
  have "P W1" by (rule removeChildren_loop_keeps[where P = P, OF assms(1) W1 assms(3)])
  then show ?thesis unfolding W' by (rule assms(1))
qed

lemma removeRecursively_finish_keeps:
  assumes "\<And>W i. P W \<Longrightarrow> P (WriteTransaction_removeDocument L W i)" "P W"
  shows "P (snd (removeRecursively_finish L e W i))"
  using assms by (simp add: removeRecursively_finish_def)

lemma removeIf_loop_keeps:
  assumes step: "\<And>W i. P W \<Longrightarrow> P (WriteTransaction_removeDocument L W i)"
    and "removeIf_loop L del e W cs = Some r" "P W"
  shows "P (snd r)"
proof -
  have "L = L \<longrightarrow> P W \<longrightarrow> P (snd r)"
  proof (rule removeIf_loop.raw_induct[
        where P = "\<lambda>L' _ _ W _ r. L' = L \<longrightarrow> P W \<longrightarrow> P (snd r)", OF _ assms(2)], intro impI)
    fix f L' del e W children and r :: "bool \<times> 'a wtxn"
    assume IH0: "\<And>L' del e W cs r. f L' del e W cs = Some r \<Longrightarrow> L' = L \<longrightarrow> P W \<longrightarrow> P (snd r)"
      and run: "(case children of [] \<Rightarrow> Some (e, W) | i # children' \<Rightarrow>
          if i = 0 then f L' del e W children'
          else if \<not> del (DocumentUrlDB_get L' (m_txn W) i) then f L' del False W children'
          else Option.bind (f L' del True W (DocumentUrlDB_getChildren L' (m_txn W) i))
                 (\<lambda>(e1, W1). let (r, W2) = removeRecursively_finish L' e1 W1 i
                    in f L' del (e \<and> r) W2 children')) = Some r"
      and L': "L' = L" and keeps: "P W"
    note IH = IH0[rule_format]
    show "P (snd r)"
    proof (cases children)
      case Nil
      then show ?thesis using run keeps by auto
    next
      case (Cons i children')
      consider "i = 0" | "i \<noteq> 0" "\<not> del (DocumentUrlDB_get L' (m_txn W) i)"
        | "i \<noteq> 0" "del (DocumentUrlDB_get L' (m_txn W) i)" by blast
      then show ?thesis
      proof cases
        case 1
        then show ?thesis using Cons run IH[of L' del e W children' r] L' keeps by simp
      next
        case 2
        then show ?thesis using Cons run IH[of L' del False W children' r] L' keeps by simp
      next
        case 3
        then obtain e1 W1 b W2 where W1: "f L' del True W (DocumentUrlDB_getChildren L' (m_txn W) i) = Some (e1, W1)"
          and fin: "removeRecursively_finish L' e1 W1 i = (b, W2)"
          and rest: "f L' del (e \<and> b) W2 children' = Some r"
          using Cons run by (auto split: Option.bind_splits prod.splits)
        have W1P: "P W1" using IH[OF W1 L' keeps] by simp
        have "P (snd (removeRecursively_finish L e1 W1 i))"
          by (rule removeRecursively_finish_keeps[where P = P, OF step W1P])
        then show ?thesis using IH[OF rest L'] fin L' by simp
      qed
    qed
  qed
  then show ?thesis using assms(3) by blast
qed

lemma removeRecursively_if_keeps:
  assumes "\<And>W i. P W \<Longrightarrow> P (WriteTransaction_removeDocument L W i)"
    and "WriteTransaction_removeRecursively_if L del W i = Some r" "P W"
  shows "P (snd r)"
proof (cases "i \<noteq> 0 \<and> \<not> del (DocumentUrlDB_get L (m_txn W) i)")
  case True
  then show ?thesis using assms(2,3) by (auto simp: WriteTransaction_removeRecursively_if_def)
next
  case False
  then obtain e W1 where W1: "removeIf_loop L del True W (DocumentUrlDB_getChildren L (m_txn W) i) = Some (e, W1)"
    and r: "r = removeRecursively_finish L e W1 i"
    using assms(2) by (auto simp: WriteTransaction_removeRecursively_if_def split: Option.bind_splits)
  have "P (snd (e, W1))"
    by (rule removeIf_loop_keeps[where P = P, OF assms(1) W1 assms(3)])
  then have "P W1" by simp
  from removeRecursively_finish_keeps[where P = P, OF assms(1) this] show ?thesis
    unfolding r .
qed

lemma removeRecursively_index_inv:
  "lmdb_ok L \<Longrightarrow> index_inv L W \<Longrightarrow> WriteTransaction_removeRecursively L W i = Some W' \<Longrightarrow> index_inv L W'"
  by (rule removeRecursively_keeps[where P = "index_inv L"]) (auto intro: index_inv_removeDocument)

lemma removeRecursively_if_index_inv:
  "lmdb_ok L \<Longrightarrow> index_inv L W \<Longrightarrow> WriteTransaction_removeRecursively_if L del W i = Some r \<Longrightarrow> index_inv L (snd r)"
  by (rule removeRecursively_if_keeps[where P = "index_inv L"]) (auto intro: index_inv_removeDocument)

section \<open>The step relation\<close>

inductive write_step :: "'s lmdb \<Rightarrow> 's wtxn \<Rightarrow> 's wtxn \<Rightarrow> bool" for L where
  add: "doc_ok doc \<Longrightarrow> doc_words L (m_txn W) (m_id doc) = {} \<Longrightarrow>
    write_step L W (WriteTransaction_addDocument L json fs W doc)"
| replace: "doc_fits doc operations \<Longrightarrow> groups_apart L (m_txn W) doc operations \<Longrightarrow>
    write_step L W (WriteTransaction_replaceDocument L json W doc operations)"
| remove: "write_step L W (WriteTransaction_removeDocument L W i)"
| remove_rec: "WriteTransaction_removeRecursively L W i = Some W' \<Longrightarrow> write_step L W W'"
| remove_if: "WriteTransaction_removeRecursively_if L del W i = Some (b, W') \<Longrightarrow> write_step L W W'"
| commit: "write_step L W (WriteTransaction_commit L W)"

inductive write_steps :: "'s lmdb \<Rightarrow> 's wtxn \<Rightarrow> 's wtxn \<Rightarrow> bool" for L where
  none: "write_steps L W W"
| more: "write_steps L W W1 \<Longrightarrow> write_step L W1 W2 \<Longrightarrow> write_steps L W W2"

inductive_cases write_stepE: "write_step L W W'"

lemma write_step_index_inv:
  assumes "lmdb_ok L"
  shows "write_step L W W' \<Longrightarrow> index_inv L W \<Longrightarrow> index_inv L W'"
proof (induction rule: write_step.induct)
  case (add doc W json fs)
  show ?case by (rule index_inv_addDocument[OF assms add(3,1,2)])
next
  case (replace doc W operations json)
  show ?case by (rule index_inv_replaceDocument[OF assms replace(3,1,2)])
next
  case (remove W i)
  then show ?case by (rule index_inv_removeDocument[OF assms])
next
  case (remove_rec W i W')
  show ?case by (rule removeRecursively_index_inv[OF assms remove_rec(2,1)])
next
  case (remove_if del W i b W')
  from removeRecursively_if_index_inv[OF assms remove_if(2,1)] show ?case by simp
next
  case (commit W)
  then show ?case by (rule index_inv_commit[OF assms])
qed

lemma write_steps_index_inv:
  assumes "lmdb_ok L"
  shows "write_steps L W W' \<Longrightarrow> index_inv L W \<Longrightarrow> index_inv L W'"
  by (induction rule: write_steps.induct) (auto intro: write_step_index_inv[OF assms])

text \<open>An empty database, where every run starts.\<close>

definition empty_db :: "'s lmdb \<Rightarrow> 's \<Rightarrow> bool" where
  "empty_db L s \<longleftrightarrow> (\<forall>d. mdb_scan L s d = [])"

lemma empty_db_index_inv:
  assumes "lmdb_ok L" "empty_db L s"
  shows "index_inv L \<lparr>m_txn = s, m_pendingOperations = []\<rparr>"
proof -
  have "mdb_get L s d k = None" for d k using assms by (simp add: mdb_get_scan empty_db_def)
  then have "PostingDB_get L d s t = []" "PositionDB_get L d s t = []" "DocumentDB_get L d s i = []" for d t i
    by (simp_all add: PostingDB_get_def PositionDB_get_def DocumentDB_get_def)
  then show ?thesis
    by (simp add: index_inv_def lists_ok_def pending_ok_def doc_words_def postings_def)
qed

lemma doc_words_commit:
  assumes "lmdb_ok L" "index_inv L W"
  shows "doc_words L (m_txn (WriteTransaction_commit L W)) i = doc_words L (m_txn W) i"
  by (rule doc_words_cong[OF assms(1)])
    (auto intro!: commit_reads(4)[OF assms(1) index_invD(1,2)[OF assms(2)]])

text \<open>After a commit the lists stored for the terms are exactly the documents that have the term.\<close>

lemma index_inv_lists:
  assumes "index_inv L W" "m_pendingOperations W = []"
  shows "asc (PostingDB_get L postingDbi (m_txn W) t)"
    "i \<in> set (PostingDB_get L postingDbi (m_txn W) t) \<longleftrightarrow> t \<in> doc_words L (m_txn W) i"
proof -
  show "asc (PostingDB_get L postingDbi (m_txn W) t)"
    by (rule lists_okD(1)[OF index_invD(1)[OF assms(1)]])
  have "pending_ops (m_pendingOperations W) t = []" by (simp only: assms(2) pending_ops_Nil)
  then have "postings L W t = set (PostingDB_get L postingDbi (m_txn W) t)"
    by (simp only: postings_def foldl_Nil)
  then show "i \<in> set (PostingDB_get L postingDbi (m_txn W) t) \<longleftrightarrow> t \<in> doc_words L (m_txn W) i"
    using index_invD(4)[OF assms(1), of i t] by (simp only:)
qed

end
