(* ===== verification/PostingIter.thy ===== *)
theory PostingIter
  imports Tables
begin

text \<open>
  \<open>postingiterator.h\<close> and the iterators over one list. The virtual interface \<open>PostingIterator\<close> is the
  locale \<open>posting_iterator\<close>: an iterator stands on a document id (\<open>did\<close>, 0 before the first and after
  the last one) and has the ascending list \<open>rest\<close> ahead of it; \<open>next\<close> moves to the head of \<open>rest\<close>,
  \<open>skipTo i\<close> stays when it already stands at \<open>i\<close> or later and else moves to the first id of \<open>rest\<close>
  that is not below \<open>i\<close>. An operation is a function from the object to the returned id and the
  changed object; its result \<open>None\<close> means that it does not return.

  The locale's laws are proved for every class: here for the vectors, in \<open>CombinedIter\<close> for the
  conjunction, disjunction and phrase, whose own laws rest on those of the iterators they hold.
\<close>

section \<open>The interface\<close>

definition hd0 :: "u64 list \<Rightarrow> u64" where
  "hd0 xs = (case xs of [] \<Rightarrow> 0 | x # _ \<Rightarrow> x)"

lemma hd0_simps [simp]: "hd0 [] = 0" "hd0 (x # xs) = x"
  by (simp_all add: hd0_def)

text \<open>The default \<open>PostingIterator::skipTo\<close>, over the virtual \<open>next\<close> and the current id.\<close>

partial_function (option) skipTo_loop :: "('i \<Rightarrow> (u64 \<times> 'i) option) \<Rightarrow> 'i \<Rightarrow> u64 \<Rightarrow> u64 \<Rightarrow> (u64 \<times> 'i) option" where
  "skipTo_loop nx it currentId i =
     (if currentId < i
      then Option.bind (nx it) (\<lambda>(currentId', it').
             if currentId' = 0 then Some (currentId', it') else skipTo_loop nx it' currentId' i)
      else Some (currentId, it))"

definition PostingIterator_skipTo ::
  "('i \<Rightarrow> (u64 \<times> 'i) option) \<Rightarrow> ('i \<Rightarrow> u64) \<Rightarrow> 'i \<Rightarrow> u64 \<Rightarrow> (u64 \<times> 'i) option" where
  "PostingIterator_skipTo nx did it i = skipTo_loop nx it (did it) i"

locale iterator_next =
  fixes nx :: "'i \<Rightarrow> (u64 \<times> 'i) option"
    and did :: "'i \<Rightarrow> u64"
    and rest :: "'i \<Rightarrow> u64 list"
    and inv :: "'i \<Rightarrow> bool"
  assumes asc_rest: "inv it \<Longrightarrow> asc (did it # rest it)"
    and nx_law: "inv it \<Longrightarrow> \<exists>it'. nx it = Some (hd0 (rest it), it') \<and> inv it' \<and>
      did it' = hd0 (rest it) \<and> rest it' = tl (rest it)"
begin

lemma skipTo_loop_law:
  "inv it \<Longrightarrow> \<exists>it'. skipTo_loop nx it (did it) i = Some (did it', it') \<and> inv it' \<and>
    (if i \<le> did it then did it' = did it \<and> rest it' = rest it
     else did it' = hd0 (filter (\<lambda>x. i \<le> x) (rest it)) \<and>
          rest it' = tl (filter (\<lambda>x. i \<le> x) (rest it)))"
proof (induction "length (rest it)" arbitrary: it)
  case 0
  then show ?case
    using nx_law[OF 0(2)] by (subst skipTo_loop.simps) auto
next
  case (Suc n)
  then obtain x xs where rest: "rest it = x # xs" and n: "n = length xs" by (cases "rest it") auto
  with asc_rest[OF Suc.prems] have x: "did it < x" "asc xs" "\<forall>y \<in> set xs. x < y" by auto
  obtain it1 where it1: "nx it = Some (x, it1)" "inv it1" "did it1 = x" "rest it1 = xs"
    using nx_law[OF Suc.prems] rest by auto
  have "x \<noteq> 0" using x(1) by auto
  from Suc.hyps(1)[of it1] it1 n obtain it2 where it2:
    "skipTo_loop nx it1 x i = Some (did it2, it2)" "inv it2"
    "if i \<le> x then did it2 = x \<and> rest it2 = xs
     else did it2 = hd0 (filter (\<lambda>x. i \<le> x) xs) \<and> rest it2 = tl (filter (\<lambda>x. i \<le> x) xs)"
    by auto
  have all: "i \<le> x \<Longrightarrow> filter (\<lambda>x. i \<le> x) xs = xs"
    using x(3) by (auto intro!: filter_True)
  show ?case
  proof (cases "i \<le> did it")
    case True
    then show ?thesis
      using Suc.prems by (subst skipTo_loop.simps) auto
  next
    case False
    then show ?thesis
      using it1(1) it2 all \<open>x \<noteq> 0\<close> rest by (subst skipTo_loop.simps) (auto simp: not_le)
  qed
qed

end

locale posting_iterator = iterator_next nx did rest inv
  for nx :: "'i \<Rightarrow> (u64 \<times> 'i) option"
    and did :: "'i \<Rightarrow> u64"
    and rest :: "'i \<Rightarrow> u64 list"
    and inv :: "'i \<Rightarrow> bool" +
  fixes sk :: "'i \<Rightarrow> u64 \<Rightarrow> (u64 \<times> 'i) option"
  assumes sk_law: "inv it \<Longrightarrow> \<exists>it'. sk it i = Some (did it', it') \<and> inv it' \<and>
    (if i \<le> did it then did it' = did it \<and> rest it' = rest it
     else did it' = hd0 (filter (\<lambda>x. i \<le> x) (rest it)) \<and>
          rest it' = tl (filter (\<lambda>x. i \<le> x) (rest it)))"

text \<open>A class that does not override \<open>skipTo\<close> has the interface's laws by those of its \<open>next\<close>.\<close>

sublocale iterator_next \<subseteq> default_skip: posting_iterator nx did rest inv "PostingIterator_skipTo nx did"
  by unfold_locales (use skipTo_loop_law in \<open>simp add: PostingIterator_skipTo_def\<close>)

section \<open>VectorPostingIterator\<close>

datatype VectorPostingIterator = VectorPostingIterator (vec_values: "u64 list") (vec_pos: int)

definition VectorPostingIterator_new :: "u64 list \<Rightarrow> VectorPostingIterator" where
  "VectorPostingIterator_new vals = VectorPostingIterator vals (-1)"

fun VectorPostingIterator_docId :: "VectorPostingIterator \<Rightarrow> u64" where
  "VectorPostingIterator_docId (VectorPostingIterator vals pos) =
     (if pos < 0 \<or> pos \<ge> int (length vals) then 0 else vals ! nat pos)"

fun VectorPostingIterator_next :: "VectorPostingIterator \<Rightarrow> u64 \<times> VectorPostingIterator" where
  "VectorPostingIterator_next (VectorPostingIterator vals pos) =
     (if pos \<ge> int (length vals) - 1 then (0, VectorPostingIterator [] (int (length vals)))
      else (vals ! nat (pos + 1), VectorPostingIterator vals (pos + 1)))"

fun VectorPostingIterator_rest :: "VectorPostingIterator \<Rightarrow> u64 list" where
  "VectorPostingIterator_rest (VectorPostingIterator vals pos) = drop (nat (pos + 1)) vals"

text \<open>The ids are those of a posting list: ascending, and none is 0.\<close>

fun VectorPostingIterator_inv :: "VectorPostingIterator \<Rightarrow> bool" where
  "VectorPostingIterator_inv (VectorPostingIterator vals pos) \<longleftrightarrow> -1 \<le> pos \<and> asc (0 # vals)"

lemma hd0_drop: "hd0 (drop n xs) = (if n < length xs then xs ! n else 0)"
  by (cases "drop n xs") (auto simp: hd_drop_conv_nth[symmetric] dest: arg_cong[where f = length])

lemma asc_nth_drop:
  "asc xs \<Longrightarrow> n < length xs \<Longrightarrow> asc (xs ! n # drop (Suc n) xs)"
  using sorted_wrt_drop[of "(<)" xs n] by (simp add: Cons_nth_drop_Suc)

interpretation vector_next: iterator_next "\<lambda>it. Some (VectorPostingIterator_next it)"
  VectorPostingIterator_docId VectorPostingIterator_rest VectorPostingIterator_inv
proof
  fix it assume inv: "VectorPostingIterator_inv it"
  obtain vals pos where it: "it = VectorPostingIterator vals pos" by (cases it)
  have vals: "-1 \<le> pos" "asc vals" "0 \<notin> set vals" using inv by (auto simp: it)
  have "asc (0 # drop n vals)" for n
    using vals by (auto dest: in_set_dropD simp: word_neq_0_conv[symmetric] intro: asc_drop)
  moreover have "nat (pos + 1) = Suc (nat pos)" if "\<not> pos < 0" using that by auto
  ultimately show "asc (VectorPostingIterator_docId it # VectorPostingIterator_rest it)"
    using asc_nth_drop[OF vals(2), of "nat pos"] by (auto simp: it)
  have "nat (2 + pos) = Suc (nat (pos + 1))" using vals(1) by simp
  then show "\<exists>it'. Some (VectorPostingIterator_next it) = Some (hd0 (VectorPostingIterator_rest it), it') \<and>
      VectorPostingIterator_inv it' \<and>
      VectorPostingIterator_docId it' = hd0 (VectorPostingIterator_rest it) \<and>
      VectorPostingIterator_rest it' = tl (VectorPostingIterator_rest it)"
    using inv vals by (auto simp: it hd0_drop drop_Suc tl_drop nat_add_distrib)
qed

definition VectorPostingIterator_skipTo :: "VectorPostingIterator \<Rightarrow> u64 \<Rightarrow> (u64 \<times> VectorPostingIterator) option" where
  "VectorPostingIterator_skipTo =
     PostingIterator_skipTo (\<lambda>it. Some (VectorPostingIterator_next it)) VectorPostingIterator_docId"

interpretation vector_it: posting_iterator "\<lambda>it. Some (VectorPostingIterator_next it)"
  VectorPostingIterator_docId VectorPostingIterator_rest VectorPostingIterator_inv
  VectorPostingIterator_skipTo
  unfolding VectorPostingIterator_skipTo_def by (rule vector_next.default_skip.posting_iterator_axioms)

section \<open>VectorPositionInfoIterator\<close>

datatype VectorPositionInfoIterator =
  VectorPositionInfoIterator (posinfo_vector: "PositionInfo list") (posinfo_pos: int)

definition VectorPositionInfoIterator_new :: "PositionInfo list \<Rightarrow> VectorPositionInfoIterator" where
  "VectorPositionInfoIterator_new vec = VectorPositionInfoIterator vec (-1)"

fun VectorPositionInfoIterator_next ::
  "VectorPositionInfoIterator \<Rightarrow> u64 \<times> VectorPositionInfoIterator" where
  "VectorPositionInfoIterator_next (VectorPositionInfoIterator vec pos) =
     (let pos' = pos + 1
      in if pos' \<ge> int (length vec) then (0, VectorPositionInfoIterator [] (int (length vec)))
         else (docId (vec ! nat pos'), VectorPositionInfoIterator vec pos'))"

fun VectorPositionInfoIterator_docId :: "VectorPositionInfoIterator \<Rightarrow> u64" where
  "VectorPositionInfoIterator_docId (VectorPositionInfoIterator vec pos) =
     (if pos < 0 \<or> pos \<ge> int (length vec) then 0 else docId (vec ! nat pos))"

fun VectorPositionInfoIterator_positions :: "VectorPositionInfoIterator \<Rightarrow> u32 list" where
  "VectorPositionInfoIterator_positions (VectorPositionInfoIterator vec pos) =
     (if pos < 0 \<or> pos \<ge> int (length vec) then [] else positions (vec ! nat pos))"

fun VectorPositionInfoIterator_rest :: "VectorPositionInfoIterator \<Rightarrow> u64 list" where
  "VectorPositionInfoIterator_rest (VectorPositionInfoIterator vec pos) =
     map docId (drop (nat (pos + 1)) vec)"

fun VectorPositionInfoIterator_inv :: "VectorPositionInfoIterator \<Rightarrow> bool" where
  "VectorPositionInfoIterator_inv (VectorPositionInfoIterator vec pos) \<longleftrightarrow>
     -1 \<le> pos \<and> asc (0 # map docId vec)"

text \<open>Seen through the ids, the iterator behaves as the one over the list of the ids.\<close>

fun posinfo_ids :: "VectorPositionInfoIterator \<Rightarrow> VectorPostingIterator" where
  "posinfo_ids (VectorPositionInfoIterator vec pos) = VectorPostingIterator (map docId vec) pos"

lemma posinfo_ids_docId:
  "VectorPositionInfoIterator_docId it = VectorPostingIterator_docId (posinfo_ids it)"
  by (cases it) auto

lemma posinfo_ids_rest:
  "VectorPositionInfoIterator_rest it = VectorPostingIterator_rest (posinfo_ids it)"
  by (cases it) (simp add: drop_map)

lemma posinfo_ids_inv:
  "VectorPositionInfoIterator_inv it = VectorPostingIterator_inv (posinfo_ids it)"
  by (cases it) (simp only: VectorPositionInfoIterator_inv.simps VectorPostingIterator_inv.simps
      posinfo_ids.simps)

lemma posinfo_ids_next:
  "-1 \<le> posinfo_pos it \<Longrightarrow> VectorPostingIterator_next (posinfo_ids it) =
     map_prod (\<lambda>x. x) posinfo_ids (VectorPositionInfoIterator_next it)"
  by (cases it) (auto simp: Let_def)

lemmas posinfo_ids_sim = posinfo_ids_docId posinfo_ids_rest posinfo_ids_inv

interpretation posinfo_next: iterator_next "\<lambda>it. Some (VectorPositionInfoIterator_next it)"
  VectorPositionInfoIterator_docId VectorPositionInfoIterator_rest VectorPositionInfoIterator_inv
proof
  fix it assume inv: "VectorPositionInfoIterator_inv it"
  then show "asc (VectorPositionInfoIterator_docId it # VectorPositionInfoIterator_rest it)"
    unfolding posinfo_ids_sim by (rule vector_next.asc_rest)
  obtain v it' where step: "VectorPositionInfoIterator_next it = (v, it')" by (metis prod.exhaust)
  then have "VectorPostingIterator_next (posinfo_ids it) = (v, posinfo_ids it')"
    using inv posinfo_ids_next[of it]
    by (cases it) (simp del: VectorPositionInfoIterator_next.simps VectorPostingIterator_next.simps
        posinfo_ids.simps)
  then have "v = hd0 (VectorPostingIterator_rest (posinfo_ids it)) \<and>
      VectorPostingIterator_inv (posinfo_ids it') \<and>
      VectorPostingIterator_docId (posinfo_ids it') = hd0 (VectorPostingIterator_rest (posinfo_ids it)) \<and>
      VectorPostingIterator_rest (posinfo_ids it') = tl (VectorPostingIterator_rest (posinfo_ids it))"
    using vector_next.nx_law[OF inv[unfolded posinfo_ids_sim(3)]] by (simp only: option.inject prod.inject) blast
  then show "\<exists>it'. Some (VectorPositionInfoIterator_next it) =
      Some (hd0 (VectorPositionInfoIterator_rest it), it') \<and>
      VectorPositionInfoIterator_inv it' \<and>
      VectorPositionInfoIterator_docId it' = hd0 (VectorPositionInfoIterator_rest it) \<and>
      VectorPositionInfoIterator_rest it' = tl (VectorPositionInfoIterator_rest it)"
    unfolding step posinfo_ids_sim by blast
qed

definition VectorPositionInfoIterator_skipTo ::
  "VectorPositionInfoIterator \<Rightarrow> u64 \<Rightarrow> (u64 \<times> VectorPositionInfoIterator) option" where
  "VectorPositionInfoIterator_skipTo =
     PostingIterator_skipTo (\<lambda>it. Some (VectorPositionInfoIterator_next it)) VectorPositionInfoIterator_docId"

interpretation posinfo_it: posting_iterator "\<lambda>it. Some (VectorPositionInfoIterator_next it)"
  VectorPositionInfoIterator_docId VectorPositionInfoIterator_rest VectorPositionInfoIterator_inv
  VectorPositionInfoIterator_skipTo
  unfolding VectorPositionInfoIterator_skipTo_def by (rule posinfo_next.default_skip.posting_iterator_axioms)

end
