(* ===== verification/AndIter.thy ===== *)
theory AndIter
  imports PostingIter
begin

text \<open>
  \<open>andpostingiterator.cpp\<close>: the conjunction of iterators. Its operations call those of the iterators
  it holds, which are arguments here; under the laws of \<open>posting_iterator\<close> for them they return, and
  the conjunction is itself a \<open>posting_iterator\<close> over the ids that all of them have ahead.
\<close>

datatype 'i AndPostingIterator = AndPostingIterator (and_iterators: "'i list") (and_docId: u64)

definition AndPostingIterator_new :: "'i option list \<Rightarrow> 'i AndPostingIterator" where
  "AndPostingIterator_new its =
     AndPostingIterator (if list_ex Option.is_none its then [] else map the its) 0"

fun AndPostingIterator_docId :: "'i AndPostingIterator \<Rightarrow> u64" where
  "AndPostingIterator_docId (AndPostingIterator its d) = d"

text \<open>The \<open>for\<close> loop of \<open>skipTo\<close>: it ends early, with 0, when an iterator has reached its end.\<close>

fun and_round :: "('i \<Rightarrow> u64 \<Rightarrow> (u64 \<times> 'i) option) \<Rightarrow> u64 \<Rightarrow> 'i list \<Rightarrow> (u64 \<times> 'i list) option" where
  "and_round sk lower_bound [] = Some (lower_bound, [])"
| "and_round sk lower_bound (it # its) =
     Option.bind (sk it lower_bound) (\<lambda>(lower_bound', it').
       if lower_bound' = 0 then Some (0, it' # its)
       else Option.bind (and_round sk lower_bound' its) (\<lambda>(v, its'). Some (v, it' # its')))"

partial_function (option) and_loop ::
  "('i \<Rightarrow> u64 \<Rightarrow> (u64 \<times> 'i) option) \<Rightarrow> 'i list \<Rightarrow> u64 \<Rightarrow> (u64 \<times> 'i AndPostingIterator) option" where
  "and_loop sk its i =
     Option.bind (and_round sk i its) (\<lambda>(lower_bound, its').
       if lower_bound = 0 then Some (0, AndPostingIterator its' 0)
       else if lower_bound = i then Some (lower_bound, AndPostingIterator its' lower_bound)
       else and_loop sk its' lower_bound)"

fun AndPostingIterator_skipTo ::
  "('i \<Rightarrow> u64 \<Rightarrow> (u64 \<times> 'i) option) \<Rightarrow> 'i AndPostingIterator \<Rightarrow> u64 \<Rightarrow>
   (u64 \<times> 'i AndPostingIterator) option" where
  "AndPostingIterator_skipTo sk (AndPostingIterator its d) i =
     (if its = [] then Some (0, AndPostingIterator its 0) else and_loop sk its i)"

fun AndPostingIterator_next ::
  "('i \<Rightarrow> (u64 \<times> 'i) option) \<Rightarrow> ('i \<Rightarrow> u64 \<Rightarrow> (u64 \<times> 'i) option) \<Rightarrow> 'i AndPostingIterator \<Rightarrow>
   (u64 \<times> 'i AndPostingIterator) option" where
  "AndPostingIterator_next nx sk (AndPostingIterator its d) =
     (case its of
        [] \<Rightarrow> Some (0, AndPostingIterator its 0)
      | it0 # its' \<Rightarrow>
          Option.bind (nx it0) (\<lambda>(d0, it0').
            AndPostingIterator_skipTo sk (AndPostingIterator (it0' # its') d0) d0))"

section \<open>The ids of a conjunction\<close>

text \<open>The ids at or after the current position.\<close>

definition ahead :: "('i \<Rightarrow> u64) \<Rightarrow> ('i \<Rightarrow> u64 list) \<Rightarrow> 'i \<Rightarrow> u64 list" where
  "ahead did rest it = (if did it = 0 then rest it else did it # rest it)"

fun and_rest :: "('i \<Rightarrow> u64) \<Rightarrow> ('i \<Rightarrow> u64 list) \<Rightarrow> 'i AndPostingIterator \<Rightarrow> u64 list" where
  "and_rest did rest (AndPostingIterator its d) =
     (case its of
        [] \<Rightarrow> []
      | it0 # its' \<Rightarrow> filter (\<lambda>x. \<forall>it \<in> set its'. x \<in> set (ahead did rest it)) (rest it0))"

text \<open>
  The three states of the object: on a common id, with every iterator there; before the first
  \<open>next\<close>; after the end, where some iterator has no ids left.
\<close>

fun and_inv :: "('i \<Rightarrow> u64) \<Rightarrow> ('i \<Rightarrow> u64 list) \<Rightarrow> ('i \<Rightarrow> bool) \<Rightarrow> 'i AndPostingIterator \<Rightarrow> bool" where
  "and_inv did rest ok (AndPostingIterator its d) \<longleftrightarrow>
     (\<forall>it \<in> set its. ok it) \<and>
     (if d \<noteq> 0 then its \<noteq> [] \<and> (\<forall>it \<in> set its. did it = d)
      else (\<forall>it \<in> set its. did it = 0) \<or> (\<exists>it \<in> set its. did it = 0 \<and> rest it = []))"

context posting_iterator
begin

abbreviation ah :: "'i \<Rightarrow> u64 set" where
  "ah it \<equiv> set (ahead did rest it)"

lemma ahead_set: "ah it = (if did it = 0 then {} else {did it}) \<union> set (rest it)"
  by (simp add: ahead_def)

lemma ahead_facts:
  assumes "inv it"
  shows "asc (rest it)" "x \<in> set (rest it) \<Longrightarrow> did it < x" "x \<in> ah it \<Longrightarrow> did it \<le> x"
    "set (rest it) = {x \<in> ah it. did it < x}" "0 \<notin> ah it" "asc (ahead did rest it)"
proof -
  show asc: "asc (rest it)" using asc_rest[OF assms] by simp
  show gt: "did it < x" if "x \<in> set (rest it)" for x using asc_rest[OF assms] that by simp
  show "did it \<le> x" if "x \<in> ah it"
    using that gt[of x] unfolding ahead_set by (cases "did it = 0") auto
  show "set (rest it) = {x \<in> ah it. did it < x}"
    using gt unfolding ahead_set by auto
  show "0 \<notin> ah it"
    using gt[of 0] unfolding ahead_set by auto
  show "asc (ahead did rest it)" using asc_rest[OF assms] asc by (simp add: ahead_def)
qed

text \<open>\<open>skipTo i\<close> with a proper id keeps exactly the ids from \<open>i\<close> on, and stands on the first one.\<close>

lemma skip_ahead:
  assumes "inv it" "i \<noteq> 0"
  obtains it' where "sk it i = Some (did it', it')" "inv it'"
    "ah it' = {x \<in> ah it. i \<le> x}" "did it' = 0 \<longleftrightarrow> ah it' = {}" "did it' \<noteq> 0 \<Longrightarrow> i \<le> did it' \<and> did it' \<in> ah it"
proof -
  obtain it' where it': "sk it i = Some (did it', it')" "inv it'"
    and law: "if i \<le> did it then did it' = did it \<and> rest it' = rest it
     else did it' = hd0 (filter (\<lambda>x. i \<le> x) (rest it)) \<and>
          rest it' = tl (filter (\<lambda>x. i \<le> x) (rest it))"
    using sk_law[OF assms(1)] by blast
  show thesis
  proof (cases "i \<le> did it")
    case True
    then have "did it \<noteq> 0" using assms(2) by auto
    moreover from True law have same: "did it' = did it" "rest it' = rest it" by auto
    moreover have "i \<le> x" if "x \<in> ah it" for x
      using ahead_facts(3)[OF assms(1) that] True by (rule order_trans[rotated])
    then have "ah it' = {x \<in> ah it. i \<le> x}"
      unfolding ahead_set same by auto
    ultimately show ?thesis using it' True by (intro that[of it']) (auto simp: ahead_set)
  next
    case False
    then have eq: "{x \<in> ah it. i \<le> x} = set (filter (\<lambda>x. i \<le> x) (rest it))"
      by (auto simp: ahead_set)
    show ?thesis
    proof (cases "filter (\<lambda>x. i \<le> x) (rest it)")
      case Nil
      then have "did it' = 0" "rest it' = []" using False law by auto
      then show ?thesis using it' eq Nil by (intro that[of it']) (auto simp: ahead_set)
    next
      case (Cons x xs)
      then have "x \<in> set (filter (\<lambda>x. i \<le> x) (rest it))" by simp
      then have x: "i \<le> x" "x \<in> set (rest it)" by auto
      then have "x \<noteq> 0" using assms(2) by auto
      moreover have "did it' = x" "rest it' = xs" using False law Cons by auto
      ultimately show ?thesis using it' eq x Cons by (intro that[of it']) (auto simp: ahead_set)
    qed
  qed
qed

lemma and_round_law:
  assumes "i \<noteq> 0" "\<forall>it \<in> set its. inv it"
  shows "\<exists>v its'. and_round sk i its = Some (v, its') \<and> length its' = length its \<and>
    (\<forall>it \<in> set its'. inv it) \<and> (\<forall>k < length its. ah (its' ! k) \<subseteq> ah (its ! k)) \<and>
    (if v = 0
     then (\<exists>it \<in> set its'. did it = 0 \<and> rest it = []) \<and> \<not> (\<exists>x \<ge> i. \<forall>it \<in> set its. x \<in> ah it)
     else i \<le> v \<and> (\<forall>it \<in> set its'. i \<le> did it \<and> did it \<le> v \<and> did it \<noteq> 0) \<and>
          (\<forall>x. i \<le> x \<longrightarrow> (\<forall>it \<in> set its. x \<in> ah it) \<longrightarrow> v \<le> x) \<and>
          (\<forall>k < length its. \<forall>x \<ge> v. x \<in> ah (its' ! k) \<longleftrightarrow> x \<in> ah (its ! k)))"
  using assms
proof (induction its arbitrary: i)
  case Nil
  then show ?case by auto
next
  case (Cons it its)
  obtain it' where it': "sk it i = Some (did it', it')" "inv it'"
    "ah it' = {x \<in> ah it. i \<le> x}" "did it' = 0 \<longleftrightarrow> ah it' = {}"
    "did it' \<noteq> 0 \<Longrightarrow> i \<le> did it' \<and> did it' \<in> ah it"
    using skip_ahead[of it i] Cons.prems by auto
  show ?case
  proof (cases "did it' = 0")
    case True
    with it'(4) have "rest it' = []" by (simp add: ahead_set)
    moreover have "\<forall>k < length (it # its). ah ((it' # its) ! k) \<subseteq> ah ((it # its) ! k)"
      using it'(3) by (auto simp: nth_Cons split: nat.split)
    ultimately show ?thesis using True it' Cons.prems by auto
  next
    case False
    then have le: "i \<le> did it'" "did it' \<in> ah it" using it'(5) by auto
    obtain v its' where rnd: "and_round sk (did it') its = Some (v, its')" "length its' = length its"
      "\<forall>it \<in> set its'. inv it" and sub: "\<forall>k < length its. ah (its' ! k) \<subseteq> ah (its ! k)"
      and v: "if v = 0
       then (\<exists>it \<in> set its'. did it = 0 \<and> rest it = []) \<and> \<not> (\<exists>x \<ge> did it'. \<forall>it \<in> set its. x \<in> ah it)
       else did it' \<le> v \<and> (\<forall>it \<in> set its'. did it' \<le> did it \<and> did it \<le> v \<and> did it \<noteq> 0) \<and>
          (\<forall>x. did it' \<le> x \<longrightarrow> (\<forall>it \<in> set its. x \<in> ah it) \<longrightarrow> v \<le> x) \<and>
          (\<forall>k < length its. \<forall>x \<ge> v. x \<in> ah (its' ! k) \<longleftrightarrow> x \<in> ah (its ! k))"
      using Cons.IH[OF False] Cons.prems by auto
    have sub': "\<forall>k < length (it # its). ah ((it' # its') ! k) \<subseteq> ah ((it # its) ! k)"
      using it'(3) sub by (auto simp: nth_Cons split: nat.split)
    have low: "did it' \<le> x" if "x \<in> ah it" "i \<le> x" for x
      using ahead_facts(3)[OF it'(2), of x] it'(3) that by auto
    show ?thesis
    proof (cases "v = 0")
      case True
      then have "\<not> (\<exists>x \<ge> i. \<forall>it \<in> set (it # its). x \<in> ah it)"
        using v low by (metis list.set_intros)
      with True v rnd it' False Cons.prems sub' show ?thesis by auto
    next
      case v0: False
      have "\<forall>k < length (it # its). \<forall>x \<ge> v. x \<in> ah ((it' # its') ! k) \<longleftrightarrow> x \<in> ah ((it # its) ! k)"
      proof (intro allI impI)
        fix k x assume "k < length (it # its)" "v \<le> x"
        then show "x \<in> ah ((it' # its') ! k) \<longleftrightarrow> x \<in> ah ((it # its) ! k)"
          using v v0 it'(3) le(1) by (cases k) (auto intro: order_trans)
      qed
      moreover have "\<forall>x. i \<le> x \<longrightarrow> (\<forall>it \<in> set (it # its). x \<in> ah it) \<longrightarrow> v \<le> x"
        using v v0 low by auto
      moreover have "i \<le> v" "did it' \<le> v" using v v0 le(1) by auto
      moreover have "\<forall>it'' \<in> set (it' # its'). i \<le> did it'' \<and> did it'' \<le> v \<and> did it'' \<noteq> 0"
        using v v0 le(1) False by auto
      ultimately show ?thesis using rnd it' False v0 sub' by auto
    qed
  qed
qed

lemma common_transfer:
  assumes "length its' = length its" "\<forall>k < length its. x \<in> ah (its' ! k) \<longleftrightarrow> x \<in> ah (its ! k)"
  shows "(\<forall>it \<in> set its'. x \<in> ah it) \<longleftrightarrow> (\<forall>it \<in> set its. x \<in> ah it)"
  using assms all_set_conv_all_nth[of its' "\<lambda>it. x \<in> ah it"]
    all_set_conv_all_nth[of its "\<lambda>it. x \<in> ah it"] by auto

lemma and_loop_law:
  assumes "i \<noteq> 0" "its \<noteq> []" "\<forall>it \<in> set its. inv it"
  shows "\<exists>v its'. and_loop sk its i = Some (v, AndPostingIterator its' v) \<and> length its' = length its \<and>
    (\<forall>it \<in> set its'. inv it) \<and>
    (if v = 0
     then (\<exists>it \<in> set its'. did it = 0 \<and> rest it = []) \<and> \<not> (\<exists>x \<ge> i. \<forall>it \<in> set its. x \<in> ah it)
     else i \<le> v \<and> (\<forall>it \<in> set its'. did it = v) \<and>
          (\<forall>x. i \<le> x \<longrightarrow> (\<forall>it \<in> set its. x \<in> ah it) \<longrightarrow> v \<le> x) \<and>
          (\<forall>k < length its. \<forall>x \<ge> v. x \<in> ah (its' ! k) \<longleftrightarrow> x \<in> ah (its ! k)))"
  using assms
proof (induction "2 ^ 64 - unat i" arbitrary: i its rule: less_induct)
  case less
  obtain v its' where rnd: "and_round sk i its = Some (v, its')" "length its' = length its"
      "\<forall>it \<in> set its'. inv it"
      and v: "if v = 0
       then (\<exists>it \<in> set its'. did it = 0 \<and> rest it = []) \<and> \<not> (\<exists>x \<ge> i. \<forall>it \<in> set its. x \<in> ah it)
       else i \<le> v \<and> (\<forall>it \<in> set its'. i \<le> did it \<and> did it \<le> v \<and> did it \<noteq> 0) \<and>
          (\<forall>x. i \<le> x \<longrightarrow> (\<forall>it \<in> set its. x \<in> ah it) \<longrightarrow> v \<le> x) \<and>
          (\<forall>k < length its. \<forall>x \<ge> v. x \<in> ah (its' ! k) \<longleftrightarrow> x \<in> ah (its ! k))"
    using and_round_law[OF less.prems(1,3)] by blast
  consider "v = 0" | "v \<noteq> 0" "v = i" | "v \<noteq> 0" "v \<noteq> i" by blast
  then show ?case
  proof cases
    case 1
    with rnd v show ?thesis by (subst and_loop.simps) auto
  next
    case 2
    with v have "\<forall>it \<in> set its'. did it = v" by auto
    with 2 rnd v show ?thesis by (subst and_loop.simps) auto
  next
    case 3
    with v have lt: "i < v" by auto
    then have "unat i < unat v" "unat v < 2 ^ 64"
      using unsigned_less[of v, where 'a = nat] by (simp_all add: word_less_nat_alt)
    then have "2 ^ 64 - unat v < 2 ^ 64 - unat i" by linarith
    moreover have "its' \<noteq> []" using rnd(2) less.prems(2) by auto
    ultimately obtain w its2 where loop: "and_loop sk its' v = Some (w, AndPostingIterator its2 w)"
        "length its2 = length its'" "\<forall>it \<in> set its2. inv it"
      and w: "if w = 0
       then (\<exists>it \<in> set its2. did it = 0 \<and> rest it = []) \<and> \<not> (\<exists>x \<ge> v. \<forall>it \<in> set its'. x \<in> ah it)
       else v \<le> w \<and> (\<forall>it \<in> set its2. did it = w) \<and>
          (\<forall>x. v \<le> x \<longrightarrow> (\<forall>it \<in> set its'. x \<in> ah it) \<longrightarrow> w \<le> x) \<and>
          (\<forall>k < length its'. \<forall>x \<ge> w. x \<in> ah (its2 ! k) \<longleftrightarrow> x \<in> ah (its' ! k))"
      using less.hyps[OF _ 3(1) _ rnd(3)] by blast
    have common: "v \<le> x \<and> (\<forall>it \<in> set its'. x \<in> ah it)" if "i \<le> x" "\<forall>it \<in> set its. x \<in> ah it" for x
    proof -
      from v 3(1) that have "v \<le> x" by auto
      moreover have "\<forall>it \<in> set its'. x \<in> ah it"
        using v 3(1) that(2) \<open>v \<le> x\<close> common_transfer[OF rnd(2)] by (simp split: if_splits)
      ultimately show ?thesis by blast
    qed
    have loop': "and_loop sk its i = Some (w, AndPostingIterator its2 w)"
      using rnd(1) loop(1) 3 by (subst and_loop.simps) simp
    show ?thesis
    proof (cases "w = 0")
      case True
      with w have "\<exists>it \<in> set its2. did it = 0 \<and> rest it = []"
        and "\<not> (\<exists>x \<ge> v. \<forall>it \<in> set its'. x \<in> ah it)" by simp_all
      moreover from this(2) have "\<not> (\<exists>x \<ge> i. \<forall>it \<in> set its. x \<in> ah it)" using common by blast
      moreover have "length its2 = length its" using loop(2) rnd(2) by simp
      ultimately show ?thesis using loop' loop(3) True
        by (intro exI[of _ w] exI[of _ its2] conjI) (simp_all only: if_True simp_thms)
    next
      case False
      with w have w': "v \<le> w" "\<forall>it \<in> set its2. did it = w"
          "\<forall>x. v \<le> x \<longrightarrow> (\<forall>it \<in> set its'. x \<in> ah it) \<longrightarrow> w \<le> x"
          "\<forall>k < length its'. \<forall>x \<ge> w. x \<in> ah (its2 ! k) \<longleftrightarrow> x \<in> ah (its' ! k)" by simp_all
      from v 3(1) have v': "\<forall>k < length its. \<forall>x \<ge> v. x \<in> ah (its' ! k) \<longleftrightarrow> x \<in> ah (its ! k)" by simp
      have "x \<in> ah (its2 ! k) \<longleftrightarrow> x \<in> ah (its ! k)" if "k < length its" "w \<le> x" for k x
        using w'(4) v' that rnd(2) order_trans[OF w'(1) that(2)] by metis
      moreover have "\<forall>x. i \<le> x \<longrightarrow> (\<forall>it \<in> set its. x \<in> ah it) \<longrightarrow> w \<le> x"
        using w'(3) common by blast
      moreover have "i \<le> w" using lt w'(1) by auto
      moreover have "length its2 = length its" using loop(2) rnd(2) by simp
      ultimately show ?thesis using loop' loop(3) w'(2) False by auto
    qed
  qed
qed

text \<open>The ids that all iterators have at or after their position.\<close>

definition common :: "'i list \<Rightarrow> u64 set" where
  "common its = {x. \<forall>it \<in> set its. x \<in> ah it}"

abbreviation and_R :: "'i list \<Rightarrow> u64 list" where
  "and_R its \<equiv> and_rest did rest (AndPostingIterator its 0)"

lemma and_rest_R: "and_rest did rest (AndPostingIterator its d) = and_R its"
  by simp

lemma asc_and_R: "\<forall>it \<in> set its. inv it \<Longrightarrow> asc (and_R its)"
  by (cases its) (simp_all add: asc_filter ahead_facts(1))

lemma set_and_R:
  assumes "\<forall>it \<in> set (it0 # its). inv it"
  shows "set (and_R (it0 # its)) = {x \<in> common (it0 # its). did it0 < x}"
proof -
  have "set (rest it0) = {x \<in> ah it0. did it0 < x}"
    using assms by (intro ahead_facts(4)) simp
  then show ?thesis by (auto simp: common_def simp del: ahead_def)
qed

lemma and_R_Nil_ended:
  assumes "\<forall>it \<in> set its. inv it" "it \<in> set its" "did it = 0" "rest it = []"
  shows "and_R its = []" "common its = {}"
proof -
  have "ah it = {}" using assms(3,4) by (simp add: ahead_set)
  then show empty: "common its = {}" using assms(2) unfolding common_def
    by (metis (mono_tags, lifting) Collect_empty_eq empty_iff)
  show "and_R its = []"
  proof (cases its)
    case (Cons it0 its0)
    have "set (and_R (it0 # its0)) = {x \<in> common (it0 # its0). did it0 < x}"
      using assms(1) unfolding Cons by (rule set_and_R)
    then have "set (and_R its) = {}" unfolding Cons[symmetric] empty by simp
    then show ?thesis by (simp only: set_empty)
  qed simp
qed

lemma filter_from_least:
  assumes "asc R" "{x \<in> set R. i \<le> x} = {x \<in> C. i \<le> (x :: u64)}" "v \<in> C" "i \<le> v"
    and "\<forall>x \<in> C. i \<le> x \<longrightarrow> v \<le> x" and "asc R'" "set R' = {x \<in> C. v < x}"
  shows "filter (\<lambda>x. i \<le> x) R = v # R'"
proof (rule asc_set_unique)
  show "asc (filter (\<lambda>x. i \<le> x) R)" using assms(1) by (rule asc_filter)
  show "asc (v # R')" using assms(6,7) by auto
  show "set (filter (\<lambda>x. i \<le> x) R) = set (v # R')"
  proof -
    have "set (filter (\<lambda>x. i \<le> x) R) = {x \<in> C. i \<le> x}" using assms(2) by auto
    also have "\<dots> = insert v {x \<in> C. v < x}"
      using assms(3-5) by (auto simp: le_less intro: less_trans)
    finally show ?thesis using assms(7) by simp
  qed
qed

text \<open>Where the loop arrives, starting from a proper id.\<close>

lemma and_loop_arrives:
  assumes "i \<noteq> 0" "its \<noteq> []" "\<forall>it \<in> set its. inv it"
    and R: "asc R" "{x \<in> set R. i \<le> x} = {x \<in> common its. i \<le> x}"
  shows "\<exists>a. and_loop sk its i = Some (AndPostingIterator_docId a, a) \<and> and_inv did rest inv a \<and>
    AndPostingIterator_docId a = hd0 (filter (\<lambda>x. i \<le> x) R) \<and>
    and_rest did rest a = tl (filter (\<lambda>x. i \<le> x) R)"
proof -
  obtain v its' where loop: "and_loop sk its i = Some (v, AndPostingIterator its' v)"
      "length its' = length its" "\<forall>it \<in> set its'. inv it"
    and v: "if v = 0
     then (\<exists>it \<in> set its'. did it = 0 \<and> rest it = []) \<and> \<not> (\<exists>x \<ge> i. \<forall>it \<in> set its. x \<in> ah it)
     else i \<le> v \<and> (\<forall>it \<in> set its'. did it = v) \<and>
          (\<forall>x. i \<le> x \<longrightarrow> (\<forall>it \<in> set its. x \<in> ah it) \<longrightarrow> v \<le> x) \<and>
          (\<forall>k < length its. \<forall>x \<ge> v. x \<in> ah (its' ! k) \<longleftrightarrow> x \<in> ah (its ! k))"
    using and_loop_law[OF assms(1-3)] by blast
  show ?thesis
  proof (cases "v = 0")
    case True
    with v obtain it where it: "it \<in> set its'" "did it = 0" "rest it = []"
      and none: "\<not> (\<exists>x \<ge> i. \<forall>it \<in> set its. x \<in> ah it)" by auto
    have "set (filter (\<lambda>x. i \<le> x) R) = {}" using none R(2) by (auto simp: common_def)
    then have "filter (\<lambda>x. i \<le> x) R = []" by (simp only: set_empty)
    with True loop it and_R_Nil_ended[OF loop(3) it] show ?thesis
      by (intro exI[of _ "AndPostingIterator its' 0"]) (auto simp del: and_rest.simps)
  next
    case False
    with v have v': "i \<le> v" "\<forall>it \<in> set its'. did it = v"
      "\<forall>x. i \<le> x \<longrightarrow> (\<forall>it \<in> set its. x \<in> ah it) \<longrightarrow> v \<le> x"
      "\<forall>k < length its. \<forall>x \<ge> v. x \<in> ah (its' ! k) \<longleftrightarrow> x \<in> ah (its ! k)" by simp_all
    obtain it0 its0 where its': "its' = it0 # its0" using loop(2) assms(2) by (cases its') auto
    have mem: "x \<in> common its' \<longleftrightarrow> x \<in> common its" if "v \<le> x" for x
      unfolding common_def using common_transfer[OF loop(2), of x] v'(4) that by blast
    have "v \<in> common its'" using v'(2) False by (auto simp: common_def ahead_set)
    then have vc: "v \<in> common its" using mem by blast
    have least: "\<forall>x \<in> common its. i \<le> x \<longrightarrow> v \<le> x" using v'(3) by (auto simp: common_def)
    have "set (and_R its') = {x \<in> common its'. v < x}"
      unfolding its' using set_and_R[of it0 its0] loop(3) v'(2) by (simp only: its' list.set_intros)
    then have "set (and_R its') = {x \<in> common its. v < x}" using mem by auto
    from filter_from_least[OF R vc v'(1) least asc_and_R[OF loop(3)] this]
    have "filter (\<lambda>x. i \<le> x) R = v # and_R its'" .
    with loop v'(2) False its' show ?thesis
      by (intro exI[of _ "AndPostingIterator its' v"])
        (auto simp del: and_rest.simps simp add: and_rest_R[of "it0 # its0" "did it0"])
  qed
qed

lemma and_R_common:
  assumes "\<forall>it \<in> set its. inv it" "i \<noteq> 0"
    and "(\<forall>it \<in> set its. did it < i) \<or> (\<exists>it \<in> set its. did it = 0 \<and> rest it = [])" "its \<noteq> []"
  shows "{x \<in> set (and_R its). i \<le> x} = {x \<in> common its. i \<le> x}"
proof (cases "\<exists>it \<in> set its. did it = 0 \<and> rest it = []")
  case True
  then obtain it where "it \<in> set its" "did it = 0" "rest it = []" by blast
  from and_R_Nil_ended[OF assms(1) this] show ?thesis by (simp del: and_rest.simps)
next
  case False
  obtain it0 its0 where its: "its = it0 # its0" using assms(4) by (cases its) auto
  then have "did it0 < i" using False assms(3) by auto
  moreover have "set (and_R its) = {x \<in> common its. did it0 < x}"
    using assms(1) unfolding its by (rule set_and_R)
  ultimately show ?thesis by (auto intro: less_le_trans)
qed

text \<open>Nothing moves when the conjunction already stands at or after \<open>i\<close>.\<close>

lemma and_loop_stays:
  assumes "d \<noteq> 0" "its \<noteq> []" "\<forall>it \<in> set its. inv it \<and> did it = d" "i \<noteq> 0" "i \<le> d"
  shows "\<exists>its'. and_loop sk its i = Some (d, AndPostingIterator its' d) \<and>
    and_inv did rest inv (AndPostingIterator its' d) \<and> and_R its' = and_R its"
proof -
  obtain it0 its0 where its: "its = it0 # its0" using assms(2) by (cases its) auto
  have inv: "\<forall>it \<in> set its. inv it" using assms(3) by blast
  have dc: "d \<in> common its" using assms(1,3) by (auto simp: common_def ahead_set)
  have least: "d \<le> x" if "x \<in> common its" for x
    using that assms(3) ahead_facts(3)[of it0 x] unfolding its common_def by auto
  have R: "set (and_R its) = {x \<in> common its. d < x}"
    using set_and_R[of it0 its0] inv assms(3) unfolding its by simp
  have "asc (d # and_R its)" using asc_and_R[OF inv] R by auto
  moreover have "{x \<in> set (d # and_R its). i \<le> x} = {x \<in> common its. i \<le> x}"
    using R dc least assms(5) by (auto simp: le_less)
  ultimately obtain a where a: "and_loop sk its i = Some (AndPostingIterator_docId a, a)"
    "and_inv did rest inv a"
    "AndPostingIterator_docId a = hd0 (filter (\<lambda>x. i \<le> x) (d # and_R its))"
    "and_rest did rest a = tl (filter (\<lambda>x. i \<le> x) (d # and_R its))"
    using and_loop_arrives[OF assms(4,2) inv] by blast
  have "filter (\<lambda>x. i \<le> x) (and_R its) = and_R its"
    using R assms(5) by (intro filter_True) (auto intro: order_trans)
  with a(3,4) assms(5) have "AndPostingIterator_docId a = d" "and_rest did rest a = and_R its"
    by (simp_all del: and_rest.simps)
  moreover obtain its' d' where "a = AndPostingIterator its' d'" by (cases a)
  ultimately show ?thesis using a(1,2) and_rest_R[of its' d] by auto
qed

text \<open>\<open>skipTo 0\<close>: the first iterator stays where it is.\<close>

lemma and_round_zero:
  assumes "its \<noteq> []" "and_inv did rest inv (AndPostingIterator its d)"
  shows "\<exists>its'. and_round sk 0 its = Some (d, its') \<and> its' \<noteq> [] \<and>
    and_inv did rest inv (AndPostingIterator its' d) \<and> and_R its' = and_R its"
proof -
  obtain it0 its0 where its: "its = it0 # its0" using assms(1) by (cases its) auto
  have inv: "\<forall>it \<in> set its. inv it" using assms(2) by simp
  obtain it0' where sk: "sk it0 0 = Some (did it0, it0')" and it0': "inv it0'" "did it0' = did it0"
    "rest it0' = rest it0"
    using sk_law[of it0 0] inv its by auto
  have ah0: "ah it0' = ah it0" by (simp add: ahead_set it0')
  have R0: "and_R (it0' # xs) = and_R (it0 # xs)" for xs by (simp add: it0')
  show ?thesis
  proof (cases "did it0 = 0")
    case True
    have "d = 0" using True assms(2) its by (auto split: if_splits)
    moreover have "and_round sk 0 its = Some (0, it0' # its0)" using sk True by (simp add: its)
    moreover have "and_inv did rest inv (AndPostingIterator (it0' # its0) 0)"
      using assms(2) its it0' \<open>d = 0\<close> by auto
    ultimately show ?thesis using R0 unfolding its by blast
  next
    case False
    obtain v its' where rnd: "and_round sk (did it0) its0 = Some (v, its')" "length its' = length its0"
        "\<forall>it \<in> set its'. inv it" "\<forall>k < length its0. ah (its' ! k) \<subseteq> ah (its0 ! k)"
      and v: "if v = 0
       then (\<exists>it \<in> set its'. did it = 0 \<and> rest it = []) \<and> \<not> (\<exists>x \<ge> did it0. \<forall>it \<in> set its0. x \<in> ah it)
       else did it0 \<le> v \<and> (\<forall>it \<in> set its'. did it0 \<le> did it \<and> did it \<le> v \<and> did it \<noteq> 0) \<and>
          (\<forall>x. did it0 \<le> x \<longrightarrow> (\<forall>it \<in> set its0. x \<in> ah it) \<longrightarrow> v \<le> x) \<and>
          (\<forall>k < length its0. \<forall>x \<ge> v. x \<in> ah (its' ! k) \<longleftrightarrow> x \<in> ah (its0 ! k))"
      using and_round_law[of "did it0" its0] False inv its by auto
    have round0: "and_round sk 0 its = Some (v, it0' # its')"
      using sk False rnd(1) by (simp add: its)
    show ?thesis
    proof (cases "d = 0")
      case True
      then obtain it where it: "it \<in> set its0" "did it = 0" "rest it = []"
        using assms(2) False its by auto
      have "v = 0"
      proof (rule ccontr)
        assume "v \<noteq> 0"
        obtain k where k: "k < length its0" "its0 ! k = it" using it(1) by (auto simp: in_set_conv_nth)
        moreover have "ah it = {}" using it(2,3) by (simp add: ahead_set)
        ultimately have "ah (its' ! k) = {}" using rnd(4) by fastforce
        moreover have "its' ! k \<in> set its'" using k(1) rnd(2) by simp
        then have "did (its' ! k) \<noteq> 0" using v \<open>v \<noteq> 0\<close> by auto
        ultimately show False by (simp add: ahead_set)
      qed
      with v obtain it' where it': "it' \<in> set (it0' # its')" "did it' = 0" "rest it' = []" by auto
      have inv': "\<forall>it \<in> set (it0' # its'). inv it" using rnd(3) it0'(1) by auto
      have "it \<in> set its" using it(1) its by simp
      from and_R_Nil_ended(1)[OF inv this it(2,3)] and_R_Nil_ended(1)[OF inv' it']
      have "and_R (it0' # its') = and_R its" by simp
      moreover have "and_round sk 0 its = Some (0, it0' # its')" using round0 \<open>v = 0\<close> by simp
      moreover have "and_inv did rest inv (AndPostingIterator (it0' # its') 0)"
        using inv' it' by auto
      ultimately show ?thesis using True by blast
    next
      case d: False
      then have all: "\<forall>it \<in> set its. did it = d" using assms(2) by (auto split: if_splits)
      then have dc: "\<forall>it \<in> set its0. d \<in> ah it" using its d by (auto simp: ahead_set)
      have d0: "did it0 = d" using all its by simp
      have "v \<noteq> 0" using v dc d0 by (auto split: if_splits)
      with v d0 dc have vd: "v = d" by (auto intro: antisym)
      with v \<open>v \<noteq> 0\<close> d0 have at: "\<forall>it \<in> set its'. did it = d"
        and eq: "\<forall>k < length its0. \<forall>x \<ge> d. x \<in> ah (its' ! k) \<longleftrightarrow> x \<in> ah (its0 ! k)"
        by (auto intro: antisym)
      have "\<forall>it \<in> set (it0' # its'). inv it \<and> did it = d"
        using rnd(3) it0' d0 at by auto
      then have inv': "and_inv did rest inv (AndPostingIterator (it0' # its') d)" using d by auto
      have "(\<forall>it \<in> set its'. x \<in> ah it) \<longleftrightarrow> (\<forall>it \<in> set its0. x \<in> ah it)" if "d < x" for x
        using common_transfer[OF rnd(2)] eq that by (meson less_imp_le)
      moreover have "\<forall>x \<in> set (rest it0). d < x" using ahead_facts(2)[of it0] inv its d0 by auto
      ultimately have "and_R (it0' # its') = and_R its"
        by (simp add: its it0' cong: filter_cong)
      then show ?thesis using round0 vd inv' by blast
    qed
  qed
qed

lemma and_loop_zero:
  assumes "its \<noteq> []" "and_inv did rest inv (AndPostingIterator its d)"
  shows "\<exists>its'. and_loop sk its 0 = Some (d, AndPostingIterator its' d) \<and>
    and_inv did rest inv (AndPostingIterator its' d) \<and> and_R its' = and_R its"
proof -
  obtain its' where rnd: "and_round sk 0 its = Some (d, its')" "its' \<noteq> []"
    "and_inv did rest inv (AndPostingIterator its' d)" "and_R its' = and_R its"
    using and_round_zero[OF assms] by blast
  show ?thesis
  proof (cases "d = 0")
    case True
    then show ?thesis using rnd by (subst and_loop.simps) (simp del: and_rest.simps and_inv.simps)
  next
    case False
    then have "\<forall>it \<in> set its'. inv it \<and> did it = d" using rnd(3) by (auto split: if_splits)
    then obtain its2 where "and_loop sk its' d = Some (d, AndPostingIterator its2 d)"
      "and_inv did rest inv (AndPostingIterator its2 d)" "and_R its2 = and_R its'"
      using and_loop_stays[OF False rnd(2) _ False] by blast
    then show ?thesis
      using rnd(1,4) False by (subst and_loop.simps) (simp del: and_rest.simps and_inv.simps)
  qed
qed

lemma and_skip_law:
  assumes "and_inv did rest inv a"
  shows "\<exists>a'. AndPostingIterator_skipTo sk a i = Some (AndPostingIterator_docId a', a') \<and>
    and_inv did rest inv a' \<and>
    (if i \<le> AndPostingIterator_docId a
     then AndPostingIterator_docId a' = AndPostingIterator_docId a \<and> and_rest did rest a' = and_rest did rest a
     else AndPostingIterator_docId a' = hd0 (filter (\<lambda>x. i \<le> x) (and_rest did rest a)) \<and>
          and_rest did rest a' = tl (filter (\<lambda>x. i \<le> x) (and_rest did rest a)))"
proof -
  obtain its d where a: "a = AndPostingIterator its d" by (cases a)
  have inv: "\<forall>it \<in> set its. inv it" using assms by (simp add: a)
  consider "its = []" | "its \<noteq> []" "i = 0" | "its \<noteq> []" "i \<noteq> 0" "i \<le> d" | "its \<noteq> []" "\<not> i \<le> d"
    by blast
  then show ?thesis
  proof cases
    case 1
    then show ?thesis using assms by (auto simp: a split: if_splits)
  next
    case 2
    obtain its' where its': "and_loop sk its 0 = Some (d, AndPostingIterator its' d)"
      "and_inv did rest inv (AndPostingIterator its' d)" "and_R its' = and_R its"
      using and_loop_zero[OF 2(1) assms[unfolded a]] by blast
    then show ?thesis
      using 2 and_rest_R[of its d] and_rest_R[of its' d]
      by (intro exI[of _ "AndPostingIterator its' d"]) (simp add: a del: and_rest.simps and_inv.simps)
  next
    case 3
    then have "d \<noteq> 0" by auto
    then have "\<forall>it \<in> set its. inv it \<and> did it = d" using assms by (auto simp: a split: if_splits)
    from and_loop_stays[OF \<open>d \<noteq> 0\<close> 3(1) this 3(2,3)]
    obtain its' where its': "and_loop sk its i = Some (d, AndPostingIterator its' d)"
      "and_inv did rest inv (AndPostingIterator its' d)" "and_R its' = and_R its" by blast
    then show ?thesis
      using 3 and_rest_R[of its d] and_rest_R[of its' d]
      by (intro exI[of _ "AndPostingIterator its' d"]) (simp add: a del: and_rest.simps and_inv.simps)
  next
    case 4
    then have i: "i \<noteq> 0" "d < i" by auto
    have "(\<forall>it \<in> set its. did it < i) \<or> (\<exists>it \<in> set its. did it = 0 \<and> rest it = [])"
      using assms i by (auto simp: a word_neq_0_conv split: if_splits)
    from and_R_common[OF inv i(1) this 4(1)] show ?thesis
      using and_loop_arrives[OF i(1) 4(1) inv asc_and_R[OF inv]] 4 and_rest_R[of its d]
      by (simp add: a del: and_rest.simps)
  qed
qed

lemma and_next_law:
  assumes "and_inv did rest inv a"
  shows "\<exists>a'. AndPostingIterator_next nx sk a = Some (hd0 (and_rest did rest a), a') \<and>
    and_inv did rest inv a' \<and> AndPostingIterator_docId a' = hd0 (and_rest did rest a) \<and>
    and_rest did rest a' = tl (and_rest did rest a)"
proof -
  obtain its d where a: "a = AndPostingIterator its d" by (cases a)
  show ?thesis
  proof (cases its)
    case Nil
    then show ?thesis by (simp add: a)
  next
    case (Cons it0 its0)
    have inv: "\<forall>it \<in> set its. inv it" using assms by (simp add: a)
    obtain it0' where nx: "nx it0 = Some (hd0 (rest it0), it0')" and it0': "inv it0'"
      "did it0' = hd0 (rest it0)" "rest it0' = tl (rest it0)"
      using nx_law[of it0] inv Cons by auto
    have inv': "\<forall>it \<in> set (it0' # its0). inv it" using inv it0'(1) Cons by auto
    show ?thesis
    proof (cases "rest it0")
      case Nil
      then have "and_inv did rest inv (AndPostingIterator (it0' # its0) 0)" using inv' it0' by auto
      from and_loop_zero[OF _ this] obtain its' where
        "and_loop sk (it0' # its0) 0 = Some (0, AndPostingIterator its' 0)"
        "and_inv did rest inv (AndPostingIterator its' 0)" "and_R its' = and_R (it0' # its0)" by auto
      moreover have "and_R (it0' # its0) = []" "and_R its = []" using Nil it0' Cons by auto
      ultimately show ?thesis
        using nx Nil Cons and_rest_R[of its d] by (auto simp: a simp del: and_rest.simps)
    next
      case (Cons x xs)
      have "did it0 < x" using ahead_facts(2)[of it0 x] inv \<open>its = it0 # its0\<close> Cons by auto
      then have "x \<noteq> 0" by auto
      have "ah it0' = set (rest it0)" using it0' Cons \<open>x \<noteq> 0\<close> by (simp add: ahead_set)
      then have R: "set (and_R its) = common (it0' # its0)"
        by (auto simp: \<open>its = it0 # its0\<close> common_def)
      have "\<forall>y \<in> set (rest it0). x \<le> y"
        using ahead_facts(1)[of it0] inv \<open>its = it0 # its0\<close> Cons by auto
      then have "filter (\<lambda>y. x \<le> y) (and_R its) = and_R its"
        by (intro filter_True) (auto simp: \<open>its = it0 # its0\<close>)
      then show ?thesis
        using and_loop_arrives[OF \<open>x \<noteq> 0\<close> _ inv' asc_and_R[OF inv]] R nx Cons and_rest_R[of its d]
        by (auto simp: a \<open>its = it0 # its0\<close> simp del: and_rest.simps)
    qed
  qed
qed

lemma and_asc_law: "and_inv did rest inv a \<Longrightarrow> asc (AndPostingIterator_docId a # and_rest did rest a)"
proof -
  assume assm: "and_inv did rest inv a"
  obtain its d where a: "a = AndPostingIterator its d" by (cases a)
  show ?thesis
  proof (cases its)
    case (Cons it0 its0)
    then have "asc (did it0 # rest it0)" using assm by (intro asc_rest) (simp add: a)
    moreover have "d = did it0 \<or> d = 0" using assm Cons by (auto simp: a split: if_splits)
    ultimately show ?thesis
      by (auto simp: a Cons asc_filter word_neq_0_conv intro: le_less_trans[OF word_zero_le])
  qed (use assm in \<open>simp add: a\<close>)
qed

text \<open>A conjunction of iterators that keep the interface's contract keeps it.\<close>

lemma conj_iterator:
  "posting_iterator (AndPostingIterator_next nx sk) AndPostingIterator_docId (and_rest did rest)
     (and_inv did rest inv) (AndPostingIterator_skipTo sk)"
  by unfold_locales (fact and_asc_law and_next_law and_skip_law)+

end

end
