(* ===== verification/OrIter.thy ===== *)
theory OrIter
  imports AndIter
begin

text \<open>
  \<open>orpostingiterator.cpp\<close>: the disjunction of iterators. The constructor starts every iterator;
  \<open>m_nextId\<close> is always the least id any of them stands on. Under the laws of \<open>posting_iterator\<close> for
  the iterators, the disjunction is a \<open>posting_iterator\<close> over the ascending list of all their ids,
  each once.
\<close>

datatype 'i OrPostingIterator =
  OrPostingIterator (or_iterators: "'i list") (or_docId: u64) (or_nextId: u64)

definition or_min :: "u64 \<Rightarrow> u64 \<Rightarrow> u64" where
  "or_min nextId d = (if d \<noteq> 0 \<and> (d < nextId \<or> nextId = 0) then d else nextId)"

fun or_start :: "('i \<Rightarrow> (u64 \<times> 'i) option) \<Rightarrow> u64 \<Rightarrow> 'i list \<Rightarrow> (u64 \<times> 'i list) option" where
  "or_start nx nextId [] = Some (nextId, [])"
| "or_start nx nextId (it # its) =
     Option.bind (nx it) (\<lambda>(d, it').
       Option.bind (or_start nx (or_min nextId d) its) (\<lambda>(m, its'). Some (m, it' # its')))"

definition OrPostingIterator_new ::
  "('i \<Rightarrow> (u64 \<times> 'i) option) \<Rightarrow> 'i option list \<Rightarrow> 'i OrPostingIterator option" where
  "OrPostingIterator_new nx its =
     Option.bind (or_start nx 0 (map the (filter (\<lambda>it. it \<noteq> None) its)))
       (\<lambda>(nextId, its'). Some (OrPostingIterator its' 0 nextId))"

fun OrPostingIterator_docId :: "'i OrPostingIterator \<Rightarrow> u64" where
  "OrPostingIterator_docId (OrPostingIterator its d n) = d"

text \<open>The fast-forward loop of \<open>skipTo\<close>.\<close>

fun or_forward :: "('i \<Rightarrow> u64 \<Rightarrow> (u64 \<times> 'i) option) \<Rightarrow> u64 \<Rightarrow> u64 \<Rightarrow> 'i list \<Rightarrow> (u64 \<times> 'i list) option" where
  "or_forward sk i nextId [] = Some (nextId, [])"
| "or_forward sk i nextId (it # its) =
     Option.bind (sk it i) (\<lambda>(d, it').
       Option.bind (or_forward sk i (or_min nextId d) its) (\<lambda>(m, its'). Some (m, it' # its')))"

text \<open>The loop that advances the iterators on \<open>m_docId\<close> and drops the finished ones.\<close>

fun or_advance ::
  "('i \<Rightarrow> (u64 \<times> 'i) option) \<Rightarrow> ('i \<Rightarrow> u64) \<Rightarrow> u64 \<Rightarrow> u64 \<Rightarrow> 'i list \<Rightarrow> (u64 \<times> 'i list) option" where
  "or_advance nx did m_docId nextId [] = Some (nextId, [])"
| "or_advance nx did m_docId nextId (it # its) =
     Option.bind (if did it = m_docId then nx it else Some (did it, it)) (\<lambda>(d, it').
       if d = 0 then or_advance nx did m_docId nextId its
       else Option.bind (or_advance nx did m_docId (or_min nextId d) its)
              (\<lambda>(m, its'). Some (m, it' # its')))"

definition or_land ::
  "('i \<Rightarrow> (u64 \<times> 'i) option) \<Rightarrow> ('i \<Rightarrow> u64) \<Rightarrow> 'i list \<Rightarrow> u64 \<Rightarrow> (u64 \<times> 'i OrPostingIterator) option" where
  "or_land nx did its d =
     Option.bind (or_advance nx did d 0 its) (\<lambda>(m, its'). Some (d, OrPostingIterator its' d m))"

fun OrPostingIterator_skipTo ::
  "('i \<Rightarrow> (u64 \<times> 'i) option) \<Rightarrow> ('i \<Rightarrow> u64) \<Rightarrow> ('i \<Rightarrow> u64 \<Rightarrow> (u64 \<times> 'i) option) \<Rightarrow>
   'i OrPostingIterator \<Rightarrow> u64 \<Rightarrow> (u64 \<times> 'i OrPostingIterator) option" where
  "OrPostingIterator_skipTo nx did sk (OrPostingIterator its d n) i =
     (if d \<ge> i then Some (d, OrPostingIterator its d n)
      else if n = 0 then Some (0, OrPostingIterator its 0 n)
      else if i > n
      then Option.bind (or_forward sk i 0 its) (\<lambda>(n', its').
             if n' = 0 then Some (0, OrPostingIterator its' 0 n') else or_land nx did its' n')
      else or_land nx did its n)"

fun OrPostingIterator_next ::
  "('i \<Rightarrow> (u64 \<times> 'i) option) \<Rightarrow> ('i \<Rightarrow> u64) \<Rightarrow> ('i \<Rightarrow> u64 \<Rightarrow> (u64 \<times> 'i) option) \<Rightarrow>
   'i OrPostingIterator \<Rightarrow> (u64 \<times> 'i OrPostingIterator) option" where
  "OrPostingIterator_next nx did sk (OrPostingIterator its d n) =
     (if n \<noteq> 0
      then Option.bind (OrPostingIterator_skipTo nx did sk (OrPostingIterator its d n) n)
             (\<lambda>(v, a). case a of OrPostingIterator its' _ n' \<Rightarrow> Some (v, OrPostingIterator its' v n'))
      else Some (0, OrPostingIterator its 0 n))"

section \<open>The ids of a disjunction\<close>

fun or_rest :: "('i \<Rightarrow> u64) \<Rightarrow> ('i \<Rightarrow> u64 list) \<Rightarrow> 'i OrPostingIterator \<Rightarrow> u64 list" where
  "or_rest did rest (OrPostingIterator its d n) = sort_unique (concat (map (ahead did rest) its))"

definition least0 :: "u64 \<Rightarrow> u64 set \<Rightarrow> bool" where
  "least0 m S \<longleftrightarrow> (if m = 0 then S = {} else m \<in> S \<and> (\<forall>x \<in> S. m \<le> x))"

lemma least0_empty [simp]: "least0 0 {}"
  by (simp add: least0_def)

lemma least0_or_min:
  assumes "least0 m S" "0 \<notin> S" "0 \<notin> T" "least0 d T"
  shows "least0 (or_min m d) (S \<union> T)"
  using assms by (auto simp: least0_def or_min_def split: if_splits)

lemma hd0_least:
  assumes "asc R" "least0 m (set R)" "0 \<notin> set R"
  shows "hd0 R = m"
  using assms by (cases R) (auto simp: least0_def split: if_splits intro: antisym)

fun or_inv :: "('i \<Rightarrow> u64) \<Rightarrow> ('i \<Rightarrow> u64 list) \<Rightarrow> ('i \<Rightarrow> bool) \<Rightarrow> 'i OrPostingIterator \<Rightarrow> bool" where
  "or_inv did rest ok (OrPostingIterator its d n) \<longleftrightarrow>
     (\<forall>it \<in> set its. ok it \<and> (did it = 0 \<longrightarrow> rest it = [])) \<and>
     least0 n (\<Union>it \<in> set its. set (ahead did rest it)) \<and>
     (\<forall>it \<in> set its. \<forall>x \<in> set (ahead did rest it). d < x)"

context posting_iterator
begin

abbreviation started :: "'i list \<Rightarrow> bool" where
  "started its \<equiv> \<forall>it \<in> set its. inv it \<and> (did it = 0 \<longrightarrow> rest it = [])"

abbreviation union :: "'i list \<Rightarrow> u64 set" where
  "union its \<equiv> (\<Union>it \<in> set its. ah it)"

lemma zero_union: "started its \<Longrightarrow> 0 \<notin> union its"
  using ahead_facts(5) by blast

lemma least0_did:
  assumes "inv it" "did it = 0 \<longrightarrow> rest it = []"
  shows "least0 (did it) (ah it)"
proof (cases "did it = 0")
  case True
  with assms(2) show ?thesis by (simp add: ahead_set)
next
  case False
  then show ?thesis using ahead_facts(3)[OF assms(1)] by (simp add: least0_def ahead_set)
qed

lemma nx_start:
  assumes "inv it"
  obtains it' where "nx it = Some (did it', it')" "inv it'" "did it' = 0 \<longrightarrow> rest it' = []"
    "ah it' = set (rest it)"
proof -
  obtain it' where it': "nx it = Some (hd0 (rest it), it')" "inv it'" "did it' = hd0 (rest it)"
    "rest it' = tl (rest it)" using nx_law[OF assms] by blast
  have "0 \<notin> set (rest it)" using ahead_facts(2)[OF assms, of 0] by auto
  then show ?thesis using it' by (intro that[of it']) (cases "rest it"; auto simp: ahead_set)+
qed

lemma or_start_law:
  assumes "\<forall>it \<in> set its. inv it \<and> did it = 0" "least0 m S" "0 \<notin> S"
  shows "\<exists>m' its'. or_start nx m its = Some (m', its') \<and> started its' \<and>
    union its' = union its \<and> least0 m' (S \<union> union its')"
  using assms
proof (induction its arbitrary: m S)
  case (Cons it its)
  obtain it' where it': "nx it = Some (did it', it')" "inv it'" "did it' = 0 \<longrightarrow> rest it' = []"
    "ah it' = set (rest it)" using nx_start[of it] Cons.prems(1) by auto
  have ah: "ah it' = ah it" using it'(4) Cons.prems(1) by (simp add: ahead_set)
  have z: "0 \<notin> ah it'" by (rule ahead_facts(5)[OF it'(2)])
  have "least0 (or_min m (did it')) (S \<union> ah it')"
    by (rule least0_or_min[OF Cons.prems(2,3) z least0_did[OF it'(2,3)]])
  from Cons.IH[OF _ this] Cons.prems z obtain m' its' where
    "or_start nx (or_min m (did it')) its = Some (m', its')" "started its'"
    "union its' = union its" "least0 m' (S \<union> ah it' \<union> union its')" by auto
  then show ?case using it' ah
    by (intro exI[of _ m'] exI[of _ "it' # its'"]) (auto simp: Un_assoc)
qed auto

lemma or_forward_law:
  assumes "started its" "least0 m S" "0 \<notin> S" "i \<noteq> 0"
  shows "\<exists>m' its'. or_forward sk i m its = Some (m', its') \<and> started its' \<and>
    union its' = {x \<in> union its. i \<le> x} \<and> least0 m' (S \<union> union its')"
  using assms(1-3)
proof (induction its arbitrary: m S)
  case (Cons it its)
  obtain it' where it': "sk it i = Some (did it', it')" "inv it'"
    "ah it' = {x \<in> ah it. i \<le> x}" "did it' = 0 \<longleftrightarrow> ah it' = {}"
    by (rule skip_ahead[of it i]) (use Cons.prems(1) assms(4) in auto)
  have st: "did it' = 0 \<longrightarrow> rest it' = []" using it'(4) by (auto simp: ahead_set)
  have z: "0 \<notin> ah it'" by (rule ahead_facts(5)[OF it'(2)])
  have "least0 (or_min m (did it')) (S \<union> ah it')"
    by (rule least0_or_min[OF Cons.prems(2,3) z least0_did[OF it'(2) st]])
  from Cons.IH[OF _ this] Cons.prems z obtain m' its' where
    "or_forward sk i (or_min m (did it')) its = Some (m', its')" "started its'"
    "union its' = {x \<in> union its. i \<le> x}" "least0 m' (S \<union> ah it' \<union> union its')" by auto
  then show ?case using it' st
    by (intro exI[of _ m'] exI[of _ "it' # its'"]) (auto simp: Un_assoc)
qed auto

lemma or_advance_law:
  assumes "started its" "least0 m S" "0 \<notin> S" "d \<noteq> 0" "\<forall>x \<in> union its. d \<le> x"
  shows "\<exists>m' its'. or_advance nx did d m its = Some (m', its') \<and> started its' \<and>
    union its' = union its - {d} \<and> least0 m' (S \<union> union its')"
  using assms(1-3,5)
proof (induction its arbitrary: m S)
  case (Cons it its)
  have inv: "inv it" using Cons.prems(1) by simp
  obtain it' where it': "(if did it = d then nx it else Some (did it, it)) = Some (did it', it')"
    "inv it'" "did it' = 0 \<longrightarrow> rest it' = []" "ah it' = ah it - {d}"
  proof (cases "did it = d")
    case True
    obtain it' where "nx it = Some (did it', it')" "inv it'" "did it' = 0 \<longrightarrow> rest it' = []"
      "ah it' = set (rest it)" using nx_start[OF inv] by auto
    moreover have "set (rest it) = ah it - {d}"
      using ahead_facts(3,4)[OF inv] True by (auto simp: le_less)
    ultimately show ?thesis using True by (intro that[of it']) auto
  next
    case False
    have "d \<notin> ah it"
    proof
      assume "d \<in> ah it"
      then have "did it \<le> d" by (rule ahead_facts(3)[OF inv])
      moreover have "did it \<noteq> 0" using Cons.prems(1) \<open>d \<in> ah it\<close> by (auto simp: ahead_set)
      then have "d \<le> did it" using Cons.prems(4) by (auto simp: ahead_set)
      ultimately show False using False by auto
    qed
    then show ?thesis using False Cons.prems(1) by (intro that[of it]) auto
  qed
  have z: "0 \<notin> ah it'" by (rule ahead_facts(5)[OF it'(2)])
  note least = least0_did[OF it'(2,3)]
  show ?case
  proof (cases "did it' = 0")
    case True
    then have "ah it' = {}" using least by (simp add: least0_def)
    obtain m' its' where "or_advance nx did d m its = Some (m', its')" "started its'"
      "union its' = union its - {d}" "least0 m' (S \<union> union its')"
      using Cons.IH[OF _ Cons.prems(2,3)] Cons.prems by auto
    then show ?thesis using it'(1,4) True \<open>ah it' = {}\<close> by (cases "did it = d") auto
  next
    case False
    have "least0 (or_min m (did it')) (S \<union> ah it')"
      by (rule least0_or_min[OF Cons.prems(2,3) z least])
    from Cons.IH[OF _ this] Cons.prems z obtain m' its' where
      "or_advance nx did d (or_min m (did it')) its = Some (m', its')" "started its'"
      "union its' = union its - {d}" "least0 m' (S \<union> ah it' \<union> union its')" by auto
    then show ?thesis using it' False
      by (intro exI[of _ m'] exI[of _ "it' # its'"]) (cases "did it = d"; auto simp: Un_assoc)
  qed
qed auto

lemma set_or_rest: "set (or_rest did rest (OrPostingIterator its d n)) = union its"
  by simp

lemma asc_or_rest: "asc (or_rest did rest a)"
  by (cases a) simp

lemma or_land_law:
  assumes "started its" "least0 v (union its)" "v \<noteq> 0"
    and R: "asc R" "set R = union its"
  shows "\<exists>a. or_land nx did its v = Some (v, a) \<and> or_inv did rest inv a \<and>
    OrPostingIterator_docId a = v \<and> R = v # or_rest did rest a"
proof -
  have v: "v \<in> union its" "\<forall>x \<in> union its. v \<le> x"
    using assms(2,3) by (auto simp: least0_def)
  obtain m its' where adv: "or_advance nx did v 0 its = Some (m, its')" "started its'"
    "union its' = union its - {v}" "least0 m ({} \<union> union its')"
    using or_advance_law[OF assms(1) least0_empty _ assms(3) v(2)] by auto
  let ?a = "OrPostingIterator its' v m"
  have gt: "\<forall>x \<in> union its'. v < x"
    using v(2) adv(3) by (metis Diff_iff insertI1 order_le_imp_less_or_eq)
  have "asc (v # or_rest did rest ?a)"
    using asc_or_rest[of ?a] gt set_or_rest[of its' v m] by (simp del: or_rest.simps)
  moreover have "set R = set (v # or_rest did rest ?a)"
    using R(2) v(1) adv(3) set_or_rest[of its' v m] by (auto simp del: or_rest.simps)
  ultimately have "R = v # or_rest did rest ?a" using R(1) by (intro asc_set_unique)
  moreover have "or_inv did rest inv ?a" using adv gt by auto
  moreover have "or_land nx did its v = Some (v, ?a)" using adv(1) by (simp add: or_land_def)
  ultimately show ?thesis by (intro exI[of _ ?a]) (simp del: or_rest.simps or_inv.simps)
qed

lemma or_skip_law:
  assumes "or_inv did rest inv a"
  shows "\<exists>a'. OrPostingIterator_skipTo nx did sk a i = Some (OrPostingIterator_docId a', a') \<and>
    or_inv did rest inv a' \<and>
    (if i \<le> OrPostingIterator_docId a
     then OrPostingIterator_docId a' = OrPostingIterator_docId a \<and> or_rest did rest a' = or_rest did rest a
     else OrPostingIterator_docId a' = hd0 (filter (\<lambda>x. i \<le> x) (or_rest did rest a)) \<and>
          or_rest did rest a' = tl (filter (\<lambda>x. i \<le> x) (or_rest did rest a)))"
proof -
  obtain its d n where a: "a = OrPostingIterator its d n" by (cases a)
  have st: "started its" and least: "least0 n (union its)" using assms by (auto simp: a)
  note R = asc_or_rest[of a] set_or_rest[of its d n, folded a]
  consider "i \<le> d" | "d < i" "n = 0" | "d < i" "n \<noteq> 0" "n < i" | "d < i" "n \<noteq> 0" "i \<le> n"
    by fastforce
  then show ?thesis
  proof cases
    case 1
    then show ?thesis using assms by (auto simp: a)
  next
    case 2
    then have "union its = {}" using least by (simp add: least0_def)
    then have "set (or_rest did rest a) = {}" using R(2) by simp
    then have empty: "or_rest did rest a = []" by (simp only: set_empty)
    have "or_inv did rest inv (OrPostingIterator its 0 n)"
      using st least \<open>union its = {}\<close> by auto
    moreover have "or_rest did rest (OrPostingIterator its 0 n) = or_rest did rest a" by (simp add: a)
    ultimately show ?thesis
      using 2 empty by (intro exI[of _ "OrPostingIterator its 0 n"])
        (simp add: a not_le[symmetric] del: or_rest.simps or_inv.simps)
  next
    case 3
    then have "i \<noteq> 0" by auto
    then obtain n' its' where fwd: "or_forward sk i 0 its = Some (n', its')" "started its'"
      "union its' = {x \<in> union its. i \<le> x}" "least0 n' ({} \<union> union its')"
      using or_forward_law[OF st least0_empty] by blast
    let ?R = "filter (\<lambda>x. i \<le> x) (or_rest did rest a)"
    have R': "asc ?R" "set ?R = union its'"
      using asc_filter[OF R(1)] R(2) fwd(3) by (auto simp del: or_rest.simps)
    show ?thesis
    proof (cases "n' = 0")
      case True
      then have empty: "union its' = {}" using fwd(4) by (simp add: least0_def)
      then have "set ?R = {}" using R'(2) by simp
      then have "?R = []" by (simp only: set_empty)
      moreover have "set (or_rest did rest (OrPostingIterator its' 0 n')) = {}"
        unfolding set_or_rest by (rule empty)
      then have "or_rest did rest (OrPostingIterator its' 0 n') = []" by (simp only: set_empty)
      moreover have "or_inv did rest inv (OrPostingIterator its' 0 n')"
      proof -
        from empty have "\<forall>it \<in> set its'. ahead did rest it = []" by simp
        then show ?thesis using fwd(2) True by simp
      qed
      moreover have "OrPostingIterator_skipTo nx did sk a i = Some (0, OrPostingIterator its' 0 n')"
        using 3 fwd(1) True unfolding a by (simp add: not_le[symmetric])
      moreover have "\<not> i \<le> OrPostingIterator_docId a" using 3 unfolding a by (simp add: not_le[symmetric])
      ultimately show ?thesis
        by (intro exI[of _ "OrPostingIterator its' 0 n'"]) (simp del: or_rest.simps or_inv.simps)
    next
      case False
      with or_land_law[OF fwd(2) _ False R'] fwd(4) obtain a' where
        "or_land nx did its' n' = Some (n', a')" "or_inv did rest inv a'"
        "OrPostingIterator_docId a' = n'" "?R = n' # or_rest did rest a'" by auto
      moreover have "OrPostingIterator_skipTo nx did sk a i = or_land nx did its' n'"
        using 3 fwd(1) False unfolding a by (simp add: not_le[symmetric])
      moreover have "\<not> i \<le> OrPostingIterator_docId a" using 3 unfolding a by (simp add: not_le[symmetric])
      ultimately show ?thesis
        by (intro exI[of _ a']) (simp del: or_rest.simps or_inv.simps)
    qed
  next
    case 4
    have "\<forall>x \<in> set (or_rest did rest a). i \<le> x"
      using least 4 R(2) by (auto simp: least0_def simp del: or_rest.simps intro: order_trans)
    then have "filter (\<lambda>x. i \<le> x) (or_rest did rest a) = or_rest did rest a"
      by (simp add: filter_id_conv del: or_rest.simps)
    moreover obtain a' where "or_land nx did its n = Some (n, a')" "or_inv did rest inv a'"
        "OrPostingIterator_docId a' = n" "or_rest did rest a = n # or_rest did rest a'"
      using or_land_law[OF st least 4(2) R] by blast
    ultimately show ?thesis
      using 4 by (intro exI[of _ a']) (simp add: a not_le[symmetric] del: or_rest.simps or_inv.simps)
  qed
qed

lemma or_next_law:
  assumes "or_inv did rest inv a"
  shows "\<exists>a'. OrPostingIterator_next nx did sk a = Some (hd0 (or_rest did rest a), a') \<and>
    or_inv did rest inv a' \<and> OrPostingIterator_docId a' = hd0 (or_rest did rest a) \<and>
    or_rest did rest a' = tl (or_rest did rest a)"
proof -
  obtain its d n where a: "a = OrPostingIterator its d n" by (cases a)
  have st: "started its" and least: "least0 n (union its)" using assms by (auto simp: a)
  note R = asc_or_rest[of a] set_or_rest[of its d n, folded a]
  show ?thesis
  proof (cases "n = 0")
    case True
    then have "union its = {}" using least by (simp add: least0_def)
    moreover from this have "set (or_rest did rest a) = {}" using R(2) by simp
    then have "or_rest did rest a = []" by (simp only: set_empty)
    moreover have "or_rest did rest (OrPostingIterator its 0 n) = or_rest did rest a" by (simp add: a)
    moreover from \<open>union its = {}\<close> have "or_inv did rest inv (OrPostingIterator its 0 n)"
      using st True by auto
    ultimately show ?thesis
      using True by (intro exI[of _ "OrPostingIterator its 0 n"])
        (simp add: a del: or_rest.simps or_inv.simps)
  next
    case False
    obtain a' where land: "or_land nx did its n = Some (n, a')" "or_inv did rest inv a'"
        "OrPostingIterator_docId a' = n" "or_rest did rest a = n # or_rest did rest a'"
      using or_land_law[OF st least False R] by blast
    have "n \<in> union its" using least False by (simp add: least0_def)
    then have "d < n" using assms by (auto simp: a)
    with land False show ?thesis
      by (cases a') (auto simp: a not_le[symmetric] simp del: or_rest.simps or_inv.simps)
  qed
qed

lemma or_asc_law: "or_inv did rest inv a \<Longrightarrow> asc (OrPostingIterator_docId a # or_rest did rest a)"
  by (cases a) auto

text \<open>A disjunction of iterators that keep the interface's contract keeps it.\<close>

lemma disj_iterator:
  "posting_iterator (OrPostingIterator_next nx did sk) OrPostingIterator_docId (or_rest did rest)
     (or_inv did rest inv) (OrPostingIterator_skipTo nx did sk)"
  by unfold_locales (fact or_asc_law or_next_law or_skip_law)+

end

end
