(* ===== verification/PhraseIter.thy ===== *)
theory PhraseIter
  imports OrIter PhraseCheck
begin

text \<open>
  \<open>phraseanditerator.cpp\<close>: the documents in which the terms of a phrase stand one after another. It
  holds one \<open>VectorPositionInfoIterator\<close> per term; it walks like the conjunction and skips the
  documents on which \<open>checkIfPositionsMatch\<close> fails. It is a \<open>posting_iterator\<close> over the common
  documents that match.
\<close>

datatype PhraseAndIterator =
  PhraseAndIterator (phrase_iterators: "VectorPositionInfoIterator list") (phrase_docId: u64)

definition PhraseAndIterator_new :: "VectorPositionInfoIterator option list \<Rightarrow> PhraseAndIterator" where
  "PhraseAndIterator_new its =
     PhraseAndIterator (if list_ex Option.is_none its then [] else map the its) 0"

fun PhraseAndIterator_docId :: "PhraseAndIterator \<Rightarrow> u64" where
  "PhraseAndIterator_docId (PhraseAndIterator its d) = d"

abbreviation pi_next :: "VectorPositionInfoIterator \<Rightarrow> (u64 \<times> VectorPositionInfoIterator) option" where
  "pi_next it \<equiv> Some (VectorPositionInfoIterator_next it)"

abbreviation phrase_check :: "VectorPositionInfoIterator list \<Rightarrow> bool" where
  "phrase_check its \<equiv> checkIfPositionsMatch (map VectorPositionInfoIterator_positions its)"

partial_function (option) phrase_loop ::
  "VectorPositionInfoIterator list \<Rightarrow> u64 \<Rightarrow> (u64 \<times> PhraseAndIterator) option" where
  "phrase_loop its i =
     Option.bind (and_round VectorPositionInfoIterator_skipTo i its) (\<lambda>(lower_bound, its').
       if lower_bound = 0 then Some (0, PhraseAndIterator its' 0)
       else if lower_bound = i
       then if phrase_check its' then Some (lower_bound, PhraseAndIterator its' lower_bound)
            else let (lower_bound', it0) = VectorPositionInfoIterator_next (hd its')
                 in phrase_loop (it0 # tl its') lower_bound'
       else phrase_loop its' lower_bound)"

fun PhraseAndIterator_skipTo :: "PhraseAndIterator \<Rightarrow> u64 \<Rightarrow> (u64 \<times> PhraseAndIterator) option" where
  "PhraseAndIterator_skipTo (PhraseAndIterator its d) i =
     (if its = [] then Some (0, PhraseAndIterator its 0) else phrase_loop its i)"

fun PhraseAndIterator_next :: "PhraseAndIterator \<Rightarrow> (u64 \<times> PhraseAndIterator) option" where
  "PhraseAndIterator_next (PhraseAndIterator its d) =
     (case its of
        [] \<Rightarrow> Some (0, PhraseAndIterator its 0)
      | it0 # its' \<Rightarrow>
          (let (d0, it0') = VectorPositionInfoIterator_next it0
           in PhraseAndIterator_skipTo (PhraseAndIterator (it0' # its') d0) d0))"

section \<open>Positions of a document\<close>

definition positions_of :: "PositionInfo list \<Rightarrow> u64 \<Rightarrow> u32 list" where
  "positions_of vec d = (case map_of (map (\<lambda>p. (docId p, positions p)) vec) d of None \<Rightarrow> [] | Some ps \<Rightarrow> ps)"

text \<open>The iterators of \<open>its\<close> run over the vectors \<open>vs\<close>; a finished one has dropped its vector.\<close>

definition over :: "PositionInfo list list \<Rightarrow> VectorPositionInfoIterator list \<Rightarrow> bool" where
  "over vs its \<longleftrightarrow> list_all2 (\<lambda>v it. VectorPositionInfoIterator_inv it \<and>
     (posinfo_vector it = v \<or> posinfo_vector it = [])) vs its"

definition matches :: "PositionInfo list list \<Rightarrow> u64 \<Rightarrow> bool" where
  "matches vs d \<longleftrightarrow> phrase_match (map (\<lambda>v. positions_of v d) vs)"

definition vecs_ok :: "PositionInfo list list \<Rightarrow> bool" where
  "vecs_ok vs \<longleftrightarrow> (\<forall>v \<in> set vs. asc (0 # map docId v) \<and> (\<forall>p \<in> set v. sorted (positions p)))"

lemma positions_at:
  assumes "VectorPositionInfoIterator_inv it" "VectorPositionInfoIterator_docId it = d" "d \<noteq> 0"
  shows "VectorPositionInfoIterator_positions it = positions_of (posinfo_vector it) d"
proof -
  obtain vec pos where it: "it = VectorPositionInfoIterator vec pos" by (cases it)
  have pos: "\<not> pos < 0" "\<not> int (length vec) \<le> pos" "nat pos < length vec" "docId (vec ! nat pos) = d"
    using assms(2,3) by (auto simp: it split: if_splits)
  have "distinct (map docId vec)" using assms(1) by (intro asc_distinct) (simp add: it)
  then have "distinct (map fst (map (\<lambda>p. (docId p, positions p)) vec))" by (simp add: comp_def)
  moreover have "(d, positions (vec ! nat pos)) \<in> set (map (\<lambda>p. (docId p, positions p)) vec)"
    using pos by (auto intro!: image_eqI[of _ _ "vec ! nat pos"])
  ultimately have "map_of (map (\<lambda>p. (docId p, positions p)) vec) d = Some (positions (vec ! nat pos))"
    by (rule map_of_is_SomeI)
  then show ?thesis using pos by (simp add: it positions_of_def)
qed

text \<open>A step keeps the vector or drops it; the interface's laws for \<open>next\<close> carry that to \<open>skipTo\<close>.\<close>

interpretation posinfo_over: iterator_next pi_next VectorPositionInfoIterator_docId
  VectorPositionInfoIterator_rest
  "\<lambda>it. VectorPositionInfoIterator_inv it \<and> (posinfo_vector it = v \<or> posinfo_vector it = [])" for v
proof
  fix it assume inv: "VectorPositionInfoIterator_inv it \<and> (posinfo_vector it = v \<or> posinfo_vector it = [])"
  then show "asc (VectorPositionInfoIterator_docId it # VectorPositionInfoIterator_rest it)"
    using posinfo_next.asc_rest by blast
  have "posinfo_vector (snd (VectorPositionInfoIterator_next it)) \<in> {posinfo_vector it, []}"
    by (cases it) (simp add: Let_def)
  then show "\<exists>it'. pi_next it = Some (hd0 (VectorPositionInfoIterator_rest it), it') \<and>
      (VectorPositionInfoIterator_inv it' \<and> (posinfo_vector it' = v \<or> posinfo_vector it' = [])) \<and>
      VectorPositionInfoIterator_docId it' = hd0 (VectorPositionInfoIterator_rest it) \<and>
      VectorPositionInfoIterator_rest it' = tl (VectorPositionInfoIterator_rest it)"
    using posinfo_next.nx_law[of it] inv by fastforce
qed

lemma over_skip:
  assumes "over vs its" "and_round VectorPositionInfoIterator_skipTo i its = Some (v, its')"
  shows "over vs its'"
  using assms
proof (induction its arbitrary: vs i v its')
  case (Cons it its)
  then obtain w ws where vs: "vs = w # ws" and w: "VectorPositionInfoIterator_inv it"
    "posinfo_vector it = w \<or> posinfo_vector it = []" and ws: "over ws its"
    by (auto simp: over_def list_all2_Cons2)
  obtain it' where it': "VectorPositionInfoIterator_skipTo it i = Some (VectorPositionInfoIterator_docId it', it')"
    "VectorPositionInfoIterator_inv it'" "posinfo_vector it' = w \<or> posinfo_vector it' = []"
    using posinfo_over.default_skip.sk_law[of it w i] w
    unfolding VectorPositionInfoIterator_skipTo_def by blast
  with Cons.prems(2) Cons.IH[OF ws] ws show ?case
    by (auto simp: vs over_def bind_eq_Some_conv split: if_splits)
qed simp

lemma over_next:
  assumes "over vs (it0 # its)"
  shows "over vs (snd (VectorPositionInfoIterator_next it0) # its)"
proof -
  obtain w ws where vs: "vs = w # ws" and w: "VectorPositionInfoIterator_inv it0 \<and>
    (posinfo_vector it0 = w \<or> posinfo_vector it0 = [])" and ws: "over ws its"
    using assms by (auto simp: over_def list_all2_Cons2)
  show ?thesis using posinfo_over.nx_law[OF w] ws by (auto simp: vs over_def)
qed

lemma over_inv: "over vs its \<Longrightarrow> \<forall>it \<in> set its. VectorPositionInfoIterator_inv it"
  by (auto simp: over_def list_all2_conv_all_nth in_set_conv_nth)

text \<open>With every iterator on document \<open>d\<close>, the check decides the phrase for \<open>d\<close>.\<close>

lemma phrase_check_matches:
  assumes "over vs its" "vecs_ok vs" "its \<noteq> []" "d \<noteq> 0"
    and "\<forall>it \<in> set its. VectorPositionInfoIterator_docId it = d"
  shows "phrase_check its \<longleftrightarrow> matches vs d"
proof -
  have at: "VectorPositionInfoIterator_positions (its ! k) = positions_of (vs ! k) d"
    if "k < length its" for k
  proof -
    have it: "VectorPositionInfoIterator_inv (its ! k)"
      "posinfo_vector (its ! k) = vs ! k \<or> posinfo_vector (its ! k) = []"
      "VectorPositionInfoIterator_docId (its ! k) = d"
      using that assms(1,5) by (auto simp: over_def list_all2_conv_all_nth)
    moreover have "posinfo_vector (its ! k) \<noteq> []"
      using it(3) assms(4) by (cases "its ! k") (auto split: if_splits)
    ultimately show ?thesis using positions_at[OF it(1,3) assms(4)] by simp
  qed
  have len: "length vs = length its" using assms(1) by (simp add: over_def list_all2_lengthD)
  then have eq: "map VectorPositionInfoIterator_positions its = map (\<lambda>v. positions_of v d) vs"
    using at by (intro nth_equalityI) auto
  have "sorted (positions_of v d)" if "v \<in> set vs" for v
  proof -
    have "\<forall>p \<in> set v. sorted (positions p)" using assms(2) that by (simp add: vecs_ok_def)
    then show ?thesis
      by (auto simp: positions_of_def split: option.split dest!: map_of_SomeD)
  qed
  then have "checkIfPositionsMatch (map (\<lambda>v. positions_of v d) vs) \<longleftrightarrow> matches vs d"
    unfolding matches_def using assms(3) len by (intro checkIfPositionsMatch_decides) auto
  then show ?thesis by (simp add: eq)
qed

section \<open>The ids of a phrase\<close>

fun phrase_rest :: "PhraseAndIterator \<Rightarrow> u64 list" where
  "phrase_rest (PhraseAndIterator its d) =
     filter (matches (map posinfo_vector its)) (posinfo_it.and_R its)"

fun phrase_inv :: "PhraseAndIterator \<Rightarrow> bool" where
  "phrase_inv (PhraseAndIterator its d) \<longleftrightarrow>
     and_inv VectorPositionInfoIterator_docId VectorPositionInfoIterator_rest
       VectorPositionInfoIterator_inv (AndPostingIterator its d) \<and>
     vecs_ok (map posinfo_vector its) \<and>
     (d \<noteq> 0 \<longrightarrow> matches (map posinfo_vector its) d)"

abbreviation ended :: "VectorPositionInfoIterator list \<Rightarrow> bool" where
  "ended its \<equiv> \<exists>it \<in> set its. VectorPositionInfoIterator_docId it = 0 \<and> VectorPositionInfoIterator_rest it = []"

lemma over_vecs_ok: "over vs its \<Longrightarrow> vecs_ok vs \<Longrightarrow> vecs_ok (map posinfo_vector its)"
  by (fastforce simp: over_def vecs_ok_def list_all2_conv_all_nth in_set_conv_nth)

lemma over_vectors:
  assumes "over vs its" "\<forall>it \<in> set its. VectorPositionInfoIterator_docId it \<noteq> 0"
  shows "map posinfo_vector its = vs"
proof (rule nth_equalityI)
  show "length (map posinfo_vector its) = length vs" using assms(1) by (simp add: over_def list_all2_lengthD)
  fix k assume k: "k < length (map posinfo_vector its)"
  then have "VectorPositionInfoIterator_docId (its ! k) \<noteq> 0" using assms(2) by simp
  then have "posinfo_vector (its ! k) \<noteq> []" by (cases "its ! k") (auto split: if_splits)
  then show "map posinfo_vector its ! k = vs ! k"
    using assms(1) k by (auto simp: over_def list_all2_conv_all_nth)
qed

lemma phrase_ended:
  assumes "over vs its" "vecs_ok vs" "ended its"
  shows "phrase_inv (PhraseAndIterator its 0)" "phrase_rest (PhraseAndIterator its 0) = []"
  using assms over_inv[OF assms(1)] over_vecs_ok[OF assms(1,2)] posinfo_it.and_R_Nil_ended(1)[OF over_inv[OF assms(1)]]
  by (auto simp del: and_rest.simps)

lemma phrase_found:
  assumes "over vs its" "vecs_ok vs" "its \<noteq> []" "d \<noteq> 0"
    and at: "\<forall>it \<in> set its. VectorPositionInfoIterator_docId it = d" and "matches vs d"
  shows "phrase_inv (PhraseAndIterator its d)" "asc (phrase_rest (PhraseAndIterator its d))"
    "set (phrase_rest (PhraseAndIterator its d)) = {x \<in> posinfo_it.common its. d < x \<and> matches vs x}"
proof -
  have vs: "map posinfo_vector its = vs" using over_vectors[OF assms(1)] at assms(4) by simp
  show "phrase_inv (PhraseAndIterator its d)" using assms vs over_inv[OF assms(1)] by simp
  show "asc (phrase_rest (PhraseAndIterator its d))"
    using asc_filter[OF posinfo_it.asc_and_R[OF over_inv[OF assms(1)]]] by (simp del: and_rest.simps)
  obtain it0 its0 where its: "its = it0 # its0" using assms(3) by (cases its) auto
  have "set (posinfo_it.and_R its) = {x \<in> posinfo_it.common its. d < x}"
    using posinfo_it.set_and_R[of it0 its0] over_inv[OF assms(1)] at unfolding its by simp
  then show "set (phrase_rest (PhraseAndIterator its d)) =
      {x \<in> posinfo_it.common its. d < x \<and> matches vs x}"
    by (auto simp: vs simp del: and_rest.simps)
qed

lemma filter_ge_shift:
  assumes "\<forall>x \<in> set R. (i :: u64) \<le> x \<longrightarrow> j \<le> x" "i \<le> j"
  shows "filter (\<lambda>x. i \<le> x) R = filter (\<lambda>x. j \<le> x) R"
  using assms by (intro filter_cong) (auto intro: order_trans)

lemma phrase_loop_arrives:
  assumes "vecs_ok vs" "asc R"
  shows "i \<noteq> 0 \<Longrightarrow> its \<noteq> [] \<Longrightarrow> over vs its \<Longrightarrow>
    {x \<in> set R. i \<le> x} = {x \<in> posinfo_it.common its. i \<le> x \<and> matches vs x} \<Longrightarrow>
    \<exists>a. phrase_loop its i = Some (PhraseAndIterator_docId a, a) \<and> phrase_inv a \<and>
      PhraseAndIterator_docId a = hd0 (filter (\<lambda>x. i \<le> x) R) \<and>
      phrase_rest a = tl (filter (\<lambda>x. i \<le> x) R)"
proof (induction "2 ^ 64 - unat i" arbitrary: i its rule: less_induct)
  case less
  have measure: "2 ^ 64 - unat j < 2 ^ 64 - unat i" if "i < j" for j
    using that unsigned_less[of j, where 'a = nat] by (simp add: word_less_nat_alt)
  obtain v its' where rnd: "and_round VectorPositionInfoIterator_skipTo i its = Some (v, its')"
      "length its' = length its" "\<forall>it \<in> set its'. VectorPositionInfoIterator_inv it"
    and v: "if v = 0
       then ended its' \<and> \<not> (\<exists>x \<ge> i. \<forall>it \<in> set its. x \<in> posinfo_it.ah it)
       else i \<le> v \<and> (\<forall>it \<in> set its'. i \<le> VectorPositionInfoIterator_docId it \<and>
              VectorPositionInfoIterator_docId it \<le> v \<and> VectorPositionInfoIterator_docId it \<noteq> 0) \<and>
          (\<forall>x. i \<le> x \<longrightarrow> (\<forall>it \<in> set its. x \<in> posinfo_it.ah it) \<longrightarrow> v \<le> x) \<and>
          (\<forall>k < length its. \<forall>x \<ge> v. x \<in> posinfo_it.ah (its' ! k) \<longleftrightarrow> x \<in> posinfo_it.ah (its ! k))"
    using posinfo_it.and_round_law[OF less.prems(1) over_inv[OF less.prems(3)]] by blast
  have over': "over vs its'" by (rule over_skip[OF less.prems(3) rnd(1)])
  have ne: "its' \<noteq> []" using rnd(2) less.prems(2) by auto
  consider "v = 0" | "v \<noteq> 0" "v = i" | "v \<noteq> 0" "v \<noteq> i" by blast
  then show ?case
  proof cases
    case 1
    then have "set (filter (\<lambda>x. i \<le> x) R) = {}"
      using v less.prems(4) by (auto simp: posinfo_it.common_def)
    then have "filter (\<lambda>x. i \<le> x) R = []" by (simp only: set_empty)
    moreover have "phrase_loop its i = Some (0, PhraseAndIterator its' 0)"
      using rnd(1) 1 by (subst phrase_loop.simps) simp
    ultimately show ?thesis
      using phrase_ended[OF over' assms(1)] v 1
      by (intro exI[of _ "PhraseAndIterator its' 0"]) (simp del: phrase_rest.simps phrase_inv.simps)
  next
    case 2
    with v have at: "\<forall>it \<in> set its'. VectorPositionInfoIterator_docId it = i" by auto
    have mem: "x \<in> posinfo_it.common its' \<longleftrightarrow> x \<in> posinfo_it.common its" if "i \<le> x" for x
      unfolding posinfo_it.common_def using posinfo_it.common_transfer[OF rnd(2), of x] v 2 that by auto
    have "i \<in> posinfo_it.common its'"
      using at less.prems(1) by (auto simp: posinfo_it.common_def posinfo_it.ahead_set)
    then have ic: "i \<in> posinfo_it.common its" using mem by simp
    note check = phrase_check_matches[OF over' assms(1) ne less.prems(1) at]
    show ?thesis
    proof (cases "matches vs i")
      case True
      let ?a = "PhraseAndIterator its' i" and ?C = "{x \<in> posinfo_it.common its. matches vs x}"
      note found = phrase_found[OF over' assms(1) ne less.prems(1) at True]
      have "set (phrase_rest ?a) = {x \<in> ?C. i < x}" unfolding found(3) using mem by auto
      then have "filter (\<lambda>x. i \<le> x) R = i # phrase_rest ?a"
        using less.prems(4) ic True found(2)
        by (intro posinfo_it.filter_from_least[where C = ?C] assms(2)) (auto simp del: phrase_rest.simps)
      moreover have "phrase_loop its i = Some (i, ?a)"
        using rnd(1) 2 check True by (subst phrase_loop.simps) simp
      ultimately show ?thesis
        using found(1) by (intro exI[of _ ?a]) (simp del: phrase_rest.simps phrase_inv.simps)
    next
      case False
      obtain h t where its': "its' = h # t" using ne by (cases its') auto
      have h: "VectorPositionInfoIterator_inv h" "VectorPositionInfoIterator_docId h = i"
        using rnd(3) at its' by auto
      obtain h' where h': "VectorPositionInfoIterator_next h = (hd0 (VectorPositionInfoIterator_rest h), h')"
        "VectorPositionInfoIterator_inv h'"
        "VectorPositionInfoIterator_docId h' = hd0 (VectorPositionInfoIterator_rest h)"
        "VectorPositionInfoIterator_rest h' = tl (VectorPositionInfoIterator_rest h)"
        using posinfo_next.nx_law[OF h(1)] by auto
      have over2: "over vs (h' # t)" using over_next[of vs h t] over' its' h'(1) by simp
      define j where "j = hd0 (VectorPositionInfoIterator_rest h)"
      have loop: "phrase_loop its i = phrase_loop (h' # t) j"
        using rnd(1) 2 check False its' h'(1) by (subst phrase_loop.simps) (simp add: j_def)
      have rest_gt: "set (VectorPositionInfoIterator_rest h) = {x \<in> posinfo_it.ah h. i < x}"
        using posinfo_it.ahead_facts(4)[OF h(1)] h(2) by simp
      have next_match: "x \<in> set (VectorPositionInfoIterator_rest h)" if "x \<in> set R" "i \<le> x" for x
      proof -
        have "x \<in> {x \<in> set R. i \<le> x}" using that by blast
        then have "x \<in> posinfo_it.common its" "matches vs x" unfolding less.prems(4) by auto
        then have "x \<in> posinfo_it.ah h" "i < x"
          using mem[OF that(2)] that(2) False by (auto simp: posinfo_it.common_def its' le_less)
        then show ?thesis unfolding rest_gt by blast
      qed
      show ?thesis
      proof (cases "VectorPositionInfoIterator_rest h")
        case Nil
        then have "set (filter (\<lambda>x. i \<le> x) R) = {}" using next_match by auto
        then have "filter (\<lambda>x. i \<le> x) R = []" by (simp only: set_empty)
        moreover have "ended (h' # t)" using h'(3,4) Nil by simp
        then have "and_inv VectorPositionInfoIterator_docId VectorPositionInfoIterator_rest
            VectorPositionInfoIterator_inv (AndPostingIterator (h' # t) 0)"
          using over_inv[OF over2] by auto
        moreover obtain h'' where "VectorPositionInfoIterator_skipTo h' 0 = Some (0, h'')"
          "VectorPositionInfoIterator_docId h'' = 0" "VectorPositionInfoIterator_rest h'' = []"
          using posinfo_it.sk_law[OF h'(2), of 0] h'(3,4) Nil by auto
        note h'' = this
        then have rnd0: "and_round VectorPositionInfoIterator_skipTo 0 (h' # t) = Some (0, h'' # t)" by simp
        then have "phrase_loop (h' # t) 0 = Some (0, PhraseAndIterator (h'' # t) 0)"
          by (subst phrase_loop.simps) simp
        moreover have "ended (h'' # t)" using h'' by simp
        ultimately show ?thesis
          using phrase_ended[OF over_skip[OF over2 rnd0] assms(1)] loop Nil
          by (intro exI[of _ "PhraseAndIterator (h'' # t) 0"])
            (simp add: j_def del: phrase_rest.simps phrase_inv.simps)
      next
        case (Cons y ys)
        then have j: "j = y" "i < j" "\<forall>x \<in> set (VectorPositionInfoIterator_rest h). j \<le> x"
          using posinfo_it.ahead_facts(1,2)[OF h(1)] h(2) by (auto simp: j_def)
        then have "j \<noteq> 0" by auto
        have ah': "posinfo_it.ah h' = set (VectorPositionInfoIterator_rest h)"
          using h'(3,4) Cons j(1) \<open>j \<noteq> 0\<close> by (simp add: posinfo_it.ahead_set)
        have mem2: "x \<in> posinfo_it.common (h' # t) \<longleftrightarrow> x \<in> posinfo_it.common its" if "j \<le> x" for x
        proof -
          have "i < x" using j(2) that by (rule less_le_trans)
          then have "x \<in> posinfo_it.ah h' \<longleftrightarrow> x \<in> posinfo_it.ah h" unfolding ah' rest_gt by blast
          then have "x \<in> posinfo_it.common (h' # t) \<longleftrightarrow> x \<in> posinfo_it.common its'"
            by (simp add: posinfo_it.common_def its')
          with mem[of x] \<open>i < x\<close> show ?thesis by simp
        qed
        have shift: "filter (\<lambda>x. i \<le> x) R = filter (\<lambda>x. j \<le> x) R"
          using next_match j by (intro filter_ge_shift) auto
        have "{x \<in> set R. j \<le> x} = {x \<in> {x \<in> set R. i \<le> x}. j \<le> x}"
          using j(2) by (auto intro: order_trans)
        also have "\<dots> = {x \<in> posinfo_it.common (h' # t). j \<le> x \<and> matches vs x}"
          unfolding less.prems(4) using j(2) mem2 by (auto intro: order_trans)
        finally have R: "{x \<in> set R. j \<le> x} = {x \<in> posinfo_it.common (h' # t). j \<le> x \<and> matches vs x}" .
        show ?thesis
          unfolding loop shift by (rule less.hyps[OF measure[OF j(2)] \<open>j \<noteq> 0\<close> _ over2 R]) simp
      qed
    qed
  next
    case 3
    with v have lt: "i < v" by auto
    from v 3 have low: "\<forall>x. i \<le> x \<longrightarrow> x \<in> posinfo_it.common its \<longrightarrow> v \<le> x"
      and eq: "\<forall>k < length its. \<forall>x \<ge> v. x \<in> posinfo_it.ah (its' ! k) \<longleftrightarrow> x \<in> posinfo_it.ah (its ! k)"
      by (simp_all add: posinfo_it.common_def)
    have mem: "x \<in> posinfo_it.common its' \<longleftrightarrow> x \<in> posinfo_it.common its" if "v \<le> x" for x
      unfolding posinfo_it.common_def using posinfo_it.common_transfer[OF rnd(2), of x] eq that by auto
    have loop: "phrase_loop its i = phrase_loop its' v"
      using rnd(1) 3 by (subst phrase_loop.simps) simp
    have R': "x \<in> posinfo_it.common its \<and> matches vs x" if "x \<in> set R" "i \<le> x" for x
      using less.prems(4) that by blast
    have shift: "filter (\<lambda>x. i \<le> x) R = filter (\<lambda>x. v \<le> x) R"
      using R' low lt by (intro filter_ge_shift) auto
    have "{x \<in> set R. v \<le> x} = {x \<in> {x \<in> set R. i \<le> x}. v \<le> x}"
      using lt by (auto intro: order_trans)
    also have "\<dots> = {x \<in> posinfo_it.common its'. v \<le> x \<and> matches vs x}"
      unfolding less.prems(4) using lt mem by (auto intro: order_trans)
    finally have R: "{x \<in> set R. v \<le> x} = {x \<in> posinfo_it.common its'. v \<le> x \<and> matches vs x}" .
    show ?thesis
      unfolding loop shift by (rule less.hyps[OF measure[OF lt] 3(1) ne over' R])
  qed
qed

lemma phrase_rest_over:
  assumes "over vs its"
  shows "phrase_rest (PhraseAndIterator its d) = filter (matches vs) (posinfo_it.and_R its)"
proof (cases "map posinfo_vector its = vs")
  case False
  have "length its = length vs" using assms by (simp add: over_def list_all2_lengthD)
  with False obtain k where k: "k < length its" "posinfo_vector (its ! k) \<noteq> vs ! k"
    using nth_equalityI[of "map posinfo_vector its" vs] by auto
  then have "posinfo_vector (its ! k) = []" using assms by (auto simp: over_def list_all2_conv_all_nth)
  then obtain p where "its ! k = VectorPositionInfoIterator [] p"
    by (cases "its ! k") (simp only: VectorPositionInfoIterator.sel)
  then have "VectorPositionInfoIterator_docId (its ! k) = 0" "VectorPositionInfoIterator_rest (its ! k) = []"
    by (simp_all only: VectorPositionInfoIterator_docId.simps VectorPositionInfoIterator_rest.simps) auto
  then have "posinfo_it.and_R its = []"
    using posinfo_it.and_R_Nil_ended(1)[OF over_inv[OF assms]] k(1) nth_mem by blast
  then show ?thesis by (simp del: and_rest.simps)
qed (simp del: and_rest.simps)

lemma phrase_inv_over: "phrase_inv (PhraseAndIterator its d) \<Longrightarrow> over (map posinfo_vector its) its"
  by (simp add: over_def list_all2_conv_all_nth del: matches_def)

lemma phrase_loop_at:
  assumes inv: "phrase_inv (PhraseAndIterator its d)" and "d \<noteq> 0" "i \<noteq> 0" "i \<le> d"
  shows "\<exists>a. phrase_loop its i = Some (PhraseAndIterator_docId a, a) \<and> phrase_inv a \<and>
      PhraseAndIterator_docId a = d \<and> phrase_rest a = phrase_rest (PhraseAndIterator its d)"
proof -
  let ?vs = "map posinfo_vector its" and ?R = "phrase_rest (PhraseAndIterator its d)"
  have its: "its \<noteq> []" "\<forall>it \<in> set its. VectorPositionInfoIterator_docId it = d" "vecs_ok ?vs" "matches ?vs d"
    using inv assms(2) by auto
  note ov = phrase_inv_over[OF inv]
  note found = phrase_found[OF ov its(3,1) assms(2) its(2,4)]
  have dc: "d \<in> posinfo_it.common its"
    using its(2) assms(2) by (auto simp: posinfo_it.common_def posinfo_it.ahead_set)
  have low: "d \<le> x" if "x \<in> posinfo_it.common its" for x
    using that its(1,2) posinfo_it.ahead_facts(3)[of "hd its" x] over_inv[OF ov]
    by (auto simp: posinfo_it.common_def)
  have R: "{x \<in> set (d # ?R). i \<le> x} = {x \<in> posinfo_it.common its. i \<le> x \<and> matches ?vs x}"
  proof (rule set_eqI)
    fix x
    show "x \<in> {x \<in> set (d # ?R). i \<le> x} \<longleftrightarrow>
        x \<in> {x \<in> posinfo_it.common its. i \<le> x \<and> matches ?vs x}"
    proof (cases "x = d")
      case True
      then show ?thesis using dc its(4) by simp
    next
      case False
      then have "x \<in> posinfo_it.common its \<Longrightarrow> d < x" using low[of x] by auto
      then show ?thesis using False found(3) by (auto simp del: phrase_rest.simps)
    qed
  qed
  have asc: "asc (d # ?R)" using found(2,3) by (auto simp del: phrase_rest.simps)
  have "i \<le> x" if "x \<in> set (d # ?R)" for x
  proof (cases "x = d")
    case False
    then have "d < x" using that found(3) by (simp del: phrase_rest.simps)
    then show ?thesis using assms(4) by (meson less_imp_le order_trans)
  qed (use assms(4) in simp)
  then have "filter (\<lambda>x. i \<le> x) (d # ?R) = d # ?R" by (intro filter_True) blast
  with phrase_loop_arrives[OF its(3) asc assms(3) its(1) ov R] show ?thesis
    by (simp del: phrase_rest.simps phrase_inv.simps)
qed

lemma phrase_skip_law:
  assumes "phrase_inv a"
  shows "\<exists>a'. PhraseAndIterator_skipTo a i = Some (PhraseAndIterator_docId a', a') \<and> phrase_inv a' \<and>
    (if i \<le> PhraseAndIterator_docId a
     then PhraseAndIterator_docId a' = PhraseAndIterator_docId a \<and> phrase_rest a' = phrase_rest a
     else PhraseAndIterator_docId a' = hd0 (filter (\<lambda>x. i \<le> x) (phrase_rest a)) \<and>
          phrase_rest a' = tl (filter (\<lambda>x. i \<le> x) (phrase_rest a)))"
proof -
  obtain its d where a: "a = PhraseAndIterator its d" by (cases a)
  let ?vs = "map posinfo_vector its"
  note inv = assms[unfolded a]
  note ov = phrase_inv_over[OF inv]
  have vok: "vecs_ok ?vs" using inv by simp
  have conj: "and_inv VectorPositionInfoIterator_docId VectorPositionInfoIterator_rest
       VectorPositionInfoIterator_inv (AndPostingIterator its d)" using inv by simp
  consider "its = []" | "its \<noteq> []" "i = 0" | "its \<noteq> []" "i \<noteq> 0" "i \<le> d" | "its \<noteq> []" "\<not> i \<le> d"
    by blast
  then show ?thesis
  proof cases
    case 1
    then have "d = 0" using conj by (auto split: if_splits)
    with 1 inv show ?thesis
      by (intro exI[of _ "PhraseAndIterator [] 0"]) (simp add: a)
  next
    case 2
    obtain its' where rnd: "and_round VectorPositionInfoIterator_skipTo 0 its = Some (d, its')" "its' \<noteq> []"
      "and_inv VectorPositionInfoIterator_docId VectorPositionInfoIterator_rest
         VectorPositionInfoIterator_inv (AndPostingIterator its' d)"
      "posinfo_it.and_R its' = posinfo_it.and_R its"
      using posinfo_it.and_round_zero[OF 2(1) conj] by blast
    have ov': "over ?vs its'" by (rule over_skip[OF ov rnd(1)])
    have rest: "phrase_rest (PhraseAndIterator its' d) = phrase_rest a"
      using phrase_rest_over[OF ov, of d] phrase_rest_over[OF ov', of d] rnd(4) by (simp only: a)
    have match: "matches (map posinfo_vector its') d" if "d \<noteq> 0"
    proof -
      have "\<forall>it \<in> set its'. VectorPositionInfoIterator_docId it \<noteq> 0" using rnd(3) that by auto
      then have "map posinfo_vector its' = ?vs" by (rule over_vectors[OF ov'])
      then show ?thesis using inv that by simp
    qed
    have inv': "phrase_inv (PhraseAndIterator its' d)"
      using rnd(3) match over_vecs_ok[OF ov' vok] by (simp del: and_inv.simps)
    show ?thesis
    proof (cases "d = 0")
      case True
      then have "phrase_loop its 0 = Some (0, PhraseAndIterator its' 0)"
        using rnd(1) by (subst phrase_loop.simps) simp
      with 2 True inv' rest show ?thesis
        by (intro exI[of _ "PhraseAndIterator its' 0"]) (simp add: a del: phrase_rest.simps phrase_inv.simps)
    next
      case False
      then have "phrase_loop its 0 = phrase_loop its' d"
        using rnd(1) by (subst phrase_loop.simps) simp
      with phrase_loop_at[OF inv' False False] 2 rest show ?thesis
        by (simp add: a del: phrase_rest.simps phrase_inv.simps)
    qed
  next
    case 3
    then have "d \<noteq> 0" by auto
    with phrase_loop_at[OF inv _ 3(2,3)] 3 show ?thesis
      by (simp add: a del: phrase_rest.simps phrase_inv.simps)
  next
    case 4
    then have i: "i \<noteq> 0" "d < i" by auto
    have "(\<forall>it \<in> set its. VectorPositionInfoIterator_docId it < i) \<or> ended its"
      using conj i by (cases "d = 0") (auto simp: word_neq_0_conv)
    from posinfo_it.and_R_common[OF over_inv[OF ov] i(1) this 4(1)]
    have R: "{x \<in> set (phrase_rest a). i \<le> x} = {x \<in> posinfo_it.common its. i \<le> x \<and> matches ?vs x}"
      by (auto simp: a simp del: and_rest.simps)
    have "asc (phrase_rest a)"
      using asc_filter[OF posinfo_it.asc_and_R[OF over_inv[OF ov]]] by (simp add: a del: and_rest.simps)
    from phrase_loop_arrives[OF vok this i(1) 4(1) ov R] 4 show ?thesis
      by (simp add: a del: phrase_rest.simps phrase_inv.simps)
  qed
qed

lemma phrase_next_law:
  assumes "phrase_inv a"
  shows "\<exists>a'. PhraseAndIterator_next a = Some (hd0 (phrase_rest a), a') \<and> phrase_inv a' \<and>
    PhraseAndIterator_docId a' = hd0 (phrase_rest a) \<and> phrase_rest a' = tl (phrase_rest a)"
proof -
  obtain its d where a: "a = PhraseAndIterator its d" by (cases a)
  note inv = assms[unfolded a]
  let ?vs = "map posinfo_vector its"
  note ov = phrase_inv_over[OF inv]
  have vok: "vecs_ok ?vs" using inv by simp
  show ?thesis
  proof (cases its)
    case Nil
    with inv show ?thesis by (simp add: a)
  next
    case (Cons h t)
    have h: "VectorPositionInfoIterator_inv h" using inv Cons by simp
    obtain h' where h': "VectorPositionInfoIterator_next h = (hd0 (VectorPositionInfoIterator_rest h), h')"
      "VectorPositionInfoIterator_inv h'"
      "VectorPositionInfoIterator_docId h' = hd0 (VectorPositionInfoIterator_rest h)"
      "VectorPositionInfoIterator_rest h' = tl (VectorPositionInfoIterator_rest h)"
      using posinfo_next.nx_law[OF h] by auto
    have over2: "over ?vs (h' # t)" using over_next[of ?vs h t] ov Cons h'(1) by simp
    define j where "j = hd0 (VectorPositionInfoIterator_rest h)"
    have step: "PhraseAndIterator_next a = phrase_loop (h' # t) j"
      using h'(1) by (simp add: a Cons j_def)
    have rest_sub: "set (phrase_rest a) \<subseteq> set (VectorPositionInfoIterator_rest h)"
      by (auto simp: a Cons)
    show ?thesis
    proof (cases "VectorPositionInfoIterator_rest h")
      case Nil
      then have "phrase_rest a = []" using rest_sub by simp
      moreover obtain h'' where h'': "VectorPositionInfoIterator_skipTo h' 0 = Some (0, h'')"
        "VectorPositionInfoIterator_docId h'' = 0" "VectorPositionInfoIterator_rest h'' = []"
        using posinfo_it.sk_law[OF h'(2), of 0] h'(3,4) Nil by auto
      then have rnd0: "and_round VectorPositionInfoIterator_skipTo 0 (h' # t) = Some (0, h'' # t)" by simp
      then have "phrase_loop (h' # t) 0 = Some (0, PhraseAndIterator (h'' # t) 0)"
        by (subst phrase_loop.simps) simp
      moreover have "ended (h'' # t)" using h'' by simp
      ultimately show ?thesis
        using phrase_ended[OF over_skip[OF over2 rnd0] vok] step Nil
        by (intro exI[of _ "PhraseAndIterator (h'' # t) 0"])
          (simp add: j_def del: phrase_rest.simps phrase_inv.simps)
    next
      case c: (Cons y ys)
      have j: "j = y" "VectorPositionInfoIterator_docId h < j"
        "\<forall>x \<in> set (VectorPositionInfoIterator_rest h). j \<le> x"
        using posinfo_it.ahead_facts(1,2)[OF h] c by (auto simp: j_def)
      then have "j \<noteq> 0" by auto
      have "posinfo_it.ah h' = set (VectorPositionInfoIterator_rest h)"
        using h'(3,4) c j(1) \<open>j \<noteq> 0\<close> by (simp add: posinfo_it.ahead_set)
      then have set_R: "set (posinfo_it.and_R its) = posinfo_it.common (h' # t)"
        by (auto simp: Cons posinfo_it.common_def)
      then have "{x \<in> set (phrase_rest a). j \<le> x} = {x \<in> posinfo_it.common (h' # t). j \<le> x \<and> matches ?vs x}"
        by (auto simp: a simp del: and_rest.simps)
      moreover have "asc (phrase_rest a)"
        using asc_filter[OF posinfo_it.asc_and_R[OF over_inv[OF ov]]] by (simp add: a del: and_rest.simps)
      moreover have "filter (\<lambda>x. j \<le> x) (phrase_rest a) = phrase_rest a"
        using rest_sub j(3) by (intro filter_True) blast
      ultimately show ?thesis
        using phrase_loop_arrives[OF vok _ \<open>j \<noteq> 0\<close> _ over2, of "phrase_rest a"] step
        by (auto simp del: phrase_rest.simps phrase_inv.simps)
    qed
  qed
qed

lemma phrase_asc_law: "phrase_inv a \<Longrightarrow> asc (PhraseAndIterator_docId a # phrase_rest a)"
proof -
  assume assm: "phrase_inv a"
  obtain its d where a: "a = PhraseAndIterator its d" by (cases a)
  have "and_inv VectorPositionInfoIterator_docId VectorPositionInfoIterator_rest
       VectorPositionInfoIterator_inv (AndPostingIterator its d)" using assm by (simp add: a)
  from posinfo_it.and_asc_law[OF this] have "asc (d # posinfo_it.and_R its)"
    unfolding posinfo_it.and_rest_R[of its d] by simp
  then show ?thesis by (auto simp: a asc_filter simp del: and_rest.simps)
qed

interpretation phrase_it: posting_iterator PhraseAndIterator_next PhraseAndIterator_docId phrase_rest
  phrase_inv PhraseAndIterator_skipTo
  by unfold_locales (fact phrase_asc_law phrase_next_law phrase_skip_law)+

end
