(* ===== verification/TreeIter.thy ===== *)
theory TreeIter
  imports PostingIter WriteTree
begin

text \<open>
  \<open>IdTreePostingIterator\<close> (\<open>idtreedb.cpp\<close>): all documents below a directory. The first \<open>next\<close> walks
  the child lists of \<open>IdTreeDB\<close> (the field \<open>m_db\<close> is the function that reads them) and sorts what it
  found; on a file tree without cycles the walk ends and finds every descendant once.
\<close>

datatype IdTreePostingIterator =
  IdTreePostingIterator (tree_db: "u64 \<Rightarrow> u64 list") (tree_pos: int)
    (tree_idList: "u64 list") (tree_resultList: "u64 list")

definition IdTreeDB_iter :: "'s lmdb \<Rightarrow> MDB_dbi \<Rightarrow> 's \<Rightarrow> u64 \<Rightarrow> IdTreePostingIterator" where
  "IdTreeDB_iter L d s i = IdTreePostingIterator (IdTreeDB_get L d s) (-1) [i] []"

fun IdTreePostingIterator_docId :: "IdTreePostingIterator \<Rightarrow> u64" where
  "IdTreePostingIterator_docId (IdTreePostingIterator db pos idList res) =
     (if pos \<ge> 0 \<and> pos < int (length res) then res ! nat pos else 0)"

text \<open>The \<open>while\<close> loop over \<open>m_idList\<close>.\<close>

partial_function (option) tree_collect :: "(u64 \<Rightarrow> u64 list) \<Rightarrow> u64 list \<Rightarrow> u64 list \<Rightarrow> u64 list option" where
  "tree_collect db idList res =
     (if idList = [] then Some res
      else tree_collect db (butlast idList @ db (last idList)) (res @ [last idList]))"

definition tree_current :: "IdTreePostingIterator \<Rightarrow> u64 \<times> IdTreePostingIterator" where
  "tree_current it =
     (if tree_pos it < int (length (tree_resultList it))
      then (tree_resultList it ! nat (tree_pos it), it) else (0, it))"

fun IdTreePostingIterator_next :: "IdTreePostingIterator \<Rightarrow> (u64 \<times> IdTreePostingIterator) option" where
  "IdTreePostingIterator_next (IdTreePostingIterator db pos idList res) =
     (if res = [] \<and> idList = [] then Some (0, IdTreePostingIterator db pos idList res)
      else if res = []
      then Option.bind (tree_collect db idList res)
             (\<lambda>res'. Some (tree_current (IdTreePostingIterator db 0 [] (sort res'))))
      else if pos < int (length res)
      then Some (tree_current (IdTreePostingIterator db (pos + 1) idList res))
      else Some (tree_current (IdTreePostingIterator db pos idList [])))"

section \<open>The walk\<close>

lemma tree_collect_Nil [simp]: "tree_collect db [] res = Some res"
  by (subst tree_collect.simps) simp

lemma tree_collect_snoc:
  "tree_collect db (ids @ [c]) res = tree_collect db (ids @ db c) (res @ [c])"
  by (subst tree_collect.simps) simp

lemma below_comparable:
  "below T a j \<Longrightarrow> below T b j \<Longrightarrow> a = b \<or> below T a b \<or> below T b a"
proof (induction rule: below.induct)
  case (child j path p)
  from child.prems child.hyps show ?case by (cases rule: belowE) auto
next
  case (deeper p q j path)
  from deeper.prems deeper.hyps(2-4) have "b = q \<or> below T b q" by (cases rule: belowE) auto
  with deeper show ?case by auto
qed

lemma below_rank: "below T p j \<Longrightarrow> ranked rk T \<Longrightarrow> rk j < rk p"
proof (induction rule: below.induct)
  case (deeper p q j path)
  then show ?case by (auto simp: ranked_def intro: less_trans)
qed (auto simp: ranked_def)

lemma below_parent:
  assumes "below T a b" "T b = Some path"
  shows "parentId path = a \<or> below T a (parentId path)"
  using assms by (cases rule: belowE) auto

text \<open>Subtrees of different children of one directory do not meet.\<close>

lemma siblings_disjoint:
  assumes "ranked rk T" "T a = Some pa" "T b = Some pb" "parentId pa = p" "parentId pb = p" "a \<noteq> b"
    and "a \<noteq> 0" "b \<noteq> 0"
  shows "subtree T a \<inter> subtree T b = {}"
proof -
  have not_below: "\<not> below T x y" if "T y = Some py" "parentId py = p" "T x = Some px" "parentId px = p" "x \<noteq> 0"
    for x y px py
  proof
    assume "below T x y"
    from below_parent[OF this that(1)] have "p = x \<or> below T x p" using that(2) by auto
    moreover have "rk x < rk p" using assms(1) that(3-5) by (auto simp: ranked_def)
    ultimately show False using below_rank[OF _ assms(1), of x p] by auto
  qed
  have "\<not> below T a b" "\<not> below T b a" using not_below assms(2-8) by blast+
  then show ?thesis
    using assms(6) below_comparable by (fastforce simp: subtree_def)
qed

lemma tree_collect_law:
  assumes "url_inv L s" "ranked rk (url_tree L s)"
  defines "T \<equiv> url_tree L s" and "db \<equiv> DocumentUrlDB_getChildren L s"
  shows "\<forall>c \<in> set cs. rk c < n \<Longrightarrow> distinct cs \<Longrightarrow>
      (\<forall>a \<in> set cs. \<forall>b \<in> set cs. a \<noteq> b \<longrightarrow> subtree T a \<inter> subtree T b = {}) \<Longrightarrow>
    \<exists>r. (\<forall>pre res. tree_collect db (pre @ cs) res = tree_collect db pre (res @ r)) \<and>
      set r = (\<Union>c \<in> set cs. subtree T c) \<and> distinct r"
proof (induction n arbitrary: cs rule: less_induct)
  case (less n)
  note outer = less.IH
  show ?case
    using less.prems
  proof (induction cs rule: rev_induct)
    case Nil
    then show ?case by (intro exI[of _ "[]"]) auto
  next
    case (snoc c cs)
    let ?ch = "db c"
    have ch: "d \<in> set ?ch \<longleftrightarrow> d \<noteq> 0 \<and> (\<exists>path. T d = Some path \<and> parentId path = c)" for d
      using assms(1) by (simp add: url_inv_def T_def db_def)
    have "\<forall>d \<in> set ?ch. rk d < rk c" using assms(2) ch by (auto simp: ranked_def T_def)
    moreover have "distinct ?ch"
      using assms(1) by (auto simp: url_inv_def db_def intro: asc_distinct)
    moreover have "\<forall>a \<in> set ?ch. \<forall>b \<in> set ?ch. a \<noteq> b \<longrightarrow> subtree T a \<inter> subtree T b = {}"
      using siblings_disjoint[of rk T] assms(2) ch unfolding T_def by metis
    moreover have "rk c < n" using snoc.prems(1) by simp
    ultimately obtain r1 where r1: "\<forall>pre res. tree_collect db (pre @ ?ch) res = tree_collect db pre (res @ r1)"
      "set r1 = (\<Union>d \<in> set ?ch. subtree T d)" "distinct r1"
      using outer[of "rk c" ?ch] by blast
    have below: "set r1 = {j. below T c j}"
      unfolding r1(2) set_eq_iff UN_iff Bex_def ch mem_Collect_eq below_unfold[of T c] by blast
    obtain r2 where r2: "\<forall>pre res. tree_collect db (pre @ cs) res = tree_collect db pre (res @ r2)"
      "set r2 = (\<Union>d \<in> set cs. subtree T d)" "distinct r2"
      using snoc.IH snoc.prems by auto
    have "c \<notin> set r1" using below_rank[of T c c rk] assms(2) below by (auto simp: T_def)
    moreover have sub: "set (c # r1) = subtree T c" using below by (simp add: subtree_def)
    moreover have "subtree T c \<inter> subtree T d = {}" if "d \<in> set cs" for d
      using snoc.prems(2,3) that by auto
    ultimately have "set (c # r1) \<inter> set r2 = {}" "distinct (c # r1)"
      using r1(3) unfolding r2(2) by auto
    then have "distinct ((c # r1) @ r2)" using r2(3) by simp
    moreover have "tree_collect db (pre @ cs @ [c]) res = tree_collect db pre (res @ (c # r1) @ r2)" for pre res
    proof -
      have "tree_collect db (pre @ cs @ [c]) res = tree_collect db ((pre @ cs) @ ?ch) (res @ [c])"
        using tree_collect_snoc[of db "pre @ cs" c res] by simp
      also have "\<dots> = tree_collect db (pre @ cs) (res @ [c] @ r1)" using r1(1) by (metis append.assoc)
      also have "\<dots> = tree_collect db pre (res @ (c # r1) @ r2)" using r2(1) by simp
      finally show ?thesis .
    qed
    moreover have "set ((c # r1) @ r2) = (\<Union>d \<in> set (cs @ [c]). subtree T d)"
      using sub r2(2) by auto
    ultimately show ?case by blast
  qed
qed

section \<open>The iterator\<close>

fun IdTreePostingIterator_rest :: "IdTreePostingIterator \<Rightarrow> u64 list" where
  "IdTreePostingIterator_rest (IdTreePostingIterator db pos idList res) =
     (if res = [] then if idList = [] then [] else sort (the (tree_collect db idList []))
      else drop (nat (pos + 1)) res)"

fun IdTreePostingIterator_inv :: "IdTreePostingIterator \<Rightarrow> bool" where
  "IdTreePostingIterator_inv (IdTreePostingIterator db pos idList res) \<longleftrightarrow>
     (if res = []
      then idList = [] \<or> (\<exists>r. tree_collect db idList [] = Some r \<and> r \<noteq> [] \<and> distinct r \<and> 0 \<notin> set r)
      else 0 \<le> pos \<and> idList = [] \<and> asc (0 # res))"

interpretation tree_next: iterator_next IdTreePostingIterator_next IdTreePostingIterator_docId
  IdTreePostingIterator_rest IdTreePostingIterator_inv
proof
  fix it assume inv: "IdTreePostingIterator_inv it"
  obtain db pos idList res where it: "it = IdTreePostingIterator db pos idList res" by (cases it)
  have asc0: "asc (0 # xs)" if "asc xs" "0 \<notin> set xs" for xs :: "u64 list"
    using that by (auto simp: word_neq_0_conv[symmetric])
  have sorted: "asc (0 # sort r)" if "distinct r" "0 \<notin> set r" for r :: "u64 list"
    using that by (intro asc0) (simp_all add: asc_sorted_distinct)
  show "asc (IdTreePostingIterator_docId it # IdTreePostingIterator_rest it)"
  proof (cases "res = []")
    case True
    then show ?thesis using inv sorted by (auto simp: it)
  next
    case False
    then have "asc res" "0 \<notin> set res" "0 \<le> pos" using inv by (auto simp: it)
    moreover have "nat (pos + 1) = Suc (nat pos)" using \<open>0 \<le> pos\<close> by simp
    ultimately show ?thesis
      using False asc_nth_drop[of res "nat pos"] asc0[of "drop (nat (pos + 1)) res"]
      by (auto simp: it dest: in_set_dropD intro: asc_drop)
  qed
  show "\<exists>it'. IdTreePostingIterator_next it = Some (hd0 (IdTreePostingIterator_rest it), it') \<and>
      IdTreePostingIterator_inv it' \<and>
      IdTreePostingIterator_docId it' = hd0 (IdTreePostingIterator_rest it) \<and>
      IdTreePostingIterator_rest it' = tl (IdTreePostingIterator_rest it)"
  proof (cases "res = []")
    case True
    show ?thesis
    proof (cases "idList = []")
      case False
      then obtain r where r: "tree_collect db idList [] = Some r" "r \<noteq> []" "distinct r" "0 \<notin> set r"
        using inv True by (auto simp: it)
      then have "sort r \<noteq> []" by (metis set_empty set_sort)
      then show ?thesis
        using r True False sorted[OF r(3,4)]
        by (auto simp: it tree_current_def hd0_drop[of 0, simplified] drop_Suc neq_Nil_conv)
    qed (use True inv in \<open>auto simp: it\<close>)
  next
    case False
    then have "idList = []" "0 \<le> pos" "asc (0 # res)" using inv by (auto simp: it)
    moreover have "nat (pos + 1) = Suc (nat pos)" "nat (2 + pos) = Suc (nat (pos + 1))"
      using \<open>0 \<le> pos\<close> by auto
    ultimately show ?thesis
      using False by (auto simp: it tree_current_def hd0_drop drop_Suc tl_drop nth_tl)
  qed
qed

definition IdTreePostingIterator_skipTo :: "IdTreePostingIterator \<Rightarrow> u64 \<Rightarrow> (u64 \<times> IdTreePostingIterator) option" where
  "IdTreePostingIterator_skipTo = PostingIterator_skipTo IdTreePostingIterator_next IdTreePostingIterator_docId"

interpretation tree_it: posting_iterator IdTreePostingIterator_next IdTreePostingIterator_docId
  IdTreePostingIterator_rest IdTreePostingIterator_inv IdTreePostingIterator_skipTo
  unfolding IdTreePostingIterator_skipTo_def by (rule tree_next.default_skip.posting_iterator_axioms)

text \<open>The iterator of a directory runs over the directory and everything below it.\<close>

lemma IdTreeDB_iter_subtree:
  assumes "url_inv L s" "ranked rk (url_tree L s)" "i \<noteq> 0"
  defines "it \<equiv> IdTreeDB_iter L idTreeDbi s i"
  shows "IdTreePostingIterator_inv it" "set (IdTreePostingIterator_rest it) = subtree (url_tree L s) i"
proof -
  let ?db = "DocumentUrlDB_getChildren L s"
  have db: "IdTreeDB_get L idTreeDbi s = ?db" by (simp add: fun_eq_iff DocumentUrlDB_getChildren_def)
  obtain r where r: "\<forall>pre res. tree_collect ?db (pre @ [i]) res = tree_collect ?db pre (res @ r)"
    "set r = subtree (url_tree L s) i" "distinct r"
    using tree_collect_law[OF assms(1,2), of "[i]" "Suc (rk i)"] by auto
  then have "tree_collect ?db [i] [] = Some r" using r(1)[rule_format, of "[]" "[]"] by simp
  moreover have "0 \<notin> subtree (url_tree L s) i"
    using assms(3) by (auto simp: subtree_def elim: belowE)
  moreover have "i \<in> set r" using r(2) by (simp add: subtree_def)
  then have "r \<noteq> []" by auto
  ultimately show "IdTreePostingIterator_inv it"
    "set (IdTreePostingIterator_rest it) = subtree (url_tree L s) i"
    using r(2,3) by (auto simp: it_def IdTreeDB_iter_def db)
qed

end
