(* ===== verification/IterObj.thy ===== *)
theory IterObj
  imports PhraseIter TreeIter WriteIndex
begin

text \<open>
  The iterator objects: \<open>PostingIterator::Ptr\<close> points to an object of one of the classes, and a
  conjunction or disjunction holds such pointers. Calls dispatch on the class; \<open>n\<close> bounds the
  depth of the nesting, and \<open>None\<close> is both running out of it and not returning. An object of depth
  at most \<open>n\<close> that satisfies \<open>iter_inv n\<close> keeps the interface's contract, whatever its structure.
\<close>

datatype posting_iter =
  ItVector VectorPostingIterator
| ItPhrase PhraseAndIterator
| ItTree IdTreePostingIterator
| ItAnd "posting_iter AndPostingIterator"
| ItOr "posting_iter OrPostingIterator"

definition lift_it :: "('a \<Rightarrow> posting_iter) \<Rightarrow> (u64 \<times> 'a) option \<Rightarrow> (u64 \<times> posting_iter) option" where
  "lift_it c r = map_option (\<lambda>(v, a). (v, c a)) r"

fun iter_docId :: "posting_iter \<Rightarrow> u64" where
  "iter_docId (ItVector a) = VectorPostingIterator_docId a"
| "iter_docId (ItPhrase a) = PhraseAndIterator_docId a"
| "iter_docId (ItTree a) = IdTreePostingIterator_docId a"
| "iter_docId (ItAnd a) = AndPostingIterator_docId a"
| "iter_docId (ItOr a) = OrPostingIterator_docId a"

fun iter_next :: "nat \<Rightarrow> posting_iter \<Rightarrow> (u64 \<times> posting_iter) option"
  and iter_skipTo :: "nat \<Rightarrow> posting_iter \<Rightarrow> u64 \<Rightarrow> (u64 \<times> posting_iter) option" where
  "iter_next 0 it = None"
| "iter_next (Suc n) it =
     (case it of
        ItVector a \<Rightarrow> lift_it ItVector (Some (VectorPostingIterator_next a))
      | ItPhrase a \<Rightarrow> lift_it ItPhrase (PhraseAndIterator_next a)
      | ItTree a \<Rightarrow> lift_it ItTree (IdTreePostingIterator_next a)
      | ItAnd a \<Rightarrow> lift_it ItAnd (AndPostingIterator_next (iter_next n) (iter_skipTo n) a)
      | ItOr a \<Rightarrow> lift_it ItOr (OrPostingIterator_next (iter_next n) iter_docId (iter_skipTo n) a))"
| "iter_skipTo 0 it i = None"
| "iter_skipTo (Suc n) it i =
     (case it of
        ItVector a \<Rightarrow> lift_it ItVector (VectorPostingIterator_skipTo a i)
      | ItPhrase a \<Rightarrow> lift_it ItPhrase (PhraseAndIterator_skipTo a i)
      | ItTree a \<Rightarrow> lift_it ItTree (IdTreePostingIterator_skipTo a i)
      | ItAnd a \<Rightarrow> lift_it ItAnd (AndPostingIterator_skipTo (iter_skipTo n) a i)
      | ItOr a \<Rightarrow> lift_it ItOr (OrPostingIterator_skipTo (iter_next n) iter_docId (iter_skipTo n) a i))"

text \<open>The ids an object still has to give, and its well-formedness, to the depth \<open>n\<close>.\<close>

primrec iter_rest :: "nat \<Rightarrow> posting_iter \<Rightarrow> u64 list" where
  "iter_rest 0 it = []"
| "iter_rest (Suc n) it =
     (case it of
        ItVector a \<Rightarrow> VectorPostingIterator_rest a
      | ItPhrase a \<Rightarrow> phrase_rest a
      | ItTree a \<Rightarrow> IdTreePostingIterator_rest a
      | ItAnd a \<Rightarrow> and_rest iter_docId (iter_rest n) a
      | ItOr a \<Rightarrow> or_rest iter_docId (iter_rest n) a)"

primrec iter_inv :: "nat \<Rightarrow> posting_iter \<Rightarrow> bool" where
  "iter_inv 0 it \<longleftrightarrow> False"
| "iter_inv (Suc n) it \<longleftrightarrow>
     (case it of
        ItVector a \<Rightarrow> VectorPostingIterator_inv a
      | ItPhrase a \<Rightarrow> phrase_inv a
      | ItTree a \<Rightarrow> IdTreePostingIterator_inv a
      | ItAnd a \<Rightarrow> and_inv iter_docId (iter_rest n) (iter_inv n) a
      | ItOr a \<Rightarrow> or_inv iter_docId (iter_rest n) (iter_inv n) a)"

text \<open>A class that keeps the contract keeps it behind the pointer: \<open>c\<close> is its constructor.\<close>

definition keeps_contract :: "nat \<Rightarrow> posting_iter \<Rightarrow> bool" where
  "keeps_contract m it \<longleftrightarrow>
     asc (iter_docId it # iter_rest m it) \<and>
     (\<exists>it'. iter_next m it = Some (hd0 (iter_rest m it), it') \<and> iter_inv m it' \<and>
        iter_docId it' = hd0 (iter_rest m it) \<and> iter_rest m it' = tl (iter_rest m it)) \<and>
     (\<forall>i. \<exists>it'. iter_skipTo m it i = Some (iter_docId it', it') \<and> iter_inv m it' \<and>
        (if i \<le> iter_docId it then iter_docId it' = iter_docId it \<and> iter_rest m it' = iter_rest m it
         else iter_docId it' = hd0 (filter (\<lambda>x. i \<le> x) (iter_rest m it)) \<and>
              iter_rest m it' = tl (filter (\<lambda>x. i \<le> x) (iter_rest m it))))"

lemma keeps_contract_lifted:
  assumes "posting_iterator nx did rest ok sk" and it: "ok a"
    and c: "\<And>a. iter_next m (c a) = lift_it c (nx a)" "\<And>a i. iter_skipTo m (c a) i = lift_it c (sk a i)"
      "\<And>a. iter_docId (c a) = did a" "\<And>a. iter_rest m (c a) = rest a" "\<And>a. iter_inv m (c a) = ok a"
  shows "keeps_contract m (c a)"
  unfolding keeps_contract_def
proof (intro conjI allI)
  note nxt = posting_iterator.axioms(1)[OF assms(1)]
  show "asc (iter_docId (c a) # iter_rest m (c a))"
    unfolding c by (rule iterator_next.asc_rest[OF nxt it])
  obtain a' where "nx a = Some (hd0 (rest a), a') \<and> ok a' \<and> did a' = hd0 (rest a) \<and> rest a' = tl (rest a)"
    using iterator_next.nx_law[OF nxt it] by blast
  then show "\<exists>it'. iter_next m (c a) = Some (hd0 (iter_rest m (c a)), it') \<and> iter_inv m it' \<and>
      iter_docId it' = hd0 (iter_rest m (c a)) \<and> iter_rest m it' = tl (iter_rest m (c a))"
    by (intro exI[of _ "c a'"]) (simp add: c lift_it_def)
  fix i
  obtain a' where "sk a i = Some (did a', a') \<and> ok a' \<and>
      (if i \<le> did a then did a' = did a \<and> rest a' = rest a
       else did a' = hd0 (filter (\<lambda>x. i \<le> x) (rest a)) \<and> rest a' = tl (filter (\<lambda>x. i \<le> x) (rest a)))"
    using posting_iterator.sk_law[OF assms(1) it] by blast
  then show "\<exists>it'. iter_skipTo m (c a) i = Some (iter_docId it', it') \<and> iter_inv m it' \<and>
        (if i \<le> iter_docId (c a) then iter_docId it' = iter_docId (c a) \<and> iter_rest m it' = iter_rest m (c a)
         else iter_docId it' = hd0 (filter (\<lambda>x. i \<le> x) (iter_rest m (c a))) \<and>
              iter_rest m it' = tl (filter (\<lambda>x. i \<le> x) (iter_rest m (c a))))"
    by (intro exI[of _ "c a'"]) (simp add: c lift_it_def)
qed

lemma iter_contract: "posting_iterator (iter_next n) iter_docId (iter_rest n) (iter_inv n) (iter_skipTo n)"
proof (induction n)
  case 0
  show ?case by unfold_locales auto
next
  case (Suc n)
  have "keeps_contract (Suc n) it" if inv: "iter_inv (Suc n) it" for it
  proof (cases it)
    case (ItVector a)
    then show ?thesis
      using inv by (auto intro: keeps_contract_lifted[OF vector_it.posting_iterator_axioms])
  next
    case (ItPhrase a)
    then show ?thesis
      using inv by (auto intro: keeps_contract_lifted[OF phrase_it.posting_iterator_axioms])
  next
    case (ItTree a)
    then show ?thesis
      using inv by (auto intro: keeps_contract_lifted[OF tree_it.posting_iterator_axioms])
  next
    case (ItAnd a)
    then show ?thesis
      using inv by (auto intro: keeps_contract_lifted[OF posting_iterator.conj_iterator[OF Suc.IH]])
  next
    case (ItOr a)
    then show ?thesis
      using inv by (auto intro: keeps_contract_lifted[OF posting_iterator.disj_iterator[OF Suc.IH]])
  qed
  then show ?case by unfold_locales (unfold keeps_contract_def, blast+)
qed

interpretation iter: posting_iterator "iter_next n" iter_docId "iter_rest n" "iter_inv n" "iter_skipTo n" for n
  by (rule iter_contract)

text \<open>A larger bound changes nothing.\<close>

lemma iter_bound_Suc: "iter_inv n it \<Longrightarrow> iter_inv (Suc n) it \<and> iter_rest (Suc n) it = iter_rest n it"
proof (induction n arbitrary: it)
  case (Suc n)
  show ?case
  proof (cases it)
    case (ItAnd a)
    obtain its d where a: "a = AndPostingIterator its d" by (cases a)
    have "\<forall>j \<in> set its. iter_inv n j" using Suc.prems by (simp add: ItAnd a)
    then have same: "\<forall>j \<in> set its. iter_inv (Suc n) j \<and> iter_rest (Suc n) j = iter_rest n j"
      using Suc.IH by blast
    then have "and_inv iter_docId (iter_rest (Suc n)) (iter_inv (Suc n)) a"
    proof -
      have "and_inv iter_docId (iter_rest n) (iter_inv n) a" using Suc.prems by (simp add: ItAnd)
      then show ?thesis
        using same unfolding a and_inv.simps by (auto simp del: iter_rest.simps iter_inv.simps)
    qed
    moreover have "and_rest iter_docId (iter_rest (Suc n)) a = and_rest iter_docId (iter_rest n) a"
      using same by (cases its) (auto simp: a ahead_def simp del: iter_rest.simps intro!: filter_cong)
    ultimately show ?thesis using ItAnd by simp
  next
    case (ItOr a)
    obtain its d m where a: "a = OrPostingIterator its d m" by (cases a)
    have "\<forall>j \<in> set its. iter_inv n j" using Suc.prems by (simp add: ItOr a)
    then have same: "\<forall>j \<in> set its. iter_inv (Suc n) j \<and> iter_rest (Suc n) j = iter_rest n j"
      using Suc.IH by blast
    then have ahead: "map (ahead iter_docId (iter_rest (Suc n))) its = map (ahead iter_docId (iter_rest n)) its"
      "\<forall>j \<in> set its. ahead iter_docId (iter_rest (Suc n)) j = ahead iter_docId (iter_rest n) j"
      by (auto simp: ahead_def simp del: iter_rest.simps)
    then have "or_inv iter_docId (iter_rest (Suc n)) (iter_inv (Suc n)) a"
    proof -
      have "or_inv iter_docId (iter_rest n) (iter_inv n) a" using Suc.prems by (simp add: ItOr)
      then show ?thesis
        using same ahead(2) unfolding a or_inv.simps by (auto simp del: iter_rest.simps iter_inv.simps)
    qed
    moreover have "or_rest iter_docId (iter_rest (Suc n)) a = or_rest iter_docId (iter_rest n) a"
      unfolding a or_rest.simps ahead(1) ..
    ultimately show ?thesis using ItOr by simp
  qed (use Suc.prems in simp_all)
qed simp

lemma iter_bound: "n \<le> m \<Longrightarrow> iter_inv n it \<Longrightarrow> iter_inv m it \<and> iter_rest m it = iter_rest n it"
  by (induction rule: dec_induct) (auto dest: iter_bound_Suc)

section \<open>Reading an iterator to its end\<close>

text \<open>\<open>while (auto id = it->next()) { ... }\<close>: the ids the loop body sees.\<close>

partial_function (option) drain :: "nat \<Rightarrow> posting_iter \<Rightarrow> u64 list option" where
  "drain n it =
     Option.bind (iter_next n it) (\<lambda>(i, it').
       if i = 0 then Some [] else Option.bind (drain n it') (\<lambda>is. Some (i # is)))"

lemma drain_rest: "iter_inv n it \<Longrightarrow> drain n it = Some (iter_rest n it)"
proof (induction "length (iter_rest n it)" arbitrary: it)
  case 0
  then show ?case using iter.nx_law[OF 0(2)] by (subst drain.simps) auto
next
  case (Suc k)
  then obtain x xs where rest: "iter_rest n it = x # xs" by (cases "iter_rest n it") auto
  have "iter_docId it < x" using iter.asc_rest[OF Suc.prems] rest by simp
  then have "x \<noteq> 0" by auto
  obtain it' where it': "iter_next n it = Some (x, it')" "iter_inv n it'" "iter_rest n it' = xs"
    using iter.nx_law[OF Suc.prems] rest by auto
  then have "drain n it' = Some xs" using Suc.hyps(1)[of it'] Suc.hyps(2) rest by simp
  then show ?case using it' rest \<open>x \<noteq> 0\<close> by (subst drain.simps) simp
qed

text \<open>The constructors: a fresh conjunction and a fresh disjunction of fresh iterators.\<close>

definition fresh :: "nat \<Rightarrow> posting_iter \<Rightarrow> bool" where
  "fresh n it \<longleftrightarrow> iter_inv n it \<and> iter_docId it = 0"

lemma fresh_ids:
  assumes "fresh n it"
  shows "asc (iter_rest n it)" "0 \<notin> set (iter_rest n it)"
    "set (ahead iter_docId (iter_rest n) it) = set (iter_rest n it)"
  using iter.asc_rest[of n it] assms by (auto simp: fresh_def ahead_def)

lemma fresh_and:
  assumes "\<forall>it \<in> set its. fresh n it" "its \<noteq> []"
  defines "a \<equiv> ItAnd (AndPostingIterator_new (map Some its))"
  shows "fresh (Suc n) a" "set (iter_rest (Suc n) a) = (\<Inter>it \<in> set its. set (iter_rest n it))"
proof -
  have a: "a = ItAnd (AndPostingIterator its 0)"
    by (simp add: a_def AndPostingIterator_new_def comp_def list_ex_iff)
  show "fresh (Suc n) a" using assms(1) by (auto simp: a fresh_def)
  obtain it0 its0 where its: "its = it0 # its0" using assms(2) by (cases its) auto
  then show "set (iter_rest (Suc n) a) = (\<Inter>it \<in> set its. set (iter_rest n it))"
    using assms(1) fresh_ids(3) by (auto simp: a)
qed

lemma fresh_or:
  assumes "\<forall>it \<in> set its. fresh n it"
  shows "\<exists>a. OrPostingIterator_new (iter_next n) (map Some its) = Some a \<and> fresh (Suc n) (ItOr a) \<and>
    set (iter_rest (Suc n) (ItOr a)) = (\<Union>it \<in> set its. set (iter_rest n it))"
proof -
  have "map the (filter (\<lambda>it. it \<noteq> None) (map Some its)) = its"
    by (induction its) auto
  moreover have "\<forall>it \<in> set its. iter_inv n it \<and> iter_docId it = 0" using assms by (simp add: fresh_def)
  then obtain m its' where start: "or_start (iter_next n) 0 its = Some (m, its')" "iter.started n its'"
    "iter.union n its' = iter.union n its" "least0 m ({} \<union> iter.union n its')"
    using iter.or_start_law[of its n 0 "{}"] by auto
  moreover have "iter.union n its = (\<Union>it \<in> set its. set (iter_rest n it))"
    using assms fresh_ids(3) by auto
  moreover have "\<forall>it \<in> set its'. \<forall>x \<in> iter.ah n it. 0 < x"
    using iter.zero_union[OF start(2)] by (metis UN_iff word_neq_0_conv)
  ultimately show ?thesis
    by (intro exI[of _ "OrPostingIterator its' 0 m"])
      (auto simp: OrPostingIterator_new_def fresh_def)
qed

end
