(* ===== verification/DbIter.thy ===== *)
theory DbIter
  imports IterObj
begin

text \<open>
  The iterators that the sub-databases give out: \<open>PostingDB::iter\<close>, the range iterators over all terms
  with a prefix that a predicate accepts, \<open>PositionDB::iter\<close> and \<open>MTimeDB::iterRange\<close>. A null pointer
  is \<open>None\<close>. Parsing of numbers, regular expressions and UTF-8 decoding are parameters.
\<close>

definition PostingDB_iter :: "'s lmdb \<Rightarrow> MDB_dbi \<Rightarrow> 's \<Rightarrow> bytes \<Rightarrow> posting_iter option" where
  "PostingDB_iter L d s t =
     (case mdb_get L s d t of
        None \<Rightarrow> None
      | Some v \<Rightarrow> Some (ItVector (VectorPostingIterator_new (PostingCodec_decode v))))"

text \<open>\<open>template<typename Validator> iter\<close>; the outer \<open>option\<close> is that of the constructor's calls.\<close>

definition PostingDB_iter_validate ::
  "'s lmdb \<Rightarrow> MDB_dbi \<Rightarrow> 's \<Rightarrow> bytes \<Rightarrow> (bytes \<Rightarrow> bool) \<Rightarrow> posting_iter option option" where
  "PostingDB_iter_validate L d s pre validate =
     (let entries = takeWhile (\<lambda>e. startsWith (fst e) pre) (mdb_scan_from L s d pre);
          termIterators = map (\<lambda>e. ItVector (VectorPostingIterator_new (PostingCodec_decode (snd e))))
                            (filter (\<lambda>e. validate (fst e)) entries)
      in if termIterators = [] then Some None
         else Option.bind (OrPostingIterator_new (iter_next 1) (map Some termIterators))
                (\<lambda>a. Some (Some (ItOr a))))"

definition PostingDB_prefixIter :: "'s lmdb \<Rightarrow> MDB_dbi \<Rightarrow> 's \<Rightarrow> bytes \<Rightarrow> posting_iter option option" where
  "PostingDB_prefixIter L d s pre = PostingDB_iter_validate L d s pre (\<lambda>_. True)"

definition PostingDB_regexpIter ::
  "(bytes \<Rightarrow> QString) \<Rightarrow> (QString \<Rightarrow> bool) \<Rightarrow> 's lmdb \<Rightarrow> MDB_dbi \<Rightarrow> 's \<Rightarrow> bytes \<Rightarrow>
   posting_iter option option" where
  "PostingDB_regexpIter fromUtf8 hasMatch L d s pre =
     PostingDB_iter_validate L d s pre (\<lambda>arr. hasMatch (fromUtf8 (drop (length pre) arr)))"

datatype Comparator = LessEqual | GreaterEqual

text \<open>
  The overloads of \<open>compIter\<close>: \<open>parse\<close> is \<open>toLongLong\<close> or \<open>toDouble\<close> (\<open>None\<close> where \<open>ok\<close> is false) and
  \<open>le\<close> the comparison of the type; for \<open>QByteArray\<close> the bytes themselves, compared as \<open>memcmp\<close> does.
\<close>

definition PostingDB_compIter ::
  "(bytes \<Rightarrow> 'v option) \<Rightarrow> ('v \<Rightarrow> 'v \<Rightarrow> bool) \<Rightarrow> 's lmdb \<Rightarrow> MDB_dbi \<Rightarrow> 's \<Rightarrow> bytes \<Rightarrow> 'v \<Rightarrow> Comparator \<Rightarrow>
   posting_iter option option" where
  "PostingDB_compIter parse le L d s pre comVal com =
     PostingDB_iter_validate L d s pre (\<lambda>arr.
       case parse (drop (length pre) arr) of
         None \<Rightarrow> False
       | Some val \<Rightarrow> com = LessEqual \<and> le val comVal \<or> com = GreaterEqual \<and> le comVal val)"

definition PostingDB_compIter_bytes ::
  "'s lmdb \<Rightarrow> MDB_dbi \<Rightarrow> 's \<Rightarrow> bytes \<Rightarrow> bytes \<Rightarrow> Comparator \<Rightarrow> posting_iter option option" where
  "PostingDB_compIter_bytes = PostingDB_compIter Some (\<le>)"

definition PositionDB_iter :: "'s lmdb \<Rightarrow> MDB_dbi \<Rightarrow> 's \<Rightarrow> bytes \<Rightarrow> VectorPositionInfoIterator option" where
  "PositionDB_iter L d s t =
     (case mdb_get L s d t of
        None \<Rightarrow> None
      | Some v \<Rightarrow> Some (VectorPositionInfoIterator_new (PositionCodec_decode v)))"

definition MTimeDB_iterRange :: "'s lmdb \<Rightarrow> MDB_dbi \<Rightarrow> 's \<Rightarrow> u32 \<Rightarrow> u32 \<Rightarrow> posting_iter option" where
  "MTimeDB_iterRange L d s beginTime endTime =
     (if endTime < beginTime then None
      else
        let results = map (\<lambda>e. le_word (snd e))
              (takeWhile (\<lambda>e. le_word (fst e) \<le> endTime) (mdb_scan_from L s d (le_bytes 4 beginTime)))
        in if results = [] then None
           else Some (ItVector (VectorPostingIterator_new (sort_unique results))))"

section \<open>Range scans\<close>

text \<open>In the byte order, the keys with a prefix are the ones a scan from the prefix meets first.\<close>

lemma prefix_not_less: "prefix p t \<Longrightarrow> \<not> t < (p :: bytes)"
proof (induction p arbitrary: t)
  case (Cons a p)
  then obtain t' where "t = a # t'" "prefix p t'" by (cases t) auto
  with Cons.IH[of t'] show ?case by simp
qed simp

lemma prefix_convex:
  "\<not> t < p \<Longrightarrow> \<not> prefix p t \<Longrightarrow> t < t' \<Longrightarrow> \<not> prefix p (t' :: bytes)"
proof (induction p arbitrary: t t')
  case (Cons a p)
  show ?case
  proof
    assume "prefix (a # p) t'"
    then obtain u where t': "t' = a # u" "prefix p u" by (cases t') auto
    obtain b v where t: "t = b # v" using Cons.prems(1) by (cases t) auto
    with Cons.prems t' have "b = a" "\<not> v < p" "\<not> prefix p v" "v < u" by (auto simp: not_less)
    with Cons.IH[of v u] t'(2) show False by blast
  qed
qed simp

lemma filter_dropWhile_False: "\<forall>x \<in> set (takeWhile Q xs). \<not> P x \<Longrightarrow> filter P (dropWhile Q xs) = filter P xs"
  by (induction xs) auto

lemma takeWhile_eq_filter_tail:
  "(\<And>ys x zs. xs = ys @ x # zs \<Longrightarrow> \<not> P x \<Longrightarrow> \<forall>z \<in> set zs. \<not> P z) \<Longrightarrow> takeWhile P xs = filter P xs"
proof (induction xs)
  case (Cons x xs)
  show ?case
  proof (cases "P x")
    case True
    have "takeWhile P xs = filter P xs"
    proof (rule Cons.IH)
      fix ys y zs assume "xs = ys @ y # zs" "\<not> P y"
      then show "\<forall>z \<in> set zs. \<not> P z" using Cons.prems[of "x # ys" y zs] by simp
    qed
    then show ?thesis using True by simp
  next
    case False
    then have "\<forall>z \<in> set xs. \<not> P z" using Cons.prems[of "[]" x xs] by simp
    then show ?thesis using False by (simp add: filter_empty_conv)
  qed
qed simp

lemma prefix_scan:
  assumes "lmdb_ok L" "d = postingDbi \<or> d = positionDBi"
  shows "takeWhile (\<lambda>e. startsWith (fst e) pre) (mdb_scan_from L s d pre) =
    filter (\<lambda>e. startsWith (fst e) pre) (mdb_scan L s d)"
proof -
  let ?es = "mdb_scan L s d" and ?P = "\<lambda>e :: bytes \<times> bytes. startsWith (fst e) pre"
  let ?Q = "\<lambda>e :: bytes \<times> bytes. fst e < pre"
  have less: "key_less d k k' \<longleftrightarrow> k < k'" for k k'
    using assms(2) by (auto simp: key_less_def)
  have sorted: "sorted_wrt (\<lambda>e e'. fst e < fst e') ?es"
    using mdb_scan_sorted[OF assms(1), of d s] assms(2)
    by (elim sorted_wrt_mono_rel[rotated]) (simp add: entry_less_def less, blast?)
  have from_eq: "mdb_scan_from L s d pre = dropWhile ?Q ?es"
    using mdb_scan_from_scan[OF assms(1)] by (simp add: less)
  have "takeWhile ?P (dropWhile ?Q ?es) = filter ?P (dropWhile ?Q ?es)"
  proof (rule takeWhile_eq_filter_tail)
    fix ys x zs assume split: "dropWhile ?Q ?es = ys @ x # zs" and "\<not> ?P x"
    have drop: "sorted_wrt (\<lambda>e e'. fst e < fst e') (ys @ x # zs)"
      using sorted_wrt_drop[OF sorted] unfolding split[symmetric] dropWhile_eq_drop by blast
    have "\<not> ?Q x"
    proof (cases ys)
      case Nil
      then show ?thesis using hd_dropWhile[of ?Q ?es] split by simp
    next
      case (Cons y ys')
      then have "\<not> fst y < pre" using hd_dropWhile[of ?Q ?es] split by simp
      moreover have "fst y < fst x" using drop Cons by (simp add: sorted_wrt_append)
      ultimately show ?thesis by auto
    qed
    moreover have "\<forall>z \<in> set zs. fst x < fst z" using drop by (simp add: sorted_wrt_append)
    ultimately show "\<forall>z \<in> set zs. \<not> ?P z"
      using prefix_convex[of "fst x" pre] \<open>\<not> ?P x\<close> by (auto simp: startsWith_def)
  qed
  also have "\<dots> = filter ?P ?es"
    using prefix_not_less by (intro filter_dropWhile_False) (auto simp: startsWith_def dest: set_takeWhileD)
  finally show ?thesis unfolding from_eq .
qed

section \<open>What the iterators run over\<close>

definition postings_proper :: "'s lmdb \<Rightarrow> 's \<Rightarrow> bool" where
  "postings_proper L s \<longleftrightarrow>
     (\<forall>t. asc (PostingDB_get L postingDbi s t) \<and> 0 \<notin> set (PostingDB_get L postingDbi s t))"

lemma fresh_vector:
  assumes "asc xs" "0 \<notin> set xs"
  shows "fresh (Suc n) (ItVector (VectorPostingIterator_new xs))"
    "iter_rest (Suc n) (ItVector (VectorPostingIterator_new xs)) = xs"
  using assms by (auto simp: fresh_def VectorPostingIterator_new_def word_neq_0_conv[symmetric])

lemma PostingDB_iter_rest:
  assumes "postings_proper L s"
  shows "case PostingDB_iter L postingDbi s t of
      None \<Rightarrow> PostingDB_get L postingDbi s t = []
    | Some it \<Rightarrow> fresh 1 it \<and> iter_rest 1 it = PostingDB_get L postingDbi s t"
  using assms fresh_vector[of "PostingDB_get L postingDbi s t" 0]
  by (auto simp: PostingDB_iter_def PostingDB_get_def postings_proper_def split: option.splits)

lemma PostingDB_iter_validate_rest:
  assumes "lmdb_ok L" "postings_proper L s"
  shows "\<exists>r. PostingDB_iter_validate L postingDbi s pre validate = Some r \<and>
    (case r of
       None \<Rightarrow> \<forall>t. startsWith t pre \<longrightarrow> validate t \<longrightarrow> PostingDB_get L postingDbi s t = []
     | Some it \<Rightarrow> fresh 2 it \<and>
         set (iter_rest 2 it) = (\<Union>t \<in> {t. startsWith t pre \<and> validate t}. set (PostingDB_get L postingDbi s t)))"
proof -
  let ?entries = "filter (\<lambda>e. startsWith (fst e) pre \<and> validate (fst e)) (mdb_scan L s postingDbi)"
  let ?f = "\<lambda>e. ItVector (VectorPostingIterator_new (PostingCodec_decode (snd e)))"
  have its: "filter (\<lambda>e. validate (fst e))
      (takeWhile (\<lambda>e. startsWith (fst e) pre) (mdb_scan_from L s postingDbi pre)) = ?entries"
    using prefix_scan[OF assms(1), of postingDbi pre s] by (simp add: conj_commute)
  have get: "PostingDB_get L postingDbi s (fst e) = PostingCodec_decode (snd e)"
    if "e \<in> set (mdb_scan L s postingDbi)" for e
    using that mdb_get_iff[OF assms(1), of postingDbi s "fst e" "snd e"] by (simp add: PostingDB_get_def)
  have absent: "PostingDB_get L postingDbi s t = []" if "t \<notin> fst ` set (mdb_scan L s postingDbi)" for t
  proof -
    have "mdb_get L s postingDbi t = None"
      using that mdb_get_scan[OF assms(1)] by (simp add: map_of_eq_None_iff)
    then show ?thesis by (simp add: PostingDB_get_def)
  qed
  have union: "(\<Union>e \<in> set ?entries. set (PostingCodec_decode (snd e))) =
      (\<Union>t \<in> {t. startsWith t pre \<and> validate t}. set (PostingDB_get L postingDbi s t))" (is "?l = ?r")
  proof
    show "?l \<subseteq> ?r" using get by fastforce
    show "?r \<subseteq> ?l"
    proof
      fix i assume "i \<in> ?r"
      then obtain t where t: "startsWith t pre" "validate t" "i \<in> set (PostingDB_get L postingDbi s t)" by auto
      then obtain e where e: "e \<in> set (mdb_scan L s postingDbi)" "t = fst e"
        using absent[of t] by fastforce
      then have "e \<in> set ?entries" using t by simp
      moreover have "i \<in> set (PostingCodec_decode (snd e))" using t(3) get[OF e(1)] e(2) by simp
      ultimately show "i \<in> ?l" by blast
    qed
  qed
  show ?thesis
  proof (cases "?entries = []")
    case True
    then have "?r = {}" using union by (simp only: list.set UN_empty)
    then have "\<forall>t. startsWith t pre \<longrightarrow> validate t \<longrightarrow> PostingDB_get L postingDbi s t = []" by auto
    then show ?thesis using True its by (simp add: PostingDB_iter_validate_def)
  next
    case False
    have fresh: "fresh 1 (?f e)" "iter_rest 1 (?f e) = PostingCodec_decode (snd e)"
      if "e \<in> set ?entries" for e
    proof -
      have "PostingCodec_decode (snd e) = PostingDB_get L postingDbi s (fst e)" using that get[of e] by simp
      then have "asc (PostingCodec_decode (snd e))" "0 \<notin> set (PostingCodec_decode (snd e))"
        using assms(2) unfolding postings_proper_def by metis+
      from fresh_vector[OF this, of 0] show "fresh 1 (?f e)" "iter_rest 1 (?f e) = PostingCodec_decode (snd e)"
        by simp_all
    qed
    obtain a where a: "OrPostingIterator_new (iter_next 1) (map Some (map ?f ?entries)) = Some a"
      "fresh (Suc 1) (ItOr a)"
      "set (iter_rest (Suc 1) (ItOr a)) = (\<Union>it \<in> set (map ?f ?entries). set (iter_rest 1 it))"
      using fresh_or[of "map ?f ?entries" 1] fresh(1) by auto
    have "(\<Union>it \<in> set (map ?f ?entries). set (iter_rest 1 it)) = ?l"
      using fresh(2) by (auto simp del: iter_rest.simps)
    then have "set (iter_rest 2 (ItOr a)) = ?r" using a(3) union by (simp add: numeral_2_eq_2)
    then show ?thesis
      using a(1,2) False its
      by (intro exI[of _ "Some (ItOr a)"]) (simp add: PostingDB_iter_validate_def numeral_2_eq_2)
  qed
qed

section \<open>Time ranges\<close>

lemma key_less_mtime:
  assumes "length k = 4" "length k' = 4"
  shows "key_less mtimeDbi k k' \<longleftrightarrow> (le_word k :: u32) < le_word k'"
proof -
  have wide: "(le_word x :: u64) = ucast (le_word x :: u32)" if "length x = 4" for x
  proof -
    have "le_bytes 4 (le_word x :: u32) = x" using that by (intro le_bytes_le_word) auto
    then show ?thesis
      using le_word_le_bytes_wider[of 4 "le_word x :: u32", where 'b = 64] by (simp add: take_bit_word_eq_self)
  qed
  have up: "unat (ucast w :: u64) = unat w" for w :: u32
  proof -
    have "unat w < 2 ^ 32" using unsigned_less[of w, where 'a = nat] by simp
    then have "unat w < 2 ^ 64" by (rule order_less_trans) simp
    then show ?thesis by (simp add: unsigned_ucast_eq take_bit_nat_eq_self)
  qed
  show ?thesis
    by (simp add: key_less_def wide[OF assms(1)] wide[OF assms(2)] word_less_nat_alt up del: unsigned_ucast_eq)
qed

lemma MTimeDB_iterRange_rest:
  assumes "lmdb_ok L" "\<forall>t. 0 \<notin> set (MTimeDB_get L mtimeDbi s t)"
  shows "case MTimeDB_iterRange L mtimeDbi s b e of
      None \<Rightarrow> (\<Union>t \<in> {b..e}. set (MTimeDB_get L mtimeDbi s t)) = {}
    | Some it \<Rightarrow> fresh 1 it \<and> set (iter_rest 1 it) = (\<Union>t \<in> {b..e}. set (MTimeDB_get L mtimeDbi s t))"
proof (cases "e < b")
  case True
  then show ?thesis by (auto simp: MTimeDB_iterRange_def)
next
  case False
  let ?es = "mdb_scan L s mtimeDbi" and ?key = "\<lambda>x :: bytes \<times> bytes. le_word (fst x) :: u32"
  have len: "length (fst x) = 4" if "x \<in> set ?es" for x
    using mdb_scan_key_ok[OF assms(1) that] by (simp add: key_ok_def)
  have "sorted (map ?key ?es)"
  proof -
    have "sorted_wrt (\<lambda>x y. ?key x \<le> ?key y) ?es"
      using mdb_scan_sorted[OF assms(1), of mtimeDbi s]
    proof (rule sorted_wrt_mono_rel[rotated])
      fix x y assume "x \<in> set ?es" "y \<in> set ?es" "entry_less mtimeDbi x y"
      then show "?key x \<le> ?key y" using key_less_mtime[OF len len, of x y] by (auto simp: entry_less_def)
    qed
    then show ?thesis by (simp add: sorted_wrt_map)
  qed
  note range = sorted_range[OF this, of e b]
  have "dropWhile (\<lambda>x. key_less mtimeDbi (fst x) (le_bytes 4 b)) ?es = dropWhile (\<lambda>x. ?key x < b) ?es"
    using key_less_mtime[OF len, of _ "le_bytes 4 b"] by (intro dropWhile_cong) (auto simp: codec_simps)
  then have scan: "takeWhile (\<lambda>x. ?key x \<le> e) (mdb_scan_from L s mtimeDbi (le_bytes 4 b)) =
      filter (\<lambda>x. b \<le> ?key x \<and> ?key x \<le> e) ?es"
    using range by (simp add: mdb_scan_from_scan[OF assms(1)])
  define res where "res = map (\<lambda>x. le_word (snd x) :: u64) (filter (\<lambda>x. b \<le> ?key x \<and> ?key x \<le> e) ?es)"
  have set_res: "set res = (\<Union>t \<in> {b..e}. set (MTimeDB_get L mtimeDbi s t))"
  proof (intro set_eqI iffI)
    fix i assume "i \<in> set res"
    then obtain x where x: "x \<in> set ?es" "b \<le> ?key x" "?key x \<le> e" "i = le_word (snd x)"
      by (auto simp: res_def)
    have "le_bytes 8 i = snd x"
      using mdb_scan_value_length[OF assms(1) _ x(1)] x(4) by (auto intro!: le_bytes_le_word)
    moreover have "le_bytes 4 (?key x) = fst x" using len[OF x(1)] by (intro le_bytes_le_word) auto
    ultimately have "(le_bytes 4 (?key x), le_bytes 8 i) \<in> set ?es" using x(1) by simp
    then have "i \<in> set (MTimeDB_get L mtimeDbi s (?key x))" using set_MTimeDB_get[OF assms(1)] by blast
    then show "i \<in> (\<Union>t \<in> {b..e}. set (MTimeDB_get L mtimeDbi s t))" using x(2,3) by auto
  next
    fix i assume "i \<in> (\<Union>t \<in> {b..e}. set (MTimeDB_get L mtimeDbi s t))"
    then obtain t where t: "b \<le> t" "t \<le> e" "(le_bytes 4 t, le_bytes 8 i) \<in> set ?es"
      using set_MTimeDB_get[OF assms(1)] by auto
    have "(le_bytes 4 t, le_bytes 8 i) \<in> set (filter (\<lambda>x. b \<le> ?key x \<and> ?key x \<le> e) ?es)"
      using t by (simp add: codec_simps)
    then have "(\<lambda>x. le_word (snd x) :: u64) (le_bytes 4 t, le_bytes 8 i) \<in> set res" unfolding res_def set_map by (rule imageI)
    then show "i \<in> set res" by (simp add: codec_simps)
  qed
  have it: "MTimeDB_iterRange L mtimeDbi s b e =
      (if res = [] then None else Some (ItVector (VectorPostingIterator_new (sort_unique res))))"
    using False by (simp add: MTimeDB_iterRange_def scan res_def)
  show ?thesis
  proof (cases "res = []")
    case True
    then show ?thesis using set_res by (simp add: it)
  next
    case r: False
    have "0 \<notin> set (sort_unique res)" using set_res assms(2) by simp
    then show ?thesis
      using fresh_vector[of "sort_unique res" 0] set_res r by (simp add: it)
  qed
qed

end
