(* ===== verification/Transaction.thy ===== *)
theory Transaction
  imports WriteSteps DbIter
begin

text \<open>
  \<open>transaction.cpp\<close>: the object through which everything reads and writes the index. It owns an LMDB
  transaction (\<open>m_txn\<close>) and, for a \<open>ReadWrite\<close> one, a \<open>WriteTransaction\<close> on it, of which the object
  adds the queue: its store is \<open>m_txn\<close>. LMDB's environment is the parameter \<open>E\<close>: \<open>mdb_txn_begin\<close>
  gives an error code or the store the transaction works on, \<open>mdb_txn_commit\<close> a return code.
  The getters get the store of \<open>m_txn\<close>. The queries are in the theory \<open>Queries\<close>.
\<close>

record ('e, 's) mdb_env =
  mdb_txn_begin :: "'e \<Rightarrow> bool \<Rightarrow> int + 's"
  mdb_txn_commit :: "'e \<Rightarrow> 's \<Rightarrow> int \<times> 'e"
  mdb_txn_abort :: "'e \<Rightarrow> 's \<Rightarrow> 'e"

text \<open>
  What LMDB documents of it: a transaction starts on the committed store \<open>st\<close>; a commit that returns
  0 makes its store the committed one; a failed commit and an abort leave the committed one.
\<close>

definition mdb_env_ok :: "('e, 's) mdb_env \<Rightarrow> ('e \<Rightarrow> 's) \<Rightarrow> bool" where
  "mdb_env_ok E st \<longleftrightarrow>
     (\<forall>e ro s. mdb_txn_begin E e ro = Inr s \<longrightarrow> s = st e) \<and>
     (\<forall>e s rc e'. mdb_txn_commit E e s = (rc, e') \<longrightarrow> st e' = (if rc = 0 then s else st e)) \<and>
     (\<forall>e s. st (mdb_txn_abort E e s) = st e)"

datatype TransactionType = ReadOnly | ReadWrite

record 's Transaction =
  t_txn :: "'s option"
  t_writeTrans :: "pending option"
  t_lastError :: int

section \<open>Opening and closing\<close>

definition Transaction_init ::
  "('e, 's) mdb_env \<Rightarrow> TransactionType \<Rightarrow> 'e \<Rightarrow> 's Transaction \<Rightarrow> 's Transaction" where
  "Transaction_init E type e T =
     (case mdb_txn_begin E e (type = ReadOnly) of
        Inl rc \<Rightarrow> T\<lparr>t_lastError := rc\<rparr>
      | Inr s \<Rightarrow> T\<lparr>t_txn := Some s,
                  t_writeTrans := (if type = ReadWrite then Some [] else t_writeTrans T)\<rparr>)"

definition Transaction_new :: "('e, 's) mdb_env \<Rightarrow> TransactionType \<Rightarrow> 'e \<Rightarrow> 's Transaction" where
  "Transaction_new E type e =
     Transaction_init E type e \<lparr>t_txn = None, t_writeTrans = None, t_lastError = 0\<rparr>"

definition Transaction_isValid :: "'s Transaction \<Rightarrow> bool" where
  "Transaction_isValid T \<longleftrightarrow> t_txn T \<noteq> None"

text \<open>\<open>mdb_txn_abort\<close> does nothing for a null pointer.\<close>

definition Transaction_abort :: "('e, 's) mdb_env \<Rightarrow> 'e \<Rightarrow> 's Transaction \<Rightarrow> 'e \<times> 's Transaction" where
  "Transaction_abort E e T =
     ((case t_txn T of None \<Rightarrow> e | Some s \<Rightarrow> mdb_txn_abort E e s),
      T\<lparr>t_txn := None, t_writeTrans := None\<rparr>)"

definition Transaction_reset ::
  "('e, 's) mdb_env \<Rightarrow> TransactionType \<Rightarrow> 'e \<Rightarrow> 's Transaction \<Rightarrow> 'e \<times> 's Transaction" where
  "Transaction_reset E type e T =
     (let (e', T') = (if t_txn T \<noteq> None then Transaction_abort E e T else (e, T))
      in (e', Transaction_init E type e' T'))"

text \<open>The destructor, as what it leaves of the environment.\<close>

definition Transaction_destroy :: "('e, 's) mdb_env \<Rightarrow> 'e \<Rightarrow> 's Transaction \<Rightarrow> 'e" where
  "Transaction_destroy E e T = (if t_txn T \<noteq> None then fst (Transaction_abort E e T) else e)"

definition Transaction_commit ::
  "('e, 's) mdb_env \<Rightarrow> 's lmdb \<Rightarrow> 'e \<Rightarrow> 's Transaction \<Rightarrow> bool \<times> 'e \<times> 's Transaction" where
  "Transaction_commit E L e T =
     (case (t_txn T, t_writeTrans T) of
        (Some s, Some m) \<Rightarrow>
          let W = WriteTransaction_commit L \<lparr>m_txn = s, m_pendingOperations = m\<rparr>;
              (rc, e') = mdb_txn_commit E e (m_txn W);
              T' = T\<lparr>t_txn := None, t_writeTrans := None\<rparr>
          in if rc \<noteq> 0 then (False, e', T'\<lparr>t_lastError := rc\<rparr>) else (True, e', T')
      | _ \<Rightarrow> (False, e, T))"

section \<open>Getters\<close>

definition Transaction_hasDocument :: "'s lmdb \<Rightarrow> 's \<Rightarrow> u64 \<Rightarrow> bool" where
  "Transaction_hasDocument L s i = DocumentUrlDB_contains L s i"

definition Transaction_inPhaseOne :: "'s lmdb \<Rightarrow> 's \<Rightarrow> u64 \<Rightarrow> bool" where
  "Transaction_inPhaseOne L s i = DocumentIdDB_contains L contentIndexingDbi s i"

definition Transaction_hasFailed :: "'s lmdb \<Rightarrow> 's \<Rightarrow> u64 \<Rightarrow> bool" where
  "Transaction_hasFailed L s i = DocumentIdDB_contains L failedIdDbi s i"

text \<open>\<open>fetchItems\<close> takes an \<open>int\<close>: the limit is cut to 32 bits.\<close>

definition Transaction_failedIds :: "'s lmdb \<Rightarrow> 's \<Rightarrow> u64 \<Rightarrow> u64 list" where
  "Transaction_failedIds L s limit =
     DocumentIdDB_fetchItems L failedIdDbi s (sint (ucast limit :: u32))"

definition Transaction_documentUrl :: "'s lmdb \<Rightarrow> 's \<Rightarrow> u64 \<Rightarrow> bytes" where
  "Transaction_documentUrl L s i = DocumentUrlDB_get L s i"

definition Transaction_documentTimeInfo :: "'s lmdb \<Rightarrow> 's \<Rightarrow> u64 \<Rightarrow> TimeInfo" where
  "Transaction_documentTimeInfo L s i = DocumentTimeDB_get L docTimeDbi s i"

definition Transaction_documentData :: "'s lmdb \<Rightarrow> 's \<Rightarrow> u64 \<Rightarrow> bytes" where
  "Transaction_documentData L s i = DocumentDataDB_get L docDataDbi s i"

definition Transaction_fetchPhaseOneIds :: "'s lmdb \<Rightarrow> 's \<Rightarrow> int \<Rightarrow> u64 list" where
  "Transaction_fetchPhaseOneIds L s n = DocumentIdDB_fetchItems L contentIndexingDbi s n"

definition Transaction_fetchTermsStartingWith :: "'s lmdb \<Rightarrow> 's \<Rightarrow> bytes \<Rightarrow> bytes list" where
  "Transaction_fetchTermsStartingWith L s t = PostingDB_fetchTermsStartingWith L postingDbi s t"

definition Transaction_phaseOneSize :: "'s lmdb \<Rightarrow> 's \<Rightarrow> u32" where
  "Transaction_phaseOneSize L s = DocumentIdDB_size L contentIndexingDbi s"

definition Transaction_size :: "'s lmdb \<Rightarrow> 's \<Rightarrow> u32" where
  "Transaction_size L s = DocumentDB_size L docTermsDbi s"

definition Transaction_documentTerms :: "'s lmdb \<Rightarrow> 's \<Rightarrow> u64 \<Rightarrow> bytes list" where
  "Transaction_documentTerms L s i = DocumentDB_get L docTermsDbi s i"

definition Transaction_documentFileNameTerms :: "'s lmdb \<Rightarrow> 's \<Rightarrow> u64 \<Rightarrow> bytes list" where
  "Transaction_documentFileNameTerms L s i = DocumentDB_get L docFilenameTermsDbi s i"

definition Transaction_documentXattrTerms :: "'s lmdb \<Rightarrow> 's \<Rightarrow> u64 \<Rightarrow> bytes list" where
  "Transaction_documentXattrTerms L s i = DocumentDB_get L docXattrTermsDbi s i"

section \<open>Write operations\<close>

text \<open>An operation that is passed on to \<open>m_writeTrans\<close>; without one nothing happens.\<close>

definition write_with :: "('s wtxn \<Rightarrow> 's wtxn) \<Rightarrow> 's Transaction \<Rightarrow> 's Transaction" where
  "write_with f T =
     (case (t_txn T, t_writeTrans T) of
        (Some s, Some m) \<Rightarrow>
          let W = f \<lparr>m_txn = s, m_pendingOperations = m\<rparr>
          in T\<lparr>t_txn := Some (m_txn W), t_writeTrans := Some (m_pendingOperations W)\<rparr>
      | _ \<Rightarrow> T)"

text \<open>An operation on the tables of \<open>m_txn\<close> itself.\<close>

definition store_with :: "('s \<Rightarrow> 's) \<Rightarrow> 's Transaction \<Rightarrow> 's Transaction" where
  "store_with f T = T\<lparr>t_txn := map_option f (t_txn T)\<rparr>"

definition Transaction_setPhaseOne :: "'s lmdb \<Rightarrow> u64 \<Rightarrow> 's Transaction \<Rightarrow> 's Transaction" where
  "Transaction_setPhaseOne L i = store_with (\<lambda>s. DocumentIdDB_put L contentIndexingDbi s i)"

definition Transaction_removePhaseOne :: "'s lmdb \<Rightarrow> u64 \<Rightarrow> 's Transaction \<Rightarrow> 's Transaction" where
  "Transaction_removePhaseOne L i = store_with (\<lambda>s. DocumentIdDB_del L contentIndexingDbi s i)"

definition Transaction_removeFailed :: "'s lmdb \<Rightarrow> u64 \<Rightarrow> 's Transaction \<Rightarrow> 's Transaction" where
  "Transaction_removeFailed L i = store_with (\<lambda>s. DocumentIdDB_del L failedIdDbi s i)"

definition Transaction_addFailed :: "'s lmdb \<Rightarrow> u64 \<Rightarrow> 's Transaction \<Rightarrow> 's Transaction" where
  "Transaction_addFailed L i = store_with (\<lambda>s. DocumentIdDB_put L failedIdDbi s i)"

definition Transaction_addDocument ::
  "'s lmdb \<Rightarrow> (QString \<Rightarrow> bytes) \<Rightarrow> fs_api \<Rightarrow> Document \<Rightarrow> 's Transaction \<Rightarrow> 's Transaction" where
  "Transaction_addDocument L json fs doc = write_with (\<lambda>W. WriteTransaction_addDocument L json fs W doc)"

definition Transaction_removeDocument :: "'s lmdb \<Rightarrow> u64 \<Rightarrow> 's Transaction \<Rightarrow> 's Transaction" where
  "Transaction_removeDocument L i = write_with (\<lambda>W. WriteTransaction_removeDocument L W i)"

definition Transaction_replaceDocument ::
  "'s lmdb \<Rightarrow> (QString \<Rightarrow> bytes) \<Rightarrow> Document \<Rightarrow> DocumentOperations \<Rightarrow> 's Transaction \<Rightarrow> 's Transaction" where
  "Transaction_replaceDocument L json doc operations =
     write_with (\<lambda>W. WriteTransaction_replaceDocument L json W doc operations)"

text \<open>The recursive removals may not return (\<open>None\<close>).\<close>

definition write_with_option ::
  "('s wtxn \<Rightarrow> ('r \<times> 's wtxn) option) \<Rightarrow> 'r \<Rightarrow> 's Transaction \<Rightarrow> ('r \<times> 's Transaction) option" where
  "write_with_option f r0 T =
     (case (t_txn T, t_writeTrans T) of
        (Some s, Some m) \<Rightarrow>
          map_option (\<lambda>(r, W). (r, T\<lparr>t_txn := Some (m_txn W), t_writeTrans := Some (m_pendingOperations W)\<rparr>))
            (f \<lparr>m_txn = s, m_pendingOperations = m\<rparr>)
      | _ \<Rightarrow> Some (r0, T))"

definition Transaction_removeRecursively :: "'s lmdb \<Rightarrow> u64 \<Rightarrow> 's Transaction \<Rightarrow> (unit \<times> 's Transaction) option" where
  "Transaction_removeRecursively L i =
     write_with_option (\<lambda>W. map_option (Pair ()) (WriteTransaction_removeRecursively L W i)) ()"

definition Transaction_removeRecursively_if ::
  "'s lmdb \<Rightarrow> (bytes \<Rightarrow> bool) \<Rightarrow> u64 \<Rightarrow> 's Transaction \<Rightarrow> (bool \<times> 's Transaction) option" where
  "Transaction_removeRecursively_if L shouldDelete i =
     write_with_option (\<lambda>W. WriteTransaction_removeRecursively_if L shouldDelete W i) False"

section \<open>Sizes\<close>

record MDB_stat =
  ms_psize :: nat
  ms_branch_pages :: nat
  ms_leaf_pages :: nat
  ms_overflow_pages :: nat

definition dbiSize :: "(MDB_dbi \<Rightarrow> MDB_stat) \<Rightarrow> MDB_dbi \<Rightarrow> nat" where
  "dbiSize mdb_stat dbi =
     (let stat = mdb_stat dbi
      in (ms_branch_pages stat + ms_leaf_pages stat + ms_overflow_pages stat) * ms_psize stat)"

record DatabaseSize =
  expectedSize :: nat
  actualSize :: nat
  sz_postingDb :: nat
  sz_positionDb :: nat
  sz_docTerms :: nat
  sz_docFilenameTerms :: nat
  sz_docXattrTerms :: nat
  sz_idTree :: nat
  sz_idFilename :: nat
  sz_docTime :: nat
  sz_docData :: nat
  sz_contentIndexingIds :: nat
  sz_failedIds :: nat
  sz_mtimeDb :: nat

definition Transaction_dbSize :: "(MDB_dbi \<Rightarrow> MDB_stat) \<Rightarrow> nat \<Rightarrow> DatabaseSize" where
  "Transaction_dbSize mdb_stat me_last_pgno =
     (let sz = dbiSize mdb_stat
      in \<lparr>expectedSize = sz postingDbi + sz positionDBi + sz docTermsDbi + sz docFilenameTermsDbi
            + sz docXattrTermsDbi + sz idTreeDbi + sz idFilenameDbi + sz docTimeDbi
            + sz docDataDbi + sz contentIndexingDbi + sz failedIdDbi + sz mtimeDbi,
          actualSize = me_last_pgno * 4096,
          sz_postingDb = sz postingDbi, sz_positionDb = sz positionDBi, sz_docTerms = sz docTermsDbi,
          sz_docFilenameTerms = sz docFilenameTermsDbi, sz_docXattrTerms = sz docXattrTermsDbi,
          sz_idTree = sz idTreeDbi, sz_idFilename = sz idFilenameDbi, sz_docTime = sz docTimeDbi,
          sz_docData = sz docDataDbi, sz_contentIndexingIds = sz contentIndexingDbi,
          sz_failedIds = sz failedIdDbi, sz_mtimeDb = sz mtimeDbi\<rparr>)"

section \<open>Checks\<close>

text \<open>
  The checks print what they find; here they return it. The ids are those of a \<open>QSet\<close>, whose order
  is not defined: they are taken in the order of the lists.
\<close>

definition posting_ids :: "(bytes \<times> PostingList) list \<Rightarrow> u64 list" where
  "posting_ids m = remdups (concat (map snd m))"

definition checkTermsDbinPostingDb :: "'s lmdb \<Rightarrow> 's \<Rightarrow> (u64 \<times> bytes) list" where
  "checkTermsDbinPostingDb L s =
     concat (map (\<lambda>i.
       let terms = DocumentDB_get L docTermsDbi s i @ DocumentDB_get L docXattrTermsDbi s i @
             DocumentDB_get L docFilenameTermsDbi s i
       in map (Pair i) (filter (\<lambda>t. i \<notin> set (PostingDB_get L postingDbi s t)) terms))
     (posting_ids (PostingDB_toTestMap L postingDbi s)))"

definition checkPostingDbinTermsDb :: "'s lmdb \<Rightarrow> 's \<Rightarrow> (u64 \<times> bytes) list" where
  "checkPostingDbinTermsDb L s =
     concat (map (\<lambda>(t, list).
       map (\<lambda>i. (i, t)) (filter (\<lambda>i.
         \<not> (t \<in> set (DocumentDB_get L docTermsDbi s i) \<or> t \<in> set (DocumentDB_get L docFilenameTermsDbi s i) \<or>
            t \<in> set (DocumentDB_get L docXattrTermsDbi s i))) list))
     (PostingDB_toTestMap L postingDbi s))"

datatype fs_report =
  MissingFilePath u64 "bytes list" "bytes list" "bytes list" "bytes list"
| DoesNotExist bytes u64

text \<open>The number of ids, the reports (of which the code prints the number) in their order.\<close>

definition checkFsTree :: "'s lmdb \<Rightarrow> (bytes \<Rightarrow> bool) \<Rightarrow> 's \<Rightarrow> nat \<times> fs_report list" where
  "checkFsTree L fileExists s =
     (let m = PostingDB_toTestMap L postingDbi s;
          allIds = posting_ids m
      in (length allIds,
          concat (map (\<lambda>i.
            let url = DocumentUrlDB_get L s i
            in if url = [] then
                 [MissingFilePath i (map fst (filter (\<lambda>e. i \<in> set (snd e)) m))
                    (DocumentDB_get L docTermsDbi s i) (DocumentDB_get L docFilenameTermsDbi s i)
                    (DocumentDB_get L docXattrTermsDbi s i)]
               else if \<not> fileExists url then [DoesNotExist url i] else []) allIds)))"

end
