(* ===== verification/TermIndex.thy ===== *)
theory TermIndex
  imports TermGenerator "HOL-Library.Sublist"
begin

text \<open>
  The rest of \<open>TermGenerator\<close>: the operations that put the terms of a text into the document, and
  what the positions they give mean: a phrase query on the positions of one text finds exactly the
  runs of consecutive terms of that text. \<open>m_position\<close> is an \<open>int\<close> that the document stores as an
  unsigned 32-bit number.
\<close>

record TermGenerator =
  m_doc :: Document
  m_position :: u32

definition TermGenerator_new :: "Document \<Rightarrow> TermGenerator" where
  "TermGenerator_new doc = \<lparr>m_doc = doc, m_position = 1\<rparr>"

definition indexText_step :: "TermGenerator \<Rightarrow> bytes \<Rightarrow> TermGenerator" where
  "indexText_step g t =
     \<lparr>m_doc = Document_addPositionTerm (m_doc g) t (m_position g), m_position = m_position g + 1\<rparr>"

definition TermGenerator_indexText :: "qt_text \<Rightarrow> TermGenerator \<Rightarrow> QString \<Rightarrow> TermGenerator" where
  "TermGenerator_indexText qt g str = foldl indexText_step g (TermGenerator_termList qt str)"

definition TermGenerator_indexProperty :: "qt_text \<Rightarrow> TermGenerator \<Rightarrow> QString \<Rightarrow> bytes \<Rightarrow> TermGenerator" where
  "TermGenerator_indexProperty qt g str pre =
     foldl (\<lambda>g t. g\<lparr>m_doc := Document_addTerm (m_doc g) (pre @ t)\<rparr>) g (TermGenerator_termList qt str)"

definition TermGenerator_indexFileNameText :: "qt_text \<Rightarrow> TermGenerator \<Rightarrow> QString \<Rightarrow> TermGenerator" where
  "TermGenerator_indexFileNameText qt g str =
     foldl (\<lambda>g t. g\<lparr>m_doc := Document_addFileNameTerm (m_doc g) (lit ''F'' @ t)\<rparr>) g
       (TermGenerator_termList qt str)"

definition TermGenerator_indexMimetype :: "qt_text \<Rightarrow> TermGenerator \<Rightarrow> QString \<Rightarrow> TermGenerator" where
  "TermGenerator_indexMimetype qt g str =
     (let g' = foldl (\<lambda>g t. g\<lparr>m_doc := Document_addTerm (m_doc g) (lit ''M'' @ t)\<rparr>) g
                 (TermGenerator_termList qt str)
      in g'\<lparr>m_doc := Document_setMimetype (m_doc g') str\<rparr>)"

definition TermGenerator_indexXattrText :: "qt_text \<Rightarrow> TermGenerator \<Rightarrow> QString \<Rightarrow> bytes \<Rightarrow> TermGenerator" where
  "TermGenerator_indexXattrText qt g str pre =
     (let terms = TermGenerator_termList qt str
      in if length terms = 1 then
           g\<lparr>m_doc := Document_addXattrTerm (m_doc g) (pre @ (terms ! 0))\<rparr>
         else
           let g' = foldl (\<lambda>g t.
                 \<lparr>m_doc = Document_addXattrPositionTerm (m_doc g) (pre @ t) (m_position g),
                  m_position = m_position g + 1\<rparr>) g terms
           in g'\<lparr>m_position := m_position g' + 1\<rparr>)"

definition TermGenerator_position :: "TermGenerator \<Rightarrow> u32" where
  "TermGenerator_position g = m_position g"

definition TermGenerator_setPosition :: "TermGenerator \<Rightarrow> u32 \<Rightarrow> TermGenerator" where
  "TermGenerator_setPosition g position = g\<lparr>m_position := position\<rparr>"

section \<open>Every term is a short, non-empty piece of the text\<close>

definition term_of_text :: "qt_text \<Rightarrow> bytes \<Rightarrow> bool" where
  "term_of_text qt t \<longleftrightarrow> t \<noteq> [] \<and>
     (\<exists>w. w \<noteq> [] \<and> length w \<le> maxTermSize \<and> t = qt_toUtf8 qt w)"

lemma appendTerm_ok:
  "\<forall>t \<in> set list. term_of_text qt t \<Longrightarrow> \<forall>t \<in> set (appendTerm qt list w). term_of_text qt t"
  by (auto simp: appendTerm_def Let_def term_of_text_def maxTermSize_def
      intro!: exI[where x = "take 25 w"])

lemma termList_loop_ok:
  "\<forall>t \<in> set list. term_of_text qt t \<Longrightarrow>
   \<forall>t \<in> set (termList_loop qt str start nu pos list). term_of_text qt t"
proof (induction qt str start nu pos list rule: termList_loop.induct)
  case (1 qt str start nu pos list)
  let ?b = "qt_nextBoundary qt str pos"
  let ?e = "nat ?b"
  let ?s = "skip_start qt str start ?e"
  show ?case
  proof (cases "int pos < ?b \<and> ?b \<le> int (length str)")
    case False
    then show ?thesis using "1.prems" by (subst termList_loop.simps) (simp only: Let_def if_False if_True not_False_eq_True)
  next
    case True
    then have b: "\<not> \<not> (int pos < ?b \<and> ?b \<le> int (length str))" by simp
    note IH = "1.IH"(1)[OF refl b refl refl] "1.IH"(2)[OF refl b refl refl _ _ refl]
      "1.IH"(3)[OF refl b refl refl] "1.IH"(4)[OF refl b refl refl]
    have ok: "\<forall>t \<in> set (appendTerm qt list w). term_of_text qt t" for w
      using "1.prems" by (rule appendTerm_ok)
    let ?u = "if nu < ?s then ?s else nu"
    let ?stay = "termList_loop qt str ?s nu ?e list"
    let ?cut = "termList_loop qt str ?u (nextUnderscore_from str (Suc ?u)) ?u
      (appendTerm qt list (normalizeTerm qt (take (?u - ?s) (drop ?s str))))"
    let ?take = "termList_loop qt str ?e nu ?e
      (appendTerm qt list (normalizeTerm qt (take (?e - ?s) (drop ?s str))))"
    let ?C = "qt_itemBoundary qt str ?e \<or> ?e = length str \<or> isSkipChar qt (str ! ?e)"
    have step: "termList_loop qt str start nu pos list =
        (if ?e = ?s then ?stay else if nu < ?e then ?cut else if ?C then ?take else ?stay)"
      by (subst termList_loop.simps) (simp only: True Let_def simp_thms if_True if_False)
    show ?thesis
    proof (cases "?e = ?s")
      case e: True
      show ?thesis unfolding step if_P[OF e] by (rule IH(1)[OF e "1.prems"])
    next
      case e: False
      show ?thesis
      proof (cases "nu < ?e")
        case n: True
        show ?thesis unfolding step if_not_P[OF e] if_P[OF n] by (rule IH(2)[OF e n ok])
      next
        case n: False
        show ?thesis
        proof (cases ?C)
          case c: True
          show ?thesis unfolding step if_not_P[OF e] if_not_P[OF n] if_P[OF c] by (rule IH(3)[OF e n c ok])
        next
          case c: False
          show ?thesis unfolding step if_not_P[OF e] if_not_P[OF n] if_not_P[OF c]
            by (rule IH(4)[OF e n c "1.prems"])
        qed
      qed
    qed
  qed
qed

lemma termList_ok: "\<forall>t \<in> set (TermGenerator_termList qt str). term_of_text qt t"
  using termList_loop_ok[of "[]" qt str 0 "nextUnderscore_from str 0" 0]
  by (simp add: TermGenerator_termList_def)

section \<open>The positions of a text\<close>

primrec positions_from :: "u32 \<Rightarrow> bytes list \<Rightarrow> bytes \<Rightarrow> u32 list" where
  "positions_from p [] t = []"
| "positions_from p (x # xs) t = (if x = t then p # positions_from (p + 1) xs t else positions_from (p + 1) xs t)"

definition term_entry :: "term_map \<Rightarrow> bytes \<Rightarrow> u32 list" where
  "term_entry m t = (case map_of m t of None \<Rightarrow> [] | Some ps \<Rightarrow> ps)"

lemma indexText_fold:
  "Document_inv (m_doc g) \<Longrightarrow>
   Document_inv (m_doc (foldl indexText_step g ts)) \<and>
   m_position (foldl indexText_step g ts) = m_position g + of_nat (length ts) \<and>
   term_entry (m_terms (m_doc (foldl indexText_step g ts))) t =
     term_entry (m_terms (m_doc g)) t @ positions_from (m_position g) ts t \<and>
   fst ` set (m_terms (m_doc (foldl indexText_step g ts))) = fst ` set (m_terms (m_doc g)) \<union> set ts"
proof (induction ts arbitrary: g)
  case (Cons x ts)
  have i: "Document_inv (m_doc (indexText_step g x))"
    using Cons.prems by (simp add: indexText_step_def Document_inv_ops)
  have e: "term_entry (m_terms (m_doc (indexText_step g x))) t =
      term_entry (m_terms (m_doc g)) t @ (if x = t then [m_position g] else [])"
    using Cons.prems
    by (auto simp: indexText_step_def Document_addPositionTerm_def term_entry_def
        map_of_qmap_update Document_inv_def split: option.split)
  have k: "fst ` set (m_terms (m_doc (indexText_step g x))) = insert x (fst ` set (m_terms (m_doc g)))"
    by (simp add: indexText_step_def Document_addPositionTerm_def qmap_update_def keys_qmap_insert)
  have p: "m_position (indexText_step g x) = m_position g + 1" by (simp add: indexText_step_def)
  show ?case using Cons.IH[OF i] by (auto simp: e k p)
qed simp

lemma positions_from_iff:
  "q \<in> set (positions_from p ts t) \<longleftrightarrow> (\<exists>i < length ts. ts ! i = t \<and> q = p + of_nat i)"
proof (induction ts arbitrary: p)
  case (Cons x ts)
  show ?case by (auto simp: Cons.IH Ex_less_Suc2 algebra_simps)
qed simp

lemma unat_position:
  "unat p + n \<le> 2 ^ 32 \<Longrightarrow> i < n \<Longrightarrow> unat (p + of_nat i :: u32) = unat p + i"
  by (simp add: unat_word_ariths unat_of_nat)

lemma positions_from_sorted: "unat p + length ts \<le> 2 ^ 32 \<Longrightarrow> sorted (positions_from p ts t)"
proof (induction ts arbitrary: p)
  case (Cons x ts)
  show ?case
  proof (cases "ts = []")
    case False
    then have u: "unat (p + 1) = unat p + 1"
      using unat_position[of p "length (x # ts)" 1] Cons.prems by (cases ts) auto
    then have "p \<le> q" if "q \<in> set (positions_from (p + 1) ts t)" for q
    proof -
      from that[unfolded positions_from_iff] obtain i
        where i: "i < length ts" "q = (p + 1) + of_nat i" by blast
      have "unat q = unat (p + 1) + i"
        unfolding i(2) using Cons.prems u i(1) by (intro unat_position[where n = "length ts"]) auto
      then show ?thesis using u by (simp add: word_le_nat_alt)
    qed
    then show ?thesis using Cons.IH[of "p + 1"] Cons.prems u by auto
  qed simp
qed simp

lemma sublist_nth:
  "sublist ys ts \<longleftrightarrow> (\<exists>k. k + length ys \<le> length ts \<and> (\<forall>j < length ys. ts ! (k + j) = ys ! j))"
proof
  assume "sublist ys ts"
  then obtain xs zs where "ts = xs @ ys @ zs" by (auto simp: sublist_def)
  then show "\<exists>k. k + length ys \<le> length ts \<and> (\<forall>j < length ys. ts ! (k + j) = ys ! j)"
    by (intro exI[of _ "length xs"]) (auto simp: nth_append)
next
  assume "\<exists>k. k + length ys \<le> length ts \<and> (\<forall>j < length ys. ts ! (k + j) = ys ! j)"
  then obtain k where k: "k + length ys \<le> length ts" "\<forall>j < length ys. ts ! (k + j) = ys ! j" by blast
  have "ys = take (length ys) (drop k ts)" using k by (intro nth_equalityI) auto
  then have "ts = take k ts @ ys @ drop (k + length ys) ts"
    by (metis append_take_drop_id drop_drop add.commute)
  then show "sublist ys ts" unfolding sublist_def by blast
qed

text \<open>The phrase \<open>ys\<close> matches at the positions of the text exactly where it is a run of its terms.\<close>

lemma phrase_of_text:
  assumes "unat p + length ts \<le> 2 ^ 32" "ys \<noteq> []"
  shows "checkIfPositionsMatch (map (positions_from p ts) ys) \<longleftrightarrow> sublist ys ts"
proof -
  have s: "\<forall>ps \<in> set (map (positions_from p ts) ys). sorted ps"
    using positions_from_sorted[OF assms(1)] by simp
  have at: "(\<exists>q \<in> set (positions_from p ts t). unat q = m) \<longleftrightarrow>
      (\<exists>i < length ts. ts ! i = t \<and> m = unat p + i)" for t m
    using unat_position[OF assms(1)] by (fastforce simp: positions_from_iff)
  have al: "aligned 0 (map (positions_from p ts) ys) m \<longleftrightarrow>
      (\<forall>j < length ys. \<exists>i < length ts. ts ! i = ys ! j \<and> m + j = unat p + i)" for m
    by (simp add: aligned_def at)
  have "phrase_match (map (positions_from p ts) ys) \<longleftrightarrow> sublist ys ts"
    unfolding phrase_match_def al sublist_nth
  proof
    assume "\<exists>m. \<forall>j < length ys. \<exists>i < length ts. ts ! i = ys ! j \<and> m + j = unat p + i"
    then obtain m where m: "\<forall>j < length ys. \<exists>i < length ts. ts ! i = ys ! j \<and> m + j = unat p + i" by blast
    have le: "unat p \<le> m" using m[rule_format, of 0] assms(2) by auto
    have at': "m - unat p + j < length ts \<and> ts ! (m - unat p + j) = ys ! j" if "j < length ys" for j
    proof -
      obtain i where i: "i < length ts" "ts ! i = ys ! j" "m + j = unat p + i" using m \<open>j < length ys\<close> by blast
      have "m - unat p + j = i" using i(3) le by linarith
      then show ?thesis using i by simp
    qed
    have "m - unat p + length ys \<le> length ts" using at'[of "length ys - 1"] assms(2) by (cases ys) auto
    then show "\<exists>k. k + length ys \<le> length ts \<and> (\<forall>j < length ys. ts ! (k + j) = ys ! j)" using at' by blast
  next
    assume "\<exists>k. k + length ys \<le> length ts \<and> (\<forall>j < length ys. ts ! (k + j) = ys ! j)"
    then obtain k where k: "k + length ys \<le> length ts" "\<forall>j < length ys. ts ! (k + j) = ys ! j" by blast
    have "\<exists>i < length ts. ts ! i = ys ! j \<and> unat p + k + j = unat p + i" if "j < length ys" for j
      using k \<open>j < length ys\<close> by (intro exI[of _ "k + j"]) auto
    then show "\<exists>m. \<forall>j < length ys. \<exists>i < length ts. ts ! i = ys ! j \<and> m + j = unat p + i" by blast
  qed
  then show ?thesis using checkIfPositionsMatch_decides[OF s] assms(2) by simp
qed

end
