(* ===== verification/Queries.thy ===== *)
theory Queries
  imports Transaction TermIndex
begin

text \<open>
  The query classes (\<open>enginequery.h\<close>, \<open>filenamequery.h\<close>, \<open>mimetypequery.h\<close>,
  \<open>propertyphrasequery.h\<close>) and the overloads of \<open>Transaction::postingIterator\<close> that answer them. A
  null pointer is \<open>Some None\<close>; the outer \<open>None\<close> would be a call that does not return.
  \<open>jsonString\<close> is \<open>QJsonDocument::fromJson(data)[key].toString()\<close>.
\<close>

datatype EngineQuery_Operation = Equal | StartsWith

record PhraseTerm =
  m_term :: bytes
  m_op :: EngineQuery_Operation

type_synonym EngineQuery = "PhraseTerm list"

text \<open>The three classes with a text: the terms of the text, and whether the last may be a prefix.\<close>

record TextQuery =
  q_value :: QString
  q_property :: bytes
  q_terms :: "bytes list"
  q_expandLast :: bool

definition expandLast_of :: "bytes list \<Rightarrow> bool \<Rightarrow> bool" where
  "expandLast_of terms expandLast =
     (if terms = [] \<or> length (last terms) \<le> 2 then False else expandLast)"

definition FilenameQuery_new :: "qt_text \<Rightarrow> QString \<Rightarrow> bool \<Rightarrow> TextQuery" where
  "FilenameQuery_new qt filename expandLast =
     (let terms = TermGenerator_termList qt filename
      in \<lparr>q_value = filename, q_property = [], q_terms = terms, q_expandLast = expandLast_of terms expandLast\<rparr>)"

definition MimetypeQuery_new :: "qt_text \<Rightarrow> QString \<Rightarrow> bool \<Rightarrow> TextQuery" where
  "MimetypeQuery_new qt mimetype expandLast =
     (let terms = TermGenerator_termList qt mimetype
      in \<lparr>q_value = mimetype, q_property = [], q_terms = terms, q_expandLast = expandLast_of terms expandLast\<rparr>)"

definition PropertyPhraseQuery_new :: "qt_text \<Rightarrow> QString \<Rightarrow> bytes \<Rightarrow> bool \<Rightarrow> TextQuery" where
  "PropertyPhraseQuery_new qt propertyValue propertyInfix expandLast =
     (let terms = TermGenerator_termList qt propertyValue
      in \<lparr>q_value = propertyValue, q_property = propertyInfix, q_terms = terms,
          q_expandLast = expandLast_of terms expandLast\<rparr>)"

text \<open>\<open>!std::ranges::search(terms, pattern).empty()\<close>: the range found is empty for an empty pattern.\<close>

fun search_found :: "'a list \<Rightarrow> 'a list \<Rightarrow> bool" where
  "search_found [] pat = False"
| "search_found (x # xs) pat = (pat \<noteq> [] \<and> take (length pat) (x # xs) = pat \<or> search_found xs pat)"

definition FilenameQuery_match :: "qt_text \<Rightarrow> TextQuery \<Rightarrow> bytes \<Rightarrow> bool" where
  "FilenameQuery_match qt q utf8Name =
     search_found (TermGenerator_termList qt (qt_fromUtf8 qt utf8Name)) (q_terms q)"

definition MimetypeQuery_match :: "qt_text \<Rightarrow> TextQuery \<Rightarrow> QString \<Rightarrow> bool" where
  "MimetypeQuery_match qt q nm = search_found (TermGenerator_termList qt nm) (q_terms q)"

definition PropertyPhraseQuery_match :: "qt_text \<Rightarrow> TextQuery \<Rightarrow> QString \<Rightarrow> bool" where
  "PropertyPhraseQuery_match qt q nm = search_found (TermGenerator_termList qt nm) (q_terms q)"

section \<open>The overloads of postingIterator\<close>

definition Transaction_postingIterator_EngineQuery ::
  "'s lmdb \<Rightarrow> 's \<Rightarrow> EngineQuery \<Rightarrow> posting_iter option option" where
  "Transaction_postingIterator_EngineQuery L s subQueries =
     (if length subQueries = 1 then
        if m_op (subQueries ! 0) = Equal
        then Some (PostingDB_iter L postingDbi s (m_term (subQueries ! 0)))
        else PostingDB_prefixIter L postingDbi s (m_term (subQueries ! 0))
      else
        let vec = map (\<lambda>sq. PositionDB_iter L positionDBi s (m_term sq)) subQueries
        in if list_ex Option.is_none vec then Some None
           else Some (Some (ItPhrase (PhraseAndIterator_new vec))))"

text \<open>The loop that intersects the lists of the other terms; \<open>None\<close> where it returns early.\<close>

fun intersect_terms :: "(bytes \<Rightarrow> PostingList) \<Rightarrow> PostingList \<Rightarrow> bytes list \<Rightarrow> PostingList option" where
  "intersect_terms get out [] = Some out"
| "intersect_terms get out (t # terms) =
     (let out' = set_intersection out (get t)
      in if out' = [] then None else intersect_terms get out' terms)"

text \<open>
  The part the three overloads share: no term, one term, or the intersection \<open>out\<close> of the lists of
  all terms, handed to \<open>rest\<close>.
\<close>

definition text_query_iter ::
  "'s lmdb \<Rightarrow> 's \<Rightarrow> bytes \<Rightarrow> TextQuery \<Rightarrow> (PostingList \<Rightarrow> posting_iter option option) \<Rightarrow> posting_iter option option" where
  "text_query_iter L s pre q rest =
     (case q_terms q of
        [] \<Rightarrow> Some None
      | [t] \<Rightarrow>
          if q_expandLast q then PostingDB_prefixIter L postingDbi s (pre @ t)
          else Some (PostingDB_iter L postingDbi s (pre @ t))
      | t # terms \<Rightarrow>
          (let out = PostingDB_get L postingDbi s (pre @ t)
           in if out = [] then Some None
              else case intersect_terms (\<lambda>t. PostingDB_get L postingDbi s (pre @ t)) out terms of
                     None \<Rightarrow> Some None
                   | Some out' \<Rightarrow> rest out'))"

definition Transaction_postingIterator_FilenameQuery ::
  "qt_text \<Rightarrow> 's lmdb \<Rightarrow> 's \<Rightarrow> TextQuery \<Rightarrow> posting_iter option option" where
  "Transaction_postingIterator_FilenameQuery qt L s q =
     text_query_iter L s (lit ''F'') q (\<lambda>out.
       Some (Some (ItVector (VectorPostingIterator_new
         (filter (\<lambda>i. FilenameQuery_match qt q (name (IdFilenameDB_get_path L idFilenameDbi s i))) out)))))"

definition Transaction_postingIterator_PropertyPhraseQuery ::
  "qt_text \<Rightarrow> (bytes \<Rightarrow> QString \<Rightarrow> QString) \<Rightarrow> 's lmdb \<Rightarrow> 's \<Rightarrow> TextQuery \<Rightarrow> posting_iter option option" where
  "Transaction_postingIterator_PropertyPhraseQuery qt jsonString L s q =
     text_query_iter L s (lit ''X'' @ q_property q @ lit ''-'') q (\<lambda>out.
       let dataKey = qt_fromUtf8 qt (q_property q)
       in Some (Some (ItVector (VectorPostingIterator_new (filter (\<lambda>i.
            let data = DocumentDataDB_get L docDataDbi s i;
                type = (if data = [] then [] else jsonString data dataKey)
            in type \<noteq> [] \<and> PropertyPhraseQuery_match qt q type) out)))))"

text \<open>For a mime type, the documents without the type in their data are \<open>deferred\<close> to a phrase search.\<close>

definition mimetype_of_data :: "(bytes \<Rightarrow> QString \<Rightarrow> QString) \<Rightarrow> 's lmdb \<Rightarrow> 's \<Rightarrow> u64 \<Rightarrow> QString" where
  "mimetype_of_data jsonString L s i =
     (let data = DocumentDataDB_get L docDataDbi s i
      in if data = [] then [] else jsonString data (qs ''M''))"

definition deferred_ids :: "'s lmdb \<Rightarrow> 's \<Rightarrow> TextQuery \<Rightarrow> u64 list \<Rightarrow> u64 list option" where
  "deferred_ids L s q deferred =
     (let vec = map (\<lambda>t. Some (VectorPositionInfoIterator_new
                (filter (\<lambda>info. docId info \<in> set deferred) (PositionDB_get L positionDBi s (lit ''M'' @ t)))))
              (q_terms q)
      in drain 1 (ItPhrase (PhraseAndIterator_new vec)))"

definition Transaction_postingIterator_MimetypeQuery ::
  "qt_text \<Rightarrow> (bytes \<Rightarrow> QString \<Rightarrow> QString) \<Rightarrow> 's lmdb \<Rightarrow> 's \<Rightarrow> TextQuery \<Rightarrow> posting_iter option option" where
  "Transaction_postingIterator_MimetypeQuery qt jsonString L s q =
     text_query_iter L s (lit ''M'') q (\<lambda>out.
       let type = mimetype_of_data jsonString L s;
           kept = filter (\<lambda>i. type i \<noteq> [] \<and> MimetypeQuery_match qt q (type i)) out;
           deferred = filter (\<lambda>i. type i = []) out
       in if deferred = [] then Some (Some (ItVector (VectorPostingIterator_new kept)))
          else Option.bind (deferred_ids L s q deferred) (\<lambda>ids.
                 Some (Some (ItVector (VectorPostingIterator_new (sort (kept @ ids)))))))"

text \<open>The remaining overloads and iterators pass the call on.\<close>

definition Transaction_postingIterator_key :: "'s lmdb \<Rightarrow> 's \<Rightarrow> bytes \<Rightarrow> posting_iter option" where
  "Transaction_postingIterator_key L s key = PostingDB_iter L postingDbi s key"

definition Transaction_postingPrefixIterator :: "'s lmdb \<Rightarrow> 's \<Rightarrow> bytes \<Rightarrow> posting_iter option option" where
  "Transaction_postingPrefixIterator L s pre = PostingDB_prefixIter L postingDbi s pre"

definition Transaction_postingCompIterator ::
  "(bytes \<Rightarrow> 'v option) \<Rightarrow> ('v \<Rightarrow> 'v \<Rightarrow> bool) \<Rightarrow> 's lmdb \<Rightarrow> 's \<Rightarrow> bytes \<Rightarrow> 'v \<Rightarrow> Comparator \<Rightarrow>
   posting_iter option option" where
  "Transaction_postingCompIterator parse le L s pre val com =
     PostingDB_compIter parse le L postingDbi s pre val com"

definition Transaction_postingCompIterator_bytes ::
  "'s lmdb \<Rightarrow> 's \<Rightarrow> bytes \<Rightarrow> bytes \<Rightarrow> Comparator \<Rightarrow> posting_iter option option" where
  "Transaction_postingCompIterator_bytes L s pre val com =
     PostingDB_compIter_bytes L postingDbi s pre val com"

definition Transaction_mTimeRangeIter :: "'s lmdb \<Rightarrow> 's \<Rightarrow> u32 \<Rightarrow> u32 \<Rightarrow> posting_iter option" where
  "Transaction_mTimeRangeIter L s beginTime endTime = MTimeDB_iterRange L mtimeDbi s beginTime endTime"

definition Transaction_docUrlIter :: "'s lmdb \<Rightarrow> 's \<Rightarrow> u64 \<Rightarrow> posting_iter option" where
  "Transaction_docUrlIter L s i = Some (ItTree (IdTreeDB_iter L idTreeDbi s i))"

section \<open>What they give\<close>

text \<open>The ids an optional iterator gives; a null pointer gives none.\<close>

definition ids_of :: "nat \<Rightarrow> posting_iter option \<Rightarrow> u64 set" where
  "ids_of n it = (case it of None \<Rightarrow> {} | Some i \<Rightarrow> set (the (drain n i)))"

text \<open>An optional iterator, nested at most \<open>n\<close> deep, that gives exactly the ids in \<open>S\<close>.\<close>

definition gives :: "nat \<Rightarrow> posting_iter option \<Rightarrow> u64 set \<Rightarrow> bool" where
  "gives n r S \<longleftrightarrow> (case r of None \<Rightarrow> S = {} | Some it \<Rightarrow> fresh n it \<and> set (iter_rest n it) = S)"

lemma gives_simps [simp]:
  "gives n None S \<longleftrightarrow> S = {}"
  "gives n (Some it) S \<longleftrightarrow> fresh n it \<and> set (iter_rest n it) = S"
  by (simp_all add: gives_def)

lemma gives_ids: "gives n r S \<Longrightarrow> ids_of n r = S"
  by (cases r) (simp_all add: ids_of_def fresh_def drain_rest)

lemma gives_mono: "gives n r S \<Longrightarrow> n \<le> m \<Longrightarrow> gives m r S"
  by (cases r) (auto simp: fresh_def dest: iter_bound)

lemma gives_vector:
  "asc xs \<Longrightarrow> 0 \<notin> set xs \<Longrightarrow> gives (Suc n) (Some (ItVector (VectorPostingIterator_new xs))) (set xs)"
  using fresh_vector[of xs n] by (simp del: iter_rest.simps)

lemma search_found_sublist: "search_found xs pat \<longleftrightarrow> pat \<noteq> [] \<and> sublist pat xs"
proof (induction xs)
  case (Cons x xs)
  have "take (length pat) (x # xs) = pat \<longleftrightarrow> prefix pat (x # xs)"
    by (metis append_eq_conv_conj prefix_def take_is_prefix)
  then show ?case using Cons.IH by (auto simp: sublist_Cons_right)
qed auto

lemma intersect_terms_set:
  assumes "asc out" "out \<noteq> []" "\<And>t. asc (get t)"
  shows "case intersect_terms get out terms of
      None \<Rightarrow> set out \<inter> (\<Inter>t \<in> set terms. set (get t)) = {}
    | Some out' \<Rightarrow> asc out' \<and> out' \<noteq> [] \<and> set out' = set out \<inter> (\<Inter>t \<in> set terms. set (get t))"
  using assms(1,2)
proof (induction terms arbitrary: out)
  case (Cons t terms)
  let ?o = "set_intersection out (get t)"
  have o: "set ?o = set out \<inter> set (get t)" "asc ?o"
    using set_set_intersection[OF Cons.prems(1) assms(3)] asc_set_intersection[OF Cons.prems(1) assms(3)] by auto
  show ?case
  proof (cases "?o = []")
    case True
    then have "set out \<inter> set (get t) = {}" using o by simp
    then show ?thesis using True by auto
  next
    case False
    then show ?thesis using Cons.IH[OF o(2) False] o(1) by (auto split: option.splits)
  qed
qed simp

lemma text_query_iter_multi:
  assumes "postings_proper L s" "2 \<le> length (q_terms q)"
  shows "\<exists>out. asc out \<and> 0 \<notin> set out \<and>
    set out = (\<Inter>t \<in> set (q_terms q). set (PostingDB_get L postingDbi s (pre @ t))) \<and>
    text_query_iter L s pre q rest = (if out = [] then Some None else rest out)"
proof -
  let ?get = "\<lambda>t. PostingDB_get L postingDbi s (pre @ t)"
  obtain t t2 ts where terms: "q_terms q = t # t2 # ts"
    using assms(2) by (cases "q_terms q"; cases "tl (q_terms q)") auto
  have proper: "asc (?get t)" "0 \<notin> set (?get t)" for t using assms(1) by (auto simp: postings_proper_def)
  show ?thesis
  proof (cases "?get t = []")
    case True
    then show ?thesis by (intro exI[of _ "[]"]) (simp add: text_query_iter_def terms)
  next
    case False
    note inter = intersect_terms_set[where get = ?get and terms = "t2 # ts", OF proper(1) False proper(1)]
    show ?thesis
    proof (cases "intersect_terms ?get (?get t) (t2 # ts)")
      case None
      then have "set (?get t) \<inter> (\<Inter>t \<in> set (t2 # ts). set (?get t)) = {}" using inter by (simp del: intersect_terms.simps)
      then show ?thesis
        using False None by (intro exI[of _ "[]"]) (auto simp: text_query_iter_def terms Let_def)
    next
      case (Some out)
      then show ?thesis
        using False inter proper(2)[of t] by (intro exI[of _ out]) (auto simp: text_query_iter_def terms Let_def)
    qed
  qed
qed

end
