(* ===== verification/SearchStore.thy ===== *)
theory SearchStore
  imports QueryParser Queries
begin

text \<open>
  \<open>searchstore.cpp\<close>: from a search to an iterator over the matching documents. What the code takes
  from Qt and KFileMetaData is the record \<open>A\<close>: lower case, parsing of dates and numbers, calendar
  dates, the properties and types of files. \<open>'d\<close> stands for \<open>double\<close>, \<open>'t\<close> for \<open>QDate\<close>. The store \<open>s\<close> is
  that of the transaction. Null pointers are as in the theory \<open>Queries\<close>.
\<close>

datatype ValueType = VT_UnknownType | VT_QString | VT_Int | VT_Double | VT_QDateTime | VT_Other

record PropertyInfo =
  pi_isEmpty :: bool
  pi_property :: nat
  pi_valueType :: ValueType
  pi_shouldBeIndexed :: bool

text \<open>A valid \<open>QDateTime\<close>: its seconds since the epoch, those of the first and last moment of its day, its ISO text.\<close>

record DateTime =
  dt_toSecsSinceEpoch :: int
  dt_startOfDay :: int
  dt_endOfDay :: int
  dt_toString :: QString

record ('d, 't) search_api =
  sa_toLower :: "QString \<Rightarrow> QString"
  sa_dateTime :: "QString \<Rightarrow> DateTime option"
  sa_date :: "int \<Rightarrow> int \<Rightarrow> int \<Rightarrow> 't"
  sa_year :: "'t \<Rightarrow> int"
  sa_month :: "'t \<Rightarrow> int"
  sa_daysInMonth :: "'t \<Rightarrow> int"
  sa_date_startOfDay :: "'t \<Rightarrow> int"
  sa_date_endOfDay :: "'t \<Rightarrow> int"
  sa_propertyInfo :: "QString \<Rightarrow> PropertyInfo"
  sa_allNames :: "QString list"
  sa_type :: "QString \<Rightarrow> nat option"
  sa_number :: "nat \<Rightarrow> bytes"
  sa_toLongLong :: "QString \<Rightarrow> 64 word option"
  sa_toLongLong_bytes :: "bytes \<Rightarrow> 64 word option"
  sa_toDouble :: "QString \<Rightarrow> 'd option"
  sa_toDouble_bytes :: "bytes \<Rightarrow> 'd option"
  sa_double_le :: "'d \<Rightarrow> 'd \<Rightarrow> bool"
  sa_jsonString :: "bytes \<Rightarrow> QString \<Rightarrow> QString"

section \<open>Times\<close>

definition clamp :: "int \<Rightarrow> int \<Rightarrow> int \<Rightarrow> int" where
  "clamp v lo hi = (if v < lo then lo else if hi < v then hi else v)"

definition maxUInt32 :: int where
  "maxUInt32 = 4294967295"

definition calculateTimeRange :: "('d, 't) search_api \<Rightarrow> QString \<Rightarrow> Term_Comparator \<Rightarrow> u32 \<times> u32" where
  "calculateTimeRange A val com =
     (case sa_dateTime A val of
        None \<Rightarrow> (1, 0)
      | Some dt \<Rightarrow>
          if com = Cmp_Equal \<or> com = Cmp_Contains then
            (word_of_int (clamp (dt_startOfDay dt) 0 maxUInt32), word_of_int (clamp (dt_endOfDay dt) 0 maxUInt32))
          else
            let timet = word_of_int (clamp (dt_toSecsSinceEpoch dt) 0 maxUInt32)
            in if com = Cmp_LessEqual then (0, timet)
               else if com = Cmp_Less then (0, if timet > 0 then timet - 1 else 0)
               else if com = Cmp_GreaterEqual then (timet, - 1)
               else if com = Cmp_Greater then (timet + 1, - 1)
               else (1, 0))"

section \<open>Properties\<close>

definition internalProperties :: "(bytes \<times> bytes \<times> ValueType) list" where
  "internalProperties =
     [(lit ''content'', [], VT_QString), (lit ''rating'', lit ''R'', VT_Int),
      (lit ''tags'', lit ''TA'', VT_QString), (lit ''usercomment'', lit ''C'', VT_QString)]"

definition propertyInfo :: "qt_text \<Rightarrow> ('d, 't) search_api \<Rightarrow> bytes \<Rightarrow> bool \<times> bytes \<times> ValueType" where
  "propertyInfo qt A property =
     (case map_of internalProperties property of
        Some (pre, vt) \<Rightarrow> (False, pre, vt)
      | None \<Rightarrow>
          let pi = sa_propertyInfo A (qt_fromUtf8 qt property)
          in if pi_isEmpty pi then (False, [], VT_UnknownType)
             else (True, sa_number A (pi_property pi), pi_valueType pi))"

definition defaultIndexedProperties :: "('d, 't) search_api \<Rightarrow> bytes list" where
  "defaultIndexedProperties A =
     map (\<lambda>nm. sa_number A (pi_property (sa_propertyInfo A nm)))
       (filter (\<lambda>nm. pi_shouldBeIndexed (sa_propertyInfo A nm) \<and>
          pi_valueType (sa_propertyInfo A nm) = VT_QString) (sa_allNames A))"

section \<open>Leaves\<close>

definition constructEqualsQuery ::
  "qt_text \<Rightarrow> 's lmdb \<Rightarrow> 's \<Rightarrow> bytes \<Rightarrow> QString \<Rightarrow> bool \<Rightarrow> posting_iter option option" where
  "constructEqualsQuery qt L s pre val expandLast =
     (let terms = TermGenerator_termList qt val
      in if terms = [] then Some None
         else if length terms = 1 then
           (let arr = pre @ (terms ! 0)
            in if expandLast \<and> length (terms ! 0) \<ge> 3 then Transaction_postingPrefixIterator L s arr
               else Some (Transaction_postingIterator_key L s arr))
         else Transaction_postingIterator_EngineQuery L s
           (map (\<lambda>t. \<lparr>m_term = pre @ t, m_op = Equal\<rparr>) terms))"

definition constructContainsQuery ::
  "qt_text \<Rightarrow> 's lmdb \<Rightarrow> 's \<Rightarrow> bytes \<Rightarrow> QString \<Rightarrow> posting_iter option option" where
  "constructContainsQuery qt L s pre val = constructEqualsQuery qt L s pre val True"

definition constructFolderQuery :: "qt_text \<Rightarrow> 's lmdb \<Rightarrow> 's \<Rightarrow> QString \<Rightarrow> posting_iter option" where
  "constructFolderQuery qt L s val =
     (let folder = qt_toUtf8 qt val
      in if folder = [] then None
         else if \<not> startsWith folder [slash] then None
         else
           let i = Transaction_documentId L s folder
           in if i = 0 then None else Transaction_docUrlIter L s i)"

definition constructTypeQuery :: "('d, 't) search_api \<Rightarrow> 's lmdb \<Rightarrow> 's \<Rightarrow> QString \<Rightarrow> posting_iter option" where
  "constructTypeQuery A L s val =
     (case sa_type A val of
        None \<Rightarrow> None
      | Some num \<Rightarrow> Transaction_postingIterator_key L s (lit ''T'' @ sa_number A num))"

definition compString :: "Term_Comparator \<Rightarrow> QString" where
  "compString c =
     (if c = Cmp_Equal then qs ''='' else if c = Cmp_LessEqual then qs ''<=''
      else if c = Cmp_GreaterEqual then qs ''>='' else if c = Cmp_Less then qs ''<''
      else if c = Cmp_Greater then qs ''>'' else qs '':'')"

definition reconstructFromTerm :: "Term \<Rightarrow> QString" where
  "reconstructFromTerm t = Term_property t @ compString (Term_comparator t) @ Term_value t"

section \<open>Scopes\<close>

definition knownScopes :: "QString list" where
  "knownScopes = [qs ''filename'', qs ''content'', qs ''metadata'']"

definition cleanedScopes :: "('d, 't) search_api \<Rightarrow> QString list \<Rightarrow> QString list" where
  "cleanedScopes A scopes =
     (let cleaned = filter (\<lambda>sc. sc \<in> set knownScopes) (map (sa_toLower A) scopes)
      in if cleaned = [] then knownScopes else cleaned)"

function expandScopes :: "QString list \<Rightarrow> Term \<Rightarrow> Term" where
  "expandScopes scopes t =
     (if Term_subTerms t \<noteq> [] then
        Term_of_list (Term_operation t) (map (expandScopes scopes) (Term_subTerms t))
      else if Term_property t = [] then
        foldl (\<lambda>expanded scope.
          Term_combine expanded Op_Or (Term_leaf scope (Term_valueOrNull t) (Term_comparator t))) Term_default scopes
      else t)"
  by pat_completeness auto
termination by (relation "measure (\<lambda>(scopes, t). size t)") (auto dest: size_subTerm)

declare expandScopes.simps [simp del]

section \<open>Terms\<close>

text \<open>
  The property names are compared as UTF-8. A term without subterms is answered by an iterator or
  by the answer to another term, \<open>Inl\<close>: \<open>return constructQuery(tr, ...)\<close>.
\<close>

definition compare_pcom :: "Term_Comparator \<Rightarrow> Comparator" where
  "compare_pcom com = (if com = Cmp_Greater \<or> com = Cmp_GreaterEqual then GreaterEqual else LessEqual)"

text \<open>The last part, for comparisons by size: the increment and decrement keep the number in 64 bits.\<close>

definition compare_query ::
  "qt_text \<Rightarrow> ('d, 't) search_api \<Rightarrow> 's lmdb \<Rightarrow> 's \<Rightarrow> bytes \<Rightarrow> ValueType \<Rightarrow> QString \<Rightarrow> Term_Comparator \<Rightarrow>
   posting_iter option option" where
  "compare_query qt A L s pre valueType val com =
     (if valueType = VT_Int then
        (case sa_toLongLong A val of
           None \<Rightarrow> Some None
         | Some v \<Rightarrow>
             let intVal = (if com = Cmp_Greater \<and> v <s 0x7FFFFFFFFFFFFFFF then v + 1
                           else if com = Cmp_Less \<and> 0x8000000000000000 <s v then v - 1 else v)
             in Transaction_postingCompIterator (sa_toLongLong_bytes A) (\<le>s) L s pre intVal (compare_pcom com))
      else if valueType = VT_Double then
        (case sa_toDouble A val of
           None \<Rightarrow> Some None
         | Some v \<Rightarrow>
             Transaction_postingCompIterator (sa_toDouble_bytes A) (sa_double_le A) L s pre v (compare_pcom com))
      else if valueType = VT_QDateTime then
        (case sa_dateTime A val of
           None \<Rightarrow> Some None
         | Some dt \<Rightarrow>
             Transaction_postingCompIterator_bytes L s pre (qt_toUtf8 qt (dt_toString dt)) (compare_pcom com))
      else Some None)"

fun sequence :: "'a option list \<Rightarrow> 'a list option" where
  "sequence [] = Some []"
| "sequence (r # rs) = Option.bind r (\<lambda>a. map_option ((#) a) (sequence rs))"

definition metadata_query ::
  "qt_text \<Rightarrow> ('d, 't) search_api \<Rightarrow> 's lmdb \<Rightarrow> 's \<Rightarrow> QString \<Rightarrow> bool \<Rightarrow> posting_iter option option" where
  "metadata_query qt A L s val expandLast =
     Option.bind
       (sequence (map (\<lambda>infix'. Transaction_postingIterator_PropertyPhraseQuery qt (sa_jsonString A) L s
          (PropertyPhraseQuery_new qt val infix' expandLast)) (defaultIndexedProperties A)))
       (\<lambda>vec. map_option (\<lambda>a. Some (ItOr a)) (OrPostingIterator_new (iter_next 2) vec))"

text \<open>The part behind the special names: the properties of documents.\<close>

definition property_query ::
  "qt_text \<Rightarrow> ('d, 't) search_api \<Rightarrow> 's lmdb \<Rightarrow> 's \<Rightarrow> bytes \<Rightarrow> Term \<Rightarrow> Term + posting_iter option option" where
  "property_query qt A L s property t =
     (let val = Term_value t;
          (isProperty, pre, valueType) =
            (if property \<noteq> [] then propertyInfo qt A property else (False, [], VT_QString))
      in if property \<noteq> [] \<and> valueType = VT_UnknownType then
           Inl (expandScopes (cleanedScopes A []) (Term_leaf [] (Some (reconstructFromTerm t)) Cmp_Equal))
         else if isProperty \<and> valueType = VT_QString then
           Inr (Transaction_postingIterator_PropertyPhraseQuery qt (sa_jsonString A) L s
             (PropertyPhraseQuery_new qt val pre (Term_comparator t = Cmp_Contains)))
         else
           let pre' = (if isProperty then lit ''X'' @ pre @ lit ''-'' else pre);
               com = (if Term_comparator t = Cmp_Contains \<and> valueType = VT_Int then Cmp_Equal
                      else Term_comparator t)
           in if com = Cmp_Contains then Inr (constructContainsQuery qt L s pre' val)
              else if com = Cmp_Equal then Inr (constructEqualsQuery qt L s pre' val False)
              else Inr (compare_query qt A L s pre' valueType val com))"

definition construct_leaf ::
  "qt_text \<Rightarrow> ('d, 't) search_api \<Rightarrow> 's lmdb \<Rightarrow> 's \<Rightarrow> Term \<Rightarrow> Term + posting_iter option option" where
  "construct_leaf qt A L s t =
     (if Term_valueOrNull t = None then Inr (Some None)
      else
        let val = Term_value t;
            com = Term_comparator t;
            property = qt_toUtf8 qt (sa_toLower A (Term_property t))
        in if property = lit ''type'' \<or> property = lit ''kind'' then Inr (Some (constructTypeQuery A L s val))
           else if property = lit ''includefolder'' then Inr (Some (constructFolderQuery qt L s val))
           else if property = lit ''modified'' \<or> property = lit ''mtime'' then
             (case calculateTimeRange A val com of (b, e) \<Rightarrow>
                Inr (Some (if b > e then None else Transaction_mTimeRangeIter L s b e)))
           else if property = lit ''tag'' then
             if com = Cmp_Equal then
               Inr (Some (Transaction_postingIterator_key L s (lit ''TAG-'' @ qt_toUtf8 qt val)))
             else Inl (Term_leaf (qs ''tags'') (Term_valueOrNull t) com)
           else if property = lit ''filename'' then
             Inr (Transaction_postingIterator_FilenameQuery qt L s
               (FilenameQuery_new qt val (com = Cmp_Contains)))
           else if property = lit ''mimetype'' then
             Inr (Transaction_postingIterator_MimetypeQuery qt (sa_jsonString A) L s
               (MimetypeQuery_new qt val (com = Cmp_Contains)))
           else if property = lit ''metadata'' then
             Inr (metadata_query qt A L s val (com = Cmp_Contains))
           else property_query qt A L s property t)"

text \<open>
  The loop over the subterms: \<open>Some None\<close> is the \<open>return nullptr\<close> of an \<open>AND\<close>. \<open>rec\<close> is the recursive
  call.
\<close>

fun construct_vec ::
  "(Term \<Rightarrow> posting_iter option option) \<Rightarrow> Term_Operation \<Rightarrow> Term list \<Rightarrow> posting_iter list option option" where
  "construct_vec rec op [] = Some (Some [])"
| "construct_vec rec op (t # ts) =
     Option.bind (rec t) (\<lambda>iterator.
       case iterator of
         None \<Rightarrow> if op = Op_And then Some None else construct_vec rec op ts
       | Some it \<Rightarrow> map_option (map_option ((#) it)) (construct_vec rec op ts))"

text \<open>\<open>n\<close> bounds the depth of the recursion; the iterators made at depth \<open>n\<close> are nested at most \<open>n + 3\<close> deep.\<close>

primrec constructQuery ::
  "nat \<Rightarrow> qt_text \<Rightarrow> ('d, 't) search_api \<Rightarrow> 's lmdb \<Rightarrow> 's \<Rightarrow> Term \<Rightarrow> posting_iter option option" where
  "constructQuery 0 qt A L s t = None"
| "constructQuery (Suc n) qt A L s t =
     (if Term_operation t = Op_And \<or> Term_operation t = Op_Or then
        Option.bind (construct_vec (constructQuery n qt A L s) (Term_operation t) (Term_subTerms t)) (\<lambda>r.
          case r of
            None \<Rightarrow> Some None
          | Some vec \<Rightarrow>
              if vec = [] then Some None
              else if length vec = 1 then Some (Some (hd vec))
              else if Term_operation t = Op_And then
                Some (Some (ItAnd (AndPostingIterator_new (map Some vec))))
              else
                map_option (\<lambda>a. Some (ItOr a)) (OrPostingIterator_new (iter_next (n + 3)) (map Some vec)))
      else
        case construct_leaf qt A L s t of
          Inl t' \<Rightarrow> constructQuery n qt A L s t'
        | Inr r \<Rightarrow> r)"

end
