(* ===== verification/SearchExec.thy ===== *)
theory SearchExec
  imports SearchStore
begin

text \<open>
  \<open>query.cpp\<close> without its serialisation, \<open>SearchStore::exec\<close> and \<open>ResultIterator\<close>: a query is a record of
  its settings, executing it gives the list of results, and the result iterator walks over them.
  \<open>n\<close> is the depth bound of \<open>constructQuery\<close>. The order \<open>std::sort\<close> gives to equal times is not
  specified, so the sort is a parameter.
\<close>

datatype SortingOption = SortNone | SortAuto

record Query =
  qy_types :: "QString list"
  qy_searchString :: QString
  qy_searchScopes :: "QString list"
  qy_limit :: u32
  qy_offset :: u32
  qy_yearFilter :: int
  qy_monthFilter :: int
  qy_dayFilter :: int
  qy_sortingOption :: SortingOption
  qy_includeFolder :: QString

definition defaultLimit :: u32 where
  "defaultLimit = - 1"

definition Query_new :: Query where
  "Query_new = \<lparr>qy_types = [], qy_searchString = [], qy_searchScopes = [], qy_limit = defaultLimit, qy_offset = 0,
     qy_yearFilter = 0, qy_monthFilter = 0, qy_dayFilter = 0, qy_sortingOption = SortAuto, qy_includeFolder = []\<rparr>"

definition Query_setDateFilter :: "int \<Rightarrow> int \<Rightarrow> int \<Rightarrow> Query \<Rightarrow> Query" where
  "Query_setDateFilter year month day q =
     q\<lparr>qy_yearFilter := year, qy_monthFilter := month, qy_dayFilter := day\<rparr>"

text \<open>\<open>operator==\<close>; the lists are compared by their lengths and one inclusion.\<close>

definition Query_equal :: "Query \<Rightarrow> Query \<Rightarrow> bool" where
  "Query_equal lhs rhs =
     (if qy_limit rhs \<noteq> qy_limit lhs \<or> qy_offset rhs \<noteq> qy_offset lhs \<or>
         qy_dayFilter rhs \<noteq> qy_dayFilter lhs \<or> qy_monthFilter rhs \<noteq> qy_monthFilter lhs \<or>
         qy_yearFilter rhs \<noteq> qy_yearFilter lhs \<or> qy_includeFolder rhs \<noteq> qy_includeFolder lhs \<or>
         qy_searchString rhs \<noteq> qy_searchString lhs \<or> qy_sortingOption rhs \<noteq> qy_sortingOption lhs then False
      else if length (qy_types rhs) \<noteq> length (qy_types lhs) then False
      else if \<not> list_all (\<lambda>type. type \<in> set (qy_types lhs)) (qy_types rhs) then False
      else if length (qy_searchScopes rhs) \<noteq> length (qy_searchScopes lhs) then False
      else list_all (\<lambda>scope. scope \<in> set (qy_searchScopes lhs)) (qy_searchScopes rhs))"

section \<open>From the query to an iterator\<close>

text \<open>
  Each part of the query gives the iterators it adds to \<open>vec\<close>; \<open>Some None\<close> is the \<open>return {}\<close> where one
  is null.
\<close>

definition search_part ::
  "nat \<Rightarrow> qt_text \<Rightarrow> ('d, 't) search_api \<Rightarrow> 's lmdb \<Rightarrow> 's \<Rightarrow> Query \<Rightarrow> posting_iter list option option" where
  "search_part n qt A L s q =
     (if qy_searchString q \<noteq> [] then
        map_option (map_option (\<lambda>it. [it]))
          (constructQuery n qt A L s
            (expandScopes (cleanedScopes A (qy_searchScopes q)) (QueryParser_parse qt (qy_searchString q))))
      else Some (Some []))"

primrec types_part :: "('d, 't) search_api \<Rightarrow> 's lmdb \<Rightarrow> 's \<Rightarrow> QString list \<Rightarrow> posting_iter list option" where
  "types_part A L s [] = Some []"
| "types_part A L s (type # types) =
     (case constructTypeQuery A L s type of
        None \<Rightarrow> None
      | Some it \<Rightarrow> map_option ((#) it) (types_part A L s types))"

definition folder_part :: "qt_text \<Rightarrow> 's lmdb \<Rightarrow> 's \<Rightarrow> Query \<Rightarrow> posting_iter list option" where
  "folder_part qt L s q =
     (if qy_includeFolder q \<noteq> [] then map_option (\<lambda>it. [it]) (constructFolderQuery qt L s (qy_includeFolder q))
      else Some [])"

text \<open>The days of the date filter; \<open>mTimeRangeIter\<close> takes 32-bit numbers.\<close>

definition date_range :: "('d, 't) search_api \<Rightarrow> int \<Rightarrow> int \<Rightarrow> int \<Rightarrow> u32 \<times> u32" where
  "date_range A year month0 day0 =
     (let month = (if 0 \<le> month0 \<and> month0 \<le> 12 then month0 else 0);
          day = (if 0 \<le> day0 \<and> day0 \<le> 31 then day0 else 0);
          startDate = sa_date A year (if month \<noteq> 0 then month else 1) (if day \<noteq> 0 then day else 1);
          endDate = (if month = 0 then sa_date A (sa_year A startDate) 12 31
                     else if day = 0 then
                       sa_date A (sa_year A startDate) (sa_month A startDate) (sa_daysInMonth A startDate)
                     else startDate)
      in (word_of_int (sa_date_startOfDay A startDate), word_of_int (sa_date_endOfDay A endDate)))"

definition date_part :: "('d, 't) search_api \<Rightarrow> 's lmdb \<Rightarrow> 's \<Rightarrow> Query \<Rightarrow> posting_iter list option" where
  "date_part A L s q =
     (if qy_yearFilter q \<noteq> 0 \<or> qy_monthFilter q \<noteq> 0 \<or> qy_dayFilter q \<noteq> 0 then
        (case date_range A (qy_yearFilter q) (qy_monthFilter q) (qy_dayFilter q) of
           (b, e) \<Rightarrow> map_option (\<lambda>it. [it]) (Transaction_mTimeRangeIter L s b e))
      else Some [])"

definition constructFromQuery ::
  "nat \<Rightarrow> qt_text \<Rightarrow> ('d, 't) search_api \<Rightarrow> 's lmdb \<Rightarrow> 's \<Rightarrow> Query \<Rightarrow> posting_iter option option" where
  "constructFromQuery n qt A L s q =
     Option.bind (search_part n qt A L s q) (\<lambda>found.
       case sequence [found, types_part A L s (qy_types q), folder_part qt L s q, date_part A L s q] of
         None \<Rightarrow> Some None
       | Some vecs \<Rightarrow> Some (Some (ItAnd (AndPostingIterator_new (map Some (concat vecs))))))"

section \<open>Executing a query\<close>

record Result =
  filePath :: bytes
  documentId :: u64

definition Result_of :: "'s lmdb \<Rightarrow> 's \<Rightarrow> u64 \<Rightarrow> Result" where
  "Result_of L s i = \<lparr>filePath = Transaction_documentUrl L s i, documentId = i\<rparr>"

text \<open>\<open>while (offset && it->next())\<close> and \<open>while (ulimit && it->next())\<close>.\<close>

primrec iter_drop :: "nat \<Rightarrow> nat \<Rightarrow> posting_iter \<Rightarrow> posting_iter option" where
  "iter_drop d 0 it = Some it"
| "iter_drop d (Suc offset) it =
     Option.bind (iter_next d it) (\<lambda>(i, it'). if i = 0 then Some it' else iter_drop d offset it')"

primrec iter_take :: "nat \<Rightarrow> nat \<Rightarrow> posting_iter \<Rightarrow> u64 list option" where
  "iter_take d 0 it = Some []"
| "iter_take d (Suc limit) it =
     Option.bind (iter_next d it) (\<lambda>(i, it'). if i = 0 then Some [] else map_option ((#) i) (iter_take d limit it'))"

definition exec_sorted ::
  "nat \<Rightarrow> ((u64 \<times> u32) list \<Rightarrow> (u64 \<times> u32) list) \<Rightarrow> 's lmdb \<Rightarrow> 's \<Rightarrow> Query \<Rightarrow> posting_iter \<Rightarrow> Result list option" where
  "exec_sorted d std_sort L s q it =
     Option.bind (drain d it) (\<lambda>ids.
       let resultIds = map (\<lambda>i. (i, mTime (Transaction_documentTimeInfo L s i))) ids;
           offset = unat (qy_offset q)
       in if offset \<ge> length resultIds then Some []
          else
            let sorted_ids = std_sort resultIds;
                last_index = (if qy_limit q = defaultLimit then length resultIds
                        else min (offset + unat (qy_limit q)) (length resultIds))
            in Some (map (\<lambda>j. Result_of L s (fst (sorted_ids ! j))) [offset..<last_index]))"

definition exec_unsorted :: "nat \<Rightarrow> 's lmdb \<Rightarrow> 's \<Rightarrow> Query \<Rightarrow> posting_iter \<Rightarrow> Result list option" where
  "exec_unsorted d L s q it =
     Option.bind (iter_drop d (unat (qy_offset q)) it) (\<lambda>it'.
       map_option (map (Result_of L s)) (iter_take d (unat (qy_limit q)) it'))"

text \<open>The database is \<open>None\<close> where it cannot be opened.\<close>

definition SearchStore_exec ::
  "nat \<Rightarrow> qt_text \<Rightarrow> ('d, 't) search_api \<Rightarrow> ((u64 \<times> u32) list \<Rightarrow> (u64 \<times> u32) list) \<Rightarrow> 's lmdb \<Rightarrow> 's option \<Rightarrow>
   Query \<Rightarrow> Result list option" where
  "SearchStore_exec n qt A std_sort L db q =
     (case db of
        None \<Rightarrow> Some []
      | Some s \<Rightarrow>
          Option.bind (constructFromQuery n qt A L s q) (\<lambda>r.
            case r of
              None \<Rightarrow> Some []
            | Some it \<Rightarrow>
                if qy_sortingOption q = SortAuto then exec_sorted (n + 4) std_sort L s q it
                else exec_unsorted (n + 4) L s q it))"

section \<open>Walking over the results\<close>

text \<open>\<open>resultiterator.cpp\<close>: the position starts as the greatest \<open>size_t\<close>.\<close>

record ResultIterator =
  ri_results :: "Result list"
  ri_pos :: u64

definition ResultIterator_new :: "Result list \<Rightarrow> ResultIterator" where
  "ResultIterator_new results = \<lparr>ri_results = results, ri_pos = - 1\<rparr>"

definition ResultIterator_next :: "ResultIterator \<Rightarrow> bool \<times> ResultIterator" where
  "ResultIterator_next r =
     (let r' = r\<lparr>ri_pos := ri_pos r + 1\<rparr> in (unat (ri_pos r') < length (ri_results r'), r'))"

definition ResultIterator_filePath :: "qt_text \<Rightarrow> ResultIterator \<Rightarrow> QString" where
  "ResultIterator_filePath qt r = qt_fromUtf8 qt (filePath (ri_results r ! unat (ri_pos r)))"

definition ResultIterator_documentId :: "(u64 \<Rightarrow> bytes) \<Rightarrow> ResultIterator \<Rightarrow> bytes" where
  "ResultIterator_documentId number_16 r = number_16 (documentId (ri_results r ! unat (ri_pos r)))"

definition Query_exec ::
  "nat \<Rightarrow> qt_text \<Rightarrow> ('d, 't) search_api \<Rightarrow> ((u64 \<times> u32) list \<Rightarrow> (u64 \<times> u32) list) \<Rightarrow> 's lmdb \<Rightarrow> 's option \<Rightarrow>
   Query \<Rightarrow> ResultIterator option" where
  "Query_exec n qt A std_sort L db q = map_option ResultIterator_new (SearchStore_exec n qt A std_sort L db q)"

text \<open>\<open>while (it.next()) { ... }\<close>: the results the loop body sees, at most \<open>k\<close> of them.\<close>

primrec read_results :: "nat \<Rightarrow> ResultIterator \<Rightarrow> Result list" where
  "read_results 0 r = []"
| "read_results (Suc k) r =
     (case ResultIterator_next r of
        (ok, r') \<Rightarrow> if ok then (ri_results r' ! unat (ri_pos r')) # read_results k r' else [])"

end
