(* ===== verification/QueryResults.thy ===== *)
theory QueryResults
  imports Queries
begin

text \<open>What the iterators that answer a query give, in terms of the tables.\<close>

section \<open>Phrases\<close>

lemma matches_ids:
  assumes "matches vs d" "v \<in> set vs"
  shows "d \<in> docId ` set v"
proof -
  obtain p j where "j < length vs" "vs ! j = v" "\<exists>q \<in> set (positions_of v d). unat q = p + 0 + j"
    using assms by (fastforce simp: matches_def phrase_match_def aligned_def in_set_conv_nth)
  then have "positions_of v d \<noteq> []" by auto
  then show ?thesis by (force simp: positions_of_def split: option.splits dest!: map_of_SomeD)
qed

lemma fresh_phrase:
  assumes "vecs_ok vs" "vs \<noteq> []"
  defines "a \<equiv> PhraseAndIterator_new (map (\<lambda>v. Some (VectorPositionInfoIterator_new v)) vs)"
  shows "fresh 1 (ItPhrase a)" "set (iter_rest 1 (ItPhrase a)) = {d. matches vs d}"
proof -
  let ?its = "map VectorPositionInfoIterator_new vs"
  have a: "a = PhraseAndIterator ?its 0"
    by (simp add: a_def PhraseAndIterator_new_def comp_def list_ex_iff)
  have vec: "VectorPositionInfoIterator_inv (VectorPositionInfoIterator_new v)"
    "VectorPositionInfoIterator_docId (VectorPositionInfoIterator_new v) = 0"
    "VectorPositionInfoIterator_rest (VectorPositionInfoIterator_new v) = map docId v"
    "0 \<notin> docId ` set v" if "v \<in> set vs" for v
  proof -
    have "asc (0 # map docId v)" using that assms(1) by (simp add: vecs_ok_def)
    then show "VectorPositionInfoIterator_inv (VectorPositionInfoIterator_new v)" "0 \<notin> docId ` set v"
      by (auto simp: VectorPositionInfoIterator_new_def word_gt_0)
  qed (simp_all add: VectorPositionInfoIterator_new_def)
  have vectors: "map posinfo_vector ?its = vs"
    by (simp add: comp_def VectorPositionInfoIterator_new_def)
  have inv: "phrase_inv a"
    using vec assms(1) by (auto simp: a vectors simp del: map_map)
  then show "fresh 1 (ItPhrase a)" by (simp add: fresh_def a)
  obtain v0 vs0 where vs: "vs = v0 # vs0" using assms(2) by (cases vs) auto
  have "set (posinfo_it.and_R ?its) = {x \<in> posinfo_it.common ?its. 0 < x}"
    using posinfo_it.set_and_R[of "VectorPositionInfoIterator_new v0" "map VectorPositionInfoIterator_new vs0"]
      vec(1,2) by (simp add: vs)
  moreover have "posinfo_it.common ?its = (\<Inter>v \<in> set vs. docId ` set v)"
    using vec by (auto simp: posinfo_it.common_def ahead_def)
  ultimately have "set (phrase_rest a) = {d. 0 < d \<and> d \<in> (\<Inter>v \<in> set vs. docId ` set v) \<and> matches vs d}"
    by (auto simp: a vectors simp del: map_map and_rest.simps)
  also have "\<dots> = {d. matches vs d}"
  proof -
    have "matches vs d \<Longrightarrow> 0 < d \<and> (\<forall>v \<in> set vs. d \<in> docId ` set v)" for d
      using matches_ids[of vs d] vec(4)[of v0] vs by (metis list.set_intros(1) word_gt_0)
    then show ?thesis by auto
  qed
  finally show "set (iter_rest 1 (ItPhrase a)) = {d. matches vs d}" by simp
qed

lemma fresh_drain: "fresh n it \<Longrightarrow> drain n it = Some (iter_rest n it) \<and> asc (iter_rest n it)"
  using fresh_ids(1) by (simp add: drain_rest fresh_def)

definition positions_proper :: "'s lmdb \<Rightarrow> 's \<Rightarrow> bool" where
  "positions_proper L s \<longleftrightarrow> (\<forall>t. vecs_ok [PositionDB_get L positionDBi s t])"

lemma PositionDB_iter_get:
  "PositionDB_iter L positionDBi s t =
     (if mdb_get L s positionDBi t = None then None
      else Some (VectorPositionInfoIterator_new (PositionDB_get L positionDBi s t)))"
  by (auto simp: PositionDB_iter_def PositionDB_get_def split: option.splits)

text \<open>Where the phrase \<open>terms\<close> stands in the documents.\<close>

definition phrase_docs :: "'s lmdb \<Rightarrow> 's \<Rightarrow> bytes list \<Rightarrow> u64 set" where
  "phrase_docs L s terms = {d. matches (map (PositionDB_get L positionDBi s) terms) d}"

lemma engine_query_phrase:
  assumes "positions_proper L s" "2 \<le> length q"
  shows "\<exists>r. Transaction_postingIterator_EngineQuery L s q = Some r \<and>
    gives 1 r (phrase_docs L s (map m_term q))"
proof -
  let ?vec = "map (\<lambda>sq. PositionDB_iter L positionDBi s (m_term sq)) q"
  let ?vs = "map (PositionDB_get L positionDBi s) (map m_term q)"
  show ?thesis
  proof (cases "list_ex Option.is_none ?vec")
    case True
    then obtain sq where sq: "sq \<in> set q" "mdb_get L s positionDBi (m_term sq) = None"
      by (auto simp: list_ex_iff PositionDB_iter_get Option.is_none_def split: if_splits)
    then have "PositionDB_get L positionDBi s (m_term sq) = []" by (simp add: PositionDB_get_def)
    then have "\<not> matches ?vs d" for d
      using matches_ids[of ?vs d "[]"] sq(1) by force
    then show ?thesis
      using True assms(2)
      by (intro exI[of _ None]) (simp add: Transaction_postingIterator_EngineQuery_def phrase_docs_def)
  next
    case False
    then have vec: "?vec = map (\<lambda>v. Some (VectorPositionInfoIterator_new v)) ?vs"
      by (auto simp: list_ex_iff PositionDB_iter_get Option.is_none_def)
    have ok: "vecs_ok ?vs" "?vs \<noteq> []"
      using assms by (auto simp: positions_proper_def vecs_ok_def)
    note ph = fresh_phrase[OF ok, folded vec]
    show ?thesis
      using False assms(2) ph
      by (intro exI[of _ "Some (ItPhrase (PhraseAndIterator_new ?vec))"])
        (simp add: Transaction_postingIterator_EngineQuery_def phrase_docs_def del: iter_rest.simps map_map)
  qed
qed

section \<open>File names\<close>

text \<open>Queries whose result is the intersection of the lists, filtered by a predicate \<open>P\<close> on the ids.\<close>

lemma text_query_filter:
  assumes "postings_proper L s" "2 \<le> length (q_terms q)"
  shows "\<exists>r. text_query_iter L s pre q
      (\<lambda>out. Some (Some (ItVector (VectorPostingIterator_new (filter P out))))) = Some r \<and>
    gives 1 r {i. (\<forall>t \<in> set (q_terms q). i \<in> set (PostingDB_get L postingDbi s (pre @ t))) \<and> P i}"
proof -
  let ?rest = "\<lambda>out. Some (Some (ItVector (VectorPostingIterator_new (filter P out))))"
  obtain out where out: "asc out" "0 \<notin> set out"
    "set out = (\<Inter>t \<in> set (q_terms q). set (PostingDB_get L postingDbi s (pre @ t)))"
    "text_query_iter L s pre q ?rest = (if out = [] then Some None else ?rest out)"
    using text_query_iter_multi[OF assms, of pre ?rest] by blast
  show ?thesis
  proof (cases "out = []")
    case True
    then have "(\<Inter>t \<in> set (q_terms q). set (PostingDB_get L postingDbi s (pre @ t))) = {}" using out(3) by simp
    then show ?thesis using out(4) True by auto
  next
    case False
    have "gives 1 (Some (ItVector (VectorPostingIterator_new (filter P out)))) (set (filter P out))"
      using gives_vector[of "filter P out" 0] out(1,2) by (simp add: asc_filter del: gives_simps)
    moreover have "set (filter P out) =
        {i. (\<forall>t \<in> set (q_terms q). i \<in> set (PostingDB_get L postingDbi s (pre @ t))) \<and> P i}"
      using out(3) by auto
    ultimately show ?thesis using out(4) False by (auto simp del: gives_simps)
  qed
qed

lemma filename_query_ids:
  assumes "postings_proper L s" "2 \<le> length (q_terms q)"
  shows "\<exists>r. Transaction_postingIterator_FilenameQuery qt L s q = Some r \<and>
    gives 1 r {i. (\<forall>t \<in> set (q_terms q). i \<in> set (PostingDB_get L postingDbi s (lit ''F'' @ t))) \<and>
      FilenameQuery_match qt q (name (IdFilenameDB_get_path L idFilenameDbi s i))}"
  unfolding Transaction_postingIterator_FilenameQuery_def by (rule text_query_filter[OF assms])

lemma property_query_ids:
  assumes "postings_proper L s" "2 \<le> length (q_terms q)"
  shows "\<exists>r. Transaction_postingIterator_PropertyPhraseQuery qt jsonString L s q = Some r \<and>
    gives 1 r {i. (\<forall>t \<in> set (q_terms q).
        i \<in> set (PostingDB_get L postingDbi s ((lit ''X'' @ q_property q @ lit ''-'') @ t))) \<and>
      (let data = DocumentDataDB_get L docDataDbi s i;
           type = (if data = [] then [] else jsonString data (qt_fromUtf8 qt (q_property q)))
       in type \<noteq> [] \<and> PropertyPhraseQuery_match qt q type)}"
  unfolding Transaction_postingIterator_PropertyPhraseQuery_def Let_def by (rule text_query_filter[OF assms])

text \<open>The file names are indexed: a document is in the list of every word of its name.\<close>

definition names_indexed :: "qt_text \<Rightarrow> 's lmdb \<Rightarrow> 's \<Rightarrow> bool" where
  "names_indexed qt L s \<longleftrightarrow>
     (\<forall>i path. url_tree L s i = Some path \<longrightarrow>
        (\<forall>t \<in> set (TermGenerator_termList qt (qt_fromUtf8 qt (name path))).
           i \<in> set (PostingDB_get L postingDbi s (lit ''F'' @ t))))"

lemma termList_empty: "TermGenerator_termList qt [] = []"
  by (simp add: TermGenerator_termList_def verifySurrogates_def termList_loop.simps Let_def)

lemma filename_query_names:
  assumes "postings_proper L s" "2 \<le> length (q_terms q)" "names_indexed qt L s" "qt_fromUtf8 qt [] = []"
  shows "\<exists>r. Transaction_postingIterator_FilenameQuery qt L s q = Some r \<and>
    gives 1 r {i. \<exists>path. url_tree L s i = Some path \<and>
      sublist (q_terms q) (TermGenerator_termList qt (qt_fromUtf8 qt (name path)))}"
proof -
  have ne: "q_terms q \<noteq> []" using assms(2) by auto
  have match: "FilenameQuery_match qt q (name (IdFilenameDB_get_path L idFilenameDbi s i)) \<longleftrightarrow>
      (\<exists>path. url_tree L s i = Some path \<and>
        sublist (q_terms q) (TermGenerator_termList qt (qt_fromUtf8 qt (name path))))" for i
    using ne by (auto simp: FilenameQuery_match_def search_found_sublist IdFilenameDB_get_path_def url_tree_def
        assms(4) termList_empty split: option.splits)
  have "(\<forall>t \<in> set (q_terms q). i \<in> set (PostingDB_get L postingDbi s (lit ''F'' @ t)))"
    if "url_tree L s i = Some path" "sublist (q_terms q) (TermGenerator_termList qt (qt_fromUtf8 qt (name path)))"
    for i path
    using that assms(3) set_mono_sublist[OF that(2)] unfolding names_indexed_def by blast
  then have "{i. (\<forall>t \<in> set (q_terms q). i \<in> set (PostingDB_get L postingDbi s (lit ''F'' @ t))) \<and>
      FilenameQuery_match qt q (name (IdFilenameDB_get_path L idFilenameDbi s i))} =
    {i. \<exists>path. url_tree L s i = Some path \<and>
      sublist (q_terms q) (TermGenerator_termList qt (qt_fromUtf8 qt (name path)))}"
    unfolding match by blast
  then show ?thesis using filename_query_ids[OF assms(1,2), of qt] by simp
qed

section \<open>Mime types\<close>

lemma matches_filter:
  assumes "vecs_ok vs" "vs \<noteq> []"
  shows "matches (map (filter (\<lambda>info. docId info \<in> D)) vs) d \<longleftrightarrow> d \<in> D \<and> matches vs d"
proof -
  have pos: "positions_of (filter (\<lambda>info. docId info \<in> D) v) d = (if d \<in> D then positions_of v d else [])" for v
  proof -
    have "map_of (map (\<lambda>p. (docId p, positions p)) (filter (\<lambda>info. docId info \<in> D) v)) d =
        (if d \<in> D then map_of (map (\<lambda>p. (docId p, positions p)) v) d else None)"
      by (induction v) auto
    then show ?thesis by (simp add: positions_of_def)
  qed
  have "\<not> phrase_match (map (\<lambda>v. []) vs)"
    using assms(2) by (cases vs) (auto simp: phrase_match_def aligned_Cons)
  then show ?thesis by (cases "d \<in> D") (simp_all add: matches_def comp_def pos)
qed

lemma mimetype_query_ids:
  fixes jsonString :: "bytes \<Rightarrow> QString \<Rightarrow> QString" and s :: 's
  assumes "postings_proper L s" "positions_proper L s" "2 \<le> length (q_terms q)"
  defines "type \<equiv> mimetype_of_data jsonString L s"
  shows "\<exists>r. Transaction_postingIterator_MimetypeQuery qt jsonString L s q = Some r \<and>
    gives 1 r {i. (\<forall>t \<in> set (q_terms q). i \<in> set (PostingDB_get L postingDbi s (lit ''M'' @ t))) \<and>
      (if type i = [] then i \<in> phrase_docs L s (map (\<lambda>t. lit ''M'' @ t) (q_terms q))
       else MimetypeQuery_match qt q (type i))}"
proof -
  let ?kept = "filter (\<lambda>i. type i \<noteq> [] \<and> MimetypeQuery_match qt q (type i))"
  let ?def = "filter (\<lambda>i. type i = [])"
  let ?rest = "\<lambda>out. let type = mimetype_of_data jsonString L s;
           kept = filter (\<lambda>i. type i \<noteq> [] \<and> MimetypeQuery_match qt q (type i)) out;
           deferred = filter (\<lambda>i. type i = []) out
       in if deferred = [] then Some (Some (ItVector (VectorPostingIterator_new kept)))
          else Option.bind (deferred_ids L s q deferred) (\<lambda>ids.
                 Some (Some (ItVector (VectorPostingIterator_new (sort (kept @ ids))))))"
  obtain out where out: "asc out" "0 \<notin> set out"
    "set out = (\<Inter>t \<in> set (q_terms q). set (PostingDB_get L postingDbi s (lit ''M'' @ t)))"
    "text_query_iter L s (lit ''M'') q ?rest = (if out = [] then Some None else ?rest out)"
    using text_query_iter_multi[OF assms(1,3), of "lit ''M''" ?rest] by blast
  let ?vs = "map (PositionDB_get L positionDBi s) (map (\<lambda>t. lit ''M'' @ t) (q_terms q))"
  have vs: "vecs_ok ?vs" "?vs \<noteq> []" using assms(2,3) by (auto simp: positions_proper_def vecs_ok_def)
  have def_ids: "\<exists>ids. deferred_ids L s q D = Some ids \<and> asc ids \<and>
      set ids = {d. d \<in> set D \<and> matches ?vs d}" for D
  proof -
    let ?vsD = "map (filter (\<lambda>info. docId info \<in> set D)) ?vs"
    have "vecs_ok ?vsD" using vs(1) by (fastforce simp: vecs_ok_def asc_filter sorted_wrt_map intro: sorted_wrt_filter)
    then have ph: "fresh 1 (ItPhrase (PhraseAndIterator_new (map (\<lambda>v. Some (VectorPositionInfoIterator_new v)) ?vsD)))"
      "set (iter_rest 1 (ItPhrase (PhraseAndIterator_new (map (\<lambda>v. Some (VectorPositionInfoIterator_new v)) ?vsD)))) =
        {d. matches ?vsD d}"
      using fresh_phrase[of ?vsD] vs(2) by auto
    have "deferred_ids L s q D = drain 1 (ItPhrase (PhraseAndIterator_new
        (map (\<lambda>v. Some (VectorPositionInfoIterator_new v)) ?vsD)))"
      by (simp add: deferred_ids_def comp_def)
    then show ?thesis
      using fresh_drain[OF ph(1)] ph(2) matches_filter[OF vs, of "set D"] by auto
  qed
  show ?thesis
  proof (cases "out = []")
    case True
    then have "(\<Inter>t \<in> set (q_terms q). set (PostingDB_get L postingDbi s (lit ''M'' @ t))) = {}" using out(3) by simp
    then show ?thesis
      using out(4) True by (auto simp: Transaction_postingIterator_MimetypeQuery_def)
  next
    case False
    obtain ids where ids: "deferred_ids L s q (?def out) = Some ids" "asc ids"
      "set ids = {d. d \<in> set (?def out) \<and> matches ?vs d}" using def_ids by blast
    define res where "res = (if ?def out = [] then ?kept out else sort (?kept out @ ids))"
    have "distinct (?kept out @ ids)" using asc_distinct[OF out(1)] asc_distinct[OF ids(2)] ids(3) by auto
    then have "asc res" using asc_filter[OF out(1)]
      by (auto simp del: sorted_append distinct_append simp: res_def asc_sorted_distinct)
    moreover have set_res: "set res = {i \<in> set out. if type i = [] then matches ?vs i else MimetypeQuery_match qt q (type i)}"
      using ids(3) by (auto simp: res_def filter_empty_conv)
    ultimately have "gives 1 (Some (ItVector (VectorPostingIterator_new res))) (set res)"
      using gives_vector[of res 0] out(2) by (simp del: gives_simps)
    moreover have set_docs: "set res = {i. (\<forall>t \<in> set (q_terms q). i \<in> set (PostingDB_get L postingDbi s (lit ''M'' @ t))) \<and>
      (if type i = [] then i \<in> phrase_docs L s (map (\<lambda>t. lit ''M'' @ t) (q_terms q))
       else MimetypeQuery_match qt q (type i))}"
      unfolding set_res using out(3) by (auto simp: phrase_docs_def)
    moreover have "?rest out = Some (Some (ItVector (VectorPostingIterator_new res)))"
      using ids(1) by (simp add: Let_def res_def type_def)
    ultimately show ?thesis
      using out(4) False set_docs
      by (intro exI[of _ "Some (ItVector (VectorPostingIterator_new res))"])
        (simp add: Transaction_postingIterator_MimetypeQuery_def del: gives_simps)
  qed
qed

end
