(* ===== verification/ParseResults.thy ===== *)
theory ParseResults
  imports QueryParser
begin

text \<open>
  What the query parser gives: the shape of its terms, and, for texts written from an expression, the
  value of the expression, whose operators associate to the left.
\<close>

section \<open>The tokens of a text\<close>

definition isOperator :: "16 word \<Rightarrow> bool" where
  "isOperator c \<longleftrightarrow> c \<in> {34, 40, 41, 58, 60, 61, 62}"

definition operator_tokens :: "QString list" where
  "operator_tokens = [[40], [41], [58], [61], [60], [60, 61], [62], [62, 61], qs ''AND'', qs ''OR'']"

definition plain_token :: "qt_text \<Rightarrow> QString \<Rightarrow> bool" where
  "plain_token qt token \<longleftrightarrow> token \<noteq> [] \<and> list_all (\<lambda>c. \<not> qt_isSpace qt c \<and> \<not> isOperator c) token"

text \<open>A token as it is written in a search: as it is where that works, else in quotes; then a space.\<close>

definition print_token :: "qt_text \<Rightarrow> QString \<Rightarrow> QString" where
  "print_token qt token =
     (if token \<in> set operator_tokens \<or> plain_token qt token then token @ [32] else 34 # token @ [34, 32])"

definition print_tokens :: "qt_text \<Rightarrow> QString list \<Rightarrow> QString" where
  "print_tokens qt tokens = concat (map (print_token qt) tokens)"

definition isSpace_ok :: "qt_text \<Rightarrow> bool" where
  "isSpace_ok qt \<longleftrightarrow> qt_isSpace qt 32 \<and>
     list_all (\<lambda>c. \<not> qt_isSpace qt c) [40, 41, 58, 60, 61, 62, 65, 68, 78, 79, 82]"

lemma lex_loop_plain:
  "list_all (\<lambda>c. \<not> qt_isSpace qt c \<and> \<not> isOperator c) w \<Longrightarrow>
   lex_loop qt (w @ str) token False list = lex_loop qt str (token @ w) False list"
  by (induction w arbitrary: token) (auto simp: isOperator_def)

lemma lex_loop_quoted:
  "34 \<notin> set w \<Longrightarrow> lex_loop qt (w @ 34 # str) token True list = lex_loop qt str [] False (list @ [token @ w])"
  by (induction w arbitrary: token) auto

lemma lex_loop_operator:
  assumes "isSpace_ok qt" "t \<in> set operator_tokens"
  shows "lex_loop qt (t @ 32 # str) [] False list = lex_loop qt str [] False (list @ [t])"
  using assms by (auto simp: operator_tokens_def isSpace_ok_def flush_token_def qs_def)

lemma lex_loop_print_token:
  assumes "isSpace_ok qt" "34 \<notin> set t"
  shows "lex_loop qt (print_token qt t @ str) [] False list = lex_loop qt str [] False (list @ [t])"
proof (cases "t \<in> set operator_tokens")
  case True
  then show ?thesis using lex_loop_operator[OF assms(1)] by (simp add: print_token_def)
next
  case op: False
  have sp: "qt_isSpace qt 32" using assms(1) by (simp add: isSpace_ok_def)
  show ?thesis
  proof (cases "plain_token qt t")
    case True
    then have p: "t \<noteq> []" "list_all (\<lambda>c. \<not> qt_isSpace qt c \<and> \<not> isOperator c) t" by (auto simp: plain_token_def)
    show ?thesis
      using lex_loop_plain[OF p(2), of "32 # str" "[]" list] p(1) True sp
      by (simp add: print_token_def flush_token_def)
  next
    case False
    then show ?thesis
      using lex_loop_quoted[OF assms(2), of qt "32 # str" "[]" list] sp op
      by (simp add: print_token_def flush_token_def)
  qed
qed

lemma lex_print_tokens:
  assumes "isSpace_ok qt" "\<forall>t \<in> set tokens. 34 \<notin> set t"
  shows "lex qt (print_tokens qt tokens) = tokens"
proof -
  have "lex_loop qt (print_tokens qt tokens) [] False list = list @ tokens" for list
    using assms(2)
  proof (induction tokens arbitrary: list)
    case Nil
    then show ?case by (simp add: print_tokens_def flush_token_def)
  next
    case (Cons t tokens)
    then show ?case
      using lex_loop_print_token[OF assms(1), of t "print_tokens qt tokens" list]
      by (simp add: print_tokens_def)
  qed
  then show ?thesis by (simp add: lex_def)
qed

section \<open>The shape of the terms\<close>

text \<open>
  A leaf has a comparator; a node has at least two subterms, none of them a node with its operation.
\<close>

fun term_flat :: "Term \<Rightarrow> bool" where
  "term_flat (Term op c p v ts) =
     (if op = Op_None then ts = [] \<and> c \<noteq> Cmp_Auto
      else c = Cmp_Auto \<and> p = [] \<and> v = None \<and> 2 \<le> length ts \<and>
        list_all (\<lambda>t. term_flat t \<and> Term_operation t \<noteq> op) ts)"

definition term_shape :: "Term \<Rightarrow> bool" where
  "term_shape t \<longleftrightarrow> t = Term_default \<or> term_flat t"

lemma term_flat_not_empty: "term_flat t \<Longrightarrow> \<not> Term_isEmpty t"
  by (cases t) (auto simp: Term_isEmpty_def split: if_splits)

lemma term_flat_leaf [simp]: "term_flat (Term_leaf p v c)"
  by (simp add: Term_leaf_def)

lemma term_shape_empty: "term_shape t \<Longrightarrow> Term_isEmpty t \<longleftrightarrow> t = Term_default"
  using term_flat_not_empty by (auto simp: term_shape_def)

lemma Term_operands_flat:
  assumes "term_flat t" "op \<noteq> Op_None"
  shows "Term_operands op t \<noteq> [] \<and>
    list_all (\<lambda>t. term_flat t \<and> Term_operation t \<noteq> op) (Term_operands op t)"
  using assms by (cases t) (auto simp: Term_operands_def split: if_splits)

lemma term_flat_combine:
  assumes "term_shape lhs" "term_shape rhs" "op \<noteq> Op_None"
  shows "term_shape (Term_combine lhs op rhs)"
proof (cases "lhs = Term_default \<or> rhs = Term_default")
  case True
  then show ?thesis using assms(1,2) by (auto simp: Term_combine_def)
next
  case False
  then have flat: "term_flat lhs" "term_flat rhs" using assms(1,2) by (auto simp: term_shape_def)
  note l = Term_operands_flat[OF flat(1) assms(3)] and r = Term_operands_flat[OF flat(2) assms(3)]
  have "2 \<le> length (Term_operands op lhs @ Term_operands op rhs)"
    using l r by (cases "Term_operands op lhs"; cases "Term_operands op rhs") auto
  then show ?thesis
    using l r flat term_flat_not_empty assms(3) by (simp add: Term_combine_def term_shape_def Term_of_list_def)
qed

text \<open>The parser's state: as many operations as open terms, and a term in construction that is a leaf.\<close>

definition leaf_shape :: "Term \<Rightarrow> bool" where
  "leaf_shape t \<longleftrightarrow> t = Term_default \<or> term_flat t \<and> Term_operation t = Op_None"

definition parser_ok :: "parser \<Rightarrow> bool" where
  "parser_ok p \<longleftrightarrow> p_stack p \<noteq> [] \<and> length (p_ops p) = length (p_stack p) \<and>
     list_all term_shape (p_stack p) \<and> list_all (\<lambda>op. op \<noteq> Op_None) (p_ops p) \<and> leaf_shape (p_term p)"

lemma leaf_shape_term_shape: "leaf_shape t \<Longrightarrow> term_shape t"
  by (auto simp: leaf_shape_def term_shape_def)

lemma leaf_shape_set:
  "leaf_shape t \<Longrightarrow> c \<noteq> Cmp_Auto \<Longrightarrow> leaf_shape (Term_setComparator t c)"
  "leaf_shape t \<Longrightarrow> t \<noteq> Term_default \<Longrightarrow> leaf_shape (Term_setValue (Term_setProperty t p) v)"
  by (cases t, auto simp: leaf_shape_def Term_default_def)+

lemma leaf_shape_new [simp]: "leaf_shape Term_default" "leaf_shape (Term_leaf p v c)" "term_shape Term_default"
  by (simp_all add: leaf_shape_def term_shape_def) (simp add: Term_leaf_def)

lemma parser_ok_parts:
  assumes "parser_ok p"
  obtains t stack op ops where "p_stack p = t # stack" "p_ops p = op # ops" "length ops = length stack"
    "term_shape t" "list_all term_shape stack" "op \<noteq> Op_None" "list_all (\<lambda>op. op \<noteq> Op_None) ops"
    "leaf_shape (p_term p)"
  using assms unfolding parser_ok_def by (cases "p_stack p"; cases "p_ops p") auto

lemma parser_ok_init [simp]: "parser_ok parser_init"
  by (simp add: parser_ok_def parser_init_def)

lemma parser_ok_addPending: "parser_ok p \<Longrightarrow> parser_ok (addPending p)"
  by (elim parser_ok_parts)
    (simp add: parser_ok_def addPending_def addTermToStack_def term_flat_combine leaf_shape_term_shape)

lemma parser_ok_setTopOp: "parser_ok p \<Longrightarrow> op \<noteq> Op_None \<Longrightarrow> parser_ok (setTopOp op p)"
  by (elim parser_ok_parts) (simp add: parser_ok_def setTopOp_def)

text \<open>
  The state as it is once the term in construction has been added: all steps but the ones of a
  comparison see only this.
\<close>

definition settle :: "parser \<Rightarrow> parser" where
  "settle p =
     (if Term_isEmpty (p_term p) then p else (setTopOp Op_And (addPending p))\<lparr>p_term := Term_default\<rparr>)"

lemma parser_ok_term: "parser_ok p \<Longrightarrow> Term_isEmpty (p_term p) \<longleftrightarrow> p_term p = Term_default"
  by (simp add: parser_ok_def leaf_shape_term_shape term_shape_empty)

lemma parser_ok_set_term: "parser_ok p \<Longrightarrow> leaf_shape t \<Longrightarrow> parser_ok (p\<lparr>p_term := t\<rparr>)"
  by (simp add: parser_ok_def)

lemma parser_ok_valueExpected [simp]: "parser_ok (p\<lparr>p_valueExpected := b\<rparr>) \<longleftrightarrow> parser_ok p"
  by (simp add: parser_ok_def)

lemma parser_ok_settle: "parser_ok p \<Longrightarrow> parser_ok (settle p)"
  by (simp add: settle_def parser_ok_set_term parser_ok_setTopOp parser_ok_addPending)

lemma settle_fields [simp]:
  "p_valueExpected (settle p) = p_valueExpected p"
  "parser_ok p \<Longrightarrow> p_term (settle p) = Term_default"
  "parser_ok p \<Longrightarrow> settle (settle p) = settle p"
  by (auto simp: settle_def setTopOp_def addPending_def parser_ok_term)

lemma parse_logic_settle: "parser_ok p \<Longrightarrow> parse_logic op p = setTopOp op (settle p)"
  by (auto simp: parse_logic_def settle_def setTopOp_def addPending_def)

lemma parser_eq_term: "p_term p = t \<Longrightarrow> p\<lparr>p_term := t\<rparr> = (p :: parser)"
  by (cases p) simp

lemma parse_open_settle:
  "parser_ok p \<Longrightarrow> parse_open p =
     (settle p)\<lparr>p_stack := Term_default # p_stack (settle p), p_ops := Op_And # p_ops (settle p)\<rparr>"
  by (auto simp: parse_open_def settle_def Let_def parser_ok_term setTopOp_def addPending_def)

lemma parse_literal_settle:
  "parser_ok p \<Longrightarrow> parse_literal w p = (settle p)\<lparr>p_term := Term_leaf [] (token_value w) Cmp_Auto\<rparr>"
  by (auto simp: parse_literal_def settle_def Let_def setTopOp_def addPending_def)

lemma parse_close_settle:
  assumes "parser_ok p" "1 < length (p_stack p)"
  shows "parse_close p = (settle p)\<lparr>
      p_ops := Op_And # tl (tl (p_ops (settle p))),
      p_stack := addTermToStack (hd (p_stack (settle p))) (hd (tl (p_ops (settle p)))) (tl (p_stack (settle p)))\<rparr>"
  using assms
  by (auto simp: parse_close_def settle_def Let_def setTopOp_def addPending_def parser_ok_term addTermToStack_def)

lemma parser_ok_close:
  assumes "parser_ok p"
  shows "parser_ok (parse_close p)"
proof (cases "1 < length (p_stack p)")
  case True
  have "1 < length (p_stack (settle p))"
    using True assms by (elim parser_ok_parts) (simp add: settle_def setTopOp_def addPending_def addTermToStack_def)
  then obtain t t' stack op op' ops where "p_stack (settle p) = t # t' # stack" "p_ops (settle p) = op # op' # ops"
    using parser_ok_settle[OF assms] unfolding parser_ok_def
    by (cases "p_stack (settle p)"; cases "tl (p_stack (settle p))"; cases "p_ops (settle p)";
        cases "tl (p_ops (settle p))") auto
  then show ?thesis
    using parser_ok_settle[OF assms] unfolding parse_close_settle[OF assms True]
    by (simp add: parser_ok_def addTermToStack_def term_flat_combine)
qed (simp add: parse_close_def assms)

lemma parser_ok_token:
  assumes "parser_ok p" "parse_token token p = Some p'"
  shows "parser_ok p'"
proof -
  have "parser_ok (parse_logic op p)" if "op \<noteq> Op_None" for op
    using that by (simp add: parse_logic_settle assms(1) parser_ok_setTopOp parser_ok_settle)
  moreover have "parser_ok (parse_open p)"
    using parser_ok_settle[OF assms(1)] by (simp add: parse_open_settle[OF assms(1)] parser_ok_def)
  moreover have "parser_ok (parse_literal token p)"
    by (simp add: parse_literal_settle assms(1) parser_ok_set_term parser_ok_settle)
  moreover have "parser_ok p'" if "parse_value token p = Some p'"
  proof -
    have "leaf_shape (p_term p)" using assms(1) by (simp add: parser_ok_def)
    moreover have "p_term p \<noteq> Term_default"
      using that by (auto simp: parse_value_def Term_default_def Term_value_def)
    ultimately show ?thesis
      using that assms(1) by (auto simp: parse_value_def Let_def leaf_shape_set parser_ok_set_term split: if_splits)
  qed
  moreover have "parser_ok (p\<lparr>p_term := Term_setComparator (p_term p) c, p_valueExpected := True\<rparr>)"
    if "c \<noteq> Cmp_Auto" for c
    using that assms(1) by (simp add: parser_ok_def leaf_shape_set)
  ultimately show ?thesis
    using assms(2) parser_ok_close[OF assms(1)] by (auto simp: parse_token_def split: if_splits)
qed

lemma parser_ok_tokens: "parser_ok p \<Longrightarrow> parse_tokens tokens p = Some p' \<Longrightarrow> parser_ok p'"
proof (induction tokens arbitrary: p)
  case (Cons token tokens)
  then show ?case using parser_ok_token by (cases "parse_token token p") auto
qed simp

lemma term_shape_close_loop:
  "stack \<noteq> [] \<Longrightarrow> list_all term_shape stack \<Longrightarrow> length stack = 1 \<or> op \<noteq> Op_None \<Longrightarrow>
   term_shape (hd (close_loop op stack))"
proof (induction op stack rule: close_loop.induct)
  case (1 op t t' stack)
  then show ?case by (simp add: addTermToStack_def term_flat_combine)
qed auto

lemma parse_noValue_ok: "parser_ok p \<Longrightarrow> parser_ok (parse_noValue p)"
  by (cases "p_term p") (auto simp: parse_noValue_def parser_ok_def leaf_shape_def Term_default_def)

lemma parse_end_settle:
  assumes "parser_ok p"
  shows "parse_end p = hd (close_loop (hd (tl (p_ops (settle (parse_noValue p))))) (p_stack (settle (parse_noValue p))))"
  by (simp add: parse_end_def settle_def Let_def setTopOp_def addPending_def)

lemma term_shape_end:
  assumes "parser_ok p"
  shows "term_shape (parse_end p)"
proof -
  let ?p = "settle (parse_noValue p)"
  have ok: "parser_ok ?p" by (intro parser_ok_settle parse_noValue_ok assms)
  show ?thesis
    unfolding parse_end_settle[OF assms]
  proof (rule term_shape_close_loop)
    show "p_stack ?p \<noteq> []" "list_all term_shape (p_stack ?p)" using ok by (auto simp: parser_ok_def)
    show "length (p_stack ?p) = 1 \<or> hd (tl (p_ops ?p)) \<noteq> Op_None"
    proof -
      obtain t stack op ops where "p_stack ?p = t # stack" "p_ops ?p = op # ops" "length ops = length stack"
        "list_all (\<lambda>op. op \<noteq> Op_None) ops"
        using ok by (rule parser_ok_parts)
      then show ?thesis by (cases ops) auto
    qed
  qed
qed

lemma QueryParser_parse_shape: "term_shape (QueryParser_parse qt str)"
  using term_shape_end parser_ok_tokens[OF parser_ok_init]
  by (auto simp: QueryParser_parse_def split: option.splits)

section \<open>Expressions\<close>

text \<open>
  The searches a user means: words, comparisons and groups. In front of each member of a group there
  may be an operator; without one the members are joined by \<open>AND\<close>.
\<close>

datatype search_expr =
  Word QString
| Compare QString Term_Comparator QString
| Group "(Term_Operation option \<times> search_expr) list"

definition comparator_token :: "Term_Comparator \<Rightarrow> QString" where
  "comparator_token c = comparatorToString c"

definition connective :: "Term_Operation option \<Rightarrow> Term_Operation" where
  "connective conn = (case conn of None \<Rightarrow> Op_And | Some op \<Rightarrow> op)"

definition connective_tokens :: "Term_Operation option \<Rightarrow> QString list" where
  "connective_tokens conn = (case conn of None \<Rightarrow> [] | Some op \<Rightarrow> [operationToString op])"

fun expr_tokens :: "search_expr \<Rightarrow> QString list" and group_tokens :: "(Term_Operation option \<times> search_expr) list \<Rightarrow> QString list" where
  "expr_tokens (Word w) = [w]"
| "expr_tokens (Compare p c v) = [p, comparator_token c, v]"
| "expr_tokens (Group es) = [[40]] @ group_tokens es @ [[41]]"
| "group_tokens [] = []"
| "group_tokens ((conn, e) # es) = connective_tokens conn @ expr_tokens e @ group_tokens es"

fun expr_term :: "search_expr \<Rightarrow> Term" and group_term :: "Term \<Rightarrow> (Term_Operation option \<times> search_expr) list \<Rightarrow> Term" where
  "expr_term (Word w) = Term_leaf [] (token_value w) Cmp_Auto"
| "expr_term (Compare p c v) = Term_leaf p (token_value v) c"
| "expr_term (Group es) = group_term Term_default es"
| "group_term t [] = t"
| "group_term t ((conn, e) # es) = group_term (Term_combine t (connective conn) (expr_term e)) es"

text \<open>Words that the parser does not take for an operator, comparisons with a property.\<close>

definition word_token :: "QString \<Rightarrow> bool" where
  "word_token w \<longleftrightarrow> w \<noteq> qs ''AND'' \<and> w \<noteq> qs ''OR'' \<and> token_comparator w = Cmp_Auto \<and>
     (w \<noteq> [] \<longrightarrow> hd w \<noteq> 40 \<and> hd w \<noteq> 41)"

fun expr_ok :: "search_expr \<Rightarrow> bool" where
  "expr_ok (Word w) = word_token w"
| "expr_ok (Compare p c v) = (word_token p \<and> p \<noteq> [] \<and> c \<noteq> Cmp_Auto)"
| "expr_ok (Group es) = list_all (\<lambda>(conn, e). conn \<noteq> Some Op_None \<and> expr_ok e) es"

definition push_item :: "Term \<Rightarrow> parser \<Rightarrow> parser" where
  "push_item t p = setTopOp Op_And (p\<lparr>p_stack := addTermToStack t (hd (p_ops p)) (p_stack p)\<rparr>)"

lemma settle_set_term:
  assumes "parser_ok p" "\<not> Term_isEmpty t"
  shows "settle ((settle p)\<lparr>p_term := t\<rparr>) = push_item t (settle p)"
proof -
  have "settle ((settle p)\<lparr>p_term := t\<rparr>) = (push_item t (settle p))\<lparr>p_term := Term_default\<rparr>"
    using assms(2) by (simp add: settle_def[of "(settle p)\<lparr>p_term := t\<rparr>"] push_item_def setTopOp_def addPending_def)
  also have "\<dots> = push_item t (settle p)"
    by (rule parser_eq_term) (simp add: push_item_def setTopOp_def assms(1))
  finally show ?thesis .
qed

lemma parser_ok_push_item: "parser_ok p \<Longrightarrow> term_shape t \<Longrightarrow> parser_ok (push_item t p)"
  unfolding push_item_def
  by (rule parser_ok_setTopOp, elim parser_ok_parts)
    (simp_all add: parser_ok_def addTermToStack_def term_flat_combine)

lemma settle_stable: "p_term p = Term_default \<Longrightarrow> settle p = p"
  by (simp add: settle_def)

lemma push_item_term [simp]: "p_term (push_item t p) = p_term p" "p_valueExpected (push_item t p) = p_valueExpected p"
  by (simp_all add: push_item_def setTopOp_def)

lemma parse_token_word:
  assumes "word_token w" "\<not> p_valueExpected p"
  shows "parse_token w p = Some (parse_literal w p)"
  using assms by (auto simp: parse_token_def word_token_def)

lemma comparator_token_facts:
  "c \<noteq> Cmp_Auto \<Longrightarrow> token_comparator (comparator_token c) = c"
  "c \<noteq> Cmp_Auto \<Longrightarrow> comparator_token c \<noteq> qs ''AND'' \<and> comparator_token c \<noteq> qs ''OR'' \<and>
     comparator_token c \<noteq> [] \<and> hd (comparator_token c) \<noteq> 40 \<and> hd (comparator_token c) \<noteq> 41"
  by (cases c; simp add: comparator_token_def token_comparator_def qs_def)+

lemma operator_token_facts:
  "op \<noteq> Op_None \<Longrightarrow> \<not> p_valueExpected p \<Longrightarrow> parse_token (operationToString op) p = Some (parse_logic op p)"
  "\<not> p_valueExpected p \<Longrightarrow> parse_token [40] p = Some (parse_open p)"
  "\<not> p_valueExpected p \<Longrightarrow> parse_token [41] p = Some (parse_close p)"
  by (cases op; simp add: parse_token_def qs_def)+

lemma parse_tokens_append:
  "parse_tokens (ts @ us) p = Option.bind (parse_tokens ts p) (parse_tokens us)"
  by (induction ts arbitrary: p) (auto split: bind_split)

text \<open>After the tokens of an expression the settled state has its term added to the open one.\<close>

definition reads_item :: "QString list \<Rightarrow> Term \<Rightarrow> bool" where
  "reads_item tokens t \<longleftrightarrow> (\<forall>p. parser_ok p \<longrightarrow> \<not> p_valueExpected p \<longrightarrow>
     (\<exists>p'. parse_tokens tokens p = Some p' \<and> parser_ok p' \<and> \<not> p_valueExpected p' \<and>
        settle p' = push_item t (settle p)))"

definition reads_group :: "(Term_Operation option \<times> search_expr) list \<Rightarrow> bool" where
  "reads_group es \<longleftrightarrow> (\<forall>p. parser_ok p \<longrightarrow> \<not> p_valueExpected p \<longrightarrow> hd (p_ops (settle p)) = Op_And \<longrightarrow>
     (\<exists>p'. parse_tokens (group_tokens es) p = Some p' \<and> parser_ok p' \<and> \<not> p_valueExpected p' \<and>
        settle p' = (settle p)\<lparr>p_stack := group_term (hd (p_stack (settle p))) es # tl (p_stack (settle p))\<rparr>))"

lemma reads_word:
  assumes "word_token w"
  shows "reads_item [w] (Term_leaf [] (token_value w) Cmp_Auto)"
  unfolding reads_item_def
proof (intro allI impI)
  fix p assume p: "parser_ok p" "\<not> p_valueExpected p"
  show "\<exists>p'. parse_tokens [w] p = Some p' \<and> parser_ok p' \<and> \<not> p_valueExpected p' \<and>
      settle p' = push_item (Term_leaf [] (token_value w) Cmp_Auto) (settle p)"
    using p settle_set_term[OF p(1)]
    by (simp add: parse_token_word[OF assms p(2)] parse_literal_settle parser_ok_set_term parser_ok_settle)
qed

lemma reads_compare:
  assumes "word_token w" "w \<noteq> []" "c \<noteq> Cmp_Auto"
  shows "reads_item [w, comparator_token c, v] (Term_leaf w (token_value v) c)"
  unfolding reads_item_def
proof (intro allI impI)
  fix p assume p: "parser_ok p" "\<not> p_valueExpected p"
  have 1: "parse_token w p = Some ((settle p)\<lparr>p_term := Term_leaf [] (token_value w) Cmp_Auto\<rparr>)" (is "_ = Some ?p1")
    using p by (simp add: parse_token_word[OF assms(1)] parse_literal_settle)
  have 2: "parse_token (comparator_token c) ?p1 =
      Some (?p1\<lparr>p_term := Term_setComparator (p_term ?p1) c, p_valueExpected := True\<rparr>)" (is "_ = Some ?p2")
    using comparator_token_facts[OF assms(3)] assms(3) p(2) by (simp add: parse_token_def)
  have 3: "parse_token v ?p2 = Some ((settle p)\<lparr>p_term := Term_leaf w (token_value v) c, p_valueExpected := False\<rparr>)"
    using assms(2,3) by (simp add: parse_token_def parse_value_def Term_leaf_def Term_value_def token_value_def Let_def)
  let ?r = "(settle p)\<lparr>p_term := Term_leaf w (token_value v) c\<rparr>"
  have "(settle p)\<lparr>p_term := Term_leaf w (token_value v) c, p_valueExpected := False\<rparr> = ?r"
    using p(2) by (cases "settle p") (use settle_fields(1)[of p] in simp)
  then have "parse_tokens [w, comparator_token c, v] p = Some ?r"
    using 1 2 3 by simp
  moreover have "parser_ok ?r" by (simp add: parser_ok_set_term parser_ok_settle p)
  moreover have "settle ?r = push_item (Term_leaf w (token_value v) c) (settle p)"
    by (rule settle_set_term[OF p(1)]) simp
  ultimately show "\<exists>p'. parse_tokens [w, comparator_token c, v] p = Some p' \<and> parser_ok p' \<and> \<not> p_valueExpected p' \<and>
      settle p' = push_item (Term_leaf w (token_value v) c) (settle p)"
    using p(2) by auto
qed

lemma reads_group_close:
  assumes "reads_group es"
  shows "reads_item ([[40]] @ group_tokens es @ [[41]]) (group_term Term_default es)"
  unfolding reads_item_def
proof (intro allI impI)
  fix p assume p: "parser_ok p" "\<not> p_valueExpected p"
  let ?p0 = "parse_open p" and ?t = "group_term Term_default es"
  note open_eq = parse_open_settle[OF p(1)]
  have ok0: "parser_ok ?p0" using parser_ok_settle[OF p(1)] by (simp add: open_eq parser_ok_def)
  have st0: "settle ?p0 = ?p0" by (rule settle_stable) (simp add: open_eq p(1))
  obtain p1 where p1: "parse_tokens (group_tokens es) ?p0 = Some p1" "parser_ok p1" "\<not> p_valueExpected p1"
    "settle p1 = ?p0\<lparr>p_stack := group_term (hd (p_stack ?p0)) es # tl (p_stack ?p0)\<rparr>"
    using assms[unfolded reads_group_def, rule_format, OF ok0] st0 p by (auto simp: open_eq)
  have s1: "p_stack (settle p1) = ?t # p_stack (settle p)" "p_ops (settle p1) = Op_And # p_ops (settle p)"
    by (simp_all add: p1(4) open_eq)
  have "p_stack (settle p) \<noteq> []" using parser_ok_settle[OF p(1)] by (simp add: parser_ok_def)
  moreover have "length (p_stack (settle p1)) = length (p_stack p1)"
    using p1(2) by (elim parser_ok_parts) (simp add: settle_def setTopOp_def addPending_def addTermToStack_def)
  ultimately have "1 < length (p_stack p1)" using s1(1) by (cases "p_stack (settle p)") auto
  then have close: "parse_close p1 = push_item ?t (settle p)"
    by (simp add: parse_close_settle[OF p1(2)] s1) (simp add: p1(4) open_eq push_item_def setTopOp_def)
  have "settle (push_item ?t (settle p)) = push_item ?t (settle p)" by (rule settle_stable) (simp add: p(1))
  then show "\<exists>p'. parse_tokens ([[40]] @ group_tokens es @ [[41]]) p = Some p' \<and> parser_ok p' \<and>
      \<not> p_valueExpected p' \<and> settle p' = push_item ?t (settle p)"
    using p1(1,3) p parser_ok_close[OF p1(2)]
    by (simp add: parse_tokens_append operator_token_facts close)
qed

lemma reads_member:
  assumes "reads_item (expr_tokens e) (expr_term e)" "reads_group es" "conn \<noteq> Some Op_None"
  shows "reads_group ((conn, e) # es)"
  unfolding reads_group_def
proof (intro allI impI)
  fix p assume p: "parser_ok p" "\<not> p_valueExpected p" "hd (p_ops (settle p)) = Op_And"
  obtain q where q: "parse_tokens (connective_tokens conn) p = Some q" "parser_ok q" "\<not> p_valueExpected q"
    "settle q = setTopOp (connective conn) (settle p)"
  proof (cases conn)
    case None
    have "setTopOp Op_And (settle p) = settle p"
      using parser_ok_settle[OF p(1)] p(3) by (elim parser_ok_parts) (cases "settle p", simp add: setTopOp_def)
    then show ?thesis using None p that[of p] by (simp add: connective_tokens_def connective_def)
  next
    case (Some op)
    then have op: "op \<noteq> Op_None" using assms(3) by simp
    have "settle (setTopOp op (settle p)) = setTopOp op (settle p)"
      by (rule settle_stable) (simp add: setTopOp_def p(1))
    then show ?thesis
      using Some op p that[of "parse_logic op p"] operator_token_facts(1)[OF op p(2)]
      by (simp add: connective_tokens_def connective_def parse_logic_settle parser_ok_setTopOp parser_ok_settle)
        (simp add: setTopOp_def)
  qed
  obtain r where r: "parse_tokens (expr_tokens e) q = Some r" "parser_ok r" "\<not> p_valueExpected r"
    "settle r = push_item (expr_term e) (settle q)"
    using assms(1) q(2,3) unfolding reads_item_def by blast
  have top: "settle r = (settle p)\<lparr>p_ops := Op_And # tl (p_ops (settle p)),
      p_stack := Term_combine (hd (p_stack (settle p))) (connective conn) (expr_term e) # tl (p_stack (settle p))\<rparr>"
    unfolding r(4) q(4) by (simp add: push_item_def setTopOp_def addTermToStack_def)
  then have "hd (p_ops (settle r)) = Op_And" by simp
  then obtain p' where p': "parse_tokens (group_tokens es) r = Some p'" "parser_ok p'" "\<not> p_valueExpected p'"
    "settle p' = (settle r)\<lparr>p_stack := group_term (hd (p_stack (settle r))) es # tl (p_stack (settle r))\<rparr>"
    using assms(2) r(2,3) unfolding reads_group_def by blast
  have "Op_And # tl (p_ops (settle p)) = p_ops (settle p)"
    using parser_ok_settle[OF p(1)] p(3) by (elim parser_ok_parts) simp
  then have "(settle p)\<lparr>p_ops := Op_And # tl (p_ops (settle p))\<rparr> = settle p" by simp
  then have "settle p' = (settle p)\<lparr>p_stack := group_term (hd (p_stack (settle p))) ((conn, e) # es) # tl (p_stack (settle p))\<rparr>"
    by (simp add: p'(4) top)
  then show "\<exists>p'. parse_tokens (group_tokens ((conn, e) # es)) p = Some p' \<and> parser_ok p' \<and> \<not> p_valueExpected p' \<and>
      settle p' = (settle p)\<lparr>p_stack := group_term (hd (p_stack (settle p))) ((conn, e) # es) # tl (p_stack (settle p))\<rparr>"
    using q(1) r(1) p'(1-3) by (simp add: parse_tokens_append)
qed

lemma reads_expr:
  "expr_ok e \<Longrightarrow> reads_item (expr_tokens e) (expr_term e)"
  "list_all (\<lambda>(conn, e). conn \<noteq> Some Op_None \<and> expr_ok e) es \<Longrightarrow> reads_group es"
proof (induction e and es rule: expr_tokens_group_tokens.induct)
  case 4
  show ?case unfolding reads_group_def
  proof (intro allI impI)
    fix p assume p: "parser_ok p" "\<not> p_valueExpected p"
    have "p_stack (settle p) \<noteq> []" using parser_ok_settle[OF p(1)] by (simp add: parser_ok_def)
    then show "\<exists>p'. parse_tokens (group_tokens []) p = Some p' \<and> parser_ok p' \<and> \<not> p_valueExpected p' \<and>
      settle p' = (settle p)\<lparr>p_stack := group_term (hd (p_stack (settle p))) [] # tl (p_stack (settle p))\<rparr>"
      using p by simp
  qed
qed (auto simp: reads_word reads_compare intro: reads_member dest: reads_group_close)

lemma QueryParser_parse_group:
  assumes "isSpace_ok qt" "expr_ok (Group es)" "\<forall>t \<in> set (group_tokens es). 34 \<notin> set t"
  shows "QueryParser_parse qt (print_tokens qt (group_tokens es)) = expr_term (Group es)"
proof -
  have settled: "settle parser_init = parser_init" by (rule settle_stable) (simp add: parser_init_def)
  have "list_all (\<lambda>(conn, e). conn \<noteq> Some Op_None \<and> expr_ok e) es" using assms(2) by simp
  from reads_expr(2)[OF this, unfolded reads_group_def, rule_format, OF parser_ok_init]
  obtain p where p: "parse_tokens (group_tokens es) parser_init = Some p" "parser_ok p" "\<not> p_valueExpected p"
    "settle p = parser_init\<lparr>p_stack := [group_term Term_default es]\<rparr>"
    unfolding settled by (auto simp: parser_init_def)
  have "parse_noValue p = p" using p(3) by (simp add: parse_noValue_def)
  then have "parse_end p = group_term Term_default es"
    by (simp add: parse_end_settle[OF p(2)] p(4))
  then show ?thesis using p(1) by (simp add: QueryParser_parse_def lex_print_tokens[OF assms(1,3)])
qed

end
