(* ===== verification/SearchResults.thy ===== *)
theory SearchResults
  imports SearchExec QueryResults ParseResults
begin

text \<open>
  What a search finds, in terms of the tables: \<open>term_docs\<close> is the set of documents of a term, and
  \<open>constructQuery\<close> makes an iterator over exactly this set. No iterator of the engine is mentioned in
  the specification; \<open>leaf_docs\<close> follows the meaning of the properties.
\<close>

section \<open>Leaves\<close>

definition posts :: "'s lmdb \<Rightarrow> 's \<Rightarrow> bytes \<Rightarrow> u64 set" where
  "posts L s t = set (PostingDB_get L postingDbi s t)"

definition prefix_posts :: "'s lmdb \<Rightarrow> 's \<Rightarrow> bytes \<Rightarrow> (bytes \<Rightarrow> bool) \<Rightarrow> u64 set" where
  "prefix_posts L s pre validate = (\<Union>t \<in> {t. startsWith t pre \<and> validate t}. posts L s t)"

text \<open>
  A text under the prefix \<open>pre\<close>: one word is the list of its term, or of all terms it begins when the
  last word may be incomplete; of several words, the documents that have them all and satisfy \<open>P\<close>.
\<close>

definition text_docs :: "'s lmdb \<Rightarrow> 's \<Rightarrow> bytes \<Rightarrow> bytes list \<Rightarrow> bool \<Rightarrow> (u64 \<Rightarrow> bool) \<Rightarrow> u64 set" where
  "text_docs L s pre terms expand P =
     (case terms of
        [] \<Rightarrow> {}
      | [t] \<Rightarrow> if expand then prefix_posts L s (pre @ t) (\<lambda>_. True) else posts L s (pre @ t)
      | _ \<Rightarrow> {i. (\<forall>t \<in> set terms. i \<in> posts L s (pre @ t)) \<and> P i})"

definition words_docs :: "'s lmdb \<Rightarrow> 's \<Rightarrow> bytes \<Rightarrow> bytes list \<Rightarrow> bool \<Rightarrow> u64 set" where
  "words_docs L s pre terms expand =
     (case terms of
        [] \<Rightarrow> {}
      | [t] \<Rightarrow> if expand \<and> 3 \<le> length t then prefix_posts L s (pre @ t) (\<lambda>_. True) else posts L s (pre @ t)
      | _ \<Rightarrow> phrase_docs L s (map (\<lambda>t. pre @ t) terms))"

lemma gives_key:
  assumes "postings_proper L s"
  shows "gives 1 (Transaction_postingIterator_key L s t) (posts L s t)"
  using PostingDB_iter_rest[OF assms, of t]
  by (auto simp: Transaction_postingIterator_key_def posts_def split: option.splits)

lemma gives_validate:
  assumes "lmdb_ok L" "postings_proper L s"
  shows "\<exists>r. PostingDB_iter_validate L postingDbi s pre validate = Some r \<and>
    gives 2 r (prefix_posts L s pre validate)"
proof -
  obtain r where r: "PostingDB_iter_validate L postingDbi s pre validate = Some r"
    "case r of
       None \<Rightarrow> \<forall>t. startsWith t pre \<longrightarrow> validate t \<longrightarrow> PostingDB_get L postingDbi s t = []
     | Some it \<Rightarrow> fresh 2 it \<and>
         set (iter_rest 2 it) = (\<Union>t \<in> {t. startsWith t pre \<and> validate t}. set (PostingDB_get L postingDbi s t))"
    using PostingDB_iter_validate_rest[OF assms, of pre validate] by blast
  then have "gives 2 r (prefix_posts L s pre validate)"
    by (cases r) (auto simp: prefix_posts_def posts_def)
  with r(1) show ?thesis by blast
qed

lemma gives_text_query:
  assumes "lmdb_ok L" "postings_proper L s"
    and rest: "2 \<le> length (q_terms q) \<Longrightarrow> \<exists>r. text_query_iter L s pre q rest = Some r \<and>
      gives 1 r {i. (\<forall>t \<in> set (q_terms q). i \<in> set (PostingDB_get L postingDbi s (pre @ t))) \<and> P i}"
  shows "\<exists>r. text_query_iter L s pre q rest = Some r \<and>
    gives 2 r (text_docs L s pre (q_terms q) (q_expandLast q) P)"
proof (cases "2 \<le> length (q_terms q)")
  case True
  then obtain t t2 ts where terms: "q_terms q = t # t2 # ts"
    by (cases "q_terms q"; cases "tl (q_terms q)") auto
  have "text_docs L s pre (q_terms q) (q_expandLast q) P =
      {i. (\<forall>t \<in> set (q_terms q). i \<in> set (PostingDB_get L postingDbi s (pre @ t))) \<and> P i}"
    by (simp add: text_docs_def terms posts_def)
  then show ?thesis using rest[OF True] gives_mono[of 1 _ _ 2] by auto
next
  case False
  then consider "q_terms q = []" | t where "q_terms q = [t]"
    by (cases "q_terms q"; cases "tl (q_terms q)") auto
  then show ?thesis
  proof cases
    case 1
    then show ?thesis by (simp add: text_query_iter_def text_docs_def)
  next
    case (2 t)
    then show ?thesis
      using gives_validate[OF assms(1,2), of "pre @ t" "\<lambda>_. True"]
        gives_mono[OF gives_key[OF assms(2), of "pre @ t"], of 2]
      by (simp add: text_query_iter_def text_docs_def PostingDB_prefixIter_def Transaction_postingIterator_key_def
          del: gives_simps)
  qed
qed

lemma gives_equals_query:
  assumes "lmdb_ok L" "postings_proper L s" "positions_proper L s"
  shows "\<exists>r. constructEqualsQuery qt L s pre val expandLast = Some r \<and>
    gives 2 r (words_docs L s pre (TermGenerator_termList qt val) expandLast)"
proof (cases "2 \<le> length (TermGenerator_termList qt val)")
  case True
  let ?terms = "TermGenerator_termList qt val"
  let ?q = "map (\<lambda>t. \<lparr>m_term = pre @ t, m_op = Equal\<rparr>) ?terms"
  obtain t t2 ts where terms: "?terms = t # t2 # ts"
    using True by (cases ?terms; cases "tl ?terms") auto
  have len: "2 \<le> length ?q" using True by simp
  have "map m_term ?q = map (\<lambda>t. pre @ t) ?terms" by simp
  then have "words_docs L s pre ?terms expandLast = phrase_docs L s (map m_term ?q)"
    by (simp add: words_docs_def terms comp_def)
  moreover obtain r where "Transaction_postingIterator_EngineQuery L s ?q = Some r"
    "gives 1 r (phrase_docs L s (map m_term ?q))"
    using engine_query_phrase[OF assms(3) len] by blast
  ultimately show ?thesis
    using gives_mono[of 1 r _ 2] by (simp add: constructEqualsQuery_def Let_def terms del: gives_simps list.map)
next
  case False
  then consider "TermGenerator_termList qt val = []" | t where "TermGenerator_termList qt val = [t]"
    by (cases "TermGenerator_termList qt val"; cases "tl (TermGenerator_termList qt val)") auto
  then show ?thesis
  proof cases
    case 1
    then show ?thesis by (simp add: constructEqualsQuery_def words_docs_def)
  next
    case (2 t)
    then show ?thesis
      using gives_validate[OF assms(1,2), of "pre @ t" "\<lambda>_. True"]
        gives_mono[OF gives_key[OF assms(2), of "pre @ t"], of 2]
      by (simp add: constructEqualsQuery_def words_docs_def Transaction_postingPrefixIterator_def
          PostingDB_prefixIter_def Let_def del: gives_simps)
  qed
qed

section \<open>The documents of a leaf\<close>

definition filename_docs :: "qt_text \<Rightarrow> 's lmdb \<Rightarrow> 's \<Rightarrow> bytes list \<Rightarrow> bool \<Rightarrow> u64 set" where
  "filename_docs qt L s terms expand =
     text_docs L s (lit ''F'') terms (expandLast_of terms expand)
       (\<lambda>i. sublist terms (TermGenerator_termList qt (qt_fromUtf8 qt (name (IdFilenameDB_get_path L idFilenameDbi s i)))))"

definition mimetype_docs ::
  "qt_text \<Rightarrow> ('d, 't) search_api \<Rightarrow> 's lmdb \<Rightarrow> 's \<Rightarrow> bytes list \<Rightarrow> bool \<Rightarrow> u64 set" where
  "mimetype_docs qt A L s terms expand =
     text_docs L s (lit ''M'') terms (expandLast_of terms expand)
       (\<lambda>i. let type = mimetype_of_data (sa_jsonString A) L s i
            in if type = [] then i \<in> phrase_docs L s (map (\<lambda>t. lit ''M'' @ t) terms)
               else sublist terms (TermGenerator_termList qt type))"

definition property_docs ::
  "qt_text \<Rightarrow> ('d, 't) search_api \<Rightarrow> 's lmdb \<Rightarrow> 's \<Rightarrow> bytes \<Rightarrow> bytes list \<Rightarrow> bool \<Rightarrow> u64 set" where
  "property_docs qt A L s infix' terms expand =
     text_docs L s (lit ''X'' @ infix' @ lit ''-'') terms (expandLast_of terms expand)
       (\<lambda>i. let data = DocumentDataDB_get L docDataDbi s i;
                val = (if data = [] then [] else sa_jsonString A data (qt_fromUtf8 qt infix'))
            in val \<noteq> [] \<and> sublist terms (TermGenerator_termList qt val))"

definition folder_docs :: "qt_text \<Rightarrow> 's lmdb \<Rightarrow> 's \<Rightarrow> QString \<Rightarrow> u64 set" where
  "folder_docs qt L s val =
     (let folder = qt_toUtf8 qt val;
          i = Transaction_documentId L s folder
      in if startsWith folder [slash] \<and> i \<noteq> 0 then subtree (url_tree L s) i else {})"

definition type_docs :: "('d, 't) search_api \<Rightarrow> 's lmdb \<Rightarrow> 's \<Rightarrow> QString \<Rightarrow> u64 set" where
  "type_docs A L s val =
     (case sa_type A val of None \<Rightarrow> {} | Some num \<Rightarrow> posts L s (lit ''T'' @ sa_number A num))"

definition time_docs :: "'s lmdb \<Rightarrow> 's \<Rightarrow> u32 \<times> u32 \<Rightarrow> u64 set" where
  "time_docs L s be = (\<Union>t \<in> {fst be..snd be}. set (MTimeDB_get L mtimeDbi s t))"

text \<open>
  Comparisons: of 64-bit numbers as meant, but for \<open>>\<close> at the greatest and \<open><\<close> at the smallest number;
  of doubles and dates, \<open>>\<close> is answered as \<open>>=\<close> and \<open><\<close> as \<open><=\<close>.
\<close>

definition int_compares :: "Term_Comparator \<Rightarrow> 64 word \<Rightarrow> 64 word \<Rightarrow> bool" where
  "int_compares com x v \<longleftrightarrow>
     (if com = Cmp_Greater then v <s x \<or> x = v \<and> v = 0x7FFFFFFFFFFFFFFF
      else if com = Cmp_Less then x <s v \<or> x = v \<and> v = 0x8000000000000000
      else if com = Cmp_GreaterEqual then v \<le>s x
      else x \<le>s v)"

definition le_compares :: "('v \<Rightarrow> 'v \<Rightarrow> bool) \<Rightarrow> Term_Comparator \<Rightarrow> 'v \<Rightarrow> 'v \<Rightarrow> bool" where
  "le_compares le com x v \<longleftrightarrow> (if com = Cmp_Greater \<or> com = Cmp_GreaterEqual then le v x else le x v)"

definition parsed_docs ::
  "'s lmdb \<Rightarrow> 's \<Rightarrow> bytes \<Rightarrow> (bytes \<Rightarrow> 'v option) \<Rightarrow> ('v \<Rightarrow> bool) \<Rightarrow> u64 set" where
  "parsed_docs L s pre parse P =
     prefix_posts L s pre (\<lambda>arr. case parse (drop (length pre) arr) of None \<Rightarrow> False | Some x \<Rightarrow> P x)"

definition compare_docs ::
  "qt_text \<Rightarrow> ('d, 't) search_api \<Rightarrow> 's lmdb \<Rightarrow> 's \<Rightarrow> bytes \<Rightarrow> ValueType \<Rightarrow> QString \<Rightarrow> Term_Comparator \<Rightarrow> u64 set" where
  "compare_docs qt A L s pre valueType val com =
     (if valueType = VT_Int then
        (case sa_toLongLong A val of
           None \<Rightarrow> {}
         | Some v \<Rightarrow> parsed_docs L s pre (sa_toLongLong_bytes A) (\<lambda>x. int_compares com x v))
      else if valueType = VT_Double then
        (case sa_toDouble A val of
           None \<Rightarrow> {}
         | Some v \<Rightarrow> parsed_docs L s pre (sa_toDouble_bytes A) (\<lambda>x. le_compares (sa_double_le A) com x v))
      else if valueType = VT_QDateTime then
        (case sa_dateTime A val of
           None \<Rightarrow> {}
         | Some dt \<Rightarrow> parsed_docs L s pre Some (\<lambda>x. le_compares (\<le>) com x (qt_toUtf8 qt (dt_toString dt))))
      else {})"

lemma gives_parsed:
  assumes "lmdb_ok L" "postings_proper L s"
    and "\<And>x. (com = LessEqual \<and> le x v \<or> com = GreaterEqual \<and> le v x) \<longleftrightarrow> P x"
  shows "\<exists>r. Transaction_postingCompIterator parse le L s pre v com = Some r \<and>
    gives 2 r (parsed_docs L s pre parse P)"
proof -
  have "(\<lambda>arr. case parse (drop (length pre) arr) of
         None \<Rightarrow> False
       | Some x \<Rightarrow> com = LessEqual \<and> le x v \<or> com = GreaterEqual \<and> le v x) =
     (\<lambda>arr. case parse (drop (length pre) arr) of None \<Rightarrow> False | Some x \<Rightarrow> P x)"
    unfolding assms(3) ..
  then show ?thesis
    using gives_validate[OF assms(1,2)]
    by (simp add: Transaction_postingCompIterator_def PostingDB_compIter_def parsed_docs_def)
qed

lemma word_sless_inc: "v <s (0x7FFFFFFFFFFFFFFF :: 64 word) \<Longrightarrow> v + 1 \<le>s x \<longleftrightarrow> v <s x"
proof -
  assume "v <s (0x7FFFFFFFFFFFFFFF :: 64 word)"
  then have "sint v < 9223372036854775807" by (simp add: word_sless_alt)
  moreover have "- 9223372036854775808 \<le> sint v" using sint_ge[of v] by simp
  ultimately have "sint (v + 1) = sint v + 1"
    by (simp add: sint_word_ariths signed_take_bit_int_eq_self)
  then show ?thesis by (auto simp: word_sless_alt word_sle_eq)
qed

lemma word_sless_dec: "(0x8000000000000000 :: 64 word) <s v \<Longrightarrow> x \<le>s v - 1 \<longleftrightarrow> x <s v"
proof -
  assume "(0x8000000000000000 :: 64 word) <s v"
  then have "- 9223372036854775808 < sint v" by (simp add: word_sless_alt)
  moreover have "sint v < 9223372036854775808" using sint_lt[of v] by simp
  ultimately have "sint (v - 1) = sint v - 1"
    by (simp add: sint_word_ariths signed_take_bit_int_eq_self)
  then show ?thesis by (auto simp: word_sless_alt word_sle_eq)
qed

lemma word_sle_max: "v \<le>s (0x7FFFFFFFFFFFFFFF :: 64 word)" "(0x8000000000000000 :: 64 word) \<le>s v"
  using sint_lt[of v] sint_ge[of v] by (simp_all add: word_sle_eq)

lemma gives_compare:
  assumes "lmdb_ok L" "postings_proper L s"
  shows "\<exists>r. compare_query qt A L s pre valueType val com = Some r \<and>
    gives 2 r (compare_docs qt A L s pre valueType val com)"
proof -
  have int: "\<exists>r. Transaction_postingCompIterator (sa_toLongLong_bytes A) (\<le>s) L s pre
      (if com = Cmp_Greater \<and> v <s 0x7FFFFFFFFFFFFFFF then v + 1
       else if com = Cmp_Less \<and> 0x8000000000000000 <s v then v - 1 else v) (compare_pcom com) = Some r \<and>
    gives 2 r (parsed_docs L s pre (sa_toLongLong_bytes A) (\<lambda>x. int_compares com x v))" for v
  proof (rule gives_parsed[OF assms])
    fix x :: "64 word"
    have max: "\<not> v <s 0x7FFFFFFFFFFFFFFF \<longleftrightarrow> v = 0x7FFFFFFFFFFFFFFF" "\<not> 0x8000000000000000 <s v \<longleftrightarrow> v = 0x8000000000000000"
      using word_sle_max[of v] by (auto simp: signed.less_le)
    have top: "0x7FFFFFFFFFFFFFFF \<le>s x \<longleftrightarrow> x = 0x7FFFFFFFFFFFFFFF" "x \<le>s 0x8000000000000000 \<longleftrightarrow> x = 0x8000000000000000"
      using word_sle_max[of x] by (auto intro: signed.order.antisym)
    show "(compare_pcom com = LessEqual \<and> x \<le>s (if com = Cmp_Greater \<and> v <s 0x7FFFFFFFFFFFFFFF then v + 1
       else if com = Cmp_Less \<and> 0x8000000000000000 <s v then v - 1 else v) \<or>
      compare_pcom com = GreaterEqual \<and> (if com = Cmp_Greater \<and> v <s 0x7FFFFFFFFFFFFFFF then v + 1
       else if com = Cmp_Less \<and> 0x8000000000000000 <s v then v - 1 else v) \<le>s x) \<longleftrightarrow> int_compares com x v"
    proof (cases "com = Cmp_Greater")
      case True
      then show ?thesis
        using word_sless_inc[of v x] max(1) top(1) by (auto simp: int_compares_def compare_pcom_def)
    next
      case g: False
      show ?thesis
      proof (cases "com = Cmp_Less")
        case True
        then show ?thesis
          using word_sless_dec[of v x] max(2) top(2) by (auto simp: int_compares_def compare_pcom_def)
      next
        case False
        then show ?thesis using g by (auto simp: int_compares_def compare_pcom_def)
      qed
    qed
  qed
  have le: "\<exists>r. Transaction_postingCompIterator parse le L s pre v (compare_pcom com) = Some r \<and>
      gives 2 r (parsed_docs L s pre parse (\<lambda>x. le_compares le com x v))"
    for v :: 'v and le and parse
    by (rule gives_parsed[OF assms]) (auto simp: le_compares_def compare_pcom_def)
  have bytes: "Transaction_postingCompIterator_bytes L s pre v com' =
      Transaction_postingCompIterator Some (\<le>) L s pre v com'" for v com'
    by (simp add: Transaction_postingCompIterator_bytes_def Transaction_postingCompIterator_def PostingDB_compIter_bytes_def)
  show ?thesis
  proof (cases valueType)
    case VT_Int
    then show ?thesis
      using int by (cases "sa_toLongLong A val") (simp_all add: compare_query_def compare_docs_def Let_def del: gives_simps(2))
  next
    case VT_Double
    then show ?thesis
      using le[of "sa_toDouble_bytes A" "sa_double_le A"]
      by (cases "sa_toDouble A val") (simp_all add: compare_query_def compare_docs_def del: gives_simps(2))
  next
    case VT_QDateTime
    then show ?thesis
      using le[of Some "(\<le>)"]
      by (cases "sa_dateTime A val") (simp_all add: compare_query_def compare_docs_def bytes del: gives_simps(2))
  qed (simp_all add: compare_query_def compare_docs_def)
qed

end
