(* ===== verification/SearchTerms.thy ===== *)
theory SearchTerms
  imports SearchResults
begin

text \<open>
  \<open>constructQuery\<close> against the documents of a term: \<open>leaf_docs\<close> for terms without subterms, and for
  \<open>AND\<close> and \<open>OR\<close> the intersection and the union. With these also \<open>constructFromQuery\<close> and \<open>exec\<close>.
\<close>

text \<open>What the tables of an index satisfy.\<close>

definition search_index :: "'s lmdb \<Rightarrow> 's \<Rightarrow> (u64 \<Rightarrow> nat) \<Rightarrow> bool" where
  "search_index L s rk \<longleftrightarrow> postings_proper L s \<and> positions_proper L s \<and> url_inv L s \<and>
     ranked rk (url_tree L s) \<and> (\<forall>t. 0 \<notin> set (MTimeDB_get L mtimeDbi s t))"

text \<open>The names of the scopes are ASCII and lower case.\<close>

definition lower_ok :: "qt_text \<Rightarrow> ('d, 't) search_api \<Rightarrow> bool" where
  "lower_ok qt A \<longleftrightarrow>
     list_all (\<lambda>w. qt_toUtf8 qt (sa_toLower A (qs w)) = lit w) [''filename'', ''content'', ''metadata'', ''tags'']"

section \<open>Leaves\<close>

definition properties_docs ::
  "qt_text \<Rightarrow> ('d, 't) search_api \<Rightarrow> 's lmdb \<Rightarrow> 's \<Rightarrow> bytes \<Rightarrow> QString \<Rightarrow> Term_Comparator \<Rightarrow> u64 set" where
  "properties_docs qt A L s property val c =
     (let terms = TermGenerator_termList qt val;
          (isProperty, pre, valueType) =
            (if property \<noteq> [] then propertyInfo qt A property else (False, [], VT_QString));
          pre' = (if isProperty then lit ''X'' @ pre @ lit ''-'' else pre)
      in if isProperty \<and> valueType = VT_QString then property_docs qt A L s pre terms (c = Cmp_Contains)
         else if c = Cmp_Contains \<and> valueType \<noteq> VT_Int then words_docs L s pre' terms True
         else if c = Cmp_Equal \<or> c = Cmp_Contains then words_docs L s pre' terms False
         else compare_docs qt A L s pre' valueType val c)"

text \<open>The terms that are answered by themselves, \<open>property\<close> being the name of the property.\<close>

definition basic_docs ::
  "qt_text \<Rightarrow> ('d, 't) search_api \<Rightarrow> 's lmdb \<Rightarrow> 's \<Rightarrow> bytes \<Rightarrow> QString \<Rightarrow> Term_Comparator \<Rightarrow> u64 set" where
  "basic_docs qt A L s property val c =
     (let terms = TermGenerator_termList qt val
      in if property \<in> {lit ''type'', lit ''kind''} then type_docs A L s val
         else if property = lit ''includefolder'' then folder_docs qt L s val
         else if property \<in> {lit ''modified'', lit ''mtime''} then time_docs L s (calculateTimeRange A val c)
         else if property = lit ''tag'' then posts L s (lit ''TAG-'' @ qt_toUtf8 qt val)
         else if property = lit ''filename'' then filename_docs qt L s terms (c = Cmp_Contains)
         else if property = lit ''mimetype'' then mimetype_docs qt A L s terms (c = Cmp_Contains)
         else if property = lit ''metadata'' then
           (\<Union>infix' \<in> set (defaultIndexedProperties A). property_docs qt A L s infix' terms (c = Cmp_Contains))
         else properties_docs qt A L s property val c)"

definition special_names :: "bytes set" where
  "special_names = lit ` {''type'', ''kind'', ''includefolder'', ''modified'', ''mtime'', ''tag'', ''filename'',
     ''mimetype'', ''metadata''}"

definition unknown_property :: "qt_text \<Rightarrow> ('d, 't) search_api \<Rightarrow> bytes \<Rightarrow> bool" where
  "unknown_property qt A property \<longleftrightarrow> property \<noteq> [] \<and> property \<notin> special_names \<and>
     snd (snd (propertyInfo qt A property)) = VT_UnknownType"

text \<open>
  A \<open>tag\<close> that is not compared for equality is looked up as \<open>tags\<close>; a property that is not known is
  searched as a text, with its operator and value, in the names, contents and metadata.
\<close>

definition leaf_docs ::
  "qt_text \<Rightarrow> ('d, 't) search_api \<Rightarrow> 's lmdb \<Rightarrow> 's \<Rightarrow> Term \<Rightarrow> u64 set" where
  "leaf_docs qt A L s t =
     (let property = qt_toUtf8 qt (sa_toLower A (Term_property t));
          val = Term_value t;
          c = Term_comparator t
      in if Term_valueOrNull t = None then {}
         else if property = lit ''tag'' \<and> c \<noteq> Cmp_Equal then
           basic_docs qt A L s (lit ''tags'') val (if c = Cmp_Auto then Cmp_Contains else c)
         else if unknown_property qt A property then
           (\<Union>scope \<in> {''filename'', ''content'', ''metadata''}.
              basic_docs qt A L s (lit scope) (reconstructFromTerm t) Cmp_Equal)
         else basic_docs qt A L s property val c)"

lemma lit_inject: "lit v = lit w \<longleftrightarrow> v = w"
proof
  have "inj (\<lambda>c. word_of_nat (of_char c) :: u8)"
  proof (rule injI)
    fix a b :: char
    assume "(word_of_nat (of_char a) :: u8) = word_of_nat (of_char b)"
    then have "unat (word_of_nat (of_char a) :: u8) = unat (word_of_nat (of_char b) :: u8)" by simp
    then have "of_char a mod 256 = (of_char b mod 256 :: nat)" by (simp only: unat_of_nat) simp
    then show "a = b" by (simp only: of_char_mod_256 of_char_eq_iff)
  qed
  then show "lit v = lit w \<Longrightarrow> v = w" by (simp add: lit_def inj_map_eq_map)
qed simp

section \<open>Iterators of the leaves\<close>

lemma search_found_sublist_terms: "2 \<le> length terms \<Longrightarrow> search_found xs terms = sublist terms xs"
  by (auto simp: search_found_sublist)

text \<open>The set of an answer may be given by any predicate that agrees with \<open>P\<close> for two terms or more.\<close>

lemma text_docs_cong:
  "(\<And>i. 2 \<le> length terms \<Longrightarrow> P i = Q i) \<Longrightarrow> text_docs L s pre terms expand P = text_docs L s pre terms expand Q"
  by (auto simp: text_docs_def split: list.split)

lemma gives_filename:
  assumes "lmdb_ok L" "search_index L s rk"
  shows "\<exists>r. Transaction_postingIterator_FilenameQuery qt L s (FilenameQuery_new qt val expand) = Some r \<and>
    gives 2 r (filename_docs qt L s (TermGenerator_termList qt val) expand)"
proof -
  let ?q = "FilenameQuery_new qt val expand"
  have post: "postings_proper L s" using assms(2) by (simp add: search_index_def)
  have q: "q_terms ?q = TermGenerator_termList qt val" "q_expandLast ?q = expandLast_of (q_terms ?q) expand"
    by (simp_all add: FilenameQuery_new_def Let_def)
  have "\<exists>r. Transaction_postingIterator_FilenameQuery qt L s ?q = Some r \<and>
    gives 2 r (text_docs L s (lit ''F'') (q_terms ?q) (q_expandLast ?q)
      (\<lambda>i. FilenameQuery_match qt ?q (name (IdFilenameDB_get_path L idFilenameDbi s i))))"
    unfolding Transaction_postingIterator_FilenameQuery_def
    by (rule gives_text_query[OF assms(1) post]) (rule text_query_filter[OF post])
  moreover have "text_docs L s (lit ''F'') (q_terms ?q) (q_expandLast ?q)
      (\<lambda>i. FilenameQuery_match qt ?q (name (IdFilenameDB_get_path L idFilenameDbi s i))) =
    filename_docs qt L s (TermGenerator_termList qt val) expand"
    unfolding filename_docs_def q(2) unfolding q(1)
    by (rule text_docs_cong) (simp add: FilenameQuery_match_def q(1) search_found_sublist_terms)
  ultimately show ?thesis by simp
qed

lemma gives_property:
  assumes "lmdb_ok L" "search_index L s rk"
  shows "\<exists>r. Transaction_postingIterator_PropertyPhraseQuery qt (sa_jsonString A) L s
      (PropertyPhraseQuery_new qt val infix' expand) = Some r \<and>
    gives 2 r (property_docs qt A L s infix' (TermGenerator_termList qt val) expand)"
proof -
  let ?q = "PropertyPhraseQuery_new qt val infix' expand"
  have post: "postings_proper L s" using assms(2) by (simp add: search_index_def)
  have q: "q_terms ?q = TermGenerator_termList qt val" "q_expandLast ?q = expandLast_of (q_terms ?q) expand"
    "q_property ?q = infix'"
    by (simp_all add: PropertyPhraseQuery_new_def Let_def)
  let ?P = "\<lambda>i. let data = DocumentDataDB_get L docDataDbi s i;
                type = (if data = [] then [] else sa_jsonString A data (qt_fromUtf8 qt infix'))
            in type \<noteq> [] \<and> PropertyPhraseQuery_match qt ?q type"
  have "\<exists>r. Transaction_postingIterator_PropertyPhraseQuery qt (sa_jsonString A) L s ?q = Some r \<and>
    gives 2 r (text_docs L s (lit ''X'' @ infix' @ lit ''-'') (q_terms ?q) (q_expandLast ?q) ?P)"
    unfolding Transaction_postingIterator_PropertyPhraseQuery_def q(3) Let_def
    by (rule gives_text_query[OF assms(1) post]) (rule text_query_filter[OF post])
  moreover have "text_docs L s (lit ''X'' @ infix' @ lit ''-'') (q_terms ?q) (q_expandLast ?q) ?P =
    property_docs qt A L s infix' (TermGenerator_termList qt val) expand"
    unfolding property_docs_def q(2) unfolding q(1)
    by (rule text_docs_cong) (simp add: PropertyPhraseQuery_match_def q(1) search_found_sublist_terms Let_def)
  ultimately show ?thesis by simp
qed

lemma gives_mimetype:
  assumes "lmdb_ok L" "search_index L s rk"
  shows "\<exists>r. Transaction_postingIterator_MimetypeQuery qt (sa_jsonString A) L s
      (MimetypeQuery_new qt val expand) = Some r \<and>
    gives 2 r (mimetype_docs qt A L s (TermGenerator_termList qt val) expand)"
proof -
  let ?q = "MimetypeQuery_new qt val expand"
  let ?type = "mimetype_of_data (sa_jsonString A) L s"
  have post: "postings_proper L s" "positions_proper L s" using assms(2) by (simp_all add: search_index_def)
  have q: "q_terms ?q = TermGenerator_termList qt val" "q_expandLast ?q = expandLast_of (q_terms ?q) expand"
    by (simp_all add: MimetypeQuery_new_def Let_def)
  let ?P = "\<lambda>i. if ?type i = [] then i \<in> phrase_docs L s (map (\<lambda>t. lit ''M'' @ t) (q_terms ?q))
       else MimetypeQuery_match qt ?q (?type i)"
  have "\<exists>r. Transaction_postingIterator_MimetypeQuery qt (sa_jsonString A) L s ?q = Some r \<and>
    gives 2 r (text_docs L s (lit ''M'') (q_terms ?q) (q_expandLast ?q) ?P)"
    unfolding Transaction_postingIterator_MimetypeQuery_def
    by (rule gives_text_query[OF assms(1) post(1)])
      (rule mimetype_query_ids[OF post, unfolded Transaction_postingIterator_MimetypeQuery_def])
  moreover have "text_docs L s (lit ''M'') (q_terms ?q) (q_expandLast ?q) ?P =
    mimetype_docs qt A L s (TermGenerator_termList qt val) expand"
    unfolding mimetype_docs_def q(2) unfolding q(1)
    by (rule text_docs_cong) (simp add: MimetypeQuery_match_def q(1) search_found_sublist_terms Let_def)
  ultimately show ?thesis by simp
qed

lemma gives_folder:
  assumes "search_index L s rk"
  shows "gives 1 (constructFolderQuery qt L s val) (folder_docs qt L s val)"
proof -
  let ?i = "Transaction_documentId L s (qt_toUtf8 qt val)"
  have ix: "url_inv L s" "ranked rk (url_tree L s)" using assms by (simp_all add: search_index_def)
  have "gives 1 (Transaction_docUrlIter L s ?i) (subtree (url_tree L s) ?i)" if "?i \<noteq> 0"
  proof -
    note tree = IdTreeDB_iter_subtree[OF ix that]
    have "IdTreePostingIterator_docId (IdTreeDB_iter L idTreeDbi s ?i) = 0"
      by (simp add: IdTreeDB_iter_def)
    then show ?thesis using tree by (simp add: Transaction_docUrlIter_def fresh_def)
  qed
  then show ?thesis
    by (auto simp: constructFolderQuery_def folder_docs_def Let_def startsWith_def)
qed

lemma gives_type:
  assumes "search_index L s rk"
  shows "gives 1 (constructTypeQuery A L s val) (type_docs A L s val)"
  using gives_key[of L s] assms
  by (auto simp: constructTypeQuery_def type_docs_def search_index_def split: option.split)

lemma gives_time:
  assumes "lmdb_ok L" "search_index L s rk"
  shows "gives 1 (Transaction_mTimeRangeIter L s b e) (time_docs L s (b, e))"
  using MTimeDB_iterRange_rest[OF assms(1), of s b e] assms(2)
  by (auto simp: Transaction_mTimeRangeIter_def time_docs_def search_index_def split: option.splits)

lemma sequence_map:
  "(\<And>x. x \<in> set xs \<Longrightarrow> f x = Some (g x)) \<Longrightarrow> sequence (map f xs) = Some (map g xs)"
  by (induction xs) auto

text \<open>A disjunction of optional iterators, null ones left out.\<close>

lemma gives_or:
  assumes "\<forall>x \<in> set xs. gives n (g x) (D x)"
  shows "\<exists>a. OrPostingIterator_new (iter_next n) (map g xs) = Some a \<and>
    gives (Suc n) (Some (ItOr a)) (\<Union>x \<in> set xs. D x)"
proof -
  let ?its = "map the (filter (\<lambda>it. it \<noteq> None) (map g xs))"
  have fresh: "\<forall>it \<in> set ?its. fresh n it" using assms by (auto simp: gives_def)
  have "filter (\<lambda>it. it \<noteq> None) (map Some ?its) = filter (\<lambda>it. it \<noteq> None) (map g xs)"
    by (induction xs) auto
  then have same: "OrPostingIterator_new (iter_next n) (map Some ?its) = OrPostingIterator_new (iter_next n) (map g xs)"
    by (simp only: OrPostingIterator_new_def)
  have "(\<Union>it \<in> set ?its. set (iter_rest n it)) = (\<Union>x \<in> set xs. D x)"
    using assms by (induction xs) (auto simp: gives_def split: option.splits)
  then show ?thesis using fresh_or[OF fresh] same by (auto simp del: iter_rest.simps)
qed

lemma gives_metadata:
  assumes "lmdb_ok L" "search_index L s rk"
  shows "\<exists>r. metadata_query qt A L s val expand = Some r \<and>
    gives 3 r (\<Union>infix' \<in> set (defaultIndexedProperties A).
      property_docs qt A L s infix' (TermGenerator_termList qt val) expand)"
proof -
  let ?f = "\<lambda>infix'. Transaction_postingIterator_PropertyPhraseQuery qt (sa_jsonString A) L s
      (PropertyPhraseQuery_new qt val infix' expand)"
  let ?D = "\<lambda>infix'. property_docs qt A L s infix' (TermGenerator_termList qt val) expand"
  have g: "?f x = Some (the (?f x)) \<and> gives 2 (the (?f x)) (?D x)" for x
    using gives_property[OF assms, of qt A val x expand] by auto
  then have seq: "sequence (map ?f (defaultIndexedProperties A)) =
      Some (map (\<lambda>x. the (?f x)) (defaultIndexedProperties A))"
    by (intro sequence_map) simp
  obtain a where "OrPostingIterator_new (iter_next 2) (map (\<lambda>x. the (?f x)) (defaultIndexedProperties A)) = Some a"
    "gives (Suc 2) (Some (ItOr a)) (\<Union>x \<in> set (defaultIndexedProperties A). ?D x)"
    using gives_or[of "defaultIndexedProperties A" 2 "\<lambda>x. the (?f x)" ?D] g by blast
  then show ?thesis
    by (simp add: metadata_query_def seq numeral_3_eq_3 numeral_2_eq_2 del: gives_simps)
qed

text \<open>The outcome of a leaf: an answer that gives \<open>D\<close>, or one of the two delegations.\<close>

definition delegates_to :: "qt_text \<Rightarrow> ('d, 't) search_api \<Rightarrow> Term \<Rightarrow> Term \<Rightarrow> bool" where
  "delegates_to qt A t t' \<longleftrightarrow> Term_valueOrNull t \<noteq> None \<and>
     (let property = qt_toUtf8 qt (sa_toLower A (Term_property t)) in
       property = lit ''tag'' \<and> Term_comparator t \<noteq> Cmp_Equal \<and>
         t' = Term_leaf (qs ''tags'') (Term_valueOrNull t) (Term_comparator t) \<or>
       unknown_property qt A property \<and>
         t' = expandScopes knownScopes (Term_leaf [] (Some (reconstructFromTerm t)) Cmp_Equal))"

definition answers :: "nat \<Rightarrow> posting_iter option option \<Rightarrow> u64 set \<Rightarrow> bool" where
  "answers n r' D \<longleftrightarrow> (\<exists>r. r' = Some r \<and> gives n r D)"

lemma answersI: "gives n r D \<Longrightarrow> answers n (Some r) D"
  by (auto simp: answers_def)

lemma answers_mono: "answers n r' D \<Longrightarrow> n \<le> m \<Longrightarrow> answers m r' D"
  using gives_mono by (fastforce simp: answers_def)

lemma cleanedScopes_Nil [simp]: "cleanedScopes A [] = knownScopes"
  by (simp add: cleanedScopes_def)

lemma property_query_answers:
  assumes "lmdb_ok L" "search_index L s rk"
  shows "case property_query qt A L s property t of
      Inl t' \<Rightarrow> property \<noteq> [] \<and> snd (snd (propertyInfo qt A property)) = VT_UnknownType \<and>
        t' = expandScopes knownScopes (Term_leaf [] (Some (reconstructFromTerm t)) Cmp_Equal)
    | Inr r' \<Rightarrow> answers 3 r' (properties_docs qt A L s property (Term_value t) (Term_comparator t)) \<and>
        \<not> (property \<noteq> [] \<and> snd (snd (propertyInfo qt A property)) = VT_UnknownType)"
proof -
  have ix: "postings_proper L s" "positions_proper L s" using assms(2) by (simp_all add: search_index_def)
  obtain isP pre vt where info: "(if property \<noteq> [] then propertyInfo qt A property else (False, [], VT_QString)) = (isP, pre, vt)"
    by (cases "if property \<noteq> [] then propertyInfo qt A property else (False, [], VT_QString)") auto
  then have unk: "property \<noteq> [] \<and> snd (snd (propertyInfo qt A property)) = VT_UnknownType \<longleftrightarrow>
      property \<noteq> [] \<and> vt = VT_UnknownType" by auto
  let ?val = "Term_value t" and ?c = "Term_comparator t"
  have eq: "answers 3 (constructEqualsQuery qt L s pre' ?val e)
      (words_docs L s pre' (TermGenerator_termList qt ?val) e)" for pre' e
    using gives_equals_query[OF assms(1) ix, of qt pre' ?val e] gives_mono[of 2 _ _ 3] by (auto simp: answers_def simp del: gives_simps)
  have cmp: "answers 3 (compare_query qt A L s pre' vt ?val ?c) (compare_docs qt A L s pre' vt ?val ?c)" for pre'
    using gives_compare[OF assms(1) ix(1), of qt A pre' vt ?val ?c] gives_mono[of 2 _ _ 3] by (auto simp: answers_def simp del: gives_simps)
  have pp: "answers 3 (Transaction_postingIterator_PropertyPhraseQuery qt (sa_jsonString A) L s
        (PropertyPhraseQuery_new qt ?val pre (?c = Cmp_Contains)))
      (property_docs qt A L s pre (TermGenerator_termList qt ?val) (?c = Cmp_Contains))"
    using gives_property[OF assms, of qt A ?val pre "?c = Cmp_Contains"] gives_mono[of 2 _ _ 3] by (auto simp: answers_def simp del: gives_simps)
  show ?thesis
  proof (cases "property \<noteq> [] \<and> vt = VT_UnknownType")
    case True
    then show ?thesis using unk info by (simp add: property_query_def)
  next
    case False
    then show ?thesis
      using eq cmp pp unk
      by (simp add: property_query_def properties_docs_def info Let_def constructContainsQuery_def) blast
  qed
qed

lemma construct_leaf_answers:
  assumes "lmdb_ok L" "search_index L s rk"
  shows "case construct_leaf qt A L s t of
      Inl t' \<Rightarrow> delegates_to qt A t t'
    | Inr r' \<Rightarrow> answers 3 r' (leaf_docs qt A L s t)"
proof (cases "Term_valueOrNull t = None")
  case True
  then show ?thesis by (simp add: construct_leaf_def leaf_docs_def answers_def)
next
  case False
  then obtain v where val: "Term_valueOrNull t = Some v" by auto
  let ?p = "qt_toUtf8 qt (sa_toLower A (Term_property t))" and ?val = "Term_value t" and ?c = "Term_comparator t"
  have names: "?p \<in> special_names \<longleftrightarrow> ?p \<in> {lit ''type'', lit ''kind'', lit ''includefolder'', lit ''modified'',
      lit ''mtime'', lit ''tag'', lit ''filename'', lit ''mimetype'', lit ''metadata''}"
    by (simp add: special_names_def)
  show ?thesis
  proof (cases "?p \<in> special_names")
    case False
    then have rest: "construct_leaf qt A L s t = property_query qt A L s ?p t"
      using val unfolding names by (simp add: construct_leaf_def Let_def)
    have docs: "leaf_docs qt A L s t = properties_docs qt A L s ?p ?val ?c"
      if "\<not> (?p \<noteq> [] \<and> snd (snd (propertyInfo qt A ?p)) = VT_UnknownType)"
    proof -
      have "\<not> unknown_property qt A ?p" using that by (auto simp: unknown_property_def)
      then show ?thesis using val False unfolding names by (simp add: leaf_docs_def basic_docs_def Let_def)
    qed
    show ?thesis
    proof (cases "property_query qt A L s ?p t")
      case (Inl t')
      then show ?thesis
        using property_query_answers[OF assms, where qt = qt and A = A and property = ?p and t = t] False val
        by (simp add: rest delegates_to_def unknown_property_def Let_def)
    next
      case (Inr r')
      then have "answers 3 r' (properties_docs qt A L s ?p ?val ?c) \<and>
          \<not> (?p \<noteq> [] \<and> snd (snd (propertyInfo qt A ?p)) = VT_UnknownType)"
        using property_query_answers[OF assms, where qt = qt and A = A and property = ?p and t = t] by simp
      then show ?thesis using Inr docs by (simp add: rest)
    qed
  next
    case True
    then have "\<not> unknown_property qt A ?p" by (simp add: unknown_property_def)
    then have docs: "leaf_docs qt A L s t = (if ?p = lit ''tag'' \<and> ?c \<noteq> Cmp_Equal then
           basic_docs qt A L s (lit ''tags'') ?val (if ?c = Cmp_Auto then Cmp_Contains else ?c)
         else basic_docs qt A L s ?p ?val ?c)"
      using val by (simp add: leaf_docs_def Let_def)
    have up: "gives n r D \<Longrightarrow> n \<le> 3 \<Longrightarrow> answers 3 (Some r) D" for n r D
      using gives_mono by (auto simp: answers_def)
    have post: "postings_proper L s" using assms(2) by (simp add: search_index_def)
    note leaves = up[OF gives_type[OF assms(2)]] up[OF gives_folder[OF assms(2)]] up[OF gives_time[OF assms]]
      up[OF gives_key[OF post]]
    have two: "answers 3 (Transaction_postingIterator_FilenameQuery qt L s (FilenameQuery_new qt ?val e))
          (filename_docs qt L s (TermGenerator_termList qt ?val) e)"
      "answers 3 (Transaction_postingIterator_MimetypeQuery qt (sa_jsonString A) L s (MimetypeQuery_new qt ?val e))
          (mimetype_docs qt A L s (TermGenerator_termList qt ?val) e)"
      "answers 3 (metadata_query qt A L s ?val e) (\<Union>infix' \<in> set (defaultIndexedProperties A).
          property_docs qt A L s infix' (TermGenerator_termList qt ?val) e)" for e
      by (rule answers_mono[OF gives_filename[OF assms, folded answers_def]], simp,
          rule answers_mono[OF gives_mimetype[OF assms, folded answers_def]], simp,
          rule gives_metadata[OF assms, folded answers_def])
    obtain b e where be: "calculateTimeRange A ?val ?c = (b, e)" by (cases "calculateTimeRange A ?val ?c") auto
    have none: "answers 3 (Some None) (time_docs L s (b, e))" if "e < b"
      using that by (auto simp: answers_def time_docs_def)
    show ?thesis
      using True val leaves two none be unfolding names docs
      by (elim insertE emptyE) (simp_all add: construct_leaf_def basic_docs_def delegates_to_def lit_inject Let_def)
  qed
qed

section \<open>Terms\<close>

text \<open>An \<open>AND\<close> or \<open>OR\<close> without subterms finds nothing.\<close>

function term_docs ::
  "qt_text \<Rightarrow> ('d, 't) search_api \<Rightarrow> 's lmdb \<Rightarrow> 's \<Rightarrow> Term \<Rightarrow> u64 set" where
  "term_docs qt A L s t =
     (if Term_operation t = Op_And then
        if Term_subTerms t = [] then {} else \<Inter>t' \<in> set (Term_subTerms t). term_docs qt A L s t'
      else if Term_operation t = Op_Or then \<Union>t' \<in> set (Term_subTerms t). term_docs qt A L s t'
      else leaf_docs qt A L s t)"
  by pat_completeness auto
termination by (relation "measure (\<lambda>(qt, A, L, s, t). size t)") (auto dest: size_subTerm)

declare term_docs.simps [simp del]

lemma construct_vec_and:
  assumes "\<forall>t \<in> set ts. answers m (rec t) (D t)"
  shows "\<exists>r. construct_vec rec Op_And ts = Some r \<and>
    (case r of
       None \<Rightarrow> \<exists>t \<in> set ts. D t = {}
     | Some vec \<Rightarrow> (\<forall>it \<in> set vec. fresh m it) \<and> map (\<lambda>it. set (iter_rest m it)) vec = map D ts)"
  using assms
proof (induction ts)
  case (Cons t ts)
  then obtain r where r: "rec t = Some r" "gives m r (D t)" by (auto simp: answers_def)
  obtain r' where r': "construct_vec rec Op_And ts = Some r'"
    "case r' of
       None \<Rightarrow> \<exists>t \<in> set ts. D t = {}
     | Some vec \<Rightarrow> (\<forall>it \<in> set vec. fresh m it) \<and> map (\<lambda>it. set (iter_rest m it)) vec = map D ts"
    using Cons by (auto simp del: construct_vec.simps)
  show ?case
  proof (cases r)
    case None
    then show ?thesis using r by simp
  next
    case (Some it)
    then show ?thesis
      using r r' by (intro exI[of _ "map_option ((#) it) r'"]) (auto split: option.splits)
  qed
qed simp

lemma construct_vec_or:
  assumes "\<forall>t \<in> set ts. answers m (rec t) (D t)"
  shows "\<exists>vec. construct_vec rec Op_Or ts = Some (Some vec) \<and> (\<forall>it \<in> set vec. fresh m it) \<and>
    (\<Union>it \<in> set vec. set (iter_rest m it)) = (\<Union>t \<in> set ts. D t)"
  using assms
proof (induction ts)
  case (Cons t ts)
  then obtain r where r: "rec t = Some r" "gives m r (D t)" by (auto simp: answers_def)
  obtain vec where vec: "construct_vec rec Op_Or ts = Some (Some vec)" "\<forall>it \<in> set vec. fresh m it"
    "(\<Union>it \<in> set vec. set (iter_rest m it)) = (\<Union>t \<in> set ts. D t)"
    using Cons by auto
  show ?case
  proof (cases r)
    case None
    then show ?thesis using r vec by simp
  next
    case (Some it)
    then show ?thesis using r vec by (intro exI[of _ "it # vec"]) simp
  qed
qed simp

text \<open>A node, once all its subterms are answered.\<close>

lemma constructQuery_node:
  assumes "Term_operation t = Op_And \<or> Term_operation t = Op_Or"
    and "\<forall>t' \<in> set (Term_subTerms t). answers (n + 3) (constructQuery n qt A L s t') (D t')"
  shows "answers (Suc n + 3) (constructQuery (Suc n) qt A L s t)
    (if Term_operation t = Op_And then
       if Term_subTerms t = [] then {} else \<Inter>t' \<in> set (Term_subTerms t). D t'
     else \<Union>t' \<in> set (Term_subTerms t). D t')"
proof (cases "Term_operation t = Op_And")
  case True
  obtain r where r: "construct_vec (constructQuery n qt A L s) Op_And (Term_subTerms t) = Some r"
    "case r of
       None \<Rightarrow> \<exists>t' \<in> set (Term_subTerms t). D t' = {}
     | Some vec \<Rightarrow> (\<forall>it \<in> set vec. fresh (n + 3) it) \<and>
         map (\<lambda>it. set (iter_rest (n + 3) it)) vec = map D (Term_subTerms t)"
    using construct_vec_and[OF assms(2)] by blast
  show ?thesis
  proof (cases r)
    case None
    then have "\<exists>t' \<in> set (Term_subTerms t). D t' = {}" using r(2) by simp
    then have "Term_subTerms t \<noteq> []" "(\<Inter>t' \<in> set (Term_subTerms t). D t') = {}" by auto
    then show ?thesis using r(1) None True by (simp add: answers_def)
  next
    case (Some vec)
    then have vec: "\<forall>it \<in> set vec. fresh (n + 3) it"
      "map (\<lambda>it. set (iter_rest (n + 3) it)) vec = map D (Term_subTerms t)" using r(2) by simp_all
    have set_vec: "(\<lambda>it. set (iter_rest (n + 3) it)) ` set vec = D ` set (Term_subTerms t)"
      using arg_cong[OF vec(2), of set] by simp
    have len: "length vec = length (Term_subTerms t)" using arg_cong[OF vec(2), of length] by simp
    have inter: "(\<Inter>it \<in> set vec. set (iter_rest (n + 3) it)) = (\<Inter>t' \<in> set (Term_subTerms t). D t')"
      unfolding set_vec ..
    consider "vec = []" | it where "vec = [it]" | "2 \<le> length vec"
      by (cases vec; cases "tl vec") auto
    then show ?thesis
    proof cases
      case 1
      then show ?thesis using r(1) Some True len by (simp add: answers_def)
    next
      case (2 it)
      have "gives (n + 3) (Some it) (\<Inter>t' \<in> set (Term_subTerms t). D t')"
        unfolding inter[symmetric] 2 using vec(1)[unfolded 2] by (simp del: iter_rest.simps)
      then have "gives (Suc n + 3) (Some it) (\<Inter>t' \<in> set (Term_subTerms t). D t')" by (rule gives_mono) simp
      moreover have "Term_subTerms t \<noteq> []" using len 2 by auto
      ultimately show ?thesis using r(1) Some True 2 by (simp add: answers_def del: gives_simps)
    next
      case 3
      then have ne: "vec \<noteq> []" "Term_subTerms t \<noteq> []" "length vec \<noteq> 1" using len by auto
      have "gives (Suc n + 3) (Some (ItAnd (AndPostingIterator_new (map Some vec)))) (\<Inter>t' \<in> set (Term_subTerms t). D t')"
        using fresh_and[OF vec(1) ne(1)] inter by simp
      then show ?thesis using r(1) Some True ne by (simp add: answers_def del: gives_simps)
    qed
  qed
next
  case False
  then have op: "Term_operation t = Op_Or" using assms(1) by simp
  obtain vec where vec: "construct_vec (constructQuery n qt A L s) Op_Or (Term_subTerms t) = Some (Some vec)"
    "\<forall>it \<in> set vec. fresh (n + 3) it"
    "(\<Union>it \<in> set vec. set (iter_rest (n + 3) it)) = (\<Union>t' \<in> set (Term_subTerms t). D t')"
    using construct_vec_or[OF assms(2)] by blast
  consider "vec = []" | it where "vec = [it]" | "2 \<le> length vec"
    by (cases vec; cases "tl vec") auto
  then show ?thesis
  proof cases
    case 1
    then show ?thesis using vec op by (simp add: answers_def)
  next
    case (2 it)
    have "gives (n + 3) (Some it) (\<Union>t' \<in> set (Term_subTerms t). D t')"
      unfolding vec(3)[symmetric] 2 using vec(2)[unfolded 2] by (simp del: iter_rest.simps)
    then have "gives (Suc n + 3) (Some it) (\<Union>t' \<in> set (Term_subTerms t). D t')" by (rule gives_mono) simp
    then show ?thesis using vec(1) op 2 by (simp add: answers_def del: gives_simps)
  next
    case 3
    then have ne: "vec \<noteq> []" "length vec \<noteq> 1" by auto
    obtain a where "OrPostingIterator_new (iter_next (n + 3)) (map Some vec) = Some a"
      "gives (Suc n + 3) (Some (ItOr a)) (\<Union>t' \<in> set (Term_subTerms t). D t')"
      using fresh_or[OF vec(2)] vec(3) by auto
    then show ?thesis using vec(1) op ne by (simp add: answers_def del: gives_simps)
  qed
qed

lemma Term_leaf_fields [simp]:
  "Term_operation (Term_leaf p v c) = Op_None" "Term_property (Term_leaf p v c) = p"
  "Term_valueOrNull (Term_leaf p v c) = v" "Term_subTerms (Term_leaf p v c) = []"
  "Term_comparator (Term_leaf p v c) = (if c = Cmp_Auto then Cmp_Contains else c)"
  by (simp_all add: Term_leaf_def)

lemma Term_of_list_fields [simp]:
  "Term_operation (Term_of_list op ts) = op" "Term_subTerms (Term_of_list op ts) = ts"
  by (simp_all add: Term_of_list_def)

lemma scope_not_delegated:
  assumes "lower_ok qt A" "w \<in> {''filename'', ''content'', ''metadata'', ''tags''}"
  shows "qt_toUtf8 qt (sa_toLower A (qs w)) = lit w" "lit w \<noteq> lit ''tag''" "\<not> unknown_property qt A (lit w)"
proof -
  show "qt_toUtf8 qt (sa_toLower A (qs w)) = lit w" using assms by (auto simp: lower_ok_def)
  show "lit w \<noteq> lit ''tag''" using assms(2) by (auto simp: lit_inject)
  show "\<not> unknown_property qt A (lit w)"
    using assms(2)
    by (elim insertE) (simp_all add: unknown_property_def special_names_def propertyInfo_def internalProperties_def lit_inject)
qed

lemma constructQuery_scope:
  assumes "lmdb_ok L" "search_index L s rk" "lower_ok qt A"
    and w: "w \<in> {''filename'', ''content'', ''metadata'', ''tags''}"
  shows "answers 3 (constructQuery (Suc n) qt A L s (Term_leaf (qs w) (Some v) c))
    (basic_docs qt A L s (lit w) v (if c = Cmp_Auto then Cmp_Contains else c))"
proof -
  let ?t = "Term_leaf (qs w) (Some v) c"
  note scope = scope_not_delegated[OF assms(3) w]
  have no: "\<not> delegates_to qt A ?t t'" for t'
    using scope by (simp add: delegates_to_def)
  have "leaf_docs qt A L s ?t = basic_docs qt A L s (lit w) v (if c = Cmp_Auto then Cmp_Contains else c)"
    using scope by (simp add: leaf_docs_def Term_value_def Let_def)
  then show ?thesis
    using construct_leaf_answers[OF assms(1,2), of qt A ?t] no by (auto split: sum.splits)
qed

lemma expandScopes_leaf:
  "expandScopes knownScopes (Term_leaf [] v c) = Term_of_list Op_Or
     (map (\<lambda>w. Term_leaf (qs w) v (if c = Cmp_Auto then Cmp_Contains else c)) [''filename'', ''content'', ''metadata''])"
  by (simp add: expandScopes.simps knownScopes_def Term_combine_def Term_operands_def)

lemma constructQuery_leaf:
  assumes "lmdb_ok L" "search_index L s rk" "lower_ok qt A"
    and "Term_operation t \<noteq> Op_And" "Term_operation t \<noteq> Op_Or" "3 \<le> n"
  shows "answers (n + 3) (constructQuery n qt A L s t) (leaf_docs qt A L s t)"
proof -
  obtain k where n: "n = Suc (Suc (Suc k))"
    using assms(6) by (metis numeral_3_eq_3 Suc_le_D le_SucE Suc_le_mono)
  show ?thesis
  proof (cases "construct_leaf qt A L s t")
    case (Inr r')
    then have "answers 3 r' (leaf_docs qt A L s t)"
      using construct_leaf_answers[OF assms(1,2), of qt A t] by simp
    then have "answers (n + 3) r' (leaf_docs qt A L s t)" by (rule answers_mono) simp
    then show ?thesis using Inr assms(4,5) by (simp add: n)
  next
    case (Inl t')
    then have t': "delegates_to qt A t t'" using construct_leaf_answers[OF assms(1,2), of qt A t] by simp
    have call: "constructQuery n qt A L s t = constructQuery (Suc (Suc k)) qt A L s t'"
      using Inl assms(4,5) by (simp add: n)
    let ?p = "qt_toUtf8 qt (sa_toLower A (Term_property t))"
    obtain v where v: "Term_valueOrNull t = Some v" using t' by (auto simp: delegates_to_def)
    consider (tag) "?p = lit ''tag''" "Term_comparator t \<noteq> Cmp_Equal" "t' = Term_leaf (qs ''tags'') (Some v) (Term_comparator t)"
      | (unknown) "unknown_property qt A ?p" "?p \<noteq> lit ''tag''"
          "t' = expandScopes knownScopes (Term_leaf [] (Some (reconstructFromTerm t)) Cmp_Equal)"
      using t' v by (auto simp: delegates_to_def Let_def unknown_property_def special_names_def)
    then show ?thesis
    proof cases
      case tag
      have docs: "leaf_docs qt A L s t = basic_docs qt A L s (lit ''tags'') v
          (if Term_comparator t = Cmp_Auto then Cmp_Contains else Term_comparator t)"
        using tag v by (simp add: leaf_docs_def Term_value_def Let_def)
      have "answers 3 (constructQuery (Suc (Suc k)) qt A L s t') (basic_docs qt A L s (lit ''tags'') v
          (if Term_comparator t = Cmp_Auto then Cmp_Contains else Term_comparator t))"
        unfolding tag(3) by (rule constructQuery_scope[OF assms(1,2,3)]) simp
      then show ?thesis unfolding call docs by (rule answers_mono) (simp add: n)
    next
      case unknown
      let ?ws = "[''filename'', ''content'', ''metadata'']"
      let ?leaf = "\<lambda>w. Term_leaf (qs w) (Some (reconstructFromTerm t)) Cmp_Equal"
      let ?D = "\<lambda>t'. leaf_docs qt A L s t'"
      have t': "t' = Term_of_list Op_Or (map ?leaf ?ws)" unfolding unknown(3) expandScopes_leaf by simp
      have leaf: "answers (Suc k + 3) (constructQuery (Suc k) qt A L s (?leaf w)) (basic_docs qt A L s (lit w) (reconstructFromTerm t) Cmp_Equal) \<and>
          ?D (?leaf w) = basic_docs qt A L s (lit w) (reconstructFromTerm t) Cmp_Equal" if "w \<in> set ?ws" for w
      proof
        have w: "w \<in> {''filename'', ''content'', ''metadata'', ''tags''}" using that by auto
        have "answers 3 (constructQuery (Suc k) qt A L s (?leaf w)) (basic_docs qt A L s (lit w) (reconstructFromTerm t) Cmp_Equal)"
          using constructQuery_scope[OF assms(1,2,3) w, of k "reconstructFromTerm t" Cmp_Equal] by simp
        then show "answers (Suc k + 3) (constructQuery (Suc k) qt A L s (?leaf w)) (basic_docs qt A L s (lit w) (reconstructFromTerm t) Cmp_Equal)"
          by (rule answers_mono) simp
        show "?D (?leaf w) = basic_docs qt A L s (lit w) (reconstructFromTerm t) Cmp_Equal"
          using scope_not_delegated[OF assms(3) w] by (simp add: leaf_docs_def Term_value_def Let_def)
      qed
      have sub: "\<forall>u \<in> set (Term_subTerms t'). answers (Suc k + 3) (constructQuery (Suc k) qt A L s u) (?D u)"
      proof
        fix u assume "u \<in> set (Term_subTerms t')"
        then obtain w where w: "w \<in> set ?ws" "u = ?leaf w" unfolding t' by auto
        show "answers (Suc k + 3) (constructQuery (Suc k) qt A L s u) (?D u)"
          using leaf[OF w(1)] unfolding w(2) by simp
      qed
      have op: "Term_operation t' = Op_Or" unfolding t' by simp
      have "answers (Suc (Suc k) + 3) (constructQuery (Suc (Suc k)) qt A L s t') (\<Union>u \<in> set (Term_subTerms t'). ?D u)"
        using constructQuery_node[OF _ sub] op by simp
      moreover have "(\<Union>u \<in> set (Term_subTerms t'). ?D u) =
          (\<Union>w \<in> set ?ws. basic_docs qt A L s (lit w) (reconstructFromTerm t) Cmp_Equal)"
      proof -
        have "(\<Union>u \<in> set (Term_subTerms t'). ?D u) = (\<Union>w \<in> set ?ws. ?D (?leaf w))" unfolding t' by simp
        also have "\<dots> = (\<Union>w \<in> set ?ws. basic_docs qt A L s (lit w) (reconstructFromTerm t) Cmp_Equal)"
          using leaf by (intro SUP_cong refl) blast
        finally show ?thesis .
      qed
      moreover have "leaf_docs qt A L s t = (\<Union>w \<in> set ?ws. basic_docs qt A L s (lit w) (reconstructFromTerm t) Cmp_Equal)"
        using unknown(1,2) v by (simp add: leaf_docs_def Let_def)
      ultimately have "answers (Suc (Suc k) + 3) (constructQuery (Suc (Suc k)) qt A L s t') (leaf_docs qt A L s t)" by simp
      then show ?thesis unfolding call by (rule answers_mono) (simp add: n)
    qed
  qed
qed

text \<open>A depth bound of the size of the term and three suffices.\<close>

lemma constructQuery_answers:
  assumes "lmdb_ok L" "search_index L s rk" "lower_ok qt A"
  shows "size t + 3 \<le> n \<Longrightarrow> answers (n + 3) (constructQuery n qt A L s t) (term_docs qt A L s t)"
proof (induction n arbitrary: t)
  case (Suc n)
  show ?case
  proof (cases "Term_operation t = Op_And \<or> Term_operation t = Op_Or")
    case True
    have sub: "\<forall>u \<in> set (Term_subTerms t). answers (n + 3) (constructQuery n qt A L s u) (term_docs qt A L s u)"
    proof
      fix u assume "u \<in> set (Term_subTerms t)"
      then have "size u < size t" by (rule size_subTerm)
      then show "answers (n + 3) (constructQuery n qt A L s u) (term_docs qt A L s u)"
        using Suc by simp
    qed
    have docs: "term_docs qt A L s t = (if Term_operation t = Op_And then
       if Term_subTerms t = [] then {} else \<Inter>t' \<in> set (Term_subTerms t). term_docs qt A L s t'
     else \<Union>t' \<in> set (Term_subTerms t). term_docs qt A L s t')"
      using True by (subst term_docs.simps) auto
    show ?thesis unfolding docs by (rule constructQuery_node[OF True sub])
  next
    case False
    then have "term_docs qt A L s t = leaf_docs qt A L s t" by (subst term_docs.simps) simp
    then show ?thesis using constructQuery_leaf[OF assms, of t "Suc n"] False Suc.prems by simp
  qed
qed simp

end
