(* ===== verification/SearchDocs.thy ===== *)
theory SearchDocs
  imports SearchTerms "HOL-Library.Multiset"
begin

text \<open>
  A search from its text to its results: the parser's flattening keeps the meaning of \<open>AND\<close> and \<open>OR\<close>, so
  the text of an expression finds what the expression means; \<open>exec\<close> sorts and cuts what is found.
\<close>

section \<open>Expressions\<close>

text \<open>The documents of a term once its scopes are filled in; \<open>None\<close> is the empty term, which is neutral.\<close>

definition scoped_docs ::
  "qt_text \<Rightarrow> ('d, 't) search_api \<Rightarrow> 's lmdb \<Rightarrow> 's \<Rightarrow> QString list \<Rightarrow> Term \<Rightarrow> u64 set option" where
  "scoped_docs qt A L s scopes t =
     (if Term_isEmpty t then None else Some (term_docs qt A L s (expandScopes scopes t)))"

definition combine_docs :: "u64 set option \<Rightarrow> Term_Operation \<Rightarrow> u64 set option \<Rightarrow> u64 set option" where
  "combine_docs D op E =
     (case (D, E) of
        (None, _) \<Rightarrow> E
      | (_, None) \<Rightarrow> D
      | (Some S, Some T) \<Rightarrow> Some (if op = Op_And then S \<inter> T else S \<union> T))"

definition found :: "u64 set option \<Rightarrow> u64 set" where
  "found D = (case D of None \<Rightarrow> {} | Some S \<Rightarrow> S)"

text \<open>
  What an expression means: a word is looked for in every scope, a comparison in its property, the
  members of a group are joined from the left.
\<close>

fun expr_docs ::
  "(QString \<Rightarrow> QString option \<Rightarrow> Term_Comparator \<Rightarrow> u64 set) \<Rightarrow> QString list \<Rightarrow> search_expr \<Rightarrow> u64 set option"
  and group_docs ::
  "(QString \<Rightarrow> QString option \<Rightarrow> Term_Comparator \<Rightarrow> u64 set) \<Rightarrow> QString list \<Rightarrow> u64 set option \<Rightarrow>
   (Term_Operation option \<times> search_expr) list \<Rightarrow> u64 set option" where
  "expr_docs leaf scopes (Word w) = Some (\<Union>scope \<in> set scopes. leaf scope (token_value w) Cmp_Contains)"
| "expr_docs leaf scopes (Compare p c v) = Some (leaf p (token_value v) c)"
| "expr_docs leaf scopes (Group es) = group_docs leaf scopes None es"
| "group_docs leaf scopes D [] = D"
| "group_docs leaf scopes D ((conn, e) # es) =
     group_docs leaf scopes (combine_docs D (connective conn) (expr_docs leaf scopes e)) es"

lemma expandScopes_list:
  "ts \<noteq> [] \<Longrightarrow> expandScopes scopes (Term_of_list op ts) = Term_of_list op (map (expandScopes scopes) ts)"
  by (simp add: expandScopes.simps)

lemma term_docs_list:
  "term_docs qt A L s (Term_of_list Op_And ts) = (if ts = [] then {} else \<Inter>t \<in> set ts. term_docs qt A L s t)"
  "term_docs qt A L s (Term_of_list Op_Or ts) = (\<Union>t \<in> set ts. term_docs qt A L s t)"
  by (subst term_docs.simps, simp)+

text \<open>The operands of a flat term stand for the term itself.\<close>

lemma operands_docs:
  assumes "term_flat t"
  shows
    "(\<Inter>u \<in> set (Term_operands Op_And t). term_docs qt A L s (expandScopes scopes u)) = term_docs qt A L s (expandScopes scopes t)"
    "(\<Union>u \<in> set (Term_operands Op_Or t). term_docs qt A L s (expandScopes scopes u)) = term_docs qt A L s (expandScopes scopes t)"
proof -
  have ne: "Term_subTerms t \<noteq> []" if "Term_operation t = op" "op \<noteq> Op_None" for op
    using assms(1) that by (cases t) (auto split: if_splits)
  have list: "expandScopes scopes t = Term_of_list (Term_operation t) (map (expandScopes scopes) (Term_subTerms t))"
    if "Term_subTerms t \<noteq> []"
    using that by (subst expandScopes.simps) simp
  show "(\<Inter>u \<in> set (Term_operands Op_And t). term_docs qt A L s (expandScopes scopes u)) = term_docs qt A L s (expandScopes scopes t)"
    using ne[of Op_And] list by (cases "Term_operation t = Op_And") (simp_all add: Term_operands_def term_docs_list)
  show "(\<Union>u \<in> set (Term_operands Op_Or t). term_docs qt A L s (expandScopes scopes u)) = term_docs qt A L s (expandScopes scopes t)"
    using ne[of Op_Or] list by (cases "Term_operation t = Op_Or") (simp_all add: Term_operands_def term_docs_list)
qed

lemma scoped_docs_combine:
  assumes "term_shape lhs" "term_shape rhs" "op \<noteq> Op_None"
  shows "scoped_docs qt A L s scopes (Term_combine lhs op rhs) =
    combine_docs (scoped_docs qt A L s scopes lhs) op (scoped_docs qt A L s scopes rhs)"
proof (cases "Term_isEmpty lhs \<or> Term_isEmpty rhs")
  case True
  then show ?thesis
    by (auto simp: Term_combine_def scoped_docs_def combine_docs_def)
next
  case False
  then have flat: "term_flat lhs" "term_flat rhs" using assms(1,2) by (auto simp: term_shape_def)
  let ?l = "Term_operands op lhs" and ?r = "Term_operands op rhs"
  have ne: "?l \<noteq> []" "?r \<noteq> []" using Term_operands_flat[OF flat(1) assms(3)] Term_operands_flat[OF flat(2) assms(3)] by auto
  have comb: "Term_combine lhs op rhs = Term_of_list op (?l @ ?r)" using False by (simp add: Term_combine_def)
  note docs = operands_docs[where qt = qt and A = A and L = L and s = s and scopes = scopes]
  show ?thesis
  proof (cases op)
    case Op_And
    have "term_docs qt A L s (expandScopes scopes (Term_of_list Op_And (?l @ ?r))) =
        term_docs qt A L s (expandScopes scopes lhs) \<inter> term_docs qt A L s (expandScopes scopes rhs)"
      using ne docs(1)[OF flat(1)] docs(1)[OF flat(2)]
      by (simp add: expandScopes_list term_docs_list Op_And INF_union)
    then show ?thesis
      using False ne by (simp add: comb[unfolded Op_And] Op_And scoped_docs_def combine_docs_def)
  next
    case Op_Or
    have "term_docs qt A L s (expandScopes scopes (Term_of_list Op_Or (?l @ ?r))) =
        term_docs qt A L s (expandScopes scopes lhs) \<union> term_docs qt A L s (expandScopes scopes rhs)"
      using ne docs(2)[OF flat(1)] docs(2)[OF flat(2)]
      by (simp add: expandScopes_list term_docs_list Op_Or SUP_union)
    then show ?thesis
      using False ne by (simp add: comb[unfolded Op_Or] Op_Or scoped_docs_def combine_docs_def)
  qed (use assms(3) in simp)
qed

text \<open>A leaf without a property, in its scopes.\<close>

lemma expandScopes_leaf_docs:
  assumes "Term_subTerms t = []" "Term_property t = []"
  shows "term_docs qt A L s (expandScopes scopes t) =
    (\<Union>scope \<in> set scopes. term_docs qt A L s (Term_leaf scope (Term_valueOrNull t) (Term_comparator t)))"
proof -
  let ?leaf = "\<lambda>scope. Term_leaf scope (Term_valueOrNull t) (Term_comparator t)"
  have or: "foldl (\<lambda>t scope. Term_combine t Op_Or (?leaf scope)) (Term_of_list Op_Or ts) scopes' =
      Term_of_list Op_Or (ts @ map ?leaf scopes')" if "ts \<noteq> []" for ts scopes'
    using that
  proof (induction scopes' arbitrary: ts)
    case (Cons sc scopes')
    have "Term_combine (Term_of_list Op_Or ts) Op_Or (?leaf sc) = Term_of_list Op_Or (ts @ [?leaf sc])"
      using Cons.prems by (simp add: Term_combine_def Term_operands_def)
    then show ?case using Cons.IH[of "ts @ [?leaf sc]"] by simp
  qed simp
  have expand: "expandScopes scopes t = foldl (\<lambda>t scope. Term_combine t Op_Or (?leaf scope)) Term_default scopes"
    using assms by (subst expandScopes.simps) simp
  have empty_docs: "term_docs qt A L s Term_default = {}"
    by (subst term_docs.simps) (simp add: Term_default_def leaf_docs_def)
  consider "scopes = []" | sc where "scopes = [sc]" | sc sc2 scopes' where "scopes = sc # sc2 # scopes'"
    by (cases scopes; cases "tl scopes") auto
  then show ?thesis
  proof cases
    case (3 sc sc2 scopes')
    have two: "Term_combine (Term_combine Term_default Op_Or (?leaf sc)) Op_Or (?leaf sc2) = Term_of_list Op_Or [?leaf sc, ?leaf sc2]"
      by (simp add: Term_combine_def Term_operands_def)
    then show ?thesis unfolding expand[unfolded 3] 3 foldl.simps two by (simp add: or term_docs_list)
  next
    case 1
    show ?thesis unfolding expand[unfolded 1] 1 by (simp add: empty_docs)
  next
    case (2 sc)
    then show ?thesis using expand by (simp add: Term_combine_def)
  qed
qed

definition leaf_of :: "qt_text \<Rightarrow> ('d, 't) search_api \<Rightarrow> 's lmdb \<Rightarrow> 's \<Rightarrow> QString \<Rightarrow> QString option \<Rightarrow> Term_Comparator \<Rightarrow> u64 set" where
  "leaf_of qt A L s p v c = leaf_docs qt A L s (Term_leaf p v c)"

lemma term_docs_leaf: "term_docs qt A L s (Term_leaf p v c) = leaf_of qt A L s p v c"
  by (subst term_docs.simps) (simp add: leaf_of_def)

lemma term_shape_expr:
  "expr_ok e \<Longrightarrow> term_shape (expr_term e)"
  "list_all (\<lambda>(conn, e). conn \<noteq> Some Op_None \<and> expr_ok e) es \<Longrightarrow> term_shape t \<Longrightarrow> term_shape (group_term t es)"
proof (induction e and t es rule: expr_term_group_term.induct)
  case (5 t conn e es)
  have "connective conn \<noteq> Op_None" using 5(3) by (cases conn) (auto simp: connective_def)
  then show ?case using 5 by (simp add: term_flat_combine)
qed (auto simp: term_shape_def)

lemma expr_docs_term:
  "expr_ok e \<Longrightarrow> scoped_docs qt A L s scopes (expr_term e) = expr_docs (leaf_of qt A L s) scopes e"
  "list_all (\<lambda>(conn, e). conn \<noteq> Some Op_None \<and> expr_ok e) es \<Longrightarrow> term_shape t \<Longrightarrow>
   scoped_docs qt A L s scopes (group_term t es) =
     group_docs (leaf_of qt A L s) scopes (scoped_docs qt A L s scopes t) es"
proof (induction e and t es rule: expr_term_group_term.induct)
  case (1 w)
  show ?case by (simp add: scoped_docs_def expandScopes_leaf_docs term_docs_leaf)
next
  case (2 p c v)
  then have "expandScopes scopes (Term_leaf p (token_value v) c) = Term_leaf p (token_value v) c"
    by (subst expandScopes.simps) simp
  then show ?case by (simp add: scoped_docs_def term_docs_leaf)
next
  case (3 es)
  then show ?case by (simp add: scoped_docs_def)
next
  case (5 t conn e es)
  have op: "connective conn \<noteq> Op_None" using 5(3) by (cases conn) (auto simp: connective_def)
  have shape: "term_shape (expr_term e)" using 5(3) term_shape_expr(1) by simp
  then have "term_shape (Term_combine t (connective conn) (expr_term e))" using 5(4) op by (simp add: term_flat_combine)
  then show ?case
    using 5 by (simp add: scoped_docs_combine[OF 5(4) shape op])
qed simp

lemma search_expression:
  assumes "lmdb_ok L" "search_index L s rk" "lower_ok qt A" "isSpace_ok qt"
    and "expr_ok (Group es)" "\<forall>t \<in> set (group_tokens es). 34 \<notin> set t"
    and "t = expandScopes scopes (QueryParser_parse qt (print_tokens qt (group_tokens es)))" "size t + 3 \<le> n"
  shows "answers (n + 3) (constructQuery n qt A L s t) (found (expr_docs (leaf_of qt A L s) scopes (Group es)))"
proof -
  have parse: "QueryParser_parse qt (print_tokens qt (group_tokens es)) = expr_term (Group es)"
    by (rule QueryParser_parse_group[OF assms(4-6)])
  have "term_docs qt A L s t = found (scoped_docs qt A L s scopes (expr_term (Group es)))"
  proof (cases "Term_isEmpty (expr_term (Group es))")
    case True
    then have "expr_term (Group es) = Term_default"
      using term_shape_expr(1)[OF assms(5)] term_shape_empty by blast
    moreover have "term_docs qt A L s (expandScopes scopes Term_default) = {}"
      by (subst expandScopes_leaf_docs) (simp_all add: Term_default_def term_docs_leaf leaf_of_def leaf_docs_def)
    ultimately show ?thesis unfolding assms(7) parse by (simp add: scoped_docs_def found_def)
  next
    case False
    then show ?thesis unfolding assms(7) parse by (simp add: scoped_docs_def found_def)
  qed
  then show ?thesis
    using constructQuery_answers[OF assms(1-3,8)] by (simp only: expr_docs_term(1)[OF assms(5)])
qed

section \<open>Queries\<close>

text \<open>A part of a query: null where one of its sets is empty, else iterators over its sets.\<close>

definition part_ok :: "nat \<Rightarrow> posting_iter list option \<Rightarrow> u64 set list \<Rightarrow> bool" where
  "part_ok m r Ds \<longleftrightarrow>
     (case r of
        None \<Rightarrow> {} \<in> set Ds
      | Some vec \<Rightarrow> (\<forall>it \<in> set vec. fresh m it) \<and> map (\<lambda>it. set (iter_rest m it)) vec = Ds)"

definition date_docs :: "('d, 't) search_api \<Rightarrow> 's lmdb \<Rightarrow> 's \<Rightarrow> Query \<Rightarrow> u64 set list" where
  "date_docs A L s q =
     (if qy_yearFilter q \<noteq> 0 \<or> qy_monthFilter q \<noteq> 0 \<or> qy_dayFilter q \<noteq> 0
      then [time_docs L s (date_range A (qy_yearFilter q) (qy_monthFilter q) (qy_dayFilter q))] else [])"

definition query_term :: "qt_text \<Rightarrow> ('d, 't) search_api \<Rightarrow> Query \<Rightarrow> Term" where
  "query_term qt A q = expandScopes (cleanedScopes A (qy_searchScopes q)) (QueryParser_parse qt (qy_searchString q))"

definition query_parts :: "qt_text \<Rightarrow> ('d, 't) search_api \<Rightarrow> 's lmdb \<Rightarrow> 's \<Rightarrow> Query \<Rightarrow> u64 set list" where
  "query_parts qt A L s q =
     (if qy_searchString q \<noteq> [] then [term_docs qt A L s (query_term qt A q)] else []) @
     map (type_docs A L s) (qy_types q) @
     (if qy_includeFolder q \<noteq> [] then [folder_docs qt L s (qy_includeFolder q)] else []) @
     date_docs A L s q"

text \<open>The documents of a query: those of all its parts. A query without parts finds nothing.\<close>

definition query_docs :: "qt_text \<Rightarrow> ('d, 't) search_api \<Rightarrow> 's lmdb \<Rightarrow> 's \<Rightarrow> Query \<Rightarrow> u64 set" where
  "query_docs qt A L s q =
     (let parts = query_parts qt A L s q in if parts = [] then {} else \<Inter> (set parts))"

lemma part_ok_single: "gives n r D \<Longrightarrow> n \<le> m \<Longrightarrow> part_ok m (map_option (\<lambda>it. [it]) r) [D]"
  using gives_mono[of n r D m] by (cases r) (simp_all add: part_ok_def del: iter_rest.simps)

lemma part_ok_Nil [simp]: "part_ok m (Some []) []"
  by (simp add: part_ok_def)

lemma part_ok_sequence:
  "list_all2 (part_ok m) rs Dss \<Longrightarrow> part_ok m (map_option concat (sequence rs)) (concat Dss)"
proof (induction rs arbitrary: Dss)
  case (Cons r rs)
  then obtain Ds Dss' where Dss: "Dss = Ds # Dss'" "part_ok m r Ds" "list_all2 (part_ok m) rs Dss'"
    by (cases Dss) auto
  note IH = Cons.IH[OF Dss(3)]
  show ?case
  proof (cases r)
    case None
    then show ?thesis using Dss(1,2) by (simp add: part_ok_def)
  next
    case (Some vec)
    then show ?thesis
      using IH Dss(1,2) by (cases "sequence rs") (auto simp: part_ok_def simp del: iter_rest.simps)
  qed
qed simp

lemma types_part_ok:
  assumes "search_index L s rk" "1 \<le> m"
  shows "part_ok m (types_part A L s types) (map (type_docs A L s) types)"
proof (induction types)
  case (Cons type types)
  have one: "gives m (constructTypeQuery A L s type) (type_docs A L s type)"
    using gives_mono[OF gives_type[OF assms(1)] assms(2)] .
  show ?case
    using Cons one
    by (cases "constructTypeQuery A L s type"; cases "types_part A L s types")
      (auto simp: part_ok_def simp del: iter_rest.simps)
qed simp

lemma constructFromQuery_answers:
  assumes "lmdb_ok L" "search_index L s rk" "lower_ok qt A" "size (query_term qt A q) + 3 \<le> n"
  shows "answers (n + 4) (constructFromQuery n qt A L s q) (query_docs qt A L s q)"
proof -
  let ?m = "n + 3"
  obtain r where r: "constructQuery n qt A L s (query_term qt A q) = Some r"
    "gives ?m r (term_docs qt A L s (query_term qt A q))"
    using constructQuery_answers[OF assms] by (auto simp: answers_def simp del: gives_simps)
  define Ds where "Ds = (if qy_searchString q \<noteq> [] then [term_docs qt A L s (query_term qt A q)] else [])"
  obtain p1 where p1: "search_part n qt A L s q = Some p1" "part_ok ?m p1 Ds"
  proof (cases "qy_searchString q = []")
    case True
    then show thesis using that[of "Some []"] by (simp add: search_part_def Ds_def)
  next
    case False
    then have "search_part n qt A L s q = Some (map_option (\<lambda>it. [it]) r)"
      using r(1) by (simp add: search_part_def query_term_def)
    moreover have "part_ok ?m (map_option (\<lambda>it. [it]) r) Ds"
      using False part_ok_single[OF r(2), of ?m] by (simp add: Ds_def)
    ultimately show thesis by (rule that)
  qed
  have p3: "part_ok ?m (folder_part qt L s q)
      (if qy_includeFolder q \<noteq> [] then [folder_docs qt L s (qy_includeFolder q)] else [])"
    using part_ok_single[OF gives_folder[OF assms(2)], of ?m] by (simp add: folder_part_def)
  obtain b e where be: "date_range A (qy_yearFilter q) (qy_monthFilter q) (qy_dayFilter q) = (b, e)"
    by (cases "date_range A (qy_yearFilter q) (qy_monthFilter q) (qy_dayFilter q)") auto
  have p4: "part_ok ?m (date_part A L s q) (date_docs A L s q)"
    using part_ok_single[OF gives_time[OF assms(1,2), of b e], of ?m] be by (simp add: date_part_def date_docs_def)
  let ?rs = "[p1, types_part A L s (qy_types q), folder_part qt L s q, date_part A L s q]"
  let ?parts = "query_parts qt A L s q"
  have all: "part_ok ?m (map_option concat (sequence ?rs)) ?parts"
  proof -
    have "list_all2 (part_ok ?m) ?rs [Ds, map (type_docs A L s) (qy_types q),
        if qy_includeFolder q \<noteq> [] then [folder_docs qt L s (qy_includeFolder q)] else [], date_docs A L s q]"
      using p1(2) p3 p4 types_part_ok[OF assms(2), of ?m A "qy_types q"] by simp
    from part_ok_sequence[OF this] show ?thesis by (simp add: query_parts_def Ds_def)
  qed
  show ?thesis
  proof (cases "sequence ?rs")
    case None
    then have "{} \<in> set ?parts" using all by (simp add: part_ok_def)
    then have "query_docs qt A L s q = {}" by (auto simp: query_docs_def Let_def)
    then show ?thesis using None p1(1) by (simp add: constructFromQuery_def answers_def)
  next
    case (Some vecs)
    let ?vec = "concat vecs"
    have vec: "\<forall>it \<in> set ?vec. fresh ?m it" "map (\<lambda>it. set (iter_rest ?m it)) ?vec = ?parts"
      using all Some by (simp_all add: part_ok_def)
    have eq: "constructFromQuery n qt A L s q = Some (Some (ItAnd (AndPostingIterator_new (map Some ?vec))))"
      using Some p1(1) by (simp add: constructFromQuery_def)
    have "gives (n + 4) (Some (ItAnd (AndPostingIterator_new (map Some ?vec)))) (query_docs qt A L s q)"
    proof (cases "?vec = []")
      case True
      then have "?parts = []" using vec(2) by (metis map_is_Nil_conv)
      then show ?thesis
        unfolding True by (simp add: query_docs_def AndPostingIterator_new_def fresh_def eval_nat_numeral)
    next
      case False
      then have "?parts \<noteq> []" using vec(2) by (metis map_is_Nil_conv)
      then have "query_docs qt A L s q = \<Inter> (set ?parts)" by (simp add: query_docs_def Let_def)
      also have "\<dots> = (\<Inter>it \<in> set ?vec. set (iter_rest ?m it))"
        unfolding vec(2)[symmetric] by simp
      finally show ?thesis using fresh_and[OF vec(1) False] by (simp add: add.commute[of n] del: iter_rest.simps)
    qed
    then show ?thesis unfolding eq by (rule answersI)
  qed
qed

section \<open>Results\<close>

lemma iter_drop_rest:
  "iter_inv d it \<Longrightarrow> \<exists>it'. iter_drop d k it = Some it' \<and> iter_inv d it' \<and> iter_rest d it' = drop k (iter_rest d it)"
proof (induction k arbitrary: it)
  case (Suc k)
  obtain it' where it': "iter_next d it = Some (hd0 (iter_rest d it), it')" "iter_inv d it'"
    "iter_rest d it' = tl (iter_rest d it)"
    using iter.nx_law[OF Suc.prems] by blast
  show ?case
  proof (cases "iter_rest d it")
    case Nil
    then show ?thesis using it' by simp
  next
    case (Cons x xs)
    have "x \<noteq> 0" using iter.asc_rest[OF Suc.prems] Cons by auto
    then show ?thesis using it' Cons Suc.IH[OF it'(2)] by simp
  qed
qed simp

lemma iter_take_rest: "iter_inv d it \<Longrightarrow> iter_take d k it = Some (take k (iter_rest d it))"
proof (induction k arbitrary: it)
  case (Suc k)
  obtain it' where it': "iter_next d it = Some (hd0 (iter_rest d it), it')" "iter_inv d it'"
    "iter_rest d it' = tl (iter_rest d it)"
    using iter.nx_law[OF Suc.prems] by blast
  show ?case
  proof (cases "iter_rest d it")
    case Nil
    then show ?thesis using it' by simp
  next
    case (Cons x xs)
    have "x \<noteq> 0" using iter.asc_rest[OF Suc.prems] Cons by auto
    then show ?thesis using it' Cons Suc.IH[OF it'(2)] by simp
  qed
qed simp

text \<open>What \<open>std::sort\<close> promises: a permutation in the order of the comparison, here latest first.\<close>

definition sort_ok :: "((u64 \<times> u32) list \<Rightarrow> (u64 \<times> u32) list) \<Rightarrow> bool" where
  "sort_ok std_sort \<longleftrightarrow> (\<forall>xs. mset (std_sort xs) = mset xs \<and> sorted_wrt (\<lambda>a b. snd b \<le> snd a) (std_sort xs))"

text \<open>The window of the results that the offset and limit leave.\<close>

definition result_window :: "Query \<Rightarrow> 'a list \<Rightarrow> 'a list" where
  "result_window q xs =
     (if qy_sortingOption q = SortAuto \<and> qy_limit q = defaultLimit then drop (unat (qy_offset q)) xs
      else take (unat (qy_limit q)) (drop (unat (qy_offset q)) xs))"

definition result_order :: "'s lmdb \<Rightarrow> 's \<Rightarrow> Query \<Rightarrow> u64 list \<Rightarrow> bool" where
  "result_order L s q ids \<longleftrightarrow>
     (if qy_sortingOption q = SortAuto
      then sorted_wrt (\<lambda>i j. mTime (Transaction_documentTimeInfo L s j) \<le> mTime (Transaction_documentTimeInfo L s i)) ids
      else asc ids)"

lemma map_nth_window: "b \<le> length xs \<Longrightarrow> map (\<lambda>j. f (xs ! j)) [a..<b] = map f (take (b - a) (drop a xs))"
  by (rule nth_equalityI) auto

lemma exec_sorted_window:
  assumes "sort_ok std_sort" "fresh d it" "qy_sortingOption q = SortAuto"
  shows "\<exists>ids. distinct ids \<and> set ids = set (iter_rest d it) \<and> result_order L s q ids \<and>
    exec_sorted d std_sort L s q it = Some (map (Result_of L s) (result_window q ids))"
proof -
  let ?rest = "iter_rest d it"
  let ?pairs = "map (\<lambda>i. (i, mTime (Transaction_documentTimeInfo L s i))) ?rest"
  let ?sorted = "std_sort ?pairs"
  have srt: "mset ?sorted = mset ?pairs" "sorted_wrt (\<lambda>a b. snd b \<le> snd a) ?sorted"
    using assms(1) by (simp_all add: sort_ok_def)
  have len: "length ?sorted = length ?rest" using arg_cong[OF srt(1), of size] by simp
  define ids where "ids = map fst ?sorted"
  have ms: "mset ids = mset ?rest"
  proof -
    have "mset ids = image_mset fst (mset ?pairs)" by (simp add: ids_def srt(1))
    also have "\<dots> = mset ?rest" by (simp add: multiset.map_comp comp_def)
    finally show ?thesis .
  qed
  have "distinct ?rest" using fresh_ids(1)[OF assms(2)] by (rule asc_distinct)
  then have dist: "distinct ids" "set ids = set ?rest"
    using mset_eq_imp_distinct_iff[OF ms] mset_eq_setD[OF ms] by auto
  have pair: "snd p = mTime (Transaction_documentTimeInfo L s (fst p))" if "p \<in> set ?sorted" for p
    using that mset_eq_setD[OF srt(1)] by auto
  have "result_order L s q ids"
  proof -
    have "sorted_wrt (\<lambda>a b. mTime (Transaction_documentTimeInfo L s (fst b)) \<le>
        mTime (Transaction_documentTimeInfo L s (fst a))) ?sorted"
      by (rule sorted_wrt_mono_rel[OF _ srt(2)]) (simp add: pair)
    then show ?thesis using assms(3) by (simp add: result_order_def ids_def sorted_wrt_map)
  qed
  moreover have "exec_sorted d std_sort L s q it = Some (map (Result_of L s) (result_window q ids))"
  proof -
    let ?o = "unat (qy_offset q)"
    let ?last = "if qy_limit q = defaultLimit then length ?rest else min (?o + unat (qy_limit q)) (length ?rest)"
    have ex: "exec_sorted d std_sort L s q it =
        (if ?o \<ge> length ?rest then Some [] else Some (map (\<lambda>j. Result_of L s (fst (?sorted ! j))) [?o..<?last]))"
      using fresh_drain[OF assms(2)] by (simp add: exec_sorted_def Let_def)
    show ?thesis
    proof (cases "?o \<ge> length ?rest")
      case True
      then have "result_window q ids = []" using len by (simp add: result_window_def ids_def)
      then show ?thesis using ex True by simp
    next
      case False
      have "map (\<lambda>j. Result_of L s (fst (?sorted ! j))) [?o..<?last] =
          map (\<lambda>p. Result_of L s (fst p)) (take (?last - ?o) (drop ?o ?sorted))"
        by (rule map_nth_window) (simp add: len)
      also have "\<dots> = map (Result_of L s) (take (?last - ?o) (drop ?o ids))"
        by (simp add: ids_def take_map drop_map)
      also have "take (?last - ?o) (drop ?o ids) = result_window q ids"
        using assms(3) len by (auto simp: result_window_def ids_def min_def)
      finally show ?thesis using ex False by simp
    qed
  qed
  ultimately show ?thesis using dist by blast
qed

lemma exec_unsorted_window:
  assumes "fresh d it" "qy_sortingOption q = SortNone"
  shows "\<exists>ids. distinct ids \<and> set ids = set (iter_rest d it) \<and> result_order L s q ids \<and>
    exec_unsorted d L s q it = Some (map (Result_of L s) (result_window q ids))"
proof -
  have inv: "iter_inv d it" using assms(1) by (simp add: fresh_def)
  obtain it' where "iter_drop d (unat (qy_offset q)) it = Some it'" "iter_inv d it'"
    "iter_rest d it' = drop (unat (qy_offset q)) (iter_rest d it)"
    using iter_drop_rest[OF inv] by blast
  then show ?thesis
    using iter_take_rest[of d it' "unat (qy_limit q)"] fresh_ids(1)[OF assms(1)] assms(2)
    by (intro exI[of _ "iter_rest d it"])
      (simp add: exec_unsorted_def result_window_def result_order_def asc_distinct)
qed

lemma SearchStore_exec_results:
  assumes "lmdb_ok L" "search_index L s rk" "lower_ok qt A" "size (query_term qt A q) + 3 \<le> n" "sort_ok std_sort"
  shows "\<exists>ids. distinct ids \<and> set ids = query_docs qt A L s q \<and> result_order L s q ids \<and>
    SearchStore_exec n qt A std_sort L (Some s) q = Some (map (Result_of L s) (result_window q ids))"
proof -
  obtain r where r: "constructFromQuery n qt A L s q = Some r" "gives (n + 4) r (query_docs qt A L s q)"
    using constructFromQuery_answers[OF assms(1-4)] by (auto simp: answers_def simp del: gives_simps)
  show ?thesis
  proof (cases r)
    case None
    then show ?thesis using r
      by (intro exI[of _ "[]"]) (simp add: SearchStore_exec_def result_window_def result_order_def)
  next
    case (Some it)
    then have it: "fresh (n + 4) it" "set (iter_rest (n + 4) it) = query_docs qt A L s q" using r(2) by simp_all
    show ?thesis
    proof (cases "qy_sortingOption q")
      case SortAuto
      then show ?thesis
        using exec_sorted_window[OF assms(5) it(1) SortAuto, of L s] it(2) r(1) Some
        by (simp add: SearchStore_exec_def)
    next
      case SortNone
      then show ?thesis
        using exec_unsorted_window[OF it(1) SortNone, of L s] it(2) r(1) Some
        by (simp add: SearchStore_exec_def)
    qed
  qed
qed

text \<open>Walking over the results with \<open>next()\<close> sees each result once, in order.\<close>

lemma read_results_all:
  assumes "length results < 2 ^ 64 - 1"
  shows "length results \<le> k \<Longrightarrow> read_results k (ResultIterator_new results) = results"
proof -
  let ?at = "\<lambda>j. \<lparr>ri_results = results, ri_pos = of_nat j - 1\<rparr>"
  have next_at: "ResultIterator_next (?at j) = (j < length results, ?at (Suc j))" if "j \<le> length results" for j
  proof -
    have "unat (of_nat j :: u64) = j" using that assms by (simp add: unat_of_nat)
    then show ?thesis by (simp add: ResultIterator_next_def Let_def)
  qed
  have "read_results k (?at j) = drop j results" if "j \<le> length results" "length results \<le> j + k" for j k
    using that
  proof (induction k arbitrary: j)
    case (Suc k)
    show ?case
    proof (cases "j < length results")
      case True
      have "unat (of_nat (Suc j) - 1 :: u64) = j" using True assms by (simp add: unat_of_nat)
      then show ?thesis
        using Suc.IH[of "Suc j"] Suc.prems True next_at[OF Suc.prems(1)]
        by (simp add: Cons_nth_drop_Suc)
    next
      case False
      then show ?thesis using Suc.prems next_at[OF Suc.prems(1)] by simp
    qed
  qed simp
  from this[of 0 k] show "length results \<le> k \<Longrightarrow> ?thesis" by (simp add: ResultIterator_new_def)
qed

end
