(* ===== verification/QueryJson.thy ===== *)
theory QueryJson
  imports SearchExec "HOL-Library.Countable"
begin

text \<open>
  The JSON and URL forms of a query (\<open>query.cpp\<close>). The JSON reader and writer of Qt are the record \<open>J\<close>:
  \<open>js_write\<close> turns a \<open>QVariantMap\<close> into compact JSON, \<open>js_read\<close> reads the members of the object of a
  document; the values read have the conversions of \<open>QVariant\<close>. The URL functions are the record \<open>U\<close>.
\<close>

datatype QVariant = VUInt u32 | VInt int | VString QString | VStringList "QString list"

record 'v json_api =
  js_write :: "(QString \<times> QVariant) list \<Rightarrow> bytes"
  js_read :: "bytes \<Rightarrow> (QString \<times> 'v) list"
  js_toUInt :: "'v \<Rightarrow> u32"
  js_toInt :: "'v \<Rightarrow> int"
  js_toString :: "'v \<Rightarrow> QString"
  js_toStringList :: "'v \<Rightarrow> QString list"

section \<open>JSON\<close>

definition int_of_SortingOption :: "SortingOption \<Rightarrow> int" where
  "int_of_SortingOption opt = (case opt of SortNone \<Rightarrow> 0 | SortAuto \<Rightarrow> 1)"

text \<open>\<open>static_cast<SortingOption>\<close>; other numbers have no enumerator and sort nothing.\<close>

definition SortingOption_of_int :: "int \<Rightarrow> SortingOption" where
  "SortingOption_of_int option = (if option = 1 then SortAuto else SortNone)"

text \<open>\<open>if (c) { map[key] = v; }\<close>\<close>

definition put_if :: "bool \<Rightarrow> string \<Rightarrow> QVariant \<Rightarrow> (QString \<times> QVariant) list \<Rightarrow> (QString \<times> QVariant) list" where
  "put_if c key v m = (if c then qmap_insert (qs key) v m else m)"

definition Query_toMap :: "Query \<Rightarrow> (QString \<times> QVariant) list" where
  "Query_toMap q =
     (let m = put_if (qy_types q \<noteq> []) ''type'' (VStringList (qy_types q)) [];
          m = put_if (qy_limit q \<noteq> defaultLimit) ''limit'' (VUInt (qy_limit q)) m;
          m = put_if (qy_offset q \<noteq> 0) ''offset'' (VUInt (qy_offset q)) m;
          m = put_if (qy_searchString q \<noteq> []) ''searchString'' (VString (qy_searchString q)) m;
          m = put_if (qy_searchScopes q \<noteq> []) ''searchScopes'' (VStringList (qy_searchScopes q)) m;
          m = put_if (0 < qy_yearFilter q) ''yearFilter'' (VInt (qy_yearFilter q)) m;
          m = put_if (0 < qy_monthFilter q) ''monthFilter'' (VInt (qy_monthFilter q)) m;
          m = put_if (0 < qy_dayFilter q) ''dayFilter'' (VInt (qy_dayFilter q)) m;
          m = put_if (qy_sortingOption q \<noteq> SortAuto) ''sortingOption'' (VInt (int_of_SortingOption (qy_sortingOption q))) m
      in put_if (qy_includeFolder q \<noteq> []) ''includeFolder'' (VString (qy_includeFolder q)) m)"

definition Query_toJSON :: "'v json_api \<Rightarrow> Query \<Rightarrow> bytes" where
  "Query_toJSON J q = js_write J (Query_toMap q)"

text \<open>\<open>map[key]\<close> converted by \<open>conv\<close>; a missing key gives the invalid variant, which converts to \<open>dflt\<close>.\<close>

definition json_member :: "(QString \<times> 'v) list \<Rightarrow> string \<Rightarrow> ('v \<Rightarrow> 'a) \<Rightarrow> 'a \<Rightarrow> 'a" where
  "json_member m key conv dflt = (case map_of m (qs key) of None \<Rightarrow> dflt | Some v \<Rightarrow> conv v)"

definition Query_fromMap :: "'v json_api \<Rightarrow> (QString \<times> 'v) list \<Rightarrow> Query" where
  "Query_fromMap J m =
     Query_new
       \<lparr>qy_types := json_member m ''type'' (js_toStringList J) [],
        qy_limit := json_member m ''limit'' (js_toUInt J) defaultLimit,
        qy_offset := json_member m ''offset'' (js_toUInt J) 0,
        qy_searchString := json_member m ''searchString'' (js_toString J) [],
        qy_searchScopes := json_member m ''searchScopes'' (js_toStringList J) [],
        qy_yearFilter := json_member m ''yearFilter'' (js_toInt J) (qy_yearFilter Query_new),
        qy_monthFilter := json_member m ''monthFilter'' (js_toInt J) (qy_monthFilter Query_new),
        qy_dayFilter := json_member m ''dayFilter'' (js_toInt J) (qy_dayFilter Query_new),
        qy_sortingOption := json_member m ''sortingOption'' (SortingOption_of_int \<circ> js_toInt J) (qy_sortingOption Query_new),
        qy_includeFolder := json_member m ''includeFolder'' (js_toString J) (qy_includeFolder Query_new)\<rparr>"

definition Query_fromJSON :: "'v json_api \<Rightarrow> bytes \<Rightarrow> Query" where
  "Query_fromJSON J arr = Query_fromMap J (js_read J arr)"

section \<open>Search URLs\<close>

text \<open>
  A \<open>QUrl\<close> by its scheme, its path and the items of its query, which it stores percent-encoded.
  \<open>ua_encode\<close> is \<open>toPercentEncoding\<close> (as text), \<open>ua_decode\<close> the reading with \<open>FullyDecoded\<close>.
\<close>

record QUrl =
  url_scheme :: QString
  url_path :: QString
  url_items :: "(QString \<times> QString) list"

record url_api =
  ua_encode :: "QString \<Rightarrow> QString"
  ua_decode :: "QString \<Rightarrow> QString"

definition queryItemValue :: "url_api \<Rightarrow> QUrl \<Rightarrow> QString \<Rightarrow> QString" where
  "queryItemValue U url key = (case map_of (url_items url) key of None \<Rightarrow> [] | Some v \<Rightarrow> ua_decode U v)"

definition hasQueryItem :: "QUrl \<Rightarrow> QString \<Rightarrow> bool" where
  "hasQueryItem url key \<longleftrightarrow> map_of (url_items url) key \<noteq> None"

definition Query_toSearchUrl :: "qt_text \<Rightarrow> 'v json_api \<Rightarrow> url_api \<Rightarrow> Query \<Rightarrow> QString \<Rightarrow> QUrl" where
  "Query_toSearchUrl qt J U q title =
     (let percentEncodedJSON = ua_encode U (qt_fromUtf8 qt (Query_toJSON J q));
          items = [(qs ''json'', percentEncodedJSON)];
          items = (if title \<noteq> [] then items @ [(qs ''title'', ua_encode U title)] else items)
      in \<lparr>url_scheme = qs ''baloosearch'', url_path = [], url_items = items\<rparr>)"

definition typeQueryFromUrl :: "QUrl \<Rightarrow> Query" where
  "typeQueryFromUrl url =
     (let path = url_path url
      in if path = qs ''/documents'' then Query_new\<lparr>qy_types := [qs ''Document'']\<rparr>
         else if suffix (qs ''/images'') path then Query_new\<lparr>qy_types := [qs ''Image'']\<rparr>
         else if suffix (qs ''/audio'') path then Query_new\<lparr>qy_types := [qs ''Audio'']\<rparr>
         else if suffix (qs ''/videos'') path then Query_new\<lparr>qy_types := [qs ''Video'']\<rparr>
         else Query_new)"

definition Query_fromSearchUrl :: "qt_text \<Rightarrow> 'v json_api \<Rightarrow> url_api \<Rightarrow> QUrl \<Rightarrow> Query" where
  "Query_fromSearchUrl qt J U url =
     (if url_scheme url \<noteq> qs ''baloosearch'' then Query_new
      else if hasQueryItem url (qs ''json'') then
        Query_fromJSON J (qt_toUtf8 qt (queryItemValue U url (qs ''json'')))
      else if hasQueryItem url (qs ''query'') then
        Query_new\<lparr>qy_searchString := queryItemValue U url (qs ''query'')\<rparr>
      else typeQueryFromUrl url)"

definition Query_titleFromQueryUrl :: "url_api \<Rightarrow> QUrl \<Rightarrow> QString" where
  "Query_titleFromQueryUrl U url = queryItemValue U url (qs ''title'')"

text \<open>The remaining setters and \<open>addType\<close>, which splits \<open>"A/B"\<close> at its slashes and drops empty parts.\<close>

definition Query_addType :: "QString \<Rightarrow> Query \<Rightarrow> Query" where
  "Query_addType type q = q\<lparr>qy_types := qy_types q @ split_skip_empty 47 type []\<rparr>"

definition Query_addTypes :: "QString list \<Rightarrow> Query \<Rightarrow> Query" where
  "Query_addTypes typeList q = fold Query_addType typeList q"

definition Query_setType :: "QString \<Rightarrow> Query \<Rightarrow> Query" where
  "Query_setType type q = Query_addType type (q\<lparr>qy_types := []\<rparr>)"

section \<open>What Qt promises\<close>

fun variant_ok :: "QVariant \<Rightarrow> bool" where
  "variant_ok (VUInt n) = True"
| "variant_ok (VInt i) = (- (2 ^ 31) \<le> i \<and> i < 2 ^ 31)"
| "variant_ok (VString str) = utf16_ok str"
| "variant_ok (VStringList strs) = list_all utf16_ok strs"

text \<open>A value read back converts to what was written.\<close>

fun same_value :: "'v json_api \<Rightarrow> QVariant \<Rightarrow> 'v \<Rightarrow> bool" where
  "same_value J (VUInt n) v = (js_toUInt J v = n)"
| "same_value J (VInt i) v = (js_toInt J v = i)"
| "same_value J (VString str) v = (js_toString J v = str)"
| "same_value J (VStringList strs) v = (js_toStringList J v = strs)"

definition json_ok :: "'v json_api \<Rightarrow> bool" where
  "json_ok J \<longleftrightarrow> (\<forall>m. asc_keys m \<and> list_all (variant_ok \<circ> snd) m \<longrightarrow>
     (\<forall>key. rel_option (same_value J) (map_of m key) (map_of (js_read J (js_write J m)) key)))"

text \<open>JSON text is UTF-8, and percent encoding is undone by decoding, for well-formed texts.\<close>

definition url_ok :: "qt_text \<Rightarrow> 'v json_api \<Rightarrow> url_api \<Rightarrow> bool" where
  "url_ok qt J U \<longleftrightarrow>
     (\<forall>m. utf16_ok (qt_fromUtf8 qt (js_write J m)) \<and> qt_toUtf8 qt (qt_fromUtf8 qt (js_write J m)) = js_write J m) \<and>
     (\<forall>str. utf16_ok str \<longrightarrow> ua_decode U (ua_encode U str) = str)"

definition query_ok :: "Query \<Rightarrow> bool" where
  "query_ok q \<longleftrightarrow> list_all utf16_ok (qy_types q) \<and> utf16_ok (qy_searchString q) \<and> list_all utf16_ok (qy_searchScopes q) \<and>
     utf16_ok (qy_includeFolder q) \<and> qy_yearFilter q \<in> {0..<2 ^ 31} \<and> qy_monthFilter q \<in> {0..<2 ^ 31} \<and>
     qy_dayFilter q \<in> {0..<2 ^ 31}"

section \<open>Reading back\<close>

lemma put_if_asc: "asc_keys m \<Longrightarrow> asc_keys (put_if c key v m)"
  by (simp add: put_if_def)

lemma map_of_put_if:
  "asc_keys m \<Longrightarrow> map_of (put_if c key v m) k = (if c \<and> k = qs key then Some v else map_of m k)"
  by (simp add: put_if_def map_of_qmap_insert)

lemma set_qmap_insert: "set (qmap_insert k v m) \<subseteq> insert (k, v) (set m)"
  by (induction m) auto

lemma put_if_variants:
  "list_all (variant_ok \<circ> snd) m \<Longrightarrow> (c \<Longrightarrow> variant_ok v) \<Longrightarrow> list_all (variant_ok \<circ> snd) (put_if c key v m)"
  using set_qmap_insert[of "qs key" v m] by (fastforce simp: put_if_def list_all_iff)

lemma asc_keys_Nil: "asc_keys []"
  by simp

lemma Query_toMap_asc: "asc_keys (Query_toMap q)"
  by (simp add: Query_toMap_def Let_def put_if_asc)

lemma Query_toMap_variants:
  assumes "query_ok q"
  shows "list_all (variant_ok \<circ> snd) (Query_toMap q)"
  using assms unfolding Query_toMap_def Let_def
  by (intro put_if_variants) (auto simp: query_ok_def int_of_SortingOption_def split: SortingOption.splits)

text \<open>A member read back is the value that was written, or the default where none was.\<close>

lemma member_read:
  assumes "rel_option (same_value J) (map_of m (qs key)) (map_of m' (qs key))"
  shows "map_of m (qs key) = (if c then Some (VUInt n) else None) \<Longrightarrow> json_member m' key (js_toUInt J) d = (if c then n else d)"
    and "map_of m (qs key) = (if c then Some (VInt i) else None) \<Longrightarrow>
      json_member m' key (g \<circ> js_toInt J) d' = (if c then g i else d')"
    and "map_of m (qs key) = (if c then Some (VString str) else None) \<Longrightarrow>
      json_member m' key (js_toString J) e = (if c then str else e)"
    and "map_of m (qs key) = (if c then Some (VStringList strs) else None) \<Longrightarrow>
      json_member m' key (js_toStringList J) e' = (if c then strs else e')"
  using assms by (auto simp: json_member_def option_rel_Some1 split: if_splits option.splits)

lemma qs_eq_iff: "qs a = qs b \<longleftrightarrow> a = b"
proof -
  have "inj (\<lambda>c :: char. word_of_nat (of_char c) :: 16 word)"
  proof
    fix c d :: char
    assume "(word_of_nat (of_char c) :: 16 word) = word_of_nat (of_char d)"
    then have "unat (word_of_nat (of_char c) :: 16 word) = unat (word_of_nat (of_char d) :: 16 word)"
      by simp
    moreover have "of_char c < (256 :: nat)" "of_char d < (256 :: nat)"
      by simp_all
    ultimately have "(of_char c :: nat) = of_char d"
      by (simp add: unat_of_nat)
    then show "c = d"
      by simp
  qed
  then show ?thesis
    unfolding qs_def by (simp add: inj_map_eq_map)
qed

lemma Query_toMap_members:
  "map_of (Query_toMap q) (qs ''type'') = (if qy_types q \<noteq> [] then Some (VStringList (qy_types q)) else None)"
  "map_of (Query_toMap q) (qs ''limit'') = (if qy_limit q \<noteq> defaultLimit then Some (VUInt (qy_limit q)) else None)"
  "map_of (Query_toMap q) (qs ''offset'') = (if qy_offset q \<noteq> 0 then Some (VUInt (qy_offset q)) else None)"
  "map_of (Query_toMap q) (qs ''searchString'') =
     (if qy_searchString q \<noteq> [] then Some (VString (qy_searchString q)) else None)"
  "map_of (Query_toMap q) (qs ''searchScopes'') =
     (if qy_searchScopes q \<noteq> [] then Some (VStringList (qy_searchScopes q)) else None)"
  "map_of (Query_toMap q) (qs ''yearFilter'') = (if 0 < qy_yearFilter q then Some (VInt (qy_yearFilter q)) else None)"
  "map_of (Query_toMap q) (qs ''monthFilter'') = (if 0 < qy_monthFilter q then Some (VInt (qy_monthFilter q)) else None)"
  "map_of (Query_toMap q) (qs ''dayFilter'') = (if 0 < qy_dayFilter q then Some (VInt (qy_dayFilter q)) else None)"
  "map_of (Query_toMap q) (qs ''sortingOption'') =
     (if qy_sortingOption q \<noteq> SortAuto then Some (VInt (int_of_SortingOption (qy_sortingOption q))) else None)"
  "map_of (Query_toMap q) (qs ''includeFolder'') =
     (if qy_includeFolder q \<noteq> [] then Some (VString (qy_includeFolder q)) else None)"
  unfolding Query_toMap_def Let_def
  by (simp_all add: map_of_put_if put_if_asc asc_keys_Nil qs_eq_iff)

lemma Query_fromJSON_toJSON:
  assumes "json_ok J" "query_ok q"
  shows "Query_fromJSON J (Query_toJSON J q) = q"
proof -
  let ?m' = "js_read J (Query_toJSON J q)"
  have rel: "rel_option (same_value J) (map_of (Query_toMap q) (qs key)) (map_of ?m' (qs key))" for key
    using assms Query_toMap_asc Query_toMap_variants unfolding json_ok_def Query_toJSON_def by blast
  note uints = Query_toMap_members(2,3)[THEN member_read(1)[OF rel]]
  note ints = Query_toMap_members(6-8)[THEN member_read(2)[OF rel, where g = "\<lambda>i. i", unfolded comp_def]]
    Query_toMap_members(9)[THEN member_read(2)[OF rel, where g = SortingOption_of_int]]
  note strs = Query_toMap_members(4,10)[THEN member_read(3)[OF rel]] Query_toMap_members(1,5)[THEN member_read(4)[OF rel]]
  show ?thesis
    using assms(2) unfolding Query_fromJSON_def Query_fromMap_def
    by (intro Query.equality)
      (simp_all add: uints ints strs Query_new_def query_ok_def SortingOption_of_int_def int_of_SortingOption_def
        split: SortingOption.splits)
qed

lemma Query_url_roundtrip:
  assumes "json_ok J" "url_ok qt J U" "query_ok q" "utf16_ok title"
  shows "Query_fromSearchUrl qt J U (Query_toSearchUrl qt J U q title) = q"
    and "Query_titleFromQueryUrl U (Query_toSearchUrl qt J U q title) = title"
proof -
  have "qt_toUtf8 qt (ua_decode U (ua_encode U (qt_fromUtf8 qt (Query_toJSON J q)))) = Query_toJSON J q"
    using assms(2) by (simp add: url_ok_def Query_toJSON_def)
  then show "Query_fromSearchUrl qt J U (Query_toSearchUrl qt J U q title) = q"
    using Query_fromJSON_toJSON[OF assms(1,3)]
    by (simp add: Query_fromSearchUrl_def Query_toSearchUrl_def hasQueryItem_def queryItemValue_def Let_def)
  show "Query_titleFromQueryUrl U (Query_toSearchUrl qt J U q title) = title"
    using assms(2,4)
    by (simp add: Query_titleFromQueryUrl_def Query_toSearchUrl_def queryItemValue_def url_ok_def qs_eq_iff Let_def)
qed

text \<open>A negative date filter is searched for, but not written.\<close>

lemma negative_year_lost:
  assumes "json_ok J" "q = Query_new\<lparr>qy_yearFilter := - 5\<rparr>"
  shows "Query_fromJSON J (Query_toJSON J q) = Query_new"
proof -
  have "Query_toMap q = Query_toMap Query_new"
    by (simp add: assms(2) Query_toMap_def put_if_def Query_new_def)
  moreover have "query_ok Query_new"
    by (simp add: query_ok_def Query_new_def)
  ultimately show ?thesis
    using Query_fromJSON_toJSON[OF assms(1)] unfolding Query_toJSON_def by metis
qed

section \<open>A concrete JSON\<close>

text \<open>Any injective text of maps will do as JSON: their number in an enumeration, in base one.\<close>

instance QVariant :: countable
  by countable_datatype

definition sample_json_api :: "QVariant json_api" where
  "sample_json_api =
     \<lparr>js_write = (\<lambda>m. replicate (to_nat m) 0), js_read = (\<lambda>b. from_nat (length b)),
      js_toUInt = (\<lambda>v. case v of VUInt n \<Rightarrow> n | _ \<Rightarrow> 0), js_toInt = (\<lambda>v. case v of VInt i \<Rightarrow> i | _ \<Rightarrow> 0),
      js_toString = (\<lambda>v. case v of VString str \<Rightarrow> str | _ \<Rightarrow> []),
      js_toStringList = (\<lambda>v. case v of VStringList strs \<Rightarrow> strs | _ \<Rightarrow> [])\<rparr>"

lemma json_ok_sample: "json_ok sample_json_api"
proof -
  have "same_value sample_json_api v v" for v
    by (cases v) (simp_all add: sample_json_api_def)
  moreover have "js_read sample_json_api (js_write sample_json_api m) = m" for m
    by (simp add: sample_json_api_def)
  ultimately show ?thesis
    by (auto simp: json_ok_def intro: option.rel_refl)
qed

definition sample_url :: url_api where
  "sample_url = \<lparr>ua_encode = (\<lambda>str. 37 # str), ua_decode = tl\<rparr>"

end
