(* ===== verification/Lmdb_Ref.thy ===== *)
theory Lmdb_Ref
  imports Lmdb
begin

text \<open>
  A store with the documented behaviour \<open>lmdb_ok\<close>, for the closed examples: the entries of each
  sub-database as a list that reading brings into the order of its keys. It shows that the
  hypothesis \<open>lmdb_ok\<close> can hold.
\<close>

type_synonym ref_store = "MDB_dbi \<Rightarrow> (bytes \<times> bytes) list"

definition entry_ok :: "MDB_dbi \<Rightarrow> bytes \<times> bytes \<Rightarrow> bool" where
  "entry_ok d e \<longleftrightarrow> key_ok d (fst e) \<and> value_ok d (snd e)"

definition ref_insert :: "MDB_dbi \<Rightarrow> bytes \<times> bytes \<Rightarrow> (bytes \<times> bytes) list \<Rightarrow> (bytes \<times> bytes) list" where
  "ref_insert d e es =
     (if entry_ok d e then
        let es' = filter (\<lambda>x. if dup_sort d then x \<noteq> e else fst x \<noteq> fst e) es
        in filter (\<lambda>x. entry_less d x e) es' @ e # filter (\<lambda>x. \<not> entry_less d x e) es'
      else es)"

definition ref_scan :: "ref_store \<Rightarrow> MDB_dbi \<Rightarrow> (bytes \<times> bytes) list" where
  "ref_scan s d = foldr (ref_insert d) (s d) []"

definition ref_lmdb :: "ref_store lmdb" where
  "ref_lmdb =
     \<lparr>mdb_get = \<lambda>s d k. map_of (ref_scan s d) k,
      mdb_put = \<lambda>s d k v. s(d := (k, v) # s d),
      mdb_del = \<lambda>s d k v. s(d := filter
        (\<lambda>e. fst e \<noteq> k \<or> dup_sort d \<and> v \<noteq> None \<and> v \<noteq> Some (snd e)) (ref_scan s d)),
      mdb_scan = ref_scan,
      mdb_scan_from = \<lambda>s d k. dropWhile (\<lambda>e. key_less d (fst e) k) (ref_scan s d),
      mdb_scan_dup = \<lambda>s d k. map snd (filter (\<lambda>e. fst e = k) (ref_scan s d)),
      mdb_stat_entries = \<lambda>s d. length (ref_scan s d)\<rparr>"

definition ref_empty :: ref_store where
  "ref_empty = (\<lambda>_. [])"

lemma le_word_eq_iff:
  assumes "length xs = n" "length ys = n" "n \<le> 8"
  shows "(le_word xs :: u64) = le_word ys \<longleftrightarrow> xs = ys"
proof -
  have "8 * n \<le> LENGTH(64)" using assms(3) by simp
  then have "le_bytes n (le_word xs :: u64) = xs" "le_bytes n (le_word ys :: u64) = ys"
    using assms by (simp_all only: le_bytes_le_word)
  then show ?thesis by metis
qed

lemma key_less_total:
  assumes "key_ok d k" "key_ok d k'"
  shows "key_less d k k' \<or> k = k' \<or> key_less d k' k"
proof (cases "integer_key d")
  case True
  then have "(le_word k :: u64) = le_word k' \<longleftrightarrow> k = k'"
    using assms by (intro le_word_eq_iff) (auto simp: key_ok_def)
  with True show ?thesis
    using linorder_less_linear[of "le_word k :: u64" "le_word k'"] by (auto simp: key_less_def)
next
  case False
  then show ?thesis using linorder_less_linear[of k k'] by (simp add: key_less_def)
qed

lemma key_less_trans: "key_less d a b \<Longrightarrow> key_less d b c \<Longrightarrow> key_less d a c"
  by (auto simp: key_less_def split: if_splits)

lemma entry_less_trans: "entry_less d a b \<Longrightarrow> entry_less d b c \<Longrightarrow> entry_less d a c"
  by (auto simp: entry_less_def dest: key_less_trans)

lemma entry_less_total:
  assumes "entry_ok d a" "entry_ok d b" "if dup_sort d then a \<noteq> b else fst a \<noteq> fst b"
  shows "entry_less d a b \<or> entry_less d b a"
proof (cases "fst a = fst b")
  case True
  with assms have "dup_sort d" "snd a \<noteq> snd b" "length (snd a) = 8" "length (snd b) = 8"
    by (auto simp: entry_ok_def value_ok_def prod_eq_iff split: if_splits)
  then have "(le_word (snd a) :: u64) \<noteq> le_word (snd b)"
    using le_word_eq_iff[of "snd a" 8 "snd b"] by simp
  with True \<open>dup_sort d\<close> show ?thesis
    using linorder_less_linear[of "le_word (snd a) :: u64" "le_word (snd b)"]
    by (auto simp: entry_less_def)
next
  case False
  with assms key_less_total show ?thesis by (auto simp: entry_ok_def entry_less_def)
qed

definition ref_inv :: "MDB_dbi \<Rightarrow> (bytes \<times> bytes) list \<Rightarrow> bool" where
  "ref_inv d es \<longleftrightarrow> sorted_wrt (entry_less d) es \<and> (\<forall>e \<in> set es. entry_ok d e)"

lemma set_ref_insert:
  "set (ref_insert d e es) =
   (if entry_ok d e then insert e {x \<in> set es. dup_sort d \<or> fst x \<noteq> fst e} else set es)"
  by (auto simp: ref_insert_def Let_def)

lemma ref_inv_insert:
  assumes "ref_inv d es"
  shows "ref_inv d (ref_insert d e es)"
proof (cases "entry_ok d e")
  case True
  let ?P = "\<lambda>x. if dup_sort d then x \<noteq> e else fst x \<noteq> fst e"
  have after: "entry_less d e x" if "x \<in> set es" "?P x" "\<not> entry_less d x e" for x
    using that assms True entry_less_total[of d x e] by (auto simp: ref_inv_def)
  have "sorted_wrt (entry_less d) (filter Q (filter ?P es))" for Q
    using assms by (simp add: ref_inv_def sorted_wrt_filter)
  then have "sorted_wrt (entry_less d) (ref_insert d e es)"
    using True after unfolding ref_insert_def Let_def
    by (auto simp: sorted_wrt_append simp del: filter_filter intro: entry_less_trans)
  then show ?thesis
    using assms True by (auto simp: ref_inv_def set_ref_insert split: if_splits)
next
  case False
  then show ?thesis using assms by (simp add: ref_insert_def)
qed

lemma ref_inv_scan: "ref_inv d (ref_scan s d)"
proof -
  have "ref_inv d (foldr (ref_insert d) es [])" for es
    by (induction es) (auto simp: ref_inv_insert, simp add: ref_inv_def)
  then show ?thesis by (simp add: ref_scan_def)
qed

lemma ref_scan_put: "ref_scan (s(d := (k, v) # s d)) d = ref_insert d (k, v) (ref_scan s d)"
  by (simp add: ref_scan_def)

lemma ref_scan_idem: "ref_inv d es \<Longrightarrow> foldr (ref_insert d) es [] = es"
proof (induction es)
  case (Cons e es)
  then have e: "entry_ok d e" and es: "\<forall>x \<in> set es. entry_less d e x" "ref_inv d es"
    by (auto simp: ref_inv_def)
  have "\<not> entry_less d x e \<and> (if dup_sort d then x \<noteq> e else fst x \<noteq> fst e)" if "x \<in> set es" for x
  proof -
    have irr: "\<not> entry_less d e e" by (simp add: entry_less_def)
    have "entry_less d e x" using that es by simp
    moreover from this have "\<not> entry_less d x e" using irr entry_less_trans by blast
    ultimately show ?thesis using irr by (auto simp: entry_less_def)
  qed
  then have "ref_insert d e es = e # es"
    using e by (simp add: ref_insert_def Let_def cong: filter_cong)
  with Cons.IH[OF es(2)] show ?case by simp
qed simp

lemma ref_inv_filter: "ref_inv d es \<Longrightarrow> ref_inv d (filter P es)"
  by (auto simp: ref_inv_def sorted_wrt_filter)

lemma ref_scan_del:
  "ref_scan (s(d := filter P (ref_scan s d))) d = filter P (ref_scan s d)"
  using ref_scan_idem[OF ref_inv_filter[OF ref_inv_scan]] by (simp add: ref_scan_def)

lemma ref_scan_other: "d' \<noteq> d \<Longrightarrow> ref_scan (s(d := es)) d' = ref_scan s d'"
  by (simp add: ref_scan_def)

theorem lmdb_ok_ref: "lmdb_ok ref_lmdb"
proof -
  have "lmdb_reads_ok ref_lmdb"
    by (simp add: lmdb_reads_ok_def ref_lmdb_def)
  moreover have "lmdb_order_ok ref_lmdb"
    using ref_inv_scan
    by (fastforce simp: lmdb_order_ok_def ref_lmdb_def ref_inv_def entry_ok_def value_ok_def)
  moreover have "lmdb_writes_ok ref_lmdb"
    by (simp add: lmdb_writes_ok_def ref_lmdb_def ref_scan_put ref_scan_del ref_scan_other
        set_ref_insert entry_ok_def)
  ultimately show ?thesis by (simp add: lmdb_ok_def)
qed

end
