(* ===== verification/Sessions.thy ===== *)
theory Sessions
  imports Transaction
begin

text \<open>
  What sequences of transactions do to the database: every transaction is opened for writing, some
  operations run, and it is committed, or dropped at any point. The invariant of the index holds of
  every store that is ever committed, and the built-in checks find nothing in it.
\<close>

section \<open>Steps inside a transaction\<close>

inductive txn_step :: "'s lmdb \<Rightarrow> 's Transaction \<Rightarrow> 's Transaction \<Rightarrow> bool" for L where
  addDocument: "doc_ok doc \<Longrightarrow> t_txn T = Some s \<Longrightarrow> doc_words L s (m_id doc) = {} \<Longrightarrow>
    txn_step L T (Transaction_addDocument L json fs doc T)"
| replaceDocument: "doc_fits doc operations \<Longrightarrow> t_txn T = Some s \<Longrightarrow> groups_apart L s doc operations \<Longrightarrow>
    txn_step L T (Transaction_replaceDocument L json doc operations T)"
| removeDocument: "txn_step L T (Transaction_removeDocument L i T)"
| removeRecursively: "Transaction_removeRecursively L i T = Some (r, T') \<Longrightarrow> txn_step L T T'"
| removeRecursively_if: "Transaction_removeRecursively_if L shouldDelete i T = Some (b, T') \<Longrightarrow> txn_step L T T'"
| setPhaseOne: "txn_step L T (Transaction_setPhaseOne L i T)"
| removePhaseOne: "txn_step L T (Transaction_removePhaseOne L i T)"
| addFailed: "txn_step L T (Transaction_addFailed L i T)"
| removeFailed: "txn_step L T (Transaction_removeFailed L i T)"

inductive txn_steps :: "'s lmdb \<Rightarrow> 's Transaction \<Rightarrow> 's Transaction \<Rightarrow> bool" for L where
  none: "txn_steps L T T"
| more: "txn_steps L T T1 \<Longrightarrow> txn_step L T1 T2 \<Longrightarrow> txn_steps L T T2"

text \<open>The store and the queue are consistent, where there are both.\<close>

definition txn_inv :: "'s lmdb \<Rightarrow> 's Transaction \<Rightarrow> bool" where
  "txn_inv L T \<longleftrightarrow> (\<forall>s m. t_txn T = Some s \<longrightarrow> t_writeTrans T = Some m \<longrightarrow>
     index_inv L \<lparr>m_txn = s, m_pendingOperations = m\<rparr>)"

lemma wtxn_eta [simp]: "\<lparr>m_txn = m_txn W, m_pendingOperations = m_pendingOperations W\<rparr> = W"
  by (cases W) simp

lemma txn_invI_write:
  assumes "txn_inv L T"
    and "\<And>s m. t_txn T = Some s \<Longrightarrow> t_writeTrans T = Some m \<Longrightarrow>
      index_inv L \<lparr>m_txn = s, m_pendingOperations = m\<rparr> \<Longrightarrow> index_inv L (f \<lparr>m_txn = s, m_pendingOperations = m\<rparr>)"
  shows "txn_inv L (write_with f T)"
proof (cases "t_txn T = None \<or> t_writeTrans T = None")
  case True
  then show ?thesis using assms(1) by (auto simp: write_with_def txn_inv_def split: option.splits)
next
  case False
  then obtain s m where sm: "t_txn T = Some s" "t_writeTrans T = Some m" by auto
  then have "index_inv L (f \<lparr>m_txn = s, m_pendingOperations = m\<rparr>)"
    using assms unfolding txn_inv_def by blast
  then show ?thesis by (simp add: write_with_def sm Let_def txn_inv_def)
qed

lemma txn_invI_write_option:
  assumes "txn_inv L T" "write_with_option f r0 T = Some (r, T')"
    and "\<And>s m r W. f \<lparr>m_txn = s, m_pendingOperations = m\<rparr> = Some (r, W) \<Longrightarrow>
      index_inv L \<lparr>m_txn = s, m_pendingOperations = m\<rparr> \<Longrightarrow> index_inv L W"
  shows "txn_inv L T'"
proof (cases "t_txn T = None \<or> t_writeTrans T = None")
  case True
  then have "T' = T" using assms(2) by (auto simp: write_with_option_def split: option.splits)
  then show ?thesis using assms(1) by simp
next
  case False
  then obtain s m where sm: "t_txn T = Some s" "t_writeTrans T = Some m" by auto
  then obtain W where W: "f \<lparr>m_txn = s, m_pendingOperations = m\<rparr> = Some (r, W)"
    and T': "T' = T\<lparr>t_txn := Some (m_txn W), t_writeTrans := Some (m_pendingOperations W)\<rparr>"
    using assms(2) by (auto simp: write_with_option_def)
  have "index_inv L W" by (rule assms(3)[OF W]) (use assms(1) sm in \<open>simp add: txn_inv_def\<close>)
  then show ?thesis by (simp add: T' txn_inv_def)
qed

lemma index_inv_store:
  assumes "lmdb_ok L" "index_inv L \<lparr>m_txn = s, m_pendingOperations = m\<rparr>"
    and "\<And>d. d \<notin> {contentIndexingDbi, failedIdDbi} \<Longrightarrow> mdb_scan L s' d = mdb_scan L s d"
  shows "index_inv L \<lparr>m_txn = s', m_pendingOperations = m\<rparr>"
  by (rule index_inv_change[OF assms(1,2), where R = "{}" and A = "{}" and i = 0])
    (use index_invD(2)[OF assms(2)] assms(3) doc_words_cong[OF assms(1), of s' s] in auto)

lemma txn_invI_store:
  assumes "lmdb_ok L" "txn_inv L T"
    and "\<And>s d. d \<notin> {contentIndexingDbi, failedIdDbi} \<Longrightarrow> mdb_scan L (f s) d = mdb_scan L s d"
  shows "txn_inv L (store_with f T)"
  using assms(2) index_inv_store[OF assms(1) _ assms(3)]
  unfolding txn_inv_def store_with_def by fastforce

lemma txn_step_inv:
  assumes "lmdb_ok L"
  shows "txn_step L T T' \<Longrightarrow> txn_inv L T \<Longrightarrow> txn_inv L T'"
proof (induction rule: txn_step.induct)
  case (addDocument doc T s json fs)
  show ?case unfolding Transaction_addDocument_def
    by (rule txn_invI_write[OF addDocument(4)], rule index_inv_addDocument[OF assms])
      (use addDocument in auto)
next
  case (replaceDocument doc T s operations json)
  show ?case unfolding Transaction_replaceDocument_def
    by (rule txn_invI_write[OF replaceDocument(4)], rule index_inv_replaceDocument[OF assms])
      (use replaceDocument in auto)
next
  case (removeDocument T i)
  show ?case unfolding Transaction_removeDocument_def
    by (rule txn_invI_write[OF removeDocument], rule index_inv_removeDocument[OF assms])
next
  case (removeRecursively i T r T')
  show ?case
    by (rule txn_invI_write_option[OF removeRecursively(2) removeRecursively(1)[unfolded Transaction_removeRecursively_def]])
      (auto intro: removeRecursively_index_inv[OF assms])
next
  case (removeRecursively_if del i T b T')
  show ?case
    by (rule txn_invI_write_option[OF removeRecursively_if(2)
          removeRecursively_if(1)[unfolded Transaction_removeRecursively_if_def]])
      (auto dest: removeRecursively_if_index_inv[OF assms])
next
  case (setPhaseOne T i)
  then show ?case unfolding Transaction_setPhaseOne_def
    by (intro txn_invI_store[OF assms]) (auto simp: DocumentIdDB_put_def lmdb_simps assms)
next
  case (removePhaseOne T i)
  then show ?case unfolding Transaction_removePhaseOne_def
    by (intro txn_invI_store[OF assms]) (auto simp: DocumentIdDB_del_def lmdb_simps assms)
next
  case (addFailed T i)
  then show ?case unfolding Transaction_addFailed_def
    by (intro txn_invI_store[OF assms]) (auto simp: DocumentIdDB_put_def lmdb_simps assms)
next
  case (removeFailed T i)
  then show ?case unfolding Transaction_removeFailed_def
    by (intro txn_invI_store[OF assms]) (auto simp: DocumentIdDB_del_def lmdb_simps assms)
qed

lemma txn_steps_inv:
  assumes "lmdb_ok L"
  shows "txn_steps L T T' \<Longrightarrow> txn_inv L T \<Longrightarrow> txn_inv L T'"
  by (induction rule: txn_steps.induct) (auto intro: txn_step_inv[OF assms])

section \<open>Sequences of transactions\<close>

inductive session :: "('e, 's) mdb_env \<Rightarrow> 's lmdb \<Rightarrow> 'e \<Rightarrow> 'e \<Rightarrow> bool" for E L where
  committed: "txn_steps L (Transaction_new E ReadWrite e) T \<Longrightarrow>
    Transaction_commit E L e T = (ok, e', T') \<Longrightarrow> session E L e e'"
| dropped: "txn_steps L (Transaction_new E ReadWrite e) T \<Longrightarrow> session E L e (Transaction_destroy E e T)"

inductive sessions :: "('e, 's) mdb_env \<Rightarrow> 's lmdb \<Rightarrow> 'e \<Rightarrow> 'e \<Rightarrow> bool" for E L where
  none: "sessions E L e e"
| more: "sessions E L e e1 \<Longrightarrow> session E L e1 e2 \<Longrightarrow> sessions E L e e2"

lemma mdb_env_okD:
  assumes "mdb_env_ok E st"
  shows "mdb_txn_begin E e ro = Inr s \<Longrightarrow> s = st e"
    "mdb_txn_commit E e s = (rc, e') \<Longrightarrow> st e' = (if rc = 0 then s else st e)"
    "st (mdb_txn_abort E e s) = st e"
  using assms unfolding mdb_env_ok_def by blast+

text \<open>Only a successful commit changes the committed store.\<close>

lemma abort_keeps:
  assumes "mdb_env_ok E st"
  shows "st (fst (Transaction_abort E e T)) = st e" "st (Transaction_destroy E e T) = st e"
    "st (fst (Transaction_reset E type e T)) = st e"
  using mdb_env_okD(3)[OF assms]
  by (auto simp: Transaction_abort_def Transaction_destroy_def Transaction_reset_def Let_def
      split: option.splits prod.splits if_splits)

lemma commit_stores:
  assumes "mdb_env_ok E st" "Transaction_commit E L e T = (ok, e', T')"
  shows "if ok then \<exists>s m. t_txn T = Some s \<and> t_writeTrans T = Some m \<and>
        st e' = m_txn (WriteTransaction_commit L \<lparr>m_txn = s, m_pendingOperations = m\<rparr>)
      else st e' = st e"
  using assms(2) mdb_env_okD(2)[OF assms(1)]
  by (auto simp: Transaction_commit_def Let_def split: option.splits prod.splits if_splits)

lemma Transaction_new_inv:
  assumes "mdb_env_ok E st" "index_inv L \<lparr>m_txn = st e, m_pendingOperations = []\<rparr>"
  shows "txn_inv L (Transaction_new E type e)"
  using mdb_env_okD(1)[OF assms(1), of e] assms(2)
  by (auto simp: Transaction_new_def Transaction_init_def txn_inv_def split: sum.splits if_splits)

lemma session_inv:
  assumes "lmdb_ok L" "mdb_env_ok E st"
  shows "session E L e e' \<Longrightarrow> index_inv L \<lparr>m_txn = st e, m_pendingOperations = []\<rparr> \<Longrightarrow>
    index_inv L \<lparr>m_txn = st e', m_pendingOperations = []\<rparr>"
proof (induction rule: session.induct)
  case (committed e T ok e' T')
  have inv: "txn_inv L T"
    by (rule txn_steps_inv[OF assms(1) committed(1) Transaction_new_inv[OF assms(2) committed(3)]])
  note st = commit_stores[OF assms(2) committed(2)]
  show ?case
  proof (cases ok)
    case True
    then obtain s m where sm: "t_txn T = Some s" "t_writeTrans T = Some m"
      "st e' = m_txn (WriteTransaction_commit L \<lparr>m_txn = s, m_pendingOperations = m\<rparr>)"
      using st by auto
    define W where "W = WriteTransaction_commit L \<lparr>m_txn = s, m_pendingOperations = m\<rparr>"
    have "index_inv L W"
      unfolding W_def by (rule index_inv_commit[OF assms(1)]) (use inv sm in \<open>simp add: txn_inv_def\<close>)
    moreover have "\<lparr>m_txn = st e', m_pendingOperations = []\<rparr> = W"
      using sm(3) by (cases W) (simp add: W_def WriteTransaction_commit_def)
    ultimately show ?thesis by simp
  next
    case False
    then show ?thesis using st committed(3) by simp
  qed
next
  case (dropped e T)
  then show ?case by (simp add: abort_keeps(2)[OF assms(2)])
qed

lemma sessions_inv:
  assumes "lmdb_ok L" "mdb_env_ok E st"
  shows "sessions E L e e' \<Longrightarrow> index_inv L \<lparr>m_txn = st e, m_pendingOperations = []\<rparr> \<Longrightarrow>
    index_inv L \<lparr>m_txn = st e', m_pendingOperations = []\<rparr>"
  by (induction rule: sessions.induct) (auto intro: session_inv[OF assms])

section \<open>The checks\<close>

lemma PostingDB_toTestMap_entry:
  assumes "lmdb_ok L" "(t, list) \<in> set (PostingDB_toTestMap L postingDbi s)"
  shows "list = PostingDB_get L postingDbi s t"
proof -
  let ?es = "map (\<lambda>(ba, v). (ba, PostingCodec_decode v)) (mdb_scan L s postingDbi)"
  have dist: "distinct (map fst ?es)"
    using mdb_scan_distinct[OF assms(1), of postingDbi s] by (simp add: case_prod_unfold comp_def)
  have "asc_keys (PostingDB_toTestMap L postingDbi s)" by (simp add: PostingDB_toTestMap_def)
  then have "map_of (PostingDB_toTestMap L postingDbi s) t = Some list"
    using assms(2) by (intro map_of_is_SomeI) (auto intro: asc_distinct)
  then have "map_of ?es t = Some list"
    using dist by (simp add: PostingDB_toTestMap_def map_of_qmap_of_list_distinct)
  then obtain v where "(t, v) \<in> set (mdb_scan L s postingDbi)" "list = PostingCodec_decode v"
    using map_of_SomeD by fastforce
  then show ?thesis
    using mdb_get_iff[OF assms(1), of postingDbi s t v] by (simp add: PostingDB_get_def)
qed

lemma checks_find_nothing:
  assumes "lmdb_ok L" "index_inv L \<lparr>m_txn = s, m_pendingOperations = []\<rparr>"
  shows "checkTermsDbinPostingDb L s = []" "checkPostingDbinTermsDb L s = []"
proof -
  have get: "i \<in> set (PostingDB_get L postingDbi s t) \<longleftrightarrow> t \<in> doc_words L s i" for i t
    using index_inv_lists(2)[OF assms(2)] by simp
  show "checkTermsDbinPostingDb L s = []"
    using get by (auto simp: checkTermsDbinPostingDb_def Let_def concat_eq_Nil_conv filter_empty_conv doc_words_def)
  have "t \<in> doc_words L s i" if "(t, l) \<in> set (PostingDB_toTestMap L postingDbi s)" "i \<in> set l" for t l i
    using that get PostingDB_toTestMap_entry[OF assms(1)] by blast
  then show "checkPostingDbinTermsDb L s = []"
    by (fastforce simp: checkPostingDbinTermsDb_def concat_eq_Nil_conv filter_empty_conv doc_words_def)
qed

end
