(* ===== verification/Samples.thy ===== *)
theory Samples
  imports Lmdb_Ref Sessions QueryResults
begin

text \<open>
  Concrete inputs at which the properties are applied: a store implemented as lists, a document with
  three words, a directory tree with one file, a file system without files.
\<close>

definition sample_json :: "QString \<Rightarrow> bytes" where
  "sample_json m = []"

definition sample_fs :: fs_api where
  "sample_fs = \<lparr>QT_LSTAT = \<lambda>_. None, statvfs_fsid = \<lambda>_. None\<rparr>"

definition sample_doc :: Document where
  "sample_doc = Document_new\<lparr>m_id := 5, m_parentId := 2, m_terms := [(lit ''cat'', [1]), (lit ''dog'', [2])],
     m_fileNameTerms := [(lit ''Fa'', [])], m_url := lit ''/home/a''\<rparr>"

definition sample_start :: "ref_store wtxn" where
  "sample_start = \<lparr>m_txn = ref_empty, m_pendingOperations = []\<rparr>"

definition sample_added :: "ref_store wtxn" where
  "sample_added = WriteTransaction_addDocument ref_lmdb sample_json sample_fs sample_start sample_doc"

definition sample_tree :: ref_store where
  "sample_tree = DocumentUrlDB_add ref_lmdb
     (DocumentUrlDB_add ref_lmdb ref_empty 2 0 (lit ''home'')) 5 2 (lit ''a'')"

lemma ref_empty_db: "empty_db ref_lmdb ref_empty"
  by (simp add: empty_db_def ref_lmdb_def ref_scan_def ref_empty_def)

lemma word_ok_samples [simp]:
  "word_ok (lit ''cat'')" "word_ok (lit ''dog'')" "word_ok (lit ''Fa'')"
  by (simp_all add: word_ok_def term_bytes_ok_def lit_def)

lemma lit_samples [simp]: "lit ''a'' \<noteq> []" "lit ''home'' \<noteq> []" "lit ''a'' \<noteq> lit ''home''"
  by (simp_all add: lit_def)

lemma sample_doc_fields [simp]:
  "m_id sample_doc = 5" "m_terms sample_doc = [(lit ''cat'', [1]), (lit ''dog'', [2])]"
  "m_xattrTerms sample_doc = []" "m_fileNameTerms sample_doc = [(lit ''Fa'', [])]"
  "m_parentId sample_doc = 2" "m_url sample_doc = lit ''/home/a''"
  by (simp_all add: sample_doc_def Document_new_def)

lemma sample_doc_ok: "doc_ok sample_doc"
  by (simp add: doc_ok_def terms_ok_def)

lemma ref_empty_get: "mdb_get ref_lmdb ref_empty d k = None"
  by (simp add: ref_lmdb_def ref_scan_def ref_empty_def)

lemma sample_start_words: "doc_words ref_lmdb (m_txn sample_start) i = {}"
  by (simp add: sample_start_def doc_words_def DocumentDB_get_def ref_empty_get)

lemma sample_url: "addDocument_url ref_lmdb sample_fs (m_txn sample_start) sample_doc =
    (True, DocumentUrlDB_add ref_lmdb ref_empty 5 2 (lit ''a''))"
proof -
  have url: "lastIndexOf (lit ''/home/a'') slash = 5" "filename_of_url (lit ''/home/a'') = lit ''a''"
    "take 5 (lit ''/home/a'') = lit ''/home''" "slash \<notin> set (lit ''a'')"
    "endsWith (lit ''/home'') slash = False" "lit ''/home'' \<noteq> []"
    by (simp_all add: filename_of_url_def lastIndexOf_def endsWith_def lit_def)
  have "DocumentUrlDB_addPath ref_lmdb sample_fs ref_empty (lit ''/home'') = (False, ref_empty)"
    by (simp add: DocumentUrlDB_addPath_def url DocumentUrlDB_addPath_loop.simps filePathToId_def
        filePathToStat_def statWithFsid_def sample_fs_def)
  then show ?thesis
    by (simp add: addDocument_url_def Let_def url sample_start_def DocumentUrlDB_put_def)
qed

lemma sample_added_words: "doc_words ref_lmdb (m_txn sample_added) 5 = {lit ''cat'', lit ''dog'', lit ''Fa''}"
proof -
  let ?s = "DocumentUrlDB_add ref_lmdb ref_empty 5 2 (lit ''a'')"
  have none: "doc_words ref_lmdb ?s 5 = {}"
  proof -
    have "doc_words ref_lmdb ?s 5 = doc_words ref_lmdb ref_empty 5"
      by (rule doc_words_cong[OF lmdb_ok_ref]) (auto simp: DocumentUrlDB_add_scan[OF lmdb_ok_ref])
    then show ?thesis using sample_start_words[of 5] by (simp add: sample_start_def)
  qed
  show ?thesis
    using none unfolding sample_added_def addDocument_split sample_url
    by (auto simp: doc_words_def addDocument_rows_reads[OF lmdb_ok_ref sample_doc_ok])
qed

lemma sample_steps: "write_steps ref_lmdb sample_start sample_added"
  unfolding sample_added_def
  by (rule write_steps.more[OF write_steps.none write_step.add])
    (simp_all add: sample_doc_ok sample_start_words)

lemma sample_tree_props:
  "url_inv ref_lmdb sample_tree"
  "url_tree ref_lmdb sample_tree =
     [2 \<mapsto> \<lparr>parentId = 0, name = lit ''home''\<rparr>, 5 \<mapsto> \<lparr>parentId = 2, name = lit ''a''\<rparr>]"
proof -
  let ?s = "DocumentUrlDB_add ref_lmdb ref_empty 2 0 (lit ''home'')"
  have 0: "url_inv ref_lmdb ref_empty" "url_tree ref_lmdb ref_empty = Map.empty"
    by (simp_all add: url_inv_def url_tree_def DocumentUrlDB_getChildren_def IdTreeDB_get_def
        IdFilenameDB_get_def ref_empty_get fun_eq_iff)
  have 1: "url_inv ref_lmdb ?s" "url_tree ref_lmdb ?s = [2 \<mapsto> \<lparr>parentId = 0, name = lit ''home''\<rparr>]"
    using 0 by (auto simp: fun_eq_iff DocumentUrlDB_add_reads(1)[OF lmdb_ok_ref]
        intro!: url_inv_add[OF lmdb_ok_ref])
  show "url_inv ref_lmdb sample_tree" "url_tree ref_lmdb sample_tree =
     [2 \<mapsto> \<lparr>parentId = 0, name = lit ''home''\<rparr>, 5 \<mapsto> \<lparr>parentId = 2, name = lit ''a''\<rparr>]"
    unfolding sample_tree_def
    using 1 0(2) by (auto simp: fun_eq_iff DocumentUrlDB_add_reads(1)[OF lmdb_ok_ref]
        intro!: url_inv_add[OF lmdb_ok_ref])
qed

definition sample_rank :: "u64 \<Rightarrow> nat" where
  "sample_rank i = (if i = 5 then 0 else if i = 2 then 1 else 2)"

lemma sample_ranked: "ranked sample_rank (url_tree ref_lmdb sample_tree)"
  by (auto simp: ranked_def sample_tree_props sample_rank_def split: if_splits)

lemma sample_subtree: "5 \<in> subtree (url_tree ref_lmdb sample_tree) 2"
  using below.child[of "url_tree ref_lmdb sample_tree" 5 "\<lparr>parentId = 2, name = lit ''a''\<rparr>" 2]
  by (simp add: subtree_def sample_tree_props)

lemma sample_names: "url_names_ok ref_lmdb sample_tree"
  unfolding url_names_ok_def sample_tree_props(2) by (auto simp: lit_def split: if_splits)

lemma sample_path: "DocumentUrlDB_get ref_lmdb sample_tree 5 = lit ''/home/a''"
proof -
  have tree: "IdFilenameDB_get ref_lmdb idFilenameDbi sample_tree =
      [2 \<mapsto> \<lparr>parentId = 0, name = lit ''home''\<rparr>, 5 \<mapsto> \<lparr>parentId = 2, name = lit ''a''\<rparr>]"
    using sample_tree_props(2) by (simp add: url_tree_def fun_eq_iff)
  have loop: "DocumentUrlDB_get_loop ref_lmdb sample_tree (Suc n) 2 ret = slash # lit ''home'' @ ret" for n ret
    by (simp add: DocumentUrlDB_get_loop.simps tree)
  obtain n where n: "(512 :: nat) = Suc n" by (metis numeral_eq_Suc)
  show ?thesis unfolding DocumentUrlDB_get_def n by (simp add: tree loop) (simp add: lit_def)
qed

text \<open>A text API for words of letters between spaces, with a boundary behind every character.\<close>

definition sample_qt :: qt_text where
  "sample_qt = \<lparr>qt_isPunct = \<lambda>c. c = 0x5F, qt_isMark = \<lambda>c. False, qt_isSpace = \<lambda>c. c = 32,
     qt_isPrint = \<lambda>c. True, qt_toLower = \<lambda>c. if 65 \<le> c \<and> c \<le> 90 then c + 32 else c,
     qt_normalized_KD = \<lambda>str. str, qt_normalized_KC = \<lambda>str. str, qt_toUtf8 = map ucast,
     qt_fromUtf8 = map ucast, qt_nextBoundary = \<lambda>str pos. if pos < length str then int pos + 1 else -1,
     qt_itemBoundary = \<lambda>str pos. False\<rparr>"

lemma sample_termList: "TermGenerator_termList sample_qt (qs ''Ab c_ab'') = [lit ''ab'', lit ''c'', lit ''ab'']"
  by code_simp

definition sample_postings :: ref_store where
  "sample_postings = PostingDB_put ref_lmdb postingDbi
     (PostingDB_put ref_lmdb postingDbi ref_empty (lit ''cat'') [3, 4]) (lit ''dog'') [4, 9]"

lemma sample_postings_get:
  "PostingDB_get ref_lmdb postingDbi sample_postings t =
     (if t = lit ''cat'' then [3, 4] else if t = lit ''dog'' then [4, 9] else [])"
proof -
  have ne: "lit ''cat'' \<noteq> lit ''dog''" by (simp add: lit_def)
  have key: "term_key_ok postingDbi (lit ''cat'')" "term_key_ok postingDbi (lit ''dog'')"
    by (simp_all add: lit_def)
  have "PostingDB_get ref_lmdb postingDbi ref_empty t = []"
    by (simp add: PostingDB_get_def ref_empty_get)
  then show ?thesis
    using ne key by (simp add: sample_postings_def PostingDB_put_def
        posting_tbl.get_put[OF lmdb_ok_ref] del: term_key_ok_simps)
qed

lemma sample_postings_proper: "postings_proper ref_lmdb sample_postings"
  by (simp add: postings_proper_def sample_postings_get)

section \<open>An index with one file\<close>

definition sample_file :: ref_store where
  "sample_file = DocumentUrlDB_add ref_lmdb ref_empty 5 0 (lit ''Ab c_ab'')"

definition put_all ::
  "(bytes \<times> PostingList) list \<Rightarrow> (bytes \<times> PositionInfo list) list \<Rightarrow> ref_store \<Rightarrow> ref_store" where
  "put_all posts poss s =
     foldr (\<lambda>(t, l) s. PositionDB_put ref_lmdb positionDBi s t l) poss
       (foldr (\<lambda>(t, l) s. PostingDB_put ref_lmdb postingDbi s t l) posts s)"

definition sample_index :: ref_store where
  "sample_index = put_all
     [(lit ''Fab'', [5]), (lit ''Fc'', [5]), (lit ''Mab'', [5]), (lit ''Mc'', [5])]
     [(lit ''Mab'', [\<lparr>docId = 5, positions = [1]\<rparr>]), (lit ''Mc'', [\<lparr>docId = 5, positions = [2]\<rparr>])]
     sample_file"

lemma put_all_reads:
  assumes "\<forall>(t, l) \<in> set posts. term_key_ok postingDbi t"
    and "\<forall>(t, l) \<in> set poss. term_key_ok positionDBi t \<and> positions_fit l"
  shows "PostingDB_get ref_lmdb postingDbi (put_all posts poss s) t =
      (case map_of posts t of None \<Rightarrow> PostingDB_get ref_lmdb postingDbi s t | Some l \<Rightarrow> l)"
    and "PositionDB_get ref_lmdb positionDBi (put_all posts poss s) t =
      (case map_of poss t of None \<Rightarrow> PositionDB_get ref_lmdb positionDBi s t | Some l \<Rightarrow> l)"
    and "d \<notin> {postingDbi, positionDBi} \<Longrightarrow> mdb_scan ref_lmdb (put_all posts poss s) d = mdb_scan ref_lmdb s d"
proof -
  let ?post = "foldr (\<lambda>(t, l) s. PostingDB_put ref_lmdb postingDbi s t l) posts s"
  have post: "PostingDB_get ref_lmdb postingDbi ?post t =
      (case map_of posts t of None \<Rightarrow> PostingDB_get ref_lmdb postingDbi s t | Some l \<Rightarrow> l)"
    using assms(1) by (induction posts) (auto simp: PostingDB_put_def posting_tbl.get_put[OF lmdb_ok_ref])
  have frame: "d \<noteq> postingDbi \<Longrightarrow> mdb_scan ref_lmdb ?post d = mdb_scan ref_lmdb s d" for d
    by (induction posts) (auto simp: PostingDB_put_def lmdb_simps lmdb_ok_ref)
  have frame2: "d \<noteq> positionDBi \<Longrightarrow> mdb_scan ref_lmdb (put_all posts poss s) d = mdb_scan ref_lmdb ?post d" for d
    unfolding put_all_def by (induction poss) (auto simp: PositionDB_put_def lmdb_simps lmdb_ok_ref)
  show "PostingDB_get ref_lmdb postingDbi (put_all posts poss s) t =
      (case map_of posts t of None \<Rightarrow> PostingDB_get ref_lmdb postingDbi s t | Some l \<Rightarrow> l)"
    unfolding post[symmetric] by (rule posting_tbl.get_cong[OF lmdb_ok_ref frame2]) simp
  have "PositionDB_get ref_lmdb positionDBi (put_all posts poss s) t =
      (case map_of poss t of None \<Rightarrow> PositionDB_get ref_lmdb positionDBi ?post t | Some l \<Rightarrow> l)"
    unfolding put_all_def
    using assms(2) by (induction poss) (auto simp: PositionDB_put_def position_tbl.get_put[OF lmdb_ok_ref])
  also have "PositionDB_get ref_lmdb positionDBi ?post t = PositionDB_get ref_lmdb positionDBi s t"
    by (rule position_tbl.get_cong[OF lmdb_ok_ref frame]) simp
  finally show "PositionDB_get ref_lmdb positionDBi (put_all posts poss s) t =
      (case map_of poss t of None \<Rightarrow> PositionDB_get ref_lmdb positionDBi s t | Some l \<Rightarrow> l)" .
  show "d \<notin> {postingDbi, positionDBi} \<Longrightarrow> mdb_scan ref_lmdb (put_all posts poss s) d = mdb_scan ref_lmdb s d"
    using frame frame2 by simp
qed

lemma sample_words_apart [simp]:
  "lit ''Fab'' \<noteq> lit ''Fc''" "lit ''Fab'' \<noteq> lit ''Mab''" "lit ''Fab'' \<noteq> lit ''Mc''"
  "lit ''Fc'' \<noteq> lit ''Mab''" "lit ''Fc'' \<noteq> lit ''Mc''" "lit ''Mab'' \<noteq> lit ''Mc''"
  by (simp_all add: lit_def)

lemma sample_index_reads:
  "PostingDB_get ref_lmdb postingDbi sample_index t =
     (if t \<in> {lit ''Fab'', lit ''Fc'', lit ''Mab'', lit ''Mc''} then [5] else [])"
  "PositionDB_get ref_lmdb positionDBi sample_index t =
     (if t = lit ''Mab'' then [\<lparr>docId = 5, positions = [1]\<rparr>]
      else if t = lit ''Mc'' then [\<lparr>docId = 5, positions = [2]\<rparr>] else [])"
  "url_tree ref_lmdb sample_index = [5 \<mapsto> \<lparr>parentId = 0, name = lit ''Ab c_ab''\<rparr>]"
  "DocumentDataDB_get ref_lmdb docDataDbi sample_index i = []"
proof -
  have keys: "term_key_ok d (lit ''Fab'') \<and> term_key_ok d (lit ''Fc'') \<and> term_key_ok d (lit ''Mab'') \<and>
      term_key_ok d (lit ''Mc'')" if "d \<in> {postingDbi, positionDBi}" for d
    using that by (auto simp: lit_def)
  have ok: "\<forall>(t, l) \<in> set [(lit ''Fab'', [5 :: u64]), (lit ''Fc'', [5]), (lit ''Mab'', [5]), (lit ''Mc'', [5])].
      term_key_ok postingDbi t"
    "\<forall>(t, l) \<in> set [(lit ''Mab'', [\<lparr>docId = 5, positions = [1]\<rparr>]), (lit ''Mc'', [\<lparr>docId = 5, positions = [2]\<rparr>])].
      term_key_ok positionDBi t \<and> positions_fit l"
    using keys by (auto simp del: term_key_ok_simps)
  note reads = put_all_reads[OF ok, where s = sample_file, folded sample_index_def]
  have plain: "mdb_scan ref_lmdb sample_file d = mdb_scan ref_lmdb ref_empty d" if "\<not> url_dbi d" for d
    using that by (simp add: sample_file_def DocumentUrlDB_add_scan[OF lmdb_ok_ref])
  have none: "mdb_get ref_lmdb sample_file d k = None" if "\<not> url_dbi d" for d k
    using plain[OF that] ref_empty_get[of d k] by (simp add: mdb_get_scan[OF lmdb_ok_ref])
  show "PostingDB_get ref_lmdb postingDbi sample_index t =
     (if t \<in> {lit ''Fab'', lit ''Fc'', lit ''Mab'', lit ''Mc''} then [5] else [])"
    unfolding reads(1) by (simp add: PostingDB_get_def[of _ _ sample_file] none)
  show "PositionDB_get ref_lmdb positionDBi sample_index t =
     (if t = lit ''Mab'' then [\<lparr>docId = 5, positions = [1]\<rparr>]
      else if t = lit ''Mc'' then [\<lparr>docId = 5, positions = [2]\<rparr>] else [])"
    unfolding reads(2) by (simp add: PositionDB_get_def[of _ _ sample_file] none)
  have "url_tree ref_lmdb sample_index i = url_tree ref_lmdb sample_file i" for i
    by (rule url_cong(1)[OF lmdb_ok_ref]) (auto simp: reads)
  moreover have "url_tree ref_lmdb sample_file = [5 \<mapsto> \<lparr>parentId = 0, name = lit ''Ab c_ab''\<rparr>]"
  proof -
    have "lit ''Ab c_ab'' \<noteq> []" by (simp add: lit_def)
    moreover have "url_tree ref_lmdb ref_empty j = None" for j
      by (simp add: url_tree_def IdFilenameDB_get_def ref_empty_get)
    ultimately show ?thesis
      by (simp add: sample_file_def fun_eq_iff DocumentUrlDB_add_reads(1)[OF lmdb_ok_ref])
  qed
  ultimately show "url_tree ref_lmdb sample_index = [5 \<mapsto> \<lparr>parentId = 0, name = lit ''Ab c_ab''\<rparr>]" by auto
  show "DocumentDataDB_get ref_lmdb docDataDbi sample_index i = []"
    using none[of docDataDbi] by (simp add: DocumentDataDB_get_def mdb_get_scan[OF lmdb_ok_ref] reads)
qed

lemma sample_index_proper:
  "postings_proper ref_lmdb sample_index" "positions_proper ref_lmdb sample_index"
  by (auto simp: postings_proper_def positions_proper_def vecs_ok_def sample_index_reads)

lemma sample_names_indexed: "names_indexed sample_qt ref_lmdb sample_index"
proof -
  have name: "map ucast (lit ''Ab c_ab'') = qs ''Ab c_ab''" by (simp add: lit_def qs_def)
  have words: "lit ''F'' @ lit ''ab'' = lit ''Fab''" "lit ''F'' @ lit ''c'' = lit ''Fc''" by (simp_all add: lit_def)
  have "qt_fromUtf8 sample_qt = map ucast" by (simp add: sample_qt_def)
  then show ?thesis
    by (auto simp: names_indexed_def sample_index_reads name sample_termList words split: if_splits)
qed

lemma sample_positions_of [simp]:
  "positions_of [\<lparr>docId = 5, positions = ps\<rparr>] 5 = ps"
  by (simp add: positions_of_def)

lemma sample_phrase: "5 \<in> phrase_docs ref_lmdb sample_index [lit ''Mab'', lit ''Mc'']"
  unfolding phrase_docs_def matches_def phrase_match_def
  by (intro CollectI exI[of _ 1]) (simp add: aligned_Cons sample_index_reads sample_words_apart[symmetric])

text \<open>An environment that keeps its committed store.\<close>

definition sample_env :: "(ref_store, ref_store) mdb_env" where
  "sample_env = \<lparr>mdb_txn_begin = \<lambda>e ro. Inr e, mdb_txn_commit = \<lambda>e s. (0, s), mdb_txn_abort = \<lambda>e s. e\<rparr>"

lemma sample_env_ok: "mdb_env_ok sample_env (\<lambda>e. e)"
  by (simp add: mdb_env_ok_def sample_env_def)

lemma sample_sessions:
  "sessions sample_env ref_lmdb ref_empty (m_txn (WriteTransaction_commit ref_lmdb sample_added))"
proof (rule sessions.more[OF sessions.none session.committed])
  let ?T = "Transaction_new sample_env ReadWrite ref_empty"
  have T: "?T = \<lparr>t_txn = Some ref_empty, t_writeTrans = Some [], t_lastError = 0\<rparr>"
    by (simp add: Transaction_new_def Transaction_init_def sample_env_def)
  show "txn_steps ref_lmdb ?T (Transaction_addDocument ref_lmdb sample_json sample_fs sample_doc ?T)"
    by (rule txn_steps.more[OF txn_steps.none txn_step.addDocument[of _ _ ref_empty]])
      (use sample_start_words in \<open>simp_all add: T sample_doc_ok sample_start_def\<close>)
  have T2: "Transaction_addDocument ref_lmdb sample_json sample_fs sample_doc ?T =
      \<lparr>t_txn = Some (m_txn sample_added), t_writeTrans = Some (m_pendingOperations sample_added), t_lastError = 0\<rparr>"
    by (simp add: Transaction_addDocument_def write_with_def T sample_added_def sample_start_def Let_def)
  show "Transaction_commit sample_env ref_lmdb ref_empty
      (Transaction_addDocument ref_lmdb sample_json sample_fs sample_doc ?T) =
      (True, m_txn (WriteTransaction_commit ref_lmdb sample_added), \<lparr>t_txn = None, t_writeTrans = None, t_lastError = 0\<rparr>)"
    unfolding T2 by (simp add: Transaction_commit_def sample_env_def Let_def)
qed

end
