(* ===== verification/SearchSamples.thy ===== *)
theory SearchSamples
  imports SearchDocs QueryJson Samples
begin

text \<open>
  Concrete inputs for the properties of searches: an interface without properties, types and dates, the
  index of one file of the theory \<open>Samples\<close>, and the inputs at which the parser and the date filter do not do what the text asks for.
\<close>

definition sample_api :: "(nat, nat) search_api" where
  "sample_api = \<lparr>sa_toLower = map (qt_toLower sample_qt), sa_dateTime = \<lambda>_. None, sa_date = \<lambda>_ _ _. 0,
     sa_year = \<lambda>_. 0, sa_month = \<lambda>_. 0, sa_daysInMonth = \<lambda>_. 0, sa_date_startOfDay = \<lambda>_. 0,
     sa_date_endOfDay = \<lambda>_. 0,
     sa_propertyInfo = \<lambda>_. \<lparr>pi_isEmpty = True, pi_property = 0, pi_valueType = VT_UnknownType,
       pi_shouldBeIndexed = False\<rparr>,
     sa_allNames = [], sa_type = \<lambda>_. None, sa_number = \<lambda>_. [], sa_toLongLong = \<lambda>_. None,
     sa_toLongLong_bytes = \<lambda>_. None, sa_toDouble = \<lambda>_. None, sa_toDouble_bytes = \<lambda>_. None,
     sa_double_le = (\<le>), sa_jsonString = \<lambda>_ _. []\<rparr>"

lemma sample_lower: "lower_ok sample_qt sample_api"
  by code_simp

lemma sample_isSpace: "isSpace_ok sample_qt"
  by code_simp

lemma sample_search_index: "search_index ref_lmdb sample_index (\<lambda>i. if i = 5 then 0 else 1)"
proof -
  have frame: "mdb_scan ref_lmdb sample_index d = mdb_scan ref_lmdb sample_file d"
    if "d \<notin> {postingDbi, positionDBi}" for d
    unfolding sample_index_def
    by (rule put_all_reads(3)[OF _ _ that]) (auto simp: lit_def)
  have "\<not> url_dbi mtimeDbi" by simp
  then have "mdb_scan ref_lmdb sample_index mtimeDbi = []"
    using ref_empty_db frame[of mtimeDbi]
    by (simp add: sample_file_def DocumentUrlDB_add_scan[OF lmdb_ok_ref] empty_db_def)
  then have time: "i \<notin> set (MTimeDB_get ref_lmdb mtimeDbi sample_index t)" for i t
    unfolding set_MTimeDB_get[OF lmdb_ok_ref] by simp
  have none: "url_tree ref_lmdb ref_empty = Map.empty" "url_inv ref_lmdb ref_empty"
    by (simp_all add: url_inv_def url_tree_def DocumentUrlDB_getChildren_def IdTreeDB_get_def
        IdFilenameDB_get_def ref_empty_get fun_eq_iff)
  have "url_inv ref_lmdb sample_file"
    unfolding sample_file_def using none by (intro url_inv_add[OF lmdb_ok_ref]) (auto simp: lit_def)
  moreover have "url_inv ref_lmdb sample_index = url_inv ref_lmdb sample_file"
    by (rule url_cong(3)[OF lmdb_ok_ref]) (rule frame, auto)
  ultimately show ?thesis
    using sample_index_proper time
    by (simp add: search_index_def ranked_def sample_index_reads)
qed

lemma sample_filename_leaf: "leaf_of sample_qt sample_api ref_lmdb sample_index (qs ''filename'') (Some (qs ''ab'')) c = {5}"
proof -
  have "TermGenerator_termList sample_qt (qs ''ab'') = [lit ''ab'']" by code_simp
  moreover have "lit ''F'' @ lit ''ab'' = lit ''Fab''" "length (lit ''ab'') \<le> 2" by (simp_all add: lit_def)
  moreover have "qt_toUtf8 sample_qt (sa_toLower sample_api (qs ''filename'')) = lit ''filename''" by code_simp
  ultimately show ?thesis
    using scope_not_delegated(3)[OF sample_lower, of "''filename''"]
    by (simp add: leaf_of_def leaf_docs_def basic_docs_def Let_def lit_inject filename_docs_def expandLast_of_def
        text_docs_def posts_def sample_index_reads Term_value_def)
qed

text \<open>\<open>filename = ab OR zz\<close> with the words looked for in the names, and a query for the word \<open>ab\<close>.\<close>

definition sample_group :: "(Term_Operation option \<times> search_expr) list" where
  "sample_group = [(None, Compare (qs ''filename'') Cmp_Equal (qs ''ab'')), (Some Op_Or, Word (qs ''zz''))]"

lemma sample_group_facts:
  "expr_ok (Group sample_group)" "\<forall>t \<in> set (group_tokens sample_group). 34 \<notin> set t"
  "print_tokens sample_qt (group_tokens sample_group) = qs ''filename = ab OR zz ''"
  by code_simp+

definition sample_query :: Query where
  "sample_query = Query_new\<lparr>qy_searchString := qs ''ab'', qy_searchScopes := [qs ''FileName'']\<rparr>"

lemma sample_query_term: "query_term sample_qt sample_api sample_query = Term_leaf (qs ''filename'') (Some (qs ''ab'')) Cmp_Contains"
  by code_simp

lemma sample_query_docs: "query_docs sample_qt sample_api ref_lmdb sample_index sample_query = {5}"
proof -
  have "query_parts sample_qt sample_api ref_lmdb sample_index sample_query = [{5}]"
    by (simp add: query_parts_def sample_query_term term_docs_leaf sample_filename_leaf date_docs_def)
      (simp add: sample_query_def Query_new_def qs_def)
  then show ?thesis by (simp add: query_docs_def)
qed

lemma sample_sort_ok: "sort_ok (\<lambda>xs. rev (sort_key snd xs))"
  unfolding sort_ok_def
proof (intro allI conjI)
  fix xs :: "(u64 \<times> u32) list"
  show "mset (rev (sort_key snd xs)) = mset xs" by simp
  show "sorted_wrt (\<lambda>a b. snd b \<le> snd a) (rev (sort_key snd xs))"
    using sorted_sort_key[of snd xs] by (simp add: sorted_wrt_rev sorted_wrt_map)
qed

section \<open>Where the code departs from the text\<close>

text \<open>
  Nested parentheses that are not closed: \<open>ops.pop()\<close> stands before the loop, so that all of them are
  closed with the operation of the second.
\<close>

lemma unclosed_nested_parentheses:
  "QueryParser_parse sample_qt (qs ''a OR (b (c'') =
     Term_of_list Op_And (map (\<lambda>w. Term_leaf [] (Some (qs w)) Cmp_Contains) [''a'', ''b'', ''c''])"
  "Term_operation (QueryParser_parse sample_qt (qs ''a OR (b (c))'')) = Op_Or"
  by code_simp+

text \<open>The lexer drops the quotes, and the parser takes a quoted word for an operator or parenthesis.\<close>

lemma quoted_parenthesis:
  "QueryParser_parse sample_qt (34 # qs ''(draft) report'' @ [34]) = Term_default"
  by code_simp

lemma Term_equal_not_symmetric:
  "Term_equal (Term_of_list Op_And [Term_default, Term_default]) (Term_of_list Op_And [Term_default, Term_of_op Op_Or])"
  "\<not> Term_equal (Term_of_list Op_And [Term_default, Term_of_op Op_Or]) (Term_of_list Op_And [Term_default, Term_default])"
  by (simp_all add: Term_equal.simps Term_new_defs Term_value_def)

text \<open>\<open>>\<close> with a time that does not fit in 32 bits: \<open>timet + 1\<close> is 0, and every time is in the range.\<close>

lemma calculateTimeRange_overflow:
  assumes "sa_dateTime A val = Some dt" "maxUInt32 \<le> dt_toSecsSinceEpoch dt"
  shows "calculateTimeRange A val Cmp_Greater = (0, - 1)"
  using assms by (auto simp: calculateTimeRange_def clamp_def maxUInt32_def)

lemma calculateTimeRange_in:
  assumes "sa_dateTime A val = Some dt" "0 < dt_toSecsSinceEpoch dt" "dt_toSecsSinceEpoch dt < maxUInt32"
    and "com \<in> {Cmp_Less, Cmp_LessEqual, Cmp_Greater, Cmp_GreaterEqual}"
  shows "t \<in> {fst (calculateTimeRange A val com)..snd (calculateTimeRange A val com)} \<longleftrightarrow>
    (case com of Cmp_Less \<Rightarrow> uint t < dt_toSecsSinceEpoch dt | Cmp_LessEqual \<Rightarrow> uint t \<le> dt_toSecsSinceEpoch dt
     | Cmp_Greater \<Rightarrow> dt_toSecsSinceEpoch dt < uint t | _ \<Rightarrow> dt_toSecsSinceEpoch dt \<le> uint t)"
proof -
  define x where "x = dt_toSecsSinceEpoch dt"
  define w :: u32 where "w = word_of_int x"
  have x: "0 < x" "x < 4294967295" using assms(2,3) by (simp_all add: x_def maxUInt32_def)
  have c: "clamp x 0 maxUInt32 = x" using x by (simp add: clamp_def maxUInt32_def)
  have uw: "uint w = x" using x by (simp add: w_def word_of_int_inverse take_bit_int_eq_self unsigned_of_int)
  then have "w \<noteq> 0" using x by auto
  then have "0 < w" by (simp add: word_gt_0)
  have dec: "uint (w - 1) = x - 1"
    using uw x by (simp add: uint_word_ariths)
  have inc: "uint (w + 1) = x + 1"
    using uw x by (simp add: uint_word_ariths take_bit_int_eq_self)
  have top: "uint t \<le> uint (- 1 :: u32)" unfolding word_le_def[symmetric] by simp
  show ?thesis
    using assms(1,4) \<open>0 < w\<close>
    by (auto simp: calculateTimeRange_def x_def[symmetric] c w_def[symmetric] Let_def word_le_def dec inc uw top)
qed

lemma url_ok_sample: "url_ok sample_qt sample_json_api sample_url"
proof -
  have "utf16_ok (replicate n 0)" for n :: nat
    by (induction n rule: induct_nat_012) (simp_all add: isSurrogate_def)
  then show ?thesis
    by (simp add: url_ok_def sample_qt_def sample_json_api_def sample_url_def)
qed

definition saved_query :: Query where
  "saved_query = Query_new\<lparr>qy_types := [qs ''Document''], qy_searchString := qs ''a OR b'', qy_limit := 10, qy_yearFilter := 2024\<rparr>"

lemma saved_query_ok: "query_ok saved_query" "utf16_ok (qs ''My search'')"
  by (simp_all add: query_ok_def saved_query_def Query_new_def qs_def isSurrogate_def)

end
