(* ===== verification/DatabaseOpen.thy ===== *)
theory DatabaseOpen
  imports Lmdb
begin

text \<open>
  \<open>database.cpp\<close> and the \<open>create\<close> and \<open>open\<close> functions of the sub-databases: opening the LMDB
  environment with all its error paths. The outcomes of the calls are the record \<open>A\<close>; the calls
  that acquire or release something are listed, so that leaks show. Table handles are numbers, 0 is none.
\<close>

datatype mdb_flag = MDB_CREATE | MDB_INTEGERKEY | MDB_DUPSORT | MDB_DUPFIXED | MDB_INTEGERDUP

datatype OpenMode = CreateDatabase | ReadWriteDatabase | ReadOnlyDatabase

datatype OpenResult = Success | InvalidPath | InvalidDatabase | InternalError | OpenedReadOnly

record open_api =
  oa_indexExists :: bool
  oa_writeOwner :: bool
  oa_env_create :: int
  oa_env_open :: "bool \<Rightarrow> int"
  oa_reader_check :: int
  oa_txn_begin :: "bool \<Rightarrow> int"
  oa_dbi_open :: "string \<Rightarrow> mdb_flag set \<Rightarrow> int \<times> nat"
  oa_txn_commit :: int

section \<open>Tables\<close>

definition dbi_open :: "open_api \<Rightarrow> string \<Rightarrow> mdb_flag set \<Rightarrow> nat" where
  "dbi_open A nm flags = (case oa_dbi_open A nm flags of (rc, dbi) \<Rightarrow> if rc \<noteq> 0 then 0 else dbi)"

definition PostingDB_create :: "open_api \<Rightarrow> nat" where
  "PostingDB_create A = dbi_open A ''postingdb'' {MDB_CREATE}"

definition PostingDB_open :: "open_api \<Rightarrow> nat" where
  "PostingDB_open A = dbi_open A ''postingdb'' {}"

definition PositionDB_create :: "open_api \<Rightarrow> nat" where
  "PositionDB_create A = dbi_open A ''positiondb'' {MDB_CREATE}"

definition PositionDB_open :: "open_api \<Rightarrow> nat" where
  "PositionDB_open A = dbi_open A ''positiondb'' {}"

definition DocumentDB_create :: "open_api \<Rightarrow> string \<Rightarrow> nat" where
  "DocumentDB_create A nm = dbi_open A nm {MDB_CREATE, MDB_INTEGERKEY}"

definition DocumentDB_open :: "open_api \<Rightarrow> string \<Rightarrow> nat" where
  "DocumentDB_open A nm = dbi_open A nm {MDB_INTEGERKEY}"

definition IdTreeDB_create :: "open_api \<Rightarrow> nat" where
  "IdTreeDB_create A = dbi_open A ''idtree'' {MDB_CREATE, MDB_INTEGERKEY}"

definition IdTreeDB_open :: "open_api \<Rightarrow> nat" where
  "IdTreeDB_open A = dbi_open A ''idtree'' {MDB_INTEGERKEY}"

definition IdFilenameDB_create :: "open_api \<Rightarrow> nat" where
  "IdFilenameDB_create A = dbi_open A ''idfilename'' {MDB_CREATE, MDB_INTEGERKEY}"

definition IdFilenameDB_open :: "open_api \<Rightarrow> nat" where
  "IdFilenameDB_open A = dbi_open A ''idfilename'' {MDB_INTEGERKEY}"

definition DocumentTimeDB_create :: "open_api \<Rightarrow> nat" where
  "DocumentTimeDB_create A = dbi_open A ''documenttimedb'' {MDB_CREATE, MDB_INTEGERKEY}"

definition DocumentTimeDB_open :: "open_api \<Rightarrow> nat" where
  "DocumentTimeDB_open A = dbi_open A ''documenttimedb'' {MDB_INTEGERKEY}"

definition DocumentDataDB_create :: "open_api \<Rightarrow> nat" where
  "DocumentDataDB_create A = dbi_open A ''documentdatadb'' {MDB_CREATE, MDB_INTEGERKEY}"

definition DocumentDataDB_open :: "open_api \<Rightarrow> nat" where
  "DocumentDataDB_open A = dbi_open A ''documentdatadb'' {MDB_INTEGERKEY}"

definition DocumentIdDB_create :: "open_api \<Rightarrow> string \<Rightarrow> nat" where
  "DocumentIdDB_create A nm = dbi_open A nm {MDB_CREATE, MDB_INTEGERKEY}"

definition DocumentIdDB_open :: "open_api \<Rightarrow> string \<Rightarrow> nat" where
  "DocumentIdDB_open A nm = dbi_open A nm {MDB_INTEGERKEY}"

definition MTimeDB_create :: "open_api \<Rightarrow> nat" where
  "MTimeDB_create A = dbi_open A ''mtimedb'' {MDB_CREATE, MDB_INTEGERKEY, MDB_DUPSORT, MDB_DUPFIXED, MDB_INTEGERDUP}"

definition MTimeDB_open :: "open_api \<Rightarrow> nat" where
  "MTimeDB_open A = dbi_open A ''mtimedb'' {MDB_INTEGERKEY, MDB_DUPSORT, MDB_DUPFIXED, MDB_INTEGERDUP}"

text \<open>\<open>DatabaseDbis\<close>: the handle of each table.\<close>

type_synonym DatabaseDbis = "MDB_dbi \<Rightarrow> nat"

definition all_dbis :: "MDB_dbi list" where
  "all_dbis = [postingDbi, positionDBi, docTermsDbi, docFilenameTermsDbi, docXattrTermsDbi, idTreeDbi,
     idFilenameDbi, docTimeDbi, docDataDbi, contentIndexingDbi, mtimeDbi, failedIdDbi]"

definition DatabaseDbis_isValid :: "DatabaseDbis \<Rightarrow> bool" where
  "DatabaseDbis_isValid dbis \<longleftrightarrow> list_all (\<lambda>d. dbis d \<noteq> 0) all_dbis"

definition open_dbis :: "open_api \<Rightarrow> DatabaseDbis" where
  "open_dbis A d =
     (case d of
        postingDbi \<Rightarrow> PostingDB_open A
      | positionDBi \<Rightarrow> PositionDB_open A
      | docTermsDbi \<Rightarrow> DocumentDB_open A ''docterms''
      | docFilenameTermsDbi \<Rightarrow> DocumentDB_open A ''docfilenameterms''
      | docXattrTermsDbi \<Rightarrow> DocumentDB_open A ''docxatrrterms''
      | idTreeDbi \<Rightarrow> IdTreeDB_open A
      | idFilenameDbi \<Rightarrow> IdFilenameDB_open A
      | docTimeDbi \<Rightarrow> DocumentTimeDB_open A
      | docDataDbi \<Rightarrow> DocumentDataDB_open A
      | contentIndexingDbi \<Rightarrow> DocumentIdDB_open A ''indexingleveldb''
      | failedIdDbi \<Rightarrow> DocumentIdDB_open A ''failediddb''
      | mtimeDbi \<Rightarrow> MTimeDB_open A)"

definition create_dbis :: "open_api \<Rightarrow> DatabaseDbis" where
  "create_dbis A d =
     (case d of
        postingDbi \<Rightarrow> PostingDB_create A
      | positionDBi \<Rightarrow> PositionDB_create A
      | docTermsDbi \<Rightarrow> DocumentDB_create A ''docterms''
      | docFilenameTermsDbi \<Rightarrow> DocumentDB_create A ''docfilenameterms''
      | docXattrTermsDbi \<Rightarrow> DocumentDB_create A ''docxatrrterms''
      | idTreeDbi \<Rightarrow> IdTreeDB_create A
      | idFilenameDbi \<Rightarrow> IdFilenameDB_create A
      | docTimeDbi \<Rightarrow> DocumentTimeDB_create A
      | docDataDbi \<Rightarrow> DocumentDataDB_create A
      | contentIndexingDbi \<Rightarrow> DocumentIdDB_create A ''indexingleveldb''
      | failedIdDbi \<Rightarrow> DocumentIdDB_create A ''failediddb''
      | mtimeDbi \<Rightarrow> MTimeDB_create A)"

section \<open>Database\<close>

datatype db_call =
  EnvCreate int | EnvClose | TxnBegin int | TxnAbort | TxnCommit

record Database =
  m_env :: bool
  m_dbis :: DatabaseDbis
  m_mode :: OpenMode

definition Database_new :: Database where
  "Database_new = \<lparr>m_env = False, m_dbis = (\<lambda>_. 0), m_mode = ReadOnlyDatabase\<rparr>"

definition Database_destroy :: "Database \<Rightarrow> db_call list \<times> Database" where
  "Database_destroy D = (if m_env D then ([EnvClose], D\<lparr>m_env := False\<rparr>) else ([], D))"

text \<open>The error numbers that count as a wrong path.\<close>

definition ENOENT :: int where
  "ENOENT = 2"

definition EACCES :: int where
  "EACCES = 13"

definition mapsize :: "nat \<Rightarrow> bool \<Rightarrow> nat" where
  "mapsize sizeof_pointer running_on_valgrind =
     (let sizeInGByte = (if sizeof_pointer = 4 then 1 else if running_on_valgrind then 40 else 256)
      in sizeInGByte * 1024 * 1024 * 1024)"

text \<open>The transaction that opens or creates the tables; the calls so far are \<open>calls\<close>.\<close>

definition open_tables ::
  "open_api \<Rightarrow> OpenMode \<Rightarrow> Database \<Rightarrow> db_call list \<Rightarrow> OpenResult \<times> Database \<times> db_call list" where
  "open_tables A mode D calls =
     (let rc = oa_txn_begin A (mode \<noteq> CreateDatabase);
          calls = calls @ [TxnBegin rc]
      in if rc \<noteq> 0 then (InternalError, D, calls @ [EnvClose])
         else
           let D = D\<lparr>m_dbis := (if mode \<noteq> CreateDatabase then open_dbis A else create_dbis A)\<rparr>
           in if \<not> DatabaseDbis_isValid (m_dbis D) then (InvalidDatabase, D, calls @ [TxnAbort, EnvClose])
              else if oa_txn_commit A \<noteq> 0 then (InternalError, D, calls @ [TxnCommit, EnvClose])
              else (Success,
                D\<lparr>m_env := True, m_mode := (if mode = ReadOnlyDatabase then ReadOnlyDatabase else ReadWriteDatabase)\<rparr>,
                calls @ [TxnCommit]))"

definition Database_open :: "open_api \<Rightarrow> OpenMode \<Rightarrow> Database \<Rightarrow> OpenResult \<times> Database \<times> db_call list" where
  "Database_open A mode D =
     (if m_env D then
        ((if mode = ReadOnlyDatabase then Success
          else if m_mode D = ReadWriteDatabase then Success else OpenedReadOnly), D, [])
      else if mode \<noteq> CreateDatabase \<and> \<not> oa_indexExists A then (InvalidPath, D, [])
      else if mode = CreateDatabase \<and> \<not> oa_writeOwner A then (InvalidPath, D, [])
      else
        let rc = oa_env_create A; calls = [EnvCreate rc]
        in if rc \<noteq> 0 then (InternalError, D, calls)
           else
             let rc = oa_env_open A (mode = ReadOnlyDatabase)
             in if rc \<noteq> 0 then
                  (if rc = ENOENT \<or> rc = EACCES then InvalidPath else InternalError, D, calls @ [EnvClose])
                else if oa_reader_check A \<noteq> 0 then (InternalError, D, calls @ [EnvClose])
                else open_tables A mode D calls)"

section \<open>No path leaks\<close>

text \<open>
  The rules of LMDB for its handles, as a machine over the numbers of environments and transactions held:
  a transaction begins in an environment, is ended once, and an environment is closed after its
  transactions (\<open>commit\<close> frees the transaction even if it fails).
\<close>

fun use_call :: "nat \<times> nat \<Rightarrow> db_call \<Rightarrow> (nat \<times> nat) option" where
  "use_call (e, t) (EnvCreate rc) = Some (if rc = 0 then (e + 1, t) else (e, t))"
| "use_call (e, t) EnvClose = (if 0 < e \<and> t = 0 then Some (e - 1, t) else None)"
| "use_call (e, t) (TxnBegin rc) = (if 0 < e then Some (e, if rc = 0 then t + 1 else t) else None)"
| "use_call (e, t) TxnAbort = (if 0 < t then Some (e, t - 1) else None)"
| "use_call (e, t) TxnCommit = (if 0 < t then Some (e, t - 1) else None)"

fun use_calls :: "nat \<times> nat \<Rightarrow> db_call list \<Rightarrow> (nat \<times> nat) option" where
  "use_calls h [] = Some h"
| "use_calls h (c # cs) = Option.bind (use_call h c) (\<lambda>h'. use_calls h' cs)"

lemma use_calls_append: "use_calls h (cs @ ds) = Option.bind (use_calls h cs) (\<lambda>h'. use_calls h' ds)"
  by (induction cs arbitrary: h) (auto split: bind_split)

definition Database_held :: "Database \<Rightarrow> nat \<times> nat" where
  "Database_held D = (if m_env D then 1 else 0, 0)"

definition Database_inv :: "Database \<Rightarrow> bool" where
  "Database_inv D \<longleftrightarrow> (m_env D \<longrightarrow> DatabaseDbis_isValid (m_dbis D) \<and> m_mode D \<noteq> CreateDatabase)"

lemma Database_new_inv: "Database_inv Database_new" "Database_held Database_new = (0, 0)"
  by (simp_all add: Database_inv_def Database_new_def Database_held_def)

lemma Database_open_cases:
  assumes "Database_open A mode D = (r, D', calls)"
  shows "use_calls (Database_held D) calls = Some (Database_held D')"
    and "Database_inv D \<Longrightarrow> Database_inv D'"
    and "m_env D \<Longrightarrow> D' = D"
    and "\<not> m_env D \<Longrightarrow> m_env D' \<longleftrightarrow> r = Success"
  using assms
  by (auto simp: Database_open_def open_tables_def Let_def Database_held_def Database_inv_def split: if_splits)

text \<open>A life of a database: calls to \<open>open\<close> in any number, with any modes and outcomes.\<close>

fun Database_opens :: "(open_api \<times> OpenMode) list \<Rightarrow> Database \<Rightarrow> Database \<times> db_call list" where
  "Database_opens [] D = (D, [])"
| "Database_opens ((A, mode) # os) D =
     (case Database_open A mode D of (r, D', calls) \<Rightarrow>
      case Database_opens os D' of (D'', calls') \<Rightarrow> (D'', calls @ calls'))"

lemma Database_opens_held:
  "Database_opens os D = (D', calls) \<Longrightarrow>
   use_calls (Database_held D) calls = Some (Database_held D') \<and> (Database_inv D \<longrightarrow> Database_inv D')"
proof (induction os arbitrary: D calls)
  case (Cons o' os)
  obtain A mode where o': "o' = (A, mode)"
    by (cases o')
  obtain r D1 c1 where one: "Database_open A mode D = (r, D1, c1)"
    by (cases "Database_open A mode D")
  obtain c2 where rest: "Database_opens os D1 = (D', c2)" and calls: "calls = c1 @ c2"
    using Cons.prems by (auto simp: o' one split: prod.splits)
  show ?case
    using Cons.IH [OF rest] Database_open_cases(1,2) [OF one] by (simp add: calls use_calls_append)
qed simp

text \<open>What went wrong decides the result.\<close>

definition path_fails :: "open_api \<Rightarrow> OpenMode \<Rightarrow> bool" where
  "path_fails A mode \<longleftrightarrow> (if mode = CreateDatabase then \<not> oa_writeOwner A else \<not> oa_indexExists A)"

definition tables_opened :: "open_api \<Rightarrow> OpenMode \<Rightarrow> DatabaseDbis" where
  "tables_opened A mode = (if mode = CreateDatabase then create_dbis A else open_dbis A)"

definition env_fails :: "open_api \<Rightarrow> OpenMode \<Rightarrow> bool" where
  "env_fails A mode \<longleftrightarrow> oa_env_create A \<noteq> 0 \<or> oa_env_open A (mode = ReadOnlyDatabase) \<noteq> 0 \<or>
     oa_reader_check A \<noteq> 0 \<or> oa_txn_begin A (mode \<noteq> CreateDatabase) \<noteq> 0"

lemma Database_open_Success:
  assumes "\<not> m_env D"
  shows "fst (Database_open A mode D) = Success \<longleftrightarrow>
    \<not> path_fails A mode \<and> \<not> env_fails A mode \<and> DatabaseDbis_isValid (tables_opened A mode) \<and> oa_txn_commit A = 0"
  using assms
  by (auto simp: Database_open_def open_tables_def Let_def path_fails_def env_fails_def tables_opened_def
      simp del: not_None_eq split: if_splits)

lemma Database_open_InvalidDatabase:
  assumes "\<not> m_env D"
  shows "fst (Database_open A mode D) = InvalidDatabase \<longleftrightarrow>
    \<not> path_fails A mode \<and> \<not> env_fails A mode \<and> \<not> DatabaseDbis_isValid (tables_opened A mode)"
  using assms
  by (auto simp: Database_open_def open_tables_def Let_def path_fails_def env_fails_def tables_opened_def
      split: if_splits)

lemma Database_open_InvalidPath:
  assumes "\<not> m_env D"
  shows "fst (Database_open A mode D) = InvalidPath \<longleftrightarrow>
    path_fails A mode \<or> oa_env_create A = 0 \<and> oa_env_open A (mode = ReadOnlyDatabase) \<in> {ENOENT, EACCES}"
  using assms
  by (cases mode) (simp_all add: Database_open_def open_tables_def Let_def path_fails_def ENOENT_def EACCES_def)

lemma Database_open_OpenedReadOnly:
  "fst (Database_open A mode D) = OpenedReadOnly \<longleftrightarrow>
    m_env D \<and> mode \<noteq> ReadOnlyDatabase \<and> m_mode D \<noteq> ReadWriteDatabase"
  by (cases mode; cases "m_env D") (simp_all add: Database_open_def open_tables_def Let_def)

lemma Database_open_mode:
  assumes "\<not> m_env D" and "Database_open A mode D = (Success, D', calls)"
  shows "D' = \<lparr>m_env = True, m_dbis = tables_opened A mode,
    m_mode = (if mode = ReadOnlyDatabase then ReadOnlyDatabase else ReadWriteDatabase)\<rparr>"
  using assms
  by (auto simp: Database_open_def open_tables_def Let_def tables_opened_def split: if_splits)

lemma Database_life:
  "use_calls (0, 0) (snd (Database_opens os Database_new) @ fst (Database_destroy (fst (Database_opens os Database_new)))) =
   Some (0, 0)"
proof -
  obtain D calls where o': "Database_opens os Database_new = (D, calls)"
    by (cases "Database_opens os Database_new")
  have "use_calls (0, 0) calls = Some (Database_held D)"
    using Database_opens_held[OF o'] by (simp add: Database_new_inv)
  then show ?thesis
    by (simp add: o' use_calls_append Database_destroy_def Database_held_def)
qed

lemma Database_open_result:
  assumes "\<not> m_env D"
  shows "if fst (Database_open A mode D) = Success
     then fst (snd (Database_open A mode D)) = \<lparr>m_env = True, m_dbis = tables_opened A mode,
       m_mode = (if mode = ReadOnlyDatabase then ReadOnlyDatabase else ReadWriteDatabase)\<rparr>
     else \<not> m_env (fst (snd (Database_open A mode D)))"
proof -
  obtain r D' calls where o': "Database_open A mode D = (r, D', calls)"
    by (cases "Database_open A mode D")
  show ?thesis
    using Database_open_mode[OF assms] Database_open_cases(4)[OF o' assms] o' by simp
qed

text \<open>Each table is opened with the flags it was created with, and these are the ones the store is modelled with.\<close>

lemma table_flags:
  assumes "\<And>nm flags. oa_dbi_open A nm flags = (if nm \<in> set names \<and> flags - {MDB_CREATE} = kind nm then (0, h nm) else (1, 0))"
    and "\<And>nm. nm \<in> set names \<Longrightarrow> h nm \<noteq> 0"
  shows "open_dbis A = create_dbis A"
proof
  fix d
  have "oa_dbi_open A nm (insert MDB_CREATE F) = oa_dbi_open A nm F" if "MDB_CREATE \<notin> F" for nm F
    using that by (simp add: assms(1))
  then show "open_dbis A d = create_dbis A d"
    by (cases d) (simp_all add: open_dbis_def create_dbis_def dbi_open_def PostingDB_open_def PostingDB_create_def
        PositionDB_open_def PositionDB_create_def DocumentDB_open_def DocumentDB_create_def IdTreeDB_open_def
        IdTreeDB_create_def IdFilenameDB_open_def IdFilenameDB_create_def DocumentTimeDB_open_def
        DocumentTimeDB_create_def DocumentDataDB_open_def DocumentDataDB_create_def DocumentIdDB_open_def
        DocumentIdDB_create_def MTimeDB_open_def MTimeDB_create_def)
qed

lemmas create_defs = create_dbis_def dbi_open_def PostingDB_create_def PositionDB_create_def DocumentDB_create_def
  IdTreeDB_create_def IdFilenameDB_create_def DocumentTimeDB_create_def DocumentDataDB_create_def DocumentIdDB_create_def
  MTimeDB_create_def

definition sample_open :: open_api where
  "sample_open = \<lparr>oa_indexExists = False, oa_writeOwner = True, oa_env_create = 0, oa_env_open = (\<lambda>_. 0),
    oa_reader_check = 0, oa_txn_begin = (\<lambda>_. 0), oa_dbi_open = (\<lambda>nm _. (0, length nm)), oa_txn_commit = 0\<rparr>"

lemma sample_open_succeeds:
  "\<not> path_fails sample_open CreateDatabase" "\<not> env_fails sample_open CreateDatabase"
  "DatabaseDbis_isValid (tables_opened sample_open CreateDatabase)" "oa_txn_commit sample_open = 0"
  "path_fails sample_open ReadWriteDatabase"
  by (simp_all add: sample_open_def path_fails_def env_fails_def tables_opened_def DatabaseDbis_isValid_def all_dbis_def
      create_defs)

end
