(* ===== verification/PendingFiles.thy ===== *)
theory PendingFiles
  imports Prelude "HOL-Library.AList"
begin

text \<open>
  \<open>pendingfile.cpp\<close> and \<open>pendingfilequeue.cpp\<close>: the queue between the file watch and the indexers. It
  merges the events of a file, signals the first change at once and delays further changes of a file that
  was signalled recently. A \<open>QTime\<close> is the number of milliseconds since midnight; a hash is a list of
  pairs with distinct keys, whose order is the order of iteration. Operations give the signals they emit.
\<close>

section \<open>PendingFile\<close>

record PendingFile =
  pf_path :: QString
  pf_created :: bool
  pf_closedOnWrite :: bool
  pf_attributesChanged :: bool
  pf_deleted :: bool
  pf_modified :: bool

definition PendingFile_new :: "QString \<Rightarrow> PendingFile" where
  "PendingFile_new path = \<lparr>pf_path = path, pf_created = False, pf_closedOnWrite = False,
     pf_attributesChanged = False, pf_deleted = False, pf_modified = False\<rparr>"

definition shouldIndexContents :: "PendingFile \<Rightarrow> bool" where
  "shouldIndexContents f = (if pf_created f \<or> pf_closedOnWrite f \<or> pf_modified f then True else False)"

definition shouldIndexXAttrOnly :: "PendingFile \<Rightarrow> bool" where
  "shouldIndexXAttrOnly f = (if pf_attributesChanged f \<and> \<not> shouldIndexContents f then True else False)"

definition shouldRemoveIndex :: "PendingFile \<Rightarrow> bool" where
  "shouldRemoveIndex f = pf_deleted f"

definition PendingFile_merge :: "PendingFile \<Rightarrow> PendingFile \<Rightarrow> PendingFile" where
  "PendingFile_merge f g =
     f\<lparr>pf_attributesChanged := pf_attributesChanged f \<or> pf_attributesChanged g,
       pf_closedOnWrite := pf_closedOnWrite f \<or> pf_closedOnWrite g,
       pf_created := pf_created f \<or> pf_created g,
       pf_modified := pf_modified f \<or> pf_modified g\<rparr>"

section \<open>The queue\<close>

definition msecsTo :: "int \<Rightarrow> int \<Rightarrow> int" where
  "msecsTo a b = b - a"

definition addMSecs :: "int \<Rightarrow> int \<Rightarrow> int" where
  "addMSecs t ms = (t + ms) mod 86400000"

record PendingFileQueue =
  m_cache :: "PendingFile list"
  m_cacheTimer :: bool
  m_clearTimer :: bool
  m_clearInterval :: int
  m_pendingTimer :: bool
  m_pendingInterval :: int
  m_recentlyEmitted :: "(QString \<times> int) list"
  m_pendingFiles :: "(QString \<times> int) list"
  m_minTimeout :: int
  m_maxTimeout :: int
  m_trackingTime :: int

datatype queue_signal =
    Sig_indexNewFile QString
  | Sig_indexModifiedFile QString
  | Sig_indexXAttr QString
  | Sig_removeFileIndex QString

definition PendingFileQueue_new :: PendingFileQueue where
  "PendingFileQueue_new =
     \<lparr>m_cache = [], m_cacheTimer = False, m_clearTimer = False, m_clearInterval = 120 * 1000,
      m_pendingTimer = False, m_pendingInterval = 5 * 1000, m_recentlyEmitted = [], m_pendingFiles = [],
      m_minTimeout = 5 * 1000, m_maxTimeout = 60 * 1000, m_trackingTime = 120 * 1000\<rparr>"

definition setTrackingTime :: "int \<Rightarrow> PendingFileQueue \<Rightarrow> PendingFileQueue" where
  "setTrackingTime seconds q = q\<lparr>m_trackingTime := seconds * 1000\<rparr>"

definition setMinimumTimeout :: "int \<Rightarrow> PendingFileQueue \<Rightarrow> PendingFileQueue" where
  "setMinimumTimeout seconds q = q\<lparr>m_minTimeout := seconds * 1000\<rparr>"

definition setMaximumTimeout :: "int \<Rightarrow> PendingFileQueue \<Rightarrow> PendingFileQueue" where
  "setMaximumTimeout seconds q = q\<lparr>m_maxTimeout := seconds * 1000\<rparr>"

text \<open>\<open>indexOf\<close>, \<open>merge\<close> and \<open>removeOne\<close> look for the first element with the path.\<close>

fun merge_into :: "PendingFile \<Rightarrow> PendingFile list \<Rightarrow> PendingFile list option" where
  "merge_into f [] = None"
| "merge_into f (g # gs) =
     (if pf_path g = pf_path f then Some (PendingFile_merge g f # gs) else map_option ((#) g) (merge_into f gs))"

fun removeOne :: "PendingFile \<Rightarrow> PendingFile list \<Rightarrow> PendingFile list" where
  "removeOne f [] = []"
| "removeOne f (g # gs) = (if pf_path g = pf_path f then gs else g # removeOne f gs)"

text \<open>The part of \<open>enqueue\<close> for a deleted directory.\<close>

definition drop_below :: "PendingFile \<Rightarrow> PendingFileQueue \<Rightarrow> PendingFileQueue" where
  "drop_below f q =
     (let keepFile = (\<lambda>pending. \<not> prefix (pf_path f) (pf_path pending));
          dropped = filter (\<lambda>p. \<not> keepFile p) (m_cache q)
      in q\<lparr>m_cache := filter keepFile (m_cache q),
           m_pendingFiles := fold (\<lambda>p. AList.delete (pf_path p)) dropped (m_pendingFiles q),
           m_recentlyEmitted := fold (\<lambda>p. AList.delete (pf_path p)) dropped (m_recentlyEmitted q)\<rparr>)"

definition enqueue :: "PendingFile \<Rightarrow> PendingFileQueue \<Rightarrow> PendingFileQueue \<times> queue_signal list" where
  "enqueue f q0 =
     (let q = (if shouldRemoveIndex f \<and> suffix [47] (pf_path f) then drop_below f q0 else q0)
      in if shouldRemoveIndex f then
           (q\<lparr>m_cache := removeOne f (m_cache q), m_pendingFiles := AList.delete (pf_path f) (m_pendingFiles q)\<rparr>,
            [Sig_removeFileIndex (pf_path f)])
         else
           (q\<lparr>m_cache := (case merge_into f (m_cache q) of None \<Rightarrow> m_cache q @ [f] | Some cache \<Rightarrow> cache),
              m_cacheTimer := True\<rparr>, []))"

definition qBound :: "int \<Rightarrow> int \<Rightarrow> int \<Rightarrow> int" where
  "qBound lo v hi = max lo (min v hi)"

text \<open>One file of the cache.\<close>

definition process_file ::
  "int \<Rightarrow> PendingFile \<Rightarrow> PendingFileQueue \<Rightarrow> PendingFileQueue \<times> queue_signal list" where
  "process_file currentTime f q =
     (if shouldIndexXAttrOnly f then (q, [Sig_indexXAttr (pf_path f)])
      else if shouldIndexContents f then
        (case map_of (m_pendingFiles q) (pf_path f) of
           Some time \<Rightarrow>
             let msecondsLeft = msecsTo currentTime time;
                 msecondsLeft = qBound (m_minTimeout q) (msecondsLeft * 2) (m_maxTimeout q)
             in (q\<lparr>m_pendingFiles := AList.update (pf_path f) (addMSecs currentTime msecondsLeft) (m_pendingFiles q)\<rparr>, [])
         | None \<Rightarrow>
             if pf_path f \<in> fst ` set (m_recentlyEmitted q) then
               (q\<lparr>m_pendingFiles :=
                  AList.update (pf_path f) (addMSecs currentTime (m_minTimeout q)) (m_pendingFiles q)\<rparr>, [])
             else
               (q\<lparr>m_recentlyEmitted := AList.update (pf_path f) currentTime (m_recentlyEmitted q)\<rparr>,
                [if pf_created f then Sig_indexNewFile (pf_path f) else Sig_indexModifiedFile (pf_path f)]))
      else (q, []))"

primrec process_files ::
  "int \<Rightarrow> PendingFile list \<Rightarrow> PendingFileQueue \<Rightarrow> PendingFileQueue \<times> queue_signal list" where
  "process_files currentTime [] q = (q, [])"
| "process_files currentTime (f # fs) q =
     (case process_file currentTime f q of (q1, sigs1) \<Rightarrow>
      case process_files currentTime fs q1 of (q2, sigs2) \<Rightarrow> (q2, sigs1 @ sigs2))"

definition start_clear_timer :: "PendingFileQueue \<Rightarrow> PendingFileQueue" where
  "start_clear_timer q =
     (if m_recentlyEmitted q \<noteq> [] \<and> \<not> m_clearTimer q then q\<lparr>m_clearInterval := m_trackingTime q, m_clearTimer := True\<rparr>
      else q)"

definition processCache :: "int \<Rightarrow> PendingFileQueue \<Rightarrow> PendingFileQueue \<times> queue_signal list" where
  "processCache currentTime q0 =
     (case process_files currentTime (m_cache q0) q0 of (q, sigs) \<Rightarrow>
        let q = q\<lparr>m_cache := []\<rparr>;
            q = (if m_pendingFiles q \<noteq> [] \<and> \<not> m_pendingTimer q
                 then q\<lparr>m_pendingInterval := m_minTimeout q, m_pendingTimer := True\<rparr> else q)
        in (start_clear_timer q, sigs))"

text \<open>The loop of \<open>clearRecentlyEmitted\<close>: the entries kept and the time of the next update.\<close>

primrec clear_loop :: "int \<Rightarrow> int \<Rightarrow> (QString \<times> int) list \<Rightarrow> int \<Rightarrow> (QString \<times> int) list \<times> int" where
  "clear_loop tracking time [] nextUpdate = ([], nextUpdate)"
| "clear_loop tracking time (e # es) nextUpdate =
     (let msecondsSinceEmitted = msecsTo (snd e) time
      in if msecondsSinceEmitted \<ge> tracking then clear_loop tracking time es nextUpdate
         else
           let timeLeft = tracking - msecondsSinceEmitted
           in case clear_loop tracking time es (min nextUpdate timeLeft) of (kept, next_update) \<Rightarrow> (e # kept, next_update))"

definition clearRecentlyEmitted :: "int \<Rightarrow> PendingFileQueue \<Rightarrow> PendingFileQueue \<times> queue_signal list" where
  "clearRecentlyEmitted time q =
     (case clear_loop (m_trackingTime q) time (m_recentlyEmitted q) (m_trackingTime q) of (kept, nextUpdate) \<Rightarrow>
        let q' = q\<lparr>m_recentlyEmitted := kept\<rparr>
        in (if kept \<noteq> [] then q'\<lparr>m_clearInterval := nextUpdate, m_clearTimer := True\<rparr> else q', []))"

text \<open>The loop of \<open>processPendingFiles\<close>: files that are due are signalled and become recent.\<close>

primrec pending_loop ::
  "int \<Rightarrow> (QString \<times> int) list \<Rightarrow> (QString \<times> int) list \<Rightarrow> int \<Rightarrow>
   (QString \<times> int) list \<times> (QString \<times> int) list \<times> int \<times> queue_signal list" where
  "pending_loop currentTime [] recent nextUpdate = ([], recent, nextUpdate, [])"
| "pending_loop currentTime (e # es) recent nextUpdate =
     (let mSecondsLeft = msecsTo currentTime (snd e)
      in if mSecondsLeft \<le> 0 then
           (case pending_loop currentTime es (AList.update (fst e) currentTime recent) nextUpdate of
              (kept, recent', next_update, sigs) \<Rightarrow> (kept, recent', next_update, Sig_indexModifiedFile (fst e) # sigs))
         else
           (case pending_loop currentTime es recent (min mSecondsLeft nextUpdate) of
              (kept, recent', next_update, sigs) \<Rightarrow> (e # kept, recent', next_update, sigs)))"

definition processPendingFiles :: "int \<Rightarrow> PendingFileQueue \<Rightarrow> PendingFileQueue \<times> queue_signal list" where
  "processPendingFiles currentTime q =
     (case pending_loop currentTime (m_pendingFiles q) (m_recentlyEmitted q) (m_maxTimeout q) of
        (kept, recent, nextUpdate, sigs) \<Rightarrow>
          let q = q\<lparr>m_pendingFiles := kept, m_recentlyEmitted := recent\<rparr>;
              q = (if kept \<noteq> [] then q\<lparr>m_pendingInterval := nextUpdate, m_pendingTimer := True\<rparr> else q)
          in (start_clear_timer q, sigs))"

section \<open>The events that drive it\<close>

text \<open>Each timer is a single shot: it is inactive when its slot runs, and has no event while inactive.\<close>

datatype queue_event =
  Enqueue PendingFile | CacheTimeout int | PendingTimeout int | ClearTimeout int

fun queue_step :: "queue_event \<Rightarrow> PendingFileQueue \<Rightarrow> PendingFileQueue \<times> queue_signal list" where
  "queue_step (Enqueue f) q = enqueue f q"
| "queue_step (CacheTimeout t) q = (if m_cacheTimer q then processCache t (q\<lparr>m_cacheTimer := False\<rparr>) else (q, []))"
| "queue_step (PendingTimeout t) q =
     (if m_pendingTimer q then processPendingFiles t (q\<lparr>m_pendingTimer := False\<rparr>) else (q, []))"
| "queue_step (ClearTimeout t) q =
     (if m_clearTimer q then clearRecentlyEmitted t (q\<lparr>m_clearTimer := False\<rparr>) else (q, []))"

primrec queue_run :: "queue_event list \<Rightarrow> PendingFileQueue \<Rightarrow> PendingFileQueue \<times> (queue_event \<times> queue_signal list) list" where
  "queue_run [] q = (q, [])"
| "queue_run (e # es) q =
     (case queue_step e q of (q1, sigs) \<Rightarrow> case queue_run es q1 of (q2, trace) \<Rightarrow> (q2, (e, sigs) # trace))"

end
