(* ===== verification/PendingSpec.thy ===== *)
theory PendingSpec
  imports PendingFiles
begin

text \<open>
  What the queue of pending files promises: the set of files with a content change that has not been
  signalled is the abstract state, and every event of the queue is a step of an abstract machine on it.
\<close>

section \<open>The abstract machine\<close>

text \<open>The files that signals hand over for indexing their contents.\<close>

fun content_path :: "queue_signal \<Rightarrow> QString option" where
  "content_path (Sig_indexNewFile p) = Some p"
| "content_path (Sig_indexModifiedFile p) = Some p"
| "content_path _ = None"

definition content_paths :: "queue_signal list \<Rightarrow> QString list" where
  "content_paths sigs = List.map_filter content_path sigs"

lemma content_paths_simps [simp]:
  "content_paths [] = []" "content_paths (s # sigs) = (case content_path s of None \<Rightarrow> [] | Some p \<Rightarrow> [p]) @ content_paths sigs"
  "content_paths (sigs @ sigs') = content_paths sigs @ content_paths sigs'"
  by (simp_all add: content_paths_def map_filter_def split: option.splits)

text \<open>
  The state is the changes that are fresh and those that are delayed. A change of contents makes a file
  fresh. A removal ends the changes of the file and, for a directory, the fresh ones of all files below it
  and the delayed ones of some. The cache timer hands over fresh files that are not delayed and delays the
  other fresh ones; the timer of the delayed files hands over some of these. Each file is handed over once.
\<close>

type_synonym changes = "QString set \<times> QString set"

definition below_dir :: "QString \<Rightarrow> QString set" where
  "below_dir p = {x. suffix [47] p \<and> prefix p x}"

inductive spec_step :: "changes \<Rightarrow> queue_event \<times> queue_signal list \<Rightarrow> changes \<Rightarrow> bool" where
  change: "\<not> shouldRemoveIndex f \<Longrightarrow>
    spec_step (F, D) (Enqueue f, []) (if shouldIndexContents f then insert (pf_path f) F else F, D)"
| remove: "shouldRemoveIndex f \<Longrightarrow> B \<subseteq> below_dir (pf_path f) \<Longrightarrow>
    spec_step (F, D) (Enqueue f, [Sig_removeFileIndex (pf_path f)])
      (F - {pf_path f} - below_dir (pf_path f), D - {pf_path f} - B)"
| cache: "distinct (content_paths sigs) \<Longrightarrow> set (content_paths sigs) \<subseteq> F - D \<Longrightarrow>
    spec_step (F, D) (CacheTimeout t, sigs) ({}, D \<union> F - set (content_paths sigs))"
| pending: "distinct (content_paths sigs) \<Longrightarrow> set (content_paths sigs) \<subseteq> D \<Longrightarrow>
    spec_step (F, D) (PendingTimeout t, sigs) (F, D - set (content_paths sigs))"
| clear: "spec_step (F, D) (ClearTimeout t, []) (F, D)"

inductive spec_steps :: "changes \<Rightarrow> (queue_event \<times> queue_signal list) list \<Rightarrow> changes \<Rightarrow> bool" where
  none: "spec_steps S [] S"
| more: "spec_step S x S1 \<Longrightarrow> spec_steps S1 xs S2 \<Longrightarrow> spec_steps S (x # xs) S2"

definition changed :: "PendingFile list \<Rightarrow> QString set" where
  "changed fs = pf_path ` {f \<in> set fs. shouldIndexContents f}"

lemma changed_simps [simp]:
  "changed [] = {}" "changed (f # fs) = (if shouldIndexContents f then insert (pf_path f) (changed fs) else changed fs)"
  "changed (fs @ gs) = changed fs \<union> changed gs"
  by (auto simp: changed_def)

lemma changed_filter: "changed (filter (\<lambda>f. P (pf_path f)) fs) = {p \<in> changed fs. P p}"
  by (auto simp: changed_def)

definition delayed :: "PendingFileQueue \<Rightarrow> QString set" where
  "delayed q = fst ` set (m_pendingFiles q)"

definition changes_of :: "PendingFileQueue \<Rightarrow> changes" where
  "changes_of q = (changed (m_cache q), delayed q)"

section \<open>The invariant of the queue\<close>

definition has_flag :: "PendingFile \<Rightarrow> bool" where
  "has_flag f \<longleftrightarrow> shouldIndexContents f \<or> shouldIndexXAttrOnly f"

definition queue_inv :: "PendingFileQueue \<Rightarrow> bool" where
  "queue_inv q \<longleftrightarrow> distinct (map pf_path (m_cache q)) \<and> distinct (map fst (m_pendingFiles q)) \<and>
     distinct (map fst (m_recentlyEmitted q)) \<and>
     (\<forall>f \<in> set (m_cache q). has_flag f) \<and>
     (m_cache q \<noteq> [] \<longrightarrow> m_cacheTimer q) \<and>
     (m_pendingFiles q \<noteq> [] \<longrightarrow> m_pendingTimer q) \<and>
     (m_recentlyEmitted q \<noteq> [] \<longrightarrow> m_clearTimer q)"

lemma queue_inv_new: "queue_inv PendingFileQueue_new" "changes_of PendingFileQueue_new = ({}, {})"
  by (simp_all add: queue_inv_def PendingFileQueue_new_def changes_of_def delayed_def)

lemma merge_flags:
  "shouldIndexContents (PendingFile_merge f g) \<longleftrightarrow> shouldIndexContents f \<or> shouldIndexContents g"
  "has_flag f \<Longrightarrow> has_flag (PendingFile_merge f g)"
  "pf_path (PendingFile_merge f g) = pf_path f"
  by (auto simp: PendingFile_merge_def shouldIndexContents_def has_flag_def shouldIndexXAttrOnly_def split: if_splits)

section \<open>Enqueueing\<close>

lemma merge_into_None: "merge_into f gs = None \<longleftrightarrow> pf_path f \<notin> pf_path ` set gs"
  by (induction gs) auto

lemma merge_into_Some:
  assumes "merge_into f gs = Some hs"
  shows "map pf_path hs = map pf_path gs \<and> ((\<forall>g \<in> set gs. has_flag g) \<longrightarrow> (\<forall>h \<in> set hs. has_flag h)) \<and>
    changed hs = changed gs \<union> changed [f]"
  using assms
  by (induction f gs arbitrary: hs rule: merge_into.induct) (auto simp: merge_flags split: if_splits)

lemma removeOne_eq: "distinct (map pf_path gs) \<Longrightarrow> removeOne f gs = filter (\<lambda>g. pf_path g \<noteq> pf_path f) gs"
proof (induction f gs rule: removeOne.induct)
  case (2 f g gs)
  have "filter (\<lambda>h. pf_path h \<noteq> pf_path f) gs = gs" if "pf_path g = pf_path f"
  proof -
    have "pf_path f \<notin> pf_path ` set gs"
      using that 2(2) by simp
    then show ?thesis
      by (intro filter_True ballI) (metis image_eqI)
  qed
  with 2 show ?case
    by (cases "pf_path g = pf_path f") auto
qed simp

lemma set_delete: "set (AList.delete k al) = {e \<in> set al. fst e \<noteq> k}"
  by (auto simp: AList.delete_eq)

lemma fold_delete:
  "set (fold (\<lambda>p. AList.delete (g p)) ps al) = {e \<in> set al. fst e \<notin> g ` set ps}"
  "distinct (map fst al) \<Longrightarrow> distinct (map fst (fold (\<lambda>p. AList.delete (g p)) ps al))"
  by (induction ps arbitrary: al) (auto simp: set_delete distinct_delete)

lemma queue_inv_shrink:
  assumes "queue_inv q" "m_cache q' = filter k (m_cache q)"
    and "distinct (map fst (m_pendingFiles q'))" "set (m_pendingFiles q') \<subseteq> set (m_pendingFiles q)"
    and "distinct (map fst (m_recentlyEmitted q'))" "set (m_recentlyEmitted q') \<subseteq> set (m_recentlyEmitted q)"
    and "m_cacheTimer q' = m_cacheTimer q" "m_pendingTimer q' = m_pendingTimer q" "m_clearTimer q' = m_clearTimer q"
  shows "queue_inv q'"
proof -
  have "m_pendingFiles q \<noteq> []" if "m_pendingFiles q' \<noteq> []"
    using that assms(4) by auto
  moreover have "m_recentlyEmitted q \<noteq> []" if "m_recentlyEmitted q' \<noteq> []"
    using that assms(6) by auto
  moreover have "m_cache q \<noteq> []" if "m_cache q' \<noteq> []"
    using that assms(2) by auto
  ultimately show ?thesis
    using assms unfolding queue_inv_def by (simp add: distinct_map_filter)
qed

lemma drop_below_inv: "queue_inv q \<Longrightarrow> queue_inv (drop_below f q)"
  by (rule queue_inv_shrink) (auto simp: drop_below_def Let_def queue_inv_def fold_delete)

lemma drop_below_changes:
  "\<exists>B. B \<subseteq> {p. prefix (pf_path f) p} \<and>
     changes_of (drop_below f q) = (changed (m_cache q) - {p. prefix (pf_path f) p}, delayed q - B)"
proof (intro exI conjI)
  let ?B = "pf_path ` {p \<in> set (m_cache q). prefix (pf_path f) (pf_path p)}"
  show "?B \<subseteq> {p. prefix (pf_path f) p}"
    by auto
  have "delayed (drop_below f q) = delayed q - ?B"
    unfolding delayed_def drop_below_def Let_def by (force simp: fold_delete(1))
  moreover have "changed (m_cache (drop_below f q)) = changed (m_cache q) - {p. prefix (pf_path f) p}"
    using changed_filter[of "\<lambda>x. \<not> prefix (pf_path f) x" "m_cache q"] by (auto simp: drop_below_def Let_def)
  ultimately show "changes_of (drop_below f q) = (changed (m_cache q) - {p. prefix (pf_path f) p}, delayed q - ?B)"
    by (simp add: changes_of_def)
qed

text \<open>A removal: first the files below a directory, then the file itself.\<close>

definition removed_below :: "PendingFile \<Rightarrow> PendingFileQueue \<Rightarrow> PendingFileQueue" where
  "removed_below f q = (if suffix [47] (pf_path f) then drop_below f q else q)"

lemma enqueue_removed:
  assumes "queue_inv q" "shouldRemoveIndex f" "enqueue f q = (q', sigs)"
  shows "queue_inv (removed_below f q)" "sigs = [Sig_removeFileIndex (pf_path f)]"
    and "q' = removed_below f q\<lparr>m_cache := filter (\<lambda>g. pf_path g \<noteq> pf_path f) (m_cache (removed_below f q)),
      m_pendingFiles := AList.delete (pf_path f) (m_pendingFiles (removed_below f q))\<rparr>"
proof -
  show q1: "queue_inv (removed_below f q)"
    using assms(1) drop_below_inv by (simp add: removed_below_def)
  show "sigs = [Sig_removeFileIndex (pf_path f)]"
    using assms(2,3) by (auto simp: enqueue_def Let_def)
  have "removeOne f (m_cache (removed_below f q)) = filter (\<lambda>g. pf_path g \<noteq> pf_path f) (m_cache (removed_below f q))"
    using q1 by (intro removeOne_eq) (simp add: queue_inv_def)
  then show "q' = removed_below f q\<lparr>m_cache := filter (\<lambda>g. pf_path g \<noteq> pf_path f) (m_cache (removed_below f q)),
      m_pendingFiles := AList.delete (pf_path f) (m_pendingFiles (removed_below f q))\<rparr>"
    using assms(2,3) by (auto simp: enqueue_def Let_def removed_below_def)
qed

lemma enqueue_inv:
  assumes "queue_inv q" "shouldRemoveIndex f \<or> has_flag f" "enqueue f q = (q', sigs)"
  shows "queue_inv q'"
proof (cases "shouldRemoveIndex f")
  case True
  note r = enqueue_removed[OF assms(1) True assms(3)]
  show ?thesis
    by (rule queue_inv_shrink[OF r(1)]) (use r(1) in \<open>auto simp: r(3) queue_inv_def distinct_delete set_delete\<close>)
next
  case False
  show ?thesis
  proof (cases "merge_into f (m_cache q)")
    case None
    then have "pf_path f \<notin> pf_path ` set (m_cache q)"
      by (simp add: merge_into_None)
    with None False assms show ?thesis
      by (auto simp: enqueue_def queue_inv_def)
  next
    case (Some hs)
    have "q' = q\<lparr>m_cache := hs, m_cacheTimer := True\<rparr>"
      using False assms(3) Some by (simp add: enqueue_def)
    with merge_into_Some[OF Some] assms(1) show ?thesis
      by (simp add: queue_inv_def)
  qed
qed

lemma enqueue_spec:
  assumes "queue_inv q" "enqueue f q = (q', sigs)"
  shows "spec_step (changes_of q) (Enqueue f, sigs) (changes_of q')"
proof (cases "shouldRemoveIndex f")
  case True
  note r = enqueue_removed[OF assms(1) True assms(2)]
  obtain B where B: "B \<subseteq> below_dir (pf_path f)"
    "changes_of (removed_below f q) = (changed (m_cache q) - below_dir (pf_path f), delayed q - B)"
    using drop_below_changes[of f q]
    by (cases "suffix [47] (pf_path f)") (auto simp: removed_below_def changes_of_def below_dir_def)
  have "changes_of q' = (changed (m_cache (removed_below f q)) - {pf_path f}, delayed (removed_below f q) - {pf_path f})"
    by (force simp: r(3) changes_of_def delayed_def changed_filter[where P = "\<lambda>p. p \<noteq> pf_path f"] set_delete)
  then have "changes_of q' = (changed (m_cache q) - {pf_path f} - below_dir (pf_path f), delayed q - {pf_path f} - B)"
    using B(2) by (auto simp: changes_of_def)
  then show ?thesis
    using spec_step.remove[OF True B(1)] r(2) by (simp add: changes_of_def)
next
  case False
  have "changed (m_cache q') = (if shouldIndexContents f then insert (pf_path f) (changed (m_cache q)) else changed (m_cache q)) \<and>
    delayed q' = delayed q \<and> sigs = []"
  proof (cases "merge_into f (m_cache q)")
    case None
    with False assms(2) show ?thesis
      by (auto simp: enqueue_def delayed_def)
  next
    case (Some hs)
    then have "q' = q\<lparr>m_cache := hs, m_cacheTimer := True\<rparr>" "sigs = []"
      using False assms(2) by (auto simp: enqueue_def)
    with merge_into_Some[OF Some] show ?thesis
      by (simp add: delayed_def)
  qed
  then show ?thesis
    using spec_step.change[OF False] by (simp add: changes_of_def)
qed

section \<open>The timers\<close>

lemma keys_update: "fst ` set (AList.update k v al) = insert k (fst ` set al)"
  using AList.dom_update[of k v al] by (simp add: dom_map_of_conv_image_fst)

lemma distinct_keys_update: "distinct (map fst al) \<Longrightarrow> distinct (map fst (AList.update k v al))"
  by (rule AList.distinct_update)

lemma map_of_None_keys: "map_of al k = None \<longleftrightarrow> k \<notin> fst ` set al"
  by (simp add: map_of_eq_None_iff)

text \<open>What stays the same while the cache is processed.\<close>

definition same_frame :: "PendingFileQueue \<Rightarrow> PendingFileQueue \<Rightarrow> bool" where
  "same_frame q q' \<longleftrightarrow> m_cache q' = m_cache q \<and> m_cacheTimer q' = m_cacheTimer q \<and> m_clearTimer q' = m_clearTimer q \<and>
     m_pendingTimer q' = m_pendingTimer q \<and> m_minTimeout q' = m_minTimeout q \<and> m_maxTimeout q' = m_maxTimeout q \<and>
     m_trackingTime q' = m_trackingTime q \<and>
     (distinct (map fst (m_pendingFiles q)) \<longrightarrow> distinct (map fst (m_pendingFiles q'))) \<and>
     (distinct (map fst (m_recentlyEmitted q)) \<longrightarrow> distinct (map fst (m_recentlyEmitted q')))"

lemma process_file_cases:
  assumes "process_file t f q = (q', sigs)"
  shows "same_frame q q'"
    and "content_paths sigs = (if pf_path f \<in> changed [f] - delayed q \<and> pf_path f \<notin> fst ` set (m_recentlyEmitted q)
      then [pf_path f] else [])"
    and "delayed q' = (if content_paths sigs = [] then delayed q \<union> changed [f] else delayed q)"
proof -
  have k: "(map_of (m_pendingFiles q) p = None) = (p \<notin> delayed q)" for p
    by (simp add: map_of_None_keys delayed_def)
  show "same_frame q q'"
    using assms by (auto simp: process_file_def same_frame_def distinct_keys_update Let_def split: if_splits option.splits)
  have "content_paths sigs = (if pf_path f \<in> changed [f] - delayed q \<and> pf_path f \<notin> fst ` set (m_recentlyEmitted q)
      then [pf_path f] else []) \<and>
    delayed q' = (if content_paths sigs = [] then delayed q \<union> changed [f] else delayed q)"
  proof (cases "shouldIndexContents f")
    case False
    then show ?thesis
      using assms by (auto simp: process_file_def split: if_splits)
  next
    case contents: True
    show ?thesis
    proof (cases "map_of (m_pendingFiles q) (pf_path f)")
      case None
      have emitted: "content_path (if pf_created f then Sig_indexNewFile p else Sig_indexModifiedFile p) = Some p" for p
        by simp
      have "pf_path f \<notin> delayed q"
        using None k by blast
      show ?thesis
      proof (cases "pf_path f \<in> fst ` set (m_recentlyEmitted q)")
        case True
        with None contents assms
        have "q' = q\<lparr>m_pendingFiles := AList.update (pf_path f) (addMSecs t (m_minTimeout q)) (m_pendingFiles q)\<rparr>" "sigs = []"
          by (simp_all add: process_file_def shouldIndexXAttrOnly_def)
        then show ?thesis
          using True contents by (simp add: delayed_def keys_update)
      next
        case False
        with None contents assms
        have "q' = q\<lparr>m_recentlyEmitted := AList.update (pf_path f) t (m_recentlyEmitted q)\<rparr>"
          "sigs = [if pf_created f then Sig_indexNewFile (pf_path f) else Sig_indexModifiedFile (pf_path f)]"
          by (simp_all add: process_file_def shouldIndexXAttrOnly_def)
        then show ?thesis
          using False contents \<open>pf_path f \<notin> delayed q\<close> by (simp add: delayed_def emitted)
      qed
    next
      case (Some time)
      have "pf_path f \<in> delayed q"
        using Some k[of "pf_path f"] by simp
      obtain time' where
        "q' = q\<lparr>m_pendingFiles := AList.update (pf_path f) time' (m_pendingFiles q)\<rparr>" "sigs = []"
        using Some contents assms by (auto simp: process_file_def shouldIndexXAttrOnly_def Let_def)
      then show ?thesis
        using contents \<open>pf_path f \<in> delayed q\<close> by (simp add: delayed_def keys_update)
    qed
  qed
  then show "content_paths sigs = (if pf_path f \<in> changed [f] - delayed q \<and> pf_path f \<notin> fst ` set (m_recentlyEmitted q)
      then [pf_path f] else [])"
    and "delayed q' = (if content_paths sigs = [] then delayed q \<union> changed [f] else delayed q)"
    by blast+
qed

lemma same_frame_trans: "same_frame q q1 \<Longrightarrow> same_frame q1 q2 \<Longrightarrow> same_frame q q2"
  by (simp add: same_frame_def)

lemma process_files_spec:
  assumes "process_files t fs q = (q', sigs)" "distinct (map pf_path fs)"
  shows "same_frame q q' \<and> distinct (content_paths sigs) \<and> set (content_paths sigs) \<subseteq> changed fs - delayed q \<and>
    delayed q' = delayed q \<union> changed fs - set (content_paths sigs)"
  using assms
proof (induction fs arbitrary: q sigs)
  case Nil
  then show ?case by (simp add: same_frame_def)
next
  case (Cons f fs)
  obtain q1 sigs1 where one: "process_file t f q = (q1, sigs1)"
    by (cases "process_file t f q")
  obtain sigs2 where rest: "process_files t fs q1 = (q', sigs2)" and sigs: "sigs = sigs1 @ sigs2"
    using Cons.prems(1) by (auto simp: one split: prod.splits)
  note c = process_file_cases[OF one]
  have ih: "same_frame q1 q' \<and> distinct (content_paths sigs2) \<and> set (content_paths sigs2) \<subseteq> changed fs - delayed q1 \<and>
    delayed q' = delayed q1 \<union> changed fs - set (content_paths sigs2)"
    using Cons.IH[OF rest] Cons.prems(2) by simp
  have new: "pf_path f \<notin> changed fs"
    using Cons.prems(2) by (auto simp: changed_def)
  have all: "changed (f # fs) = changed [f] \<union> changed fs" "changed [f] \<subseteq> {pf_path f}"
    by simp_all
  have frame: "same_frame q q'"
    using same_frame_trans[OF c(1)] ih by blast
  show ?case
  proof (cases "content_paths sigs1 = []")
    case True
    then show ?thesis
      unfolding all(1) sigs using ih frame c(3) all(2) new by auto
  next
    case False
    then have "content_paths sigs1 = [pf_path f]" "pf_path f \<in> changed [f]" "pf_path f \<notin> delayed q"
      using c(2) by (auto simp del: changed_simps split: if_splits)
    moreover have "delayed q1 = delayed q"
      using False c(3) by simp
    ultimately show ?thesis
      unfolding all(1) sigs using ih frame all(2) new by auto
  qed
qed

lemma start_clear_timer [simp]:
  "m_recentlyEmitted (start_clear_timer q) = [] \<or> m_clearTimer (start_clear_timer q)"
  "m_cache (start_clear_timer q) = m_cache q" "m_pendingFiles (start_clear_timer q) = m_pendingFiles q"
  "m_recentlyEmitted (start_clear_timer q) = m_recentlyEmitted q"
  "m_cacheTimer (start_clear_timer q) = m_cacheTimer q" "m_pendingTimer (start_clear_timer q) = m_pendingTimer q"
  by (auto simp: start_clear_timer_def)

lemma processCache_spec:
  assumes "distinct (map pf_path (m_cache q))" "distinct (map fst (m_pendingFiles q))"
    and "distinct (map fst (m_recentlyEmitted q))" "processCache t q = (q', sigs)"
  shows "queue_inv q'" "spec_step (changes_of q) (CacheTimeout t, sigs) (changes_of q')"
proof -
  obtain q1 where one: "process_files t (m_cache q) q = (q1, sigs)"
    using assms(4) by (auto simp: processCache_def Let_def split: prod.splits)
  note p = process_files_spec[OF one assms(1)]
  obtain q3 where q3: "q' = start_clear_timer q3" "m_cache q3 = []" "m_pendingFiles q3 = m_pendingFiles q1"
    "m_recentlyEmitted q3 = m_recentlyEmitted q1" "m_pendingFiles q3 = [] \<or> m_pendingTimer q3"
  proof
    show "q' = start_clear_timer (if m_pendingFiles q1 \<noteq> [] \<and> \<not> m_pendingTimer q1
        then q1\<lparr>m_cache := [], m_pendingInterval := m_minTimeout q1, m_pendingTimer := True\<rparr> else q1\<lparr>m_cache := []\<rparr>)"
      using assms(4) by (auto simp: processCache_def one Let_def)
  qed auto
  have f: "m_cache q' = []" "m_pendingFiles q' = m_pendingFiles q1" "m_recentlyEmitted q' = m_recentlyEmitted q1"
    "m_pendingFiles q' \<noteq> [] \<longrightarrow> m_pendingTimer q'" "m_recentlyEmitted q' \<noteq> [] \<longrightarrow> m_clearTimer q'"
    using q3 start_clear_timer(1)[of q3] by auto
  show "queue_inv q'"
    using f p assms(2,3) by (simp add: queue_inv_def same_frame_def)
  have "changes_of q' = ({}, delayed q \<union> changed (m_cache q) - set (content_paths sigs))"
    using p f by (simp add: changes_of_def delayed_def)
  then show "spec_step (changes_of q) (CacheTimeout t, sigs) (changes_of q')"
    using spec_step.cache[of sigs "changed (m_cache q)" "delayed q"] p by (simp add: changes_of_def)
qed

lemma pending_loop_eq:
  "pending_loop t es recent n = (kept, recent', n', sigs) \<Longrightarrow>
   kept = filter (\<lambda>e. t < snd e) es \<and> content_paths sigs = map fst (filter (\<lambda>e. snd e \<le> t) es) \<and>
   (distinct (map fst recent) \<longrightarrow> distinct (map fst recent'))"
proof (induction es arbitrary: recent n kept recent' n' sigs)
  case (Cons e es)
  show ?case
  proof (cases "snd e \<le> t")
    case True
    then obtain k r m s where "pending_loop t es (AList.update (fst e) t recent) n = (k, r, m, s)"
      "kept = k" "recent' = r" "sigs = Sig_indexModifiedFile (fst e) # s"
      using Cons.prems by (auto simp: msecsTo_def split: prod.splits)
    then show ?thesis
      using Cons.IH True by (fastforce simp: distinct_keys_update)
  next
    case False
    then obtain k r m s where "pending_loop t es recent (min (msecsTo t (snd e)) n) = (k, r, m, s)"
      "kept = e # k" "recent' = r" "sigs = s"
      using Cons.prems by (auto simp: msecsTo_def split: prod.splits)
    then show ?thesis
      using Cons.IH False by fastforce
  qed
qed simp

lemma processPendingFiles_spec:
  assumes "queue_inv (q\<lparr>m_pendingTimer := True\<rparr>)" "processPendingFiles t q = (q', sigs)"
  shows "queue_inv q'" "spec_step (changes_of q) (PendingTimeout t, sigs) (changes_of q')"
proof -
  obtain kept recent n where one:
    "pending_loop t (m_pendingFiles q) (m_recentlyEmitted q) (m_maxTimeout q) = (kept, recent, n, sigs)"
    using assms(2) by (auto simp: processPendingFiles_def Let_def split: prod.splits)
  note p = pending_loop_eq[OF one]
  obtain q3 where q3: "q' = start_clear_timer q3" "m_cache q3 = m_cache q" "m_pendingFiles q3 = kept"
    "m_recentlyEmitted q3 = recent" "kept = [] \<or> m_pendingTimer q3" "m_cacheTimer q3 = m_cacheTimer q"
  proof
    show "q' = start_clear_timer (if kept \<noteq> []
        then q\<lparr>m_pendingFiles := kept, m_recentlyEmitted := recent, m_pendingInterval := n, m_pendingTimer := True\<rparr>
        else q\<lparr>m_pendingFiles := kept, m_recentlyEmitted := recent\<rparr>)"
      using assms(2) by (auto simp: processPendingFiles_def one Let_def)
  qed auto
  have f: "m_cache q' = m_cache q" "m_pendingFiles q' = kept" "m_recentlyEmitted q' = recent" "m_cacheTimer q' = m_cacheTimer q"
    "kept \<noteq> [] \<longrightarrow> m_pendingTimer q'" "recent \<noteq> [] \<longrightarrow> m_clearTimer q'"
    using q3 start_clear_timer(1)[of q3] by auto
  show "queue_inv q'"
    using f p assms(1) by (auto simp: queue_inv_def distinct_map_filter)
  have d: "distinct (content_paths sigs)"
    using p assms(1) by (simp add: queue_inv_def distinct_map_filter)
  have sub: "set (content_paths sigs) \<subseteq> delayed q"
    using p by (auto simp: delayed_def)
  have kept: "set kept = set (m_pendingFiles q) - {e \<in> set (m_pendingFiles q). snd e \<le> t}"
    using p by auto
  have "inj_on fst (set (m_pendingFiles q))"
    using assms(1) by (simp add: queue_inv_def distinct_map)
  then have "fst ` set kept = delayed q - fst ` {e \<in> set (m_pendingFiles q). snd e \<le> t}"
    unfolding kept delayed_def by (rule inj_on_image_set_diff) auto
  then have "delayed q' = delayed q - set (content_paths sigs)"
    using p f by (simp add: delayed_def)
  then show "spec_step (changes_of q) (PendingTimeout t, sigs) (changes_of q')"
    using spec_step.pending[OF d sub, of "changed (m_cache q)" t] f by (simp add: changes_of_def)
qed

lemma clear_loop_sub:
  "clear_loop k t es n = (kept, n') \<Longrightarrow> kept = filter (\<lambda>e. msecsTo (snd e) t < k) es"
  by (induction es arbitrary: n kept n') (auto simp: Let_def split: if_splits prod.splits)

lemma clearRecentlyEmitted_inv:
  assumes "queue_inv (q\<lparr>m_clearTimer := True\<rparr>)" "clearRecentlyEmitted t q = (q', sigs)"
  shows "queue_inv q' \<and> changes_of q' = changes_of q \<and> sigs = []"
proof -
  obtain kept n where one: "clear_loop (m_trackingTime q) t (m_recentlyEmitted q) (m_trackingTime q) = (kept, n)"
    by (cases "clear_loop (m_trackingTime q) t (m_recentlyEmitted q) (m_trackingTime q)")
  have "distinct (map fst kept)"
    using assms(1) clear_loop_sub[OF one] by (simp add: queue_inv_def distinct_map_filter)
  then show ?thesis
    using assms by (cases "kept = []") (auto simp: clearRecentlyEmitted_def one queue_inv_def changes_of_def delayed_def Let_def)
qed

section \<open>Every run is a run of the abstract machine\<close>

fun event_ok :: "queue_event \<Rightarrow> bool" where
  "event_ok (Enqueue f) = (shouldRemoveIndex f \<or> has_flag f)"
| "event_ok _ = True"

lemma queue_step_spec:
  assumes "queue_inv q" "event_ok e" "queue_step e q = (q', sigs)"
  shows "queue_inv q' \<and> spec_step (changes_of q) (e, sigs) (changes_of q')"
proof (cases e)
  case (Enqueue f)
  then show ?thesis
    using assms enqueue_inv[of q f] enqueue_spec[of q f] by simp
next
  case (CacheTimeout t)
  show ?thesis
  proof (cases "m_cacheTimer q")
    case True
    then show ?thesis
      using assms processCache_spec[of "q\<lparr>m_cacheTimer := False\<rparr>" t q' sigs]
      by (simp add: CacheTimeout queue_inv_def changes_of_def delayed_def)
  next
    case False
    then have "m_cache q = []" "q' = q" "sigs = []"
      using assms by (auto simp: CacheTimeout queue_inv_def)
    then show ?thesis
      using assms(1) spec_step.cache[of "[]" "{}" "delayed q" t] by (simp add: CacheTimeout changes_of_def)
  qed
next
  case (PendingTimeout t)
  show ?thesis
  proof (cases "m_pendingTimer q")
    case True
    then have "queue_inv (q\<lparr>m_pendingTimer := False, m_pendingTimer := True\<rparr>)"
      using assms(1) by (simp add: queue_inv_def)
    then show ?thesis
      using True assms processPendingFiles_spec[of "q\<lparr>m_pendingTimer := False\<rparr>" t q' sigs]
      by (simp add: PendingTimeout changes_of_def delayed_def)
  next
    case False
    then show ?thesis
      using assms spec_step.pending[of "[]" "delayed q" "changed (m_cache q)" t] by (simp add: PendingTimeout changes_of_def)
  qed
next
  case (ClearTimeout t)
  show ?thesis
  proof (cases "m_clearTimer q")
    case True
    then have "queue_inv (q\<lparr>m_clearTimer := False, m_clearTimer := True\<rparr>)"
      using assms(1) by (simp add: queue_inv_def)
    then show ?thesis
      using True assms clearRecentlyEmitted_inv[of "q\<lparr>m_clearTimer := False\<rparr>" t q' sigs] spec_step.clear
      by (simp add: ClearTimeout changes_of_def delayed_def)
  next
    case False
    then show ?thesis
      using assms spec_step.clear by (simp add: ClearTimeout changes_of_def)
  qed
qed

lemma queue_run_spec:
  "queue_run es q = (q', trace) \<Longrightarrow> queue_inv q \<Longrightarrow> list_all event_ok es \<Longrightarrow>
   queue_inv q' \<and> spec_steps (changes_of q) trace (changes_of q')"
proof (induction es arbitrary: q trace)
  case Nil
  then show ?case by (simp add: spec_steps.none)
next
  case (Cons e es)
  obtain q1 sigs where one: "queue_step e q = (q1, sigs)"
    by (cases "queue_step e q")
  obtain rest where "queue_run es q1 = (q', rest)" "trace = (e, sigs) # rest"
    using Cons.prems(1) by (auto simp: one split: prod.splits)
  moreover have "queue_inv q1 \<and> spec_step (changes_of q) (e, sigs) (changes_of q1)"
    using queue_step_spec[OF _ _ one] Cons.prems by simp
  ultimately show ?case
    using Cons.IH Cons.prems(3) by (auto intro: spec_steps.more)
qed

text \<open>While a change waits, the timer that leads to its signal runs.\<close>

lemma queue_inv_timers: "queue_inv q \<Longrightarrow> fst (changes_of q) \<noteq> {} \<Longrightarrow> m_cacheTimer q"
  "queue_inv q \<Longrightarrow> snd (changes_of q) \<noteq> {} \<Longrightarrow> m_pendingTimer q"
  by (auto simp: queue_inv_def changes_of_def delayed_def changed_def)

lemma qBound_in: "lo \<le> hi \<Longrightarrow> lo \<le> qBound lo v hi" "lo \<le> hi \<Longrightarrow> qBound lo v hi \<le> hi"
  by (simp_all add: qBound_def)

text \<open>A change is delayed by at least the minimal and at most the maximal timeout, up to midnight.\<close>

lemma delay_bounds:
  assumes "process_file t f q = (q', sigs)" "(pf_path f, time) \<in> set (m_pendingFiles q')" "m_pendingFiles q' \<noteq> m_pendingFiles q"
    and "distinct (map fst (m_pendingFiles q))" "m_minTimeout q \<le> m_maxTimeout q"
  shows "\<exists>ms. m_minTimeout q \<le> ms \<and> ms \<le> m_maxTimeout q \<and> time = addMSecs t ms"
proof -
  have "m_pendingFiles q' = AList.update (pf_path f) (addMSecs t (m_minTimeout q)) (m_pendingFiles q) \<or>
    (\<exists>v. m_pendingFiles q' =
      AList.update (pf_path f) (addMSecs t (qBound (m_minTimeout q) v (m_maxTimeout q))) (m_pendingFiles q))"
    using assms(1,3) by (auto simp: process_file_def Let_def split: if_splits option.splits)
  then obtain ms where ms: "m_minTimeout q \<le> ms" "ms \<le> m_maxTimeout q"
    "m_pendingFiles q' = AList.update (pf_path f) (addMSecs t ms) (m_pendingFiles q)"
    using assms(5) qBound_in[OF assms(5)] by auto
  have "distinct (map fst (m_pendingFiles q'))"
    using ms(3) assms(4) by (simp add: distinct_keys_update)
  then have "map_of (m_pendingFiles q') (pf_path f) = Some time"
    using assms(2) by simp
  then have "time = addMSecs t ms"
    using ms(3) by (simp add: update_conv')
  then show ?thesis
    using ms by blast
qed

section \<open>What the queue does not do\<close>

text \<open>
  A file signalled within the tracking time before midnight is never forgotten: no time of the day is
  \<open>tracking\<close> milliseconds after it. Its later changes are delayed as if it had just been signalled.
\<close>

lemma recent_before_midnight_stays:
  assumes "(p, time) \<in> set (m_recentlyEmitted q)" "86400000 \<le> time + m_trackingTime q" "t < 86400000"
  shows "(p, time) \<in> set (m_recentlyEmitted (fst (clearRecentlyEmitted t q)))"
proof -
  obtain kept n where one: "clear_loop (m_trackingTime q) t (m_recentlyEmitted q) (m_trackingTime q) = (kept, n)"
    by (cases "clear_loop (m_trackingTime q) t (m_recentlyEmitted q) (m_trackingTime q)")
  have "(p, time) \<in> set kept"
    using assms clear_loop_sub[OF one] by (simp add: msecsTo_def)
  then show ?thesis
    by (auto simp: clearRecentlyEmitted_def one Let_def)
qed

text \<open>The removal of a directory leaves the delayed files below it that are not fresh as well.\<close>

lemma delayed_below_removed_directory:
  "delayed (fst (enqueue (PendingFile_new (qs ''/d/'')\<lparr>pf_deleted := True\<rparr>)
     (PendingFileQueue_new\<lparr>m_pendingFiles := [(qs ''/d/f'', 5000)], m_pendingTimer := True\<rparr>))) = {qs ''/d/f''}"
  by (simp add: delayed_def enqueue_def drop_below_def shouldRemoveIndex_def PendingFile_new_def PendingFileQueue_new_def qs_def Let_def)

end
