(* ===== verification/Scheduler.thy ===== *)
theory Scheduler
  imports Prelude
begin

text \<open>
  \<open>fileindexscheduler.cpp\<close>: the state machine that decides which indexing job runs next. The thread pool
  (one thread) is the list \<open>s_pool\<close> of runnables that were started and are not done, \<open>s_timers\<close> counts
  the pending \<open>QTimer::singleShot(0, scheduleIndexing)\<close>, \<open>s_remaining\<close> is what \<open>m_provider.size()\<close>
  returns, which the jobs change. Each slot gives the signals and jobs it puts out.
\<close>

datatype IndexerState =
  Idle | Suspended | FirstRun | NewFiles | ModifiedFiles | XAttrFiles | ContentIndexing | UnindexedFileCheck |
  StaleIndexEntriesClean | LowPowerIdle | Unavailable | Startup

fun stateString :: "IndexerState \<Rightarrow> string" where
  "stateString Idle = ''Idle''"
| "stateString Suspended = ''Suspended''"
| "stateString FirstRun = ''Initial Indexing''"
| "stateString NewFiles = ''Indexing new files''"
| "stateString ModifiedFiles = ''Indexing modified files''"
| "stateString XAttrFiles = ''Indexing Extended Attributes''"
| "stateString ContentIndexing = ''Indexing file content''"
| "stateString UnindexedFileCheck = ''Checking for unindexed files''"
| "stateString StaleIndexEntriesClean = ''Checking for stale index entries''"
| "stateString LowPowerIdle = ''Idle (Powersave)''"
| "stateString Unavailable = ''Not Running''"
| "stateString Startup = ''Starting''"

text \<open>The runnables, with the files they are given.\<close>

datatype runnable =
    FirstRunIndexer
  | NewFileIndexer "QString list"
  | ModifiedFileIndexer "QString list"
  | XAttrIndexer "QString list"
  | IndexCleaner
  | FileContentIndexer
  | UnindexedFileIndexer

datatype sched_out = StateChanged IndexerState | Start runnable | QuitContentIndexer

record FileIndexScheduler =
  s_newFiles :: "QString list"
  s_modifiedFiles :: "QString list"
  s_xattrFiles :: "QString list"
  s_pool :: "runnable list"
  s_timers :: nat
  s_remaining :: nat
  s_onBattery :: bool
  s_indexerState :: IndexerState
  s_checkUnindexedFiles :: bool
  s_checkStaleIndexEntries :: bool
  s_isGoingIdle :: bool
  s_isSuspended :: bool
  s_isFirstRun :: bool
  s_inStartup :: bool

definition FileIndexScheduler_new :: "bool \<Rightarrow> nat \<Rightarrow> FileIndexScheduler \<times> sched_out list" where
  "FileIndexScheduler_new firstRun remaining =
     (\<lparr>s_newFiles = [], s_modifiedFiles = [], s_xattrFiles = [], s_pool = [], s_timers = 0, s_remaining = remaining,
       s_onBattery = True, s_indexerState = Startup, s_checkUnindexedFiles = True, s_checkStaleIndexEntries = True,
       s_isGoingIdle = False, s_isSuspended = False, s_isFirstRun = firstRun, s_inStartup = True\<rparr>,
      [StateChanged Startup])"

definition isIndexerIdle :: "FileIndexScheduler \<Rightarrow> bool" where
  "isIndexerIdle s \<longleftrightarrow> s_isGoingIdle s \<or> s_indexerState s = Suspended \<or> s_indexerState s = Startup \<or>
     s_indexerState s = Idle \<or> s_indexerState s = LowPowerIdle"

definition singleShot :: "FileIndexScheduler \<Rightarrow> FileIndexScheduler" where
  "singleShot s = s\<lparr>s_timers := s_timers s + 1\<rparr>"

section \<open>scheduleIndexing\<close>

definition start_job :: "runnable \<Rightarrow> IndexerState \<Rightarrow> FileIndexScheduler \<Rightarrow> FileIndexScheduler \<times> sched_out list" where
  "start_job r st s = (s\<lparr>s_pool := s_pool s @ [r], s_indexerState := st\<rparr>, [Start r, StateChanged st])"

definition set_state :: "IndexerState \<Rightarrow> FileIndexScheduler \<Rightarrow> FileIndexScheduler \<times> sched_out list" where
  "set_state st s = (if s_indexerState s \<noteq> st then (s\<lparr>s_indexerState := st\<rparr>, [StateChanged st]) else (s, []))"

definition scheduleIndexing :: "FileIndexScheduler \<Rightarrow> FileIndexScheduler \<times> sched_out list" where
  "scheduleIndexing s0 =
     (if \<not> isIndexerIdle s0 then (s0, [])
      else
        let s = s0\<lparr>s_isGoingIdle := False\<rparr>
        in if s_isSuspended s then set_state Suspended s
           else if s_isFirstRun s then
             (if s_inStartup s then (s, [])
              else start_job FirstRunIndexer FirstRun
                (s\<lparr>s_isFirstRun := False, s_checkStaleIndexEntries := False, s_checkUnindexedFiles := False\<rparr>))
           else if s_newFiles s \<noteq> [] then start_job (NewFileIndexer (s_newFiles s)) NewFiles (s\<lparr>s_newFiles := []\<rparr>)
           else if s_modifiedFiles s \<noteq> [] then
             start_job (ModifiedFileIndexer (s_modifiedFiles s)) ModifiedFiles (s\<lparr>s_modifiedFiles := []\<rparr>)
           else if s_xattrFiles s \<noteq> [] then start_job (XAttrIndexer (s_xattrFiles s)) XAttrFiles (s\<lparr>s_xattrFiles := []\<rparr>)
           else if s_inStartup s then set_state Startup s
           else if s_onBattery s then set_state LowPowerIdle s
           else if s_checkStaleIndexEntries s then
             start_job IndexCleaner StaleIndexEntriesClean (s\<lparr>s_checkStaleIndexEntries := False\<rparr>)
           else if 0 < s_remaining s then start_job FileContentIndexer ContentIndexing s
           else if s_checkUnindexedFiles s then
             start_job UnindexedFileIndexer UnindexedFileCheck (s\<lparr>s_checkUnindexedFiles := False\<rparr>)
           else set_state Idle s)"

section \<open>Slots\<close>

definition indexNewFile :: "QString \<Rightarrow> FileIndexScheduler \<Rightarrow> FileIndexScheduler" where
  "indexNewFile f s =
     (if f \<notin> set (s_newFiles s) then
        let s = s\<lparr>s_newFiles := s_newFiles s @ [f]\<rparr> in if isIndexerIdle s then singleShot s else s
      else s)"

definition indexModifiedFile :: "QString \<Rightarrow> FileIndexScheduler \<Rightarrow> FileIndexScheduler" where
  "indexModifiedFile f s =
     (if f \<notin> set (s_modifiedFiles s) then
        let s = s\<lparr>s_modifiedFiles := s_modifiedFiles s @ [f]\<rparr> in if isIndexerIdle s then singleShot s else s
      else s)"

definition indexXAttrFile :: "QString \<Rightarrow> FileIndexScheduler \<Rightarrow> FileIndexScheduler" where
  "indexXAttrFile f s =
     (if f \<notin> set (s_xattrFiles s) then
        let s = s\<lparr>s_xattrFiles := s_xattrFiles s @ [f]\<rparr> in if isIndexerIdle s then singleShot s else s
      else s)"

definition runnerFinished :: "FileIndexScheduler \<Rightarrow> FileIndexScheduler" where
  "runnerFinished s = singleShot (s\<lparr>s_isGoingIdle := True\<rparr>)"

definition startupFinished :: "FileIndexScheduler \<Rightarrow> FileIndexScheduler" where
  "startupFinished s = singleShot (s\<lparr>s_inStartup := False\<rparr>)"

definition removeStartsWith :: "QString \<Rightarrow> QString list \<Rightarrow> QString list" where
  "removeStartsWith dir fs = filter (\<lambda>f. \<not> prefix dir f) fs"

definition removeShouldNotIndex :: "(QString \<Rightarrow> bool) \<Rightarrow> QString list \<Rightarrow> QString list" where
  "removeShouldNotIndex shouldBeIndexed fs = filter shouldBeIndexed fs"

definition updateConfig :: "(QString \<Rightarrow> bool) \<Rightarrow> FileIndexScheduler \<Rightarrow> FileIndexScheduler \<times> sched_out list" where
  "updateConfig shouldBeIndexed s =
     (let quit = (if s_indexerState s = ContentIndexing then [QuitContentIndexer] else []);
          s = s\<lparr>s_newFiles := removeShouldNotIndex shouldBeIndexed (s_newFiles s),
                s_modifiedFiles := removeShouldNotIndex shouldBeIndexed (s_modifiedFiles s),
                s_xattrFiles := removeShouldNotIndex shouldBeIndexed (s_xattrFiles s),
                s_checkStaleIndexEntries := True, s_checkUnindexedFiles := True\<rparr>
      in case scheduleIndexing s of (s', out) \<Rightarrow> (s', quit @ out))"

definition handleFileRemoved :: "QString \<Rightarrow> FileIndexScheduler \<Rightarrow> FileIndexScheduler" where
  "handleFileRemoved f s =
     (if \<not> suffix [47] f then
        s\<lparr>s_newFiles := remove1 f (s_newFiles s), s_modifiedFiles := remove1 f (s_modifiedFiles s),
          s_xattrFiles := remove1 f (s_xattrFiles s)\<rparr>
      else
        s\<lparr>s_newFiles := removeStartsWith f (s_newFiles s), s_modifiedFiles := removeStartsWith f (s_modifiedFiles s),
          s_xattrFiles := removeStartsWith f (s_xattrFiles s)\<rparr>)"

definition powerManagementStatusChanged :: "bool \<Rightarrow> FileIndexScheduler \<Rightarrow> FileIndexScheduler \<times> sched_out list" where
  "powerManagementStatusChanged isOnBattery s =
     (if isOnBattery \<and> s_indexerState s = ContentIndexing then (s, [QuitContentIndexer]) else scheduleIndexing s)"

text \<open>\<open>PowerStateMonitor\<close> stores the new status before it signals a change.\<close>

definition slotPowerManagementStatusChanged ::
  "bool \<Rightarrow> FileIndexScheduler \<Rightarrow> FileIndexScheduler \<times> sched_out list" where
  "slotPowerManagementStatusChanged conserveResources s =
     (if s_onBattery s \<noteq> conserveResources then
        powerManagementStatusChanged conserveResources (s\<lparr>s_onBattery := conserveResources\<rparr>)
      else (s, []))"

definition setSuspend :: "bool \<Rightarrow> FileIndexScheduler \<Rightarrow> FileIndexScheduler \<times> sched_out list" where
  "setSuspend suspend s0 =
     (let s = s0\<lparr>s_isSuspended := suspend\<rparr>
      in if suspend then
           (if s_indexerState s = ContentIndexing then (s, [QuitContentIndexer]) else scheduleIndexing s)
         else scheduleIndexing s)"

definition checkUnindexedFiles :: "FileIndexScheduler \<Rightarrow> FileIndexScheduler \<times> sched_out list" where
  "checkUnindexedFiles s = scheduleIndexing (s\<lparr>s_checkUnindexedFiles := True\<rparr>)"

definition checkStaleIndexEntries :: "FileIndexScheduler \<Rightarrow> FileIndexScheduler \<times> sched_out list" where
  "checkStaleIndexEntries s = scheduleIndexing (s\<lparr>s_checkStaleIndexEntries := True\<rparr>)"

section \<open>Events\<close>

text \<open>
  What the event loop can call. A job can only finish when one runs, and leaves \<open>n\<close> files for content
  indexing; a single shot can only fire when one is pending.
\<close>

datatype sched_event =
    IndexNewFile QString
  | IndexModifiedFile QString
  | IndexXAttrFile QString
  | RunnerFinished nat
  | TimerFired
  | StartupFinished
  | FileRemoved QString
  | ConfigUpdated "QString \<Rightarrow> bool"
  | PowerStatus bool
  | SetSuspended bool
  | CheckUnindexedFiles
  | CheckStaleIndexEntries

fun sched_step :: "sched_event \<Rightarrow> FileIndexScheduler \<Rightarrow> FileIndexScheduler \<times> sched_out list" where
  "sched_step (IndexNewFile f) s = (indexNewFile f s, [])"
| "sched_step (IndexModifiedFile f) s = (indexModifiedFile f s, [])"
| "sched_step (IndexXAttrFile f) s = (indexXAttrFile f s, [])"
| "sched_step (RunnerFinished n) s =
     (if s_pool s \<noteq> [] then (runnerFinished (s\<lparr>s_pool := tl (s_pool s), s_remaining := n\<rparr>), []) else (s, []))"
| "sched_step TimerFired s = (if 0 < s_timers s then scheduleIndexing (s\<lparr>s_timers := s_timers s - 1\<rparr>) else (s, []))"
| "sched_step StartupFinished s = (startupFinished s, [])"
| "sched_step (FileRemoved f) s = (handleFileRemoved f s, [])"
| "sched_step (ConfigUpdated shouldBeIndexed) s = updateConfig shouldBeIndexed s"
| "sched_step (PowerStatus b) s = slotPowerManagementStatusChanged b s"
| "sched_step (SetSuspended b) s = setSuspend b s"
| "sched_step CheckUnindexedFiles s = checkUnindexedFiles s"
| "sched_step CheckStaleIndexEntries s = checkStaleIndexEntries s"

primrec sched_run :: "sched_event list \<Rightarrow> FileIndexScheduler \<Rightarrow> FileIndexScheduler \<times> (sched_event \<times> sched_out list) list" where
  "sched_run [] s = (s, [])"
| "sched_run (e # es) s =
     (case sched_step e s of (s1, out) \<Rightarrow> case sched_run es s1 of (s2, trace) \<Rightarrow> (s2, (e, out) # trace))"

section \<open>The invariant\<close>

fun job_state :: "runnable \<Rightarrow> IndexerState" where
  "job_state FirstRunIndexer = FirstRun"
| "job_state (NewFileIndexer _) = NewFiles"
| "job_state (ModifiedFileIndexer _) = ModifiedFiles"
| "job_state (XAttrIndexer _) = XAttrFiles"
| "job_state IndexCleaner = StaleIndexEntriesClean"
| "job_state FileContentIndexer = ContentIndexing"
| "job_state UnindexedFileIndexer = UnindexedFileCheck"

text \<open>
  One job runs at most, and the state is that of the job; the scheduler counts as idle exactly when no job
  runs; and no wake-up is lost: without a pending timer, an idle scheduler has nothing to do.
\<close>

definition pool_inv :: "FileIndexScheduler \<Rightarrow> bool" where
  "pool_inv s \<longleftrightarrow> (case s_pool s of [] \<Rightarrow> isIndexerIdle s
     | [r] \<Rightarrow> \<not> s_isGoingIdle s \<and> s_indexerState s = job_state r
     | _ \<Rightarrow> False)"

definition settled :: "FileIndexScheduler \<Rightarrow> bool" where
  "settled s \<longleftrightarrow> isIndexerIdle s \<and> s_timers s = 0 \<longrightarrow> scheduleIndexing s = (s, [])"

definition lists_inv :: "FileIndexScheduler \<Rightarrow> bool" where
  "lists_inv s \<longleftrightarrow> distinct (s_newFiles s) \<and> distinct (s_modifiedFiles s) \<and> distinct (s_xattrFiles s)"

text \<open>Until the first run has started, nothing has run.\<close>

definition first_inv :: "FileIndexScheduler \<Rightarrow> bool" where
  "first_inv s \<longleftrightarrow> (s_isFirstRun s \<longrightarrow> s_indexerState s \<in> {Startup, Suspended} \<and> \<not> s_isGoingIdle s)"

definition sched_inv :: "FileIndexScheduler \<Rightarrow> bool" where
  "sched_inv s \<longleftrightarrow> pool_inv s \<and> first_inv s \<and> (s_isGoingIdle s \<longrightarrow> 0 < s_timers s) \<and> settled s \<and> lists_inv s"

lemma job_not_idle: "job_state r \<noteq> Suspended" "job_state r \<noteq> Startup" "job_state r \<noteq> Idle" "job_state r \<noteq> LowPowerIdle"
  by (cases r; simp)+

lemma isIndexerIdle_pool: "pool_inv s \<Longrightarrow> isIndexerIdle s \<longleftrightarrow> s_pool s = []"
  by (auto simp: pool_inv_def isIndexerIdle_def job_not_idle split: list.splits)

section \<open>The decision\<close>

text \<open>What \<open>scheduleIndexing\<close> decides depends neither on the state it is in nor on \<open>m_isGoingIdle\<close>.\<close>

datatype decision = Stay | RestIn IndexerState | Run runnable

definition decide :: "FileIndexScheduler \<Rightarrow> decision" where
  "decide s =
     (if s_isSuspended s then RestIn Suspended
      else if s_isFirstRun s then (if s_inStartup s then Stay else Run FirstRunIndexer)
      else if s_newFiles s \<noteq> [] then Run (NewFileIndexer (s_newFiles s))
      else if s_modifiedFiles s \<noteq> [] then Run (ModifiedFileIndexer (s_modifiedFiles s))
      else if s_xattrFiles s \<noteq> [] then Run (XAttrIndexer (s_xattrFiles s))
      else if s_inStartup s then RestIn Startup
      else if s_onBattery s then RestIn LowPowerIdle
      else if s_checkStaleIndexEntries s then Run IndexCleaner
      else if 0 < s_remaining s then Run FileContentIndexer
      else if s_checkUnindexedFiles s then Run UnindexedFileIndexer
      else RestIn Idle)"

text \<open>What a job takes over when it starts.\<close>

fun taken :: "runnable \<Rightarrow> FileIndexScheduler \<Rightarrow> FileIndexScheduler" where
  "taken FirstRunIndexer s = s\<lparr>s_isFirstRun := False, s_checkStaleIndexEntries := False, s_checkUnindexedFiles := False\<rparr>"
| "taken (NewFileIndexer _) s = s\<lparr>s_newFiles := []\<rparr>"
| "taken (ModifiedFileIndexer _) s = s\<lparr>s_modifiedFiles := []\<rparr>"
| "taken (XAttrIndexer _) s = s\<lparr>s_xattrFiles := []\<rparr>"
| "taken IndexCleaner s = s\<lparr>s_checkStaleIndexEntries := False\<rparr>"
| "taken FileContentIndexer s = s"
| "taken UnindexedFileIndexer s = s\<lparr>s_checkUnindexedFiles := False\<rparr>"

lemma taken_simps [simp]:
  "s_pool (taken r s) = s_pool s" "s_timers (taken r s) = s_timers s" "s_isGoingIdle (taken r s) = s_isGoingIdle s"
  by (cases r; simp)+

lemma decide_state [simp]: "decide (s\<lparr>s_isGoingIdle := b\<rparr>) = decide s" "decide (s\<lparr>s_indexerState := st\<rparr>) = decide s"
  by (simp_all add: decide_def)

lemma scheduleIndexing_decide:
  "scheduleIndexing s =
     (if \<not> isIndexerIdle s then (s, [])
      else case decide s of
             Stay \<Rightarrow> (s\<lparr>s_isGoingIdle := False\<rparr>, [])
           | RestIn st \<Rightarrow> set_state st (s\<lparr>s_isGoingIdle := False\<rparr>)
           | Run r \<Rightarrow> start_job r (job_state r) (taken r (s\<lparr>s_isGoingIdle := False\<rparr>)))"
  by (simp add: scheduleIndexing_def decide_def Let_def)

lemma set_state_eq:
  "set_state st s = (s\<lparr>s_indexerState := st\<rparr>, if s_indexerState s = st then [] else [StateChanged st])"
  by (cases s) (simp add: set_state_def)

lemma decide_RestIn: "decide s = RestIn st \<Longrightarrow> st \<in> {Suspended, Startup, LowPowerIdle, Idle}"
  by (auto simp: decide_def split: if_splits)

text \<open>Once it has run, it has nothing to do until something else happens.\<close>

lemma scheduleIndexing_idem: "scheduleIndexing s = (s', out) \<Longrightarrow> scheduleIndexing s' = (s', [])"
proof (cases "isIndexerIdle s")
  case True
  assume run: "scheduleIndexing s = (s', out)"
  show ?thesis
  proof (cases "decide s")
    case Stay
    then have "s' = s\<lparr>s_isGoingIdle := False\<rparr>"
      using run True by (simp add: scheduleIndexing_decide)
    then show ?thesis
      using Stay by (simp add: scheduleIndexing_decide)
  next
    case (RestIn st)
    then have s': "s' = s\<lparr>s_isGoingIdle := False, s_indexerState := st\<rparr>"
      using run True by (simp add: scheduleIndexing_decide set_state_eq)
    then show ?thesis
      using RestIn by (simp add: scheduleIndexing_decide set_state_eq)
  next
    case (Run r)
    then have "s' = taken r (s\<lparr>s_isGoingIdle := False\<rparr>)\<lparr>s_pool := s_pool s @ [r], s_indexerState := job_state r\<rparr>"
      using run True by (simp add: scheduleIndexing_decide start_job_def)
    then have "\<not> isIndexerIdle s'"
      by (simp add: isIndexerIdle_def job_not_idle)
    then show ?thesis
      by (simp add: scheduleIndexing_decide)
  qed
qed (simp add: scheduleIndexing_decide)

section \<open>Every slot keeps the invariant\<close>

lemma pool_inv_rest:
  assumes "pool_inv s" "isIndexerIdle s" "isIndexerIdle s'" "s_pool s' = s_pool s"
  shows "pool_inv s'"
  using assms isIndexerIdle_pool[OF assms(1)] by (simp add: pool_inv_def)

lemma decide_first:
  "s_isFirstRun s \<Longrightarrow> decide s = RestIn st \<Longrightarrow> st = Suspended" "s_isFirstRun s \<Longrightarrow> decide s = Run r \<Longrightarrow> r = FirstRunIndexer"
  "decide s = Stay \<Longrightarrow> s_isFirstRun s"
  by (auto simp: decide_def split: if_splits)

lemma scheduleIndexing_pool:
  assumes "pool_inv s" "first_inv s" "scheduleIndexing s = (s', out)"
  shows "pool_inv s' \<and> first_inv s' \<and> \<not> s_isGoingIdle s' \<and> s_timers s' = s_timers s"
proof (cases "isIndexerIdle s")
  case idle: True
  show ?thesis
  proof (cases "decide s")
    case Stay
    then have "s' = s\<lparr>s_isGoingIdle := False\<rparr>" "s_isFirstRun s"
      using assms(3) idle decide_first by (simp_all add: scheduleIndexing_decide)
    then show ?thesis
      using assms(1,2) idle by (auto simp: first_inv_def isIndexerIdle_def intro: pool_inv_rest)
  next
    case (RestIn st)
    then have s': "s' = s\<lparr>s_isGoingIdle := False, s_indexerState := st\<rparr>"
      using assms(3) idle by (simp add: scheduleIndexing_decide set_state_eq)
    have "isIndexerIdle s'"
      using decide_RestIn[OF RestIn] by (auto simp: s' isIndexerIdle_def)
    then show ?thesis
      using assms(1,2) idle decide_first(1)[OF _ RestIn] by (auto simp: s' first_inv_def intro: pool_inv_rest)
  next
    case (Run r)
    then have s': "s' = taken r (s\<lparr>s_isGoingIdle := False\<rparr>)\<lparr>s_pool := s_pool s @ [r], s_indexerState := job_state r\<rparr>"
      using assms(3) idle by (simp add: scheduleIndexing_decide start_job_def)
    moreover have "s_pool s = []"
      using assms(1) idle isIndexerIdle_pool by blast
    moreover have "\<not> s_isFirstRun s'"
      using decide_first(2)[OF _ Run] by (cases r) (auto simp: s')
    ultimately show ?thesis
      by (simp add: pool_inv_def first_inv_def)
  qed
next
  case False
  then show ?thesis
    using assms by (auto simp: scheduleIndexing_decide isIndexerIdle_def)
qed

lemma scheduleIndexing_lists: "lists_inv s \<Longrightarrow> scheduleIndexing s = (s', out) \<Longrightarrow> lists_inv s'"
  by (auto simp: scheduleIndexing_def lists_inv_def start_job_def set_state_def Let_def split: if_splits)

text \<open>A slot that ends with \<open>scheduleIndexing\<close> leaves the scheduler settled, whatever it did before.\<close>

lemma scheduleIndexing_inv:
  assumes "pool_inv s" "first_inv s" "lists_inv s" "scheduleIndexing s = (s', out)"
  shows "sched_inv s'"
  using scheduleIndexing_pool[OF assms(1,2,4)] scheduleIndexing_lists[OF assms(3,4)] scheduleIndexing_idem[OF assms(4)]
  by (auto simp: sched_inv_def settled_def)

text \<open>A slot that leaves a pending timer may leave work.\<close>

lemma timer_inv: "pool_inv s \<Longrightarrow> first_inv s \<Longrightarrow> lists_inv s \<Longrightarrow> 0 < s_timers s \<Longrightarrow> sched_inv s"
  by (simp add: sched_inv_def settled_def)

lemma busy_inv: "pool_inv s \<Longrightarrow> first_inv s \<Longrightarrow> lists_inv s \<Longrightarrow> \<not> isIndexerIdle s \<Longrightarrow> sched_inv s"
  by (auto simp: sched_inv_def settled_def isIndexerIdle_def)

text \<open>What neither the pool nor the first run depend on.\<close>

lemma pool_inv_frame:
  "pool_inv s \<Longrightarrow> s_pool s' = s_pool s \<Longrightarrow> s_indexerState s' = s_indexerState s \<Longrightarrow> s_isGoingIdle s' = s_isGoingIdle s \<Longrightarrow>
   pool_inv s' \<and> isIndexerIdle s' = isIndexerIdle s"
  by (auto simp: pool_inv_def isIndexerIdle_def split: list.splits)

lemma first_inv_frame:
  "first_inv s \<Longrightarrow> s_isFirstRun s' = s_isFirstRun s \<Longrightarrow> s_indexerState s' = s_indexerState s \<Longrightarrow>
   s_isGoingIdle s' = s_isGoingIdle s \<Longrightarrow> first_inv s'"
  by (simp add: first_inv_def)

text \<open>The slots that change what is to be done and then wake up an idle scheduler.\<close>

definition frames :: "FileIndexScheduler \<Rightarrow> FileIndexScheduler \<Rightarrow> bool" where
  "frames s s1 \<longleftrightarrow> s_pool s1 = s_pool s \<and> s_indexerState s1 = s_indexerState s \<and> s_isGoingIdle s1 = s_isGoingIdle s \<and>
     s_isFirstRun s1 = s_isFirstRun s \<and> lists_inv s1"

lemma frames_inv:
  assumes "sched_inv s" "frames s s1"
  shows "isIndexerIdle s1 = isIndexerIdle s" "pool_inv s1" "first_inv s1" "lists_inv s1"
  using assms pool_inv_frame[of s s1] first_inv_frame[of s s1] by (auto simp: sched_inv_def frames_def)

lemma schedule_inv: "sched_inv s \<Longrightarrow> frames s s1 \<Longrightarrow> scheduleIndexing s1 = (s', out) \<Longrightarrow> sched_inv s'"
  using frames_inv scheduleIndexing_inv by blast

lemma wake_inv: "sched_inv s \<Longrightarrow> frames s s1 \<Longrightarrow> 0 < s_timers s1 \<or> \<not> isIndexerIdle s1 \<Longrightarrow> sched_inv s1"
  using frames_inv timer_inv busy_inv by metis

lemma add_file_inv:
  assumes "sched_inv s" "frames s s1"
  shows "sched_inv (if isIndexerIdle s1 then singleShot s1 else s1)"
proof (cases "isIndexerIdle s1")
  case True
  have "frames s (singleShot s1)"
    using assms(2) by (simp add: frames_def lists_inv_def singleShot_def)
  then have "sched_inv (singleShot s1)"
    using wake_inv[OF assms(1), of "singleShot s1"] by (simp add: singleShot_def)
  then show ?thesis
    using True by simp
next
  case False
  then show ?thesis
    using wake_inv[OF assms] by simp
qed

text \<open>A slot that asks the content indexer to stop leaves the rest to its end.\<close>

lemma quit_inv:
  assumes "sched_inv s" "frames s s1" "s_timers s1 = s_timers s" "s_indexerState s = ContentIndexing"
  shows "sched_inv s1"
proof (rule wake_inv[OF assms(1,2)])
  show "0 < s_timers s1 \<or> \<not> isIndexerIdle s1"
    using assms by (auto simp: sched_inv_def frames_def isIndexerIdle_def)
qed

text \<open>Files that are dropped from the lists make no work.\<close>

lemma decide_no_files:
  assumes "\<And>r. decide s \<noteq> Run r"
  shows "s_isSuspended s \<or> \<not> s_isSuspended s \<and> s_isFirstRun s \<and> s_inStartup s \<or>
    s_newFiles s = [] \<and> s_modifiedFiles s = [] \<and> s_xattrFiles s = []"
proof (rule ccontr)
  assume "\<not> ?thesis"
  then have "\<exists>r. decide s = Run r"
    by (cases "s_isFirstRun s"; cases "s_inStartup s"; cases "s_newFiles s = []"; cases "s_modifiedFiles s = []")
      (simp_all add: decide_def)
  with assms show False
    by blast
qed

lemma drop_files_inv:
  assumes "sched_inv s" "s1 = s\<lparr>s_newFiles := ns, s_modifiedFiles := ms, s_xattrFiles := xs\<rparr>" "lists_inv s1"
    and "set ns \<subseteq> set (s_newFiles s)" "set ms \<subseteq> set (s_modifiedFiles s)" "set xs \<subseteq> set (s_xattrFiles s)"
  shows "sched_inv s1"
proof (cases "0 < s_timers s1 \<or> \<not> isIndexerIdle s1")
  case True
  then show ?thesis
    using wake_inv[OF assms(1), of s1] assms(2,3) by (simp add: frames_def)
next
  case False
  have fr: "frames s s1"
    using assms(2,3) by (simp add: frames_def)
  have idle: "isIndexerIdle s" and timers: "s_timers s = 0"
    using False frames_inv(1)[OF assms(1) fr] assms(2) by simp_all
  have same: "scheduleIndexing s = (s, [])"
    using assms(1) idle timers by (simp add: sched_inv_def settled_def)
  have going: "\<not> s_isGoingIdle s"
    using assms(1) timers by (auto simp: sched_inv_def)
  have "decide s \<noteq> Run r" for r
    using same idle by (auto simp: scheduleIndexing_decide start_job_def)
  from decide_no_files[OF this] have "decide s1 = decide s"
    using assms(4-6) unfolding assms(2) by (elim disjE) (simp_all add: decide_def)
  moreover have "scheduleIndexing s1 = (s1, [])" if "decide s1 = decide s"
  proof (cases "decide s")
    case Stay
    then show ?thesis
      using that going by (simp add: scheduleIndexing_decide assms(2))
  next
    case (RestIn st)
    then have "s_indexerState s = st"
      using same idle by (auto simp: scheduleIndexing_decide set_state_eq split: if_splits)
    then show ?thesis
      using that going RestIn by (simp add: scheduleIndexing_decide assms(2) set_state_def)
  qed (use \<open>\<And>r. decide s \<noteq> Run r\<close> in blast)
  ultimately have "settled s1"
    by (simp add: settled_def)
  then show ?thesis
    using frames_inv[OF assms(1) fr] going assms(2) by (simp add: sched_inv_def)
qed

lemma sched_step_inv:
  assumes inv_s: "sched_inv s" and step: "sched_step e s = (s', out)"
  shows "sched_inv s'"
proof -
  have L: "distinct (s_newFiles s)" "distinct (s_modifiedFiles s)" "distinct (s_xattrFiles s)"
    using inv_s by (auto simp: sched_inv_def lists_inv_def)
  show ?thesis
  proof (cases e)
    case (IndexNewFile f)
    let ?s1 = "s\<lparr>s_newFiles := s_newFiles s @ [f]\<rparr>"
    have "f \<notin> set (s_newFiles s) \<Longrightarrow> frames s ?s1"
      using L by (simp add: frames_def lists_inv_def)
    then show ?thesis
      using step inv_s add_file_inv[OF inv_s, of ?s1] by (simp add: IndexNewFile indexNewFile_def Let_def split: if_splits)
  next
    case (IndexModifiedFile f)
    let ?s1 = "s\<lparr>s_modifiedFiles := s_modifiedFiles s @ [f]\<rparr>"
    have "f \<notin> set (s_modifiedFiles s) \<Longrightarrow> frames s ?s1"
      using L by (simp add: frames_def lists_inv_def)
    then show ?thesis
      using step inv_s add_file_inv[OF inv_s, of ?s1] by (simp add: IndexModifiedFile indexModifiedFile_def Let_def split: if_splits)
  next
    case (IndexXAttrFile f)
    let ?s1 = "s\<lparr>s_xattrFiles := s_xattrFiles s @ [f]\<rparr>"
    have "f \<notin> set (s_xattrFiles s) \<Longrightarrow> frames s ?s1"
      using L by (simp add: frames_def lists_inv_def)
    then show ?thesis
      using step inv_s add_file_inv[OF inv_s, of ?s1] by (simp add: IndexXAttrFile indexXAttrFile_def Let_def split: if_splits)
  next
    case (RunnerFinished n)
    show ?thesis
    proof (cases "s_pool s")
      case Nil
      then show ?thesis
        using step inv_s by (simp add: RunnerFinished)
    next
      case (Cons r rs)
      have rs: "rs = []" "s_indexerState s = job_state r"
        using inv_s Cons by (auto simp: sched_inv_def pool_inv_def split: list.splits)
      have s': "s' = runnerFinished (s\<lparr>s_pool := rs, s_remaining := n\<rparr>)"
        using step by (simp add: RunnerFinished Cons)
      have "\<not> s_isFirstRun s"
        using inv_s rs(2) job_not_idle[of r] by (auto simp: sched_inv_def first_inv_def)
      then show ?thesis
        unfolding s' using rs L
        by (intro timer_inv) (simp_all add: runnerFinished_def singleShot_def pool_inv_def isIndexerIdle_def first_inv_def lists_inv_def)
    qed
  next
    case TimerFired
    have "frames s (s\<lparr>s_timers := s_timers s - 1\<rparr>)"
      using L by (simp add: frames_def lists_inv_def)
    then show ?thesis
      using step inv_s schedule_inv[OF inv_s] by (auto simp: TimerFired split: if_splits)
  next
    case StartupFinished
    have "frames s (startupFinished s)" "0 < s_timers (startupFinished s)"
      using L by (simp_all add: frames_def lists_inv_def startupFinished_def singleShot_def)
    then show ?thesis
      using step wake_inv[OF inv_s] by (auto simp: StartupFinished)
  next
    case (FileRemoved f)
    have s': "s' = handleFileRemoved f s"
      using step by (simp add: FileRemoved)
    show ?thesis
    proof (rule drop_files_inv[OF inv_s, where ns = "s_newFiles s'" and ms = "s_modifiedFiles s'" and xs = "s_xattrFiles s'"])
      show "lists_inv s'"
        using L by (simp add: s' handleFileRemoved_def removeStartsWith_def lists_inv_def)
      show "s' = s\<lparr>s_newFiles := s_newFiles s', s_modifiedFiles := s_modifiedFiles s', s_xattrFiles := s_xattrFiles s'\<rparr>"
        by (simp add: s' handleFileRemoved_def)
    qed (auto simp: s' handleFileRemoved_def removeStartsWith_def dest: set_remove1_subset[THEN subsetD])
  next
    case (ConfigUpdated p)
    let ?s1 = "s\<lparr>s_newFiles := filter p (s_newFiles s), s_modifiedFiles := filter p (s_modifiedFiles s),
      s_xattrFiles := filter p (s_xattrFiles s), s_checkStaleIndexEntries := True, s_checkUnindexedFiles := True\<rparr>"
    have "frames s ?s1"
      using L by (simp add: frames_def lists_inv_def)
    moreover have "\<exists>out'. scheduleIndexing ?s1 = (s', out')"
      using step by (auto simp: ConfigUpdated updateConfig_def removeShouldNotIndex_def Let_def split: prod.splits)
    ultimately show ?thesis
      using schedule_inv[OF inv_s] by blast
  next
    case (PowerStatus b)
    have fr: "frames s (s\<lparr>s_onBattery := b\<rparr>)"
      using L by (simp add: frames_def lists_inv_def)
    show ?thesis
      using step inv_s schedule_inv[OF inv_s fr] quit_inv[OF inv_s fr]
      by (auto simp: PowerStatus slotPowerManagementStatusChanged_def powerManagementStatusChanged_def split: if_splits)
  next
    case (SetSuspended b)
    have fr: "frames s (s\<lparr>s_isSuspended := b\<rparr>)"
      using L by (simp add: frames_def lists_inv_def)
    show ?thesis
      using step schedule_inv[OF inv_s fr] quit_inv[OF inv_s fr]
      by (auto simp: SetSuspended setSuspend_def Let_def split: if_splits)
  next
    case CheckUnindexedFiles
    have "frames s (s\<lparr>s_checkUnindexedFiles := True\<rparr>)"
      using L by (simp add: frames_def lists_inv_def)
    then show ?thesis
      using step schedule_inv[OF inv_s] by (simp add: CheckUnindexedFiles checkUnindexedFiles_def)
  next
    case CheckStaleIndexEntries
    have "frames s (s\<lparr>s_checkStaleIndexEntries := True\<rparr>)"
      using L by (simp add: frames_def lists_inv_def)
    then show ?thesis
      using step schedule_inv[OF inv_s] by (simp add: CheckStaleIndexEntries checkStaleIndexEntries_def)
  qed
qed

section \<open>What is shown and what is handed over\<close>

text \<open>The state a listener of \<open>stateChanged\<close> knows.\<close>

fun shown :: "IndexerState \<Rightarrow> sched_out list \<Rightarrow> IndexerState" where
  "shown st [] = st"
| "shown st (StateChanged st' # out) = shown st' out"
| "shown st (_ # out) = shown st out"

text \<open>
  The files announced and not yet given to a job, by the events and the jobs started: an announcement adds a
  file, the start of a job takes those it is given, a removal and a new configuration drop files.
\<close>

type_synonym todo = "QString set \<times> QString set \<times> QString set"

definition todo_map :: "(QString set \<Rightarrow> QString set) \<Rightarrow> todo \<Rightarrow> todo" where
  "todo_map g t = (case t of (n, m, x) \<Rightarrow> (g n, g m, g x))"

fun todo_event :: "sched_event \<Rightarrow> todo \<Rightarrow> todo" where
  "todo_event (IndexNewFile f) (n, m, x) = (insert f n, m, x)"
| "todo_event (IndexModifiedFile f) (n, m, x) = (n, insert f m, x)"
| "todo_event (IndexXAttrFile f) (n, m, x) = (n, m, insert f x)"
| "todo_event (FileRemoved f) t = todo_map (\<lambda>S. if suffix [47] f then {p \<in> S. \<not> prefix f p} else S - {f}) t"
| "todo_event (ConfigUpdated p) t = todo_map (\<lambda>S. {f \<in> S. p f}) t"
| "todo_event _ t = t"

fun todo_out :: "todo \<Rightarrow> sched_out list \<Rightarrow> todo" where
  "todo_out t [] = t"
| "todo_out (n, m, x) (Start (NewFileIndexer fs) # out) = todo_out (n - set fs, m, x) out"
| "todo_out (n, m, x) (Start (ModifiedFileIndexer fs) # out) = todo_out (n, m - set fs, x) out"
| "todo_out (n, m, x) (Start (XAttrIndexer fs) # out) = todo_out (n, m, x - set fs) out"
| "todo_out t (_ # out) = todo_out t out"

definition todo_of :: "FileIndexScheduler \<Rightarrow> todo" where
  "todo_of s = (set (s_newFiles s), set (s_modifiedFiles s), set (s_xattrFiles s))"

primrec todo_trace :: "(sched_event \<times> sched_out list) list \<Rightarrow> todo \<Rightarrow> todo" where
  "todo_trace [] t = t"
| "todo_trace (x # xs) t = todo_trace xs (todo_out (todo_event (fst x) t) (snd x))"

definition trace_out :: "(sched_event \<times> sched_out list) list \<Rightarrow> sched_out list" where
  "trace_out trace = concat (map snd trace)"

lemma shown_append: "shown st (out @ out') = shown (shown st out) out'"
  by (induction st out rule: shown.induct) auto

lemma todo_out_skip: "todo_out t (QuitContentIndexer # out) = todo_out t out" "todo_out t (StateChanged st # out) = todo_out t out"
  by (cases t; simp)+

lemma scheduleIndexing_todo:
  assumes "scheduleIndexing s = (s', out)"
  shows "todo_of s' = todo_out (todo_of s) out \<and> shown (s_indexerState s) out = s_indexerState s'"
proof (cases "isIndexerIdle s")
  case True
  show ?thesis
  proof (cases "decide s")
    case (Run r)
    have fs: "r = NewFileIndexer fs \<Longrightarrow> fs = s_newFiles s" "r = ModifiedFileIndexer fs \<Longrightarrow> fs = s_modifiedFiles s"
      "r = XAttrIndexer fs \<Longrightarrow> fs = s_xattrFiles s" for fs
      using Run by (auto simp: decide_def split: if_splits)
    show ?thesis
      using assms True Run fs by (cases r) (auto simp: scheduleIndexing_decide start_job_def todo_of_def)
  qed (use assms True in \<open>auto simp: scheduleIndexing_decide set_state_eq todo_of_def\<close>)
qed (use assms in \<open>auto simp: scheduleIndexing_decide\<close>)

lemma sched_step_todo:
  assumes "lists_inv s" "sched_step e s = (s', out)"
  shows "todo_of s' = todo_out (todo_event e (todo_of s)) out \<and> shown (s_indexerState s) out = s_indexerState s'"
proof -
  note call = scheduleIndexing_todo
  show ?thesis
  proof (cases e)
    case (FileRemoved f)
    then show ?thesis
      using assms
      by (auto simp: handleFileRemoved_def removeStartsWith_def todo_of_def todo_map_def lists_inv_def)
  next
    case (ConfigUpdated p)
    let ?s1 = "s\<lparr>s_newFiles := filter p (s_newFiles s), s_modifiedFiles := filter p (s_modifiedFiles s),
      s_xattrFiles := filter p (s_xattrFiles s), s_checkStaleIndexEntries := True, s_checkUnindexedFiles := True\<rparr>"
    obtain out' where "scheduleIndexing ?s1 = (s', out')"
      and "out = (if s_indexerState s = ContentIndexing then [QuitContentIndexer] else []) @ out'"
      using assms(2) by (auto simp: ConfigUpdated updateConfig_def removeShouldNotIndex_def Let_def split: prod.splits)
    moreover have "todo_of ?s1 = todo_event e (todo_of s)"
      by (simp add: ConfigUpdated todo_of_def todo_map_def)
    ultimately show ?thesis
      using call[of ?s1 s' out'] by (cases "s_indexerState s = ContentIndexing") (simp_all add: todo_out_skip)
  next
    case (PowerStatus b)
    then show ?thesis
      using assms(2) call[of "s\<lparr>s_onBattery := b\<rparr>" s' out]
      by (auto simp: slotPowerManagementStatusChanged_def powerManagementStatusChanged_def todo_of_def split: if_splits)
  next
    case (SetSuspended b)
    then show ?thesis
      using assms(2) call[of "s\<lparr>s_isSuspended := b\<rparr>" s' out]
      by (auto simp: setSuspend_def Let_def todo_of_def split: if_splits)
  next
    case TimerFired
    then show ?thesis
      using assms(2) call[of "s\<lparr>s_timers := s_timers s - 1\<rparr>" s' out] by (auto simp: todo_of_def split: if_splits)
  next
    case CheckUnindexedFiles
    then show ?thesis
      using assms(2) call[of "s\<lparr>s_checkUnindexedFiles := True\<rparr>" s' out] by (simp add: checkUnindexedFiles_def todo_of_def)
  next
    case CheckStaleIndexEntries
    then show ?thesis
      using assms(2) call[of "s\<lparr>s_checkStaleIndexEntries := True\<rparr>" s' out] by (simp add: checkStaleIndexEntries_def todo_of_def)
  qed (use assms(2) in \<open>auto simp: indexNewFile_def indexModifiedFile_def indexXAttrFile_def runnerFinished_def
      startupFinished_def singleShot_def todo_of_def Let_def insert_absorb split: if_splits\<close>)
qed

lemma sched_run_inv:
  "sched_run es s = (s', trace) \<Longrightarrow> sched_inv s \<Longrightarrow>
   sched_inv s' \<and> todo_of s' = todo_trace trace (todo_of s) \<and> shown (s_indexerState s) (trace_out trace) = s_indexerState s'"
proof (induction es arbitrary: s trace)
  case Nil
  then show ?case by (simp add: trace_out_def)
next
  case (Cons e es)
  obtain s1 out where one: "sched_step e s = (s1, out)"
    by (cases "sched_step e s")
  obtain rest where rest: "sched_run es s1 = (s', rest)" "trace = (e, out) # rest"
    using Cons.prems(1) by (auto simp: one split: prod.splits)
  have "lists_inv s"
    using Cons.prems(2) by (simp add: sched_inv_def)
  note step = sched_step_todo[OF this one] sched_step_inv[OF Cons.prems(2) one]
  then show ?case
    using Cons.IH[OF rest(1)] rest(2) by (simp add: trace_out_def shown_append)
qed

lemma sched_new_inv:
  assumes "FileIndexScheduler_new firstRun n = (s, out)"
  shows "sched_inv s" "todo_of s = ({}, {}, {})" "s_indexerState s = Startup" "out = [StateChanged Startup]"
proof -
  have s: "s_newFiles s = []" "s_modifiedFiles s = []" "s_xattrFiles s = []" "s_pool s = []" "s_timers s = 0"
    "s_indexerState s = Startup" "\<not> s_isGoingIdle s" "\<not> s_isSuspended s" "s_inStartup s"
    using assms by (auto simp: FileIndexScheduler_new_def)
  have "s\<lparr>s_isGoingIdle := False\<rparr> = s"
    using s(7) by simp
  moreover have "decide s = (if s_isFirstRun s then Stay else RestIn Startup)"
    using s by (simp add: decide_def)
  ultimately have "settled s"
    using s(6) by (simp add: settled_def scheduleIndexing_decide set_state_def)
  then show "sched_inv s"
    using s by (simp add: sched_inv_def pool_inv_def first_inv_def lists_inv_def isIndexerIdle_def)
  show "todo_of s = ({}, {}, {})" "s_indexerState s = Startup" "out = [StateChanged Startup]"
    using s assms by (auto simp: todo_of_def FileIndexScheduler_new_def)
qed

text \<open>At rest, everything announced has been handed over, and what could be done has been done.\<close>

lemma settled_done:
  assumes "sched_inv s" "s_timers s = 0" "s_pool s = []" "\<not> s_isSuspended s" "\<not> s_inStartup s"
  shows "todo_of s = ({}, {}, {}) \<and> \<not> s_isFirstRun s \<and>
    (if s_onBattery s then s_indexerState s = LowPowerIdle
     else s_indexerState s = Idle \<and> s_remaining s = 0 \<and> \<not> s_checkStaleIndexEntries s \<and> \<not> s_checkUnindexedFiles s)"
proof -
  have idle: "isIndexerIdle s"
    using assms(1,3) isIndexerIdle_pool by (auto simp: sched_inv_def)
  then have same: "scheduleIndexing s = (s, [])"
    using assms(1,2) by (simp add: sched_inv_def settled_def)
  have run: "decide s \<noteq> Run r" for r
    using same idle by (auto simp: scheduleIndexing_decide start_job_def)
  have "decide s \<noteq> Stay"
    using assms(5) by (auto simp: decide_def split: if_splits)
  then obtain st where st: "decide s = RestIn st"
    using run by (cases "decide s") auto
  then have "s_indexerState s = st"
    using same idle by (auto simp: scheduleIndexing_decide set_state_eq split: if_splits)
  then show ?thesis
    using st assms(4,5) by (auto simp: decide_def todo_of_def split: if_splits)
qed

section \<open>It comes to rest\<close>

text \<open>What is left to start, and with it the timers and the end of the running job that are still to come.\<close>

definition work :: "FileIndexScheduler \<Rightarrow> nat" where
  "work s = of_bool (s_isFirstRun s) + of_bool (s_newFiles s \<noteq> []) + of_bool (s_modifiedFiles s \<noteq> []) +
     of_bool (s_xattrFiles s \<noteq> []) + of_bool (s_checkStaleIndexEntries s) +
     of_bool (0 < s_remaining s \<and> FileContentIndexer \<notin> set (s_pool s)) + of_bool (s_checkUnindexedFiles s)"

definition to_come :: "FileIndexScheduler \<Rightarrow> nat" where
  "to_come s = 3 * work s + 2 * length (s_pool s) + s_timers s"

text \<open>The event loop and the pool on their own: a job that ends and leaves no files, or a single shot that fires.\<close>

definition internal_event :: "FileIndexScheduler \<Rightarrow> sched_event" where
  "internal_event s = (if s_pool s \<noteq> [] then RunnerFinished 0 else TimerFired)"

primrec settle :: "nat \<Rightarrow> FileIndexScheduler \<Rightarrow> FileIndexScheduler" where
  "settle 0 s = s"
| "settle (Suc k) s = settle k (fst (sched_step (internal_event s) s))"

definition at_rest :: "FileIndexScheduler \<Rightarrow> bool" where
  "at_rest s \<longleftrightarrow> s_timers s = 0 \<and> s_pool s = []"

lemma decide_Run:
  assumes "decide s = Run r"
  shows "case r of FirstRunIndexer \<Rightarrow> s_isFirstRun s | NewFileIndexer fs \<Rightarrow> s_newFiles s \<noteq> []
    | ModifiedFileIndexer fs \<Rightarrow> s_modifiedFiles s \<noteq> [] | XAttrIndexer fs \<Rightarrow> s_xattrFiles s \<noteq> []
    | IndexCleaner \<Rightarrow> s_checkStaleIndexEntries s | FileContentIndexer \<Rightarrow> 0 < s_remaining s
    | UnindexedFileIndexer \<Rightarrow> s_checkUnindexedFiles s"
  using assms by (auto simp: decide_def split: if_splits)

lemma start_work:
  assumes "decide s = Run r" "s_pool s = []"
  shows "work (taken r (s\<lparr>s_isGoingIdle := False\<rparr>)\<lparr>s_pool := [r], s_indexerState := st\<rparr>) + 1 \<le> work s"
  using decide_Run[OF assms(1)] assms(2) by (cases r) (simp_all add: work_def)

lemma scheduleIndexing_to_come:
  assumes "s_pool s = []" "scheduleIndexing s = (s', out)"
  shows "to_come s' \<le> to_come s"
proof (cases "isIndexerIdle s")
  case True
  show ?thesis
  proof (cases "decide s")
    case (Run r)
    then have s': "s' = taken r (s\<lparr>s_isGoingIdle := False\<rparr>)\<lparr>s_pool := [r], s_indexerState := job_state r\<rparr>"
      using assms True by (simp add: scheduleIndexing_decide start_job_def)
    then show ?thesis
      using start_work[OF Run assms(1), of "job_state r"] assms(1) by (simp add: to_come_def)
  next
    case Stay
    then have "s' = s\<lparr>s_isGoingIdle := False\<rparr>"
      using assms True by (simp add: scheduleIndexing_decide)
    then show ?thesis
      by (simp add: to_come_def work_def)
  next
    case (RestIn st)
    then have "s' = s\<lparr>s_isGoingIdle := False, s_indexerState := st\<rparr>"
      using assms True by (simp add: scheduleIndexing_decide set_state_eq)
    then show ?thesis
      by (simp add: to_come_def work_def)
  qed
next
  case False
  then show ?thesis
    using assms by (simp add: scheduleIndexing_decide)
qed

lemma internal_step:
  assumes "sched_inv s" "sched_step (internal_event s) s = (s', out)"
  shows "at_rest s \<Longrightarrow> s' = s" "\<not> at_rest s \<Longrightarrow> to_come s' < to_come s" "sched_inv s'"
    and "s_isSuspended s' = s_isSuspended s" "s_inStartup s' = s_inStartup s"
proof -
  show "s' = s" if "at_rest s"
    using that assms(2) by (simp add: at_rest_def internal_event_def)
  show "sched_inv s'"
    using sched_step_inv[OF assms] .
  show "s_isSuspended s' = s_isSuspended s" "s_inStartup s' = s_inStartup s"
    using assms(2)
    by (auto simp: internal_event_def runnerFinished_def singleShot_def scheduleIndexing_def start_job_def set_state_def
        Let_def split: if_splits)
  show "to_come s' < to_come s" if "\<not> at_rest s"
  proof (cases "s_pool s")
    case Nil
    then have "0 < s_timers s" "scheduleIndexing (s\<lparr>s_timers := s_timers s - 1\<rparr>) = (s', out)"
      using that assms(2) by (simp_all add: at_rest_def internal_event_def)
    moreover have "to_come (s\<lparr>s_timers := s_timers s - 1\<rparr>) + s_timers s = to_come s + (s_timers s - 1)"
      by (simp add: to_come_def work_def)
    ultimately show ?thesis
      using scheduleIndexing_to_come[of "s\<lparr>s_timers := s_timers s - 1\<rparr>" s' out] Nil by simp
  next
    case (Cons r rs)
    then have "s' = runnerFinished (s\<lparr>s_pool := rs, s_remaining := 0\<rparr>)"
      using assms(2) by (simp add: internal_event_def)
    then show ?thesis
      using Cons by (simp add: to_come_def work_def runnerFinished_def singleShot_def)
  qed
qed

lemma settle_at_rest: "at_rest s \<Longrightarrow> settle k s = s"
  by (induction k) (simp_all add: at_rest_def internal_event_def)

lemma settle_rest:
  "sched_inv s \<Longrightarrow> to_come s \<le> k \<Longrightarrow> at_rest (settle k s) \<and> sched_inv (settle k s) \<and>
   s_isSuspended (settle k s) = s_isSuspended s \<and> s_inStartup (settle k s) = s_inStartup s"
proof (induction k arbitrary: s)
  case 0
  then show ?case by (simp add: to_come_def at_rest_def)
next
  case (Suc k)
  show ?case
  proof (cases "at_rest s")
    case True
    then show ?thesis
      using settle_at_rest[OF True, of "Suc k"] Suc.prems(1) by (simp only: simp_thms)
  next
    case False
    obtain s' out where step: "sched_step (internal_event s) s = (s', out)"
      by (cases "sched_step (internal_event s) s")
    note i = internal_step[OF Suc.prems(1) step]
    have "to_come s' \<le> k"
      using i(2)[OF False] Suc.prems(2) by simp
    then show ?thesis
      using Suc.IH[OF i(3)] i(4,5) step by simp
  qed
qed

text \<open>However long the lists, seven kinds of work are enough to bound the way to rest.\<close>

lemma to_come_bound: "sched_inv s \<Longrightarrow> to_come s \<le> 23 + s_timers s"
proof -
  assume "sched_inv s"
  then have "length (s_pool s) \<le> 1"
    by (auto simp: sched_inv_def pool_inv_def split: list.splits)
  moreover have "work s \<le> 7"
    by (simp add: work_def of_bool_def)
  ultimately show ?thesis
    by (simp add: to_come_def)
qed

end
