(* ===== verification/CommandPipe.thy ===== *)
theory CommandPipe
  imports Prelude "HOL-Library.Sublist"
begin

text \<open>
  \<open>extractor/commandpipe.cpp\<close>: the messages between the content indexer and the extractor process. A pipe
  delivers its bytes in pieces; a message that is not complete is rolled back and read again when more has
  arrived. How \<open>QDataStream\<close> writes strings and vectors is the parameter \<open>stream_api\<close>. At the end: whatever
  the pieces are, every message arrives once and in order.
\<close>

section \<open>Messages\<close>

datatype FileStatus =
  Successful | IgnoredFilename | IgnoredMimetype | IgnoredMimetypeUnsupported | IgnoredTooLarge
| ErrorFileNotFound | ErrorExtractionFailed

datatype IndexSpeed = Slow | Fast

text \<open>What the worker reports and the controller signals; what the controller sends; what the worker signals.\<close>

datatype status_message = urlStarted QString | urlProcessed QString bool FileStatus | batchFinished

datatype command_message = processIds "u64 list" | setIndexSpeed IndexSpeed

datatype worker_signal = newDocumentIds "u64 list" | indexSpeed IndexSpeed | inputEnd

text \<open>The two directions of \<open>QDataStream\<close>: \<open>None\<close> is a read past the end.\<close>

record stream_api =
  ds_writeString :: "QString \<Rightarrow> bytes"
  ds_readString :: "bytes \<Rightarrow> (QString \<times> bytes) option"
  ds_writeIds :: "u64 list \<Rightarrow> bytes"
  ds_readIds :: "bytes \<Rightarrow> (u64 list \<times> bytes) option"

definition stream_ok :: "stream_api \<Rightarrow> bool" where
  "stream_ok D \<longleftrightarrow>
     (\<forall>str rest. ds_readString D (ds_writeString D str @ rest) = Some (str, rest)) \<and>
     (\<forall>str b. strict_prefix b (ds_writeString D str) \<longrightarrow> ds_readString D b = None) \<and>
     (\<forall>ids rest. ds_readIds D (ds_writeIds D ids @ rest) = Some (ids, rest)) \<and>
     (\<forall>ids b. strict_prefix b (ds_writeIds D ids) \<longrightarrow> ds_readIds D b = None)"

section \<open>Writing\<close>

definition WorkerPipe_urlProcessed :: "bool \<Rightarrow> FileStatus \<Rightarrow> u8" where
  "WorkerPipe_urlProcessed updated status =
     (case status of
        Successful \<Rightarrow> if updated then 70 else 85
      | IgnoredFilename \<Rightarrow> 115
      | IgnoredMimetype \<Rightarrow> 109
      | IgnoredMimetypeUnsupported \<Rightarrow> 77
      | IgnoredTooLarge \<Rightarrow> 108
      | ErrorExtractionFailed \<Rightarrow> 102
      | ErrorFileNotFound \<Rightarrow> 105)"

definition WorkerPipe_write :: "stream_api \<Rightarrow> status_message \<Rightarrow> bytes" where
  "WorkerPipe_write D msg =
     (case msg of
        urlStarted url \<Rightarrow> 83 # ds_writeString D url
      | urlProcessed url updated status \<Rightarrow> WorkerPipe_urlProcessed updated status # ds_writeString D url
      | batchFinished \<Rightarrow> [66])"

definition ControllerPipe_write :: "stream_api \<Rightarrow> command_message \<Rightarrow> bytes" where
  "ControllerPipe_write D msg =
     (case msg of
        processIds ids \<Rightarrow> 66 # ds_writeIds D ids
      | setIndexSpeed speed \<Rightarrow> [if speed = Fast then 70 else 83])"

section \<open>Reading\<close>

text \<open>The signal of an event with its url; an unknown event is only logged.\<close>

definition event_signal :: "u8 \<Rightarrow> QString \<Rightarrow> status_message list" where
  "event_signal event url =
     (if event = 83 then [urlStarted url]
      else if event = 70 then [urlProcessed url True Successful]
      else if event = 85 then [urlProcessed url False Successful]
      else if event = 115 then [urlProcessed url False IgnoredFilename]
      else if event = 109 then [urlProcessed url False IgnoredMimetype]
      else if event = 77 then [urlProcessed url False IgnoredMimetypeUnsupported]
      else if event = 108 then [urlProcessed url False IgnoredTooLarge]
      else if event = 102 then [urlProcessed url False ErrorExtractionFailed]
      else if event = 105 then [urlProcessed url False ErrorFileNotFound]
      else [])"

text \<open>
  The two loops, on the bytes that the device holds: the signals in order, and the bytes that are left
  because the last message is not complete.
\<close>

partial_function (option) processStatusData :: "stream_api \<Rightarrow> bytes \<Rightarrow> (status_message list \<times> bytes) option" where
  "processStatusData D b =
     (case b of
        [] \<Rightarrow> Some ([], [])
      | event # b1 \<Rightarrow>
          if event = 66
          then Option.bind (processStatusData D b1) (\<lambda>(sigs, rest). Some (batchFinished # sigs, rest))
          else
            case ds_readString D b1 of
              None \<Rightarrow> Some ([], b)
            | Some (url, b2) \<Rightarrow>
                Option.bind (processStatusData D b2) (\<lambda>(sigs, rest). Some (event_signal event url @ sigs, rest)))"

definition command_signal :: "u8 \<Rightarrow> worker_signal list" where
  "command_signal cmd = (if cmd = 70 then [indexSpeed Fast] else if cmd = 83 then [indexSpeed Slow] else [])"

partial_function (option) processIdData :: "stream_api \<Rightarrow> bytes \<Rightarrow> (worker_signal list \<times> bytes) option" where
  "processIdData D b =
     (case b of
        [] \<Rightarrow> Some ([inputEnd], [])
      | cmd # b1 \<Rightarrow>
          if cmd \<noteq> 66 then
            if b1 = [] then Some (command_signal cmd, [])
            else Option.bind (processIdData D b1) (\<lambda>(sigs, rest). Some (command_signal cmd @ sigs, rest))
          else
            case ds_readIds D b1 of
              None \<Rightarrow> Some ([], b)
            | Some (ids, b2) \<Rightarrow>
                if b2 = [] then Some ([newDocumentIds ids], [])
                else Option.bind (processIdData D b2) (\<lambda>(sigs, rest). Some (newDocumentIds ids # sigs, rest)))"

section \<open>Messages in pieces\<close>

text \<open>The device gets one piece after another, and each arrival runs the loop.\<close>

primrec feed :: "(bytes \<Rightarrow> ('o list \<times> bytes) option) \<Rightarrow> bytes \<Rightarrow> bytes list \<Rightarrow> ('o list \<times> bytes) option" where
  "feed run buf [] = Some ([], buf)"
| "feed run buf (piece # pieces) =
     Option.bind (run (buf @ piece))
       (\<lambda>(sigs, buf'). Option.bind (feed run buf' pieces) (\<lambda>(sigs', rest). Some (sigs @ sigs', rest)))"

text \<open>
  The contract of one direction: a message is not empty, a part of one is left in the device, and a whole one
  gives its signals before what follows.
\<close>

locale framed =
  fixes ok :: "'d \<Rightarrow> bool" and wr :: "'d \<Rightarrow> 'm \<Rightarrow> bytes" and run :: "'d \<Rightarrow> bytes \<Rightarrow> ('o list \<times> bytes) option"
    and out :: "'m \<Rightarrow> 'o list"
  assumes wr_nonempty: "wr D m \<noteq> []"
    and run_partial: "ok D \<Longrightarrow> strict_prefix b (wr D m) \<Longrightarrow> b \<noteq> [] \<Longrightarrow> run D b = Some ([], b)"
    and run_whole: "ok D \<Longrightarrow> run D (wr D m @ b) =
      (if b = [] then Some (out m, []) else Option.bind (run D b) (\<lambda>(sigs, rest). Some (out m @ sigs, rest)))"
begin

definition stream :: "'d \<Rightarrow> 'm list \<Rightarrow> bytes" where
  "stream D ms = concat (map (wr D) ms)"

definition outs :: "'m list \<Rightarrow> 'o list" where
  "outs ms = concat (map out ms)"

text \<open>A device holds less than the next message.\<close>

definition waits :: "'d \<Rightarrow> bytes \<Rightarrow> 'm list \<Rightarrow> bool" where
  "waits D b ms \<longleftrightarrow> (case ms of [] \<Rightarrow> b = [] | m # _ \<Rightarrow> strict_prefix b (wr D m))"

lemma run_stream:
  assumes "ok D"
  shows "b \<noteq> [] \<Longrightarrow> b @ later = stream D ms \<Longrightarrow>
    \<exists>done_ms ms' rest. ms = done_ms @ ms' \<and> run D b = Some (outs done_ms, rest) \<and> rest @ later = stream D ms' \<and> waits D rest ms'"
proof (induction ms arbitrary: b)
  case Nil
  then show ?case by (simp add: stream_def)
next
  case (Cons m ms)
  then have split: "b @ later = wr D m @ stream D ms" by (simp add: stream_def)
  show ?case
  proof (cases "strict_prefix b (wr D m)")
    case True
    then show ?thesis
      using Cons.prems run_partial[OF assms True]
      by (intro exI[of _ "[]"] exI[of _ "m # ms"] exI[of _ b]) (simp add: outs_def waits_def)
  next
    case False
    moreover have "prefix b (wr D m @ stream D ms)" "prefix (wr D m) (wr D m @ stream D ms)"
      using split by (metis prefixI)+
    ultimately have "prefix (wr D m) b"
      by (metis prefix_same_cases strict_prefix_def prefix_order.order_refl)
    then obtain b' where b: "b = wr D m @ b'" and later: "b' @ later = stream D ms"
      using split by (auto elim!: prefixE)
    show ?thesis
    proof (cases "b' = []")
      case True
      have "waits D [] ms"
        using wr_nonempty[THEN not_sym] by (cases ms) (auto simp: waits_def strict_prefix_def)
      then show ?thesis
        using run_whole[OF assms, of m "[]"] later True
        by (intro exI[of _ "[m]"] exI[of _ ms] exI[of _ "[]"]) (simp add: b outs_def)
    next
      case False
      from Cons.IH[OF False later] obtain d ms' rest where IH: "ms = d @ ms'" "run D b' = Some (outs d, rest)"
        "rest @ later = stream D ms'" "waits D rest ms'" by blast
      then show ?thesis
        using run_whole[OF assms, of m b'] False
        by (intro exI[of _ "m # d"] exI[of _ ms'] exI[of _ rest]) (simp add: b outs_def)
    qed
  qed
qed

lemma feed_stream:
  assumes "ok D"
  shows "[] \<notin> set pieces \<Longrightarrow> waits D buf ms \<Longrightarrow> buf @ concat pieces = stream D ms \<Longrightarrow>
    feed (run D) buf pieces = Some (outs ms, [])"
proof (induction pieces arbitrary: buf ms)
  case Nil
  show ?case
  proof (cases ms)
    case (Cons m ms')
    then have "strict_prefix buf (wr D m)" "buf = wr D m @ stream D ms'"
      using Nil by (simp_all add: waits_def stream_def)
    then show ?thesis by (auto simp: strict_prefix_def prefix_def)
  qed (use Nil in \<open>simp add: waits_def outs_def\<close>)
next
  case (Cons piece pieces)
  then obtain d ms' rest where run: "ms = d @ ms'" "run D (buf @ piece) = Some (outs d, rest)"
    "rest @ concat pieces = stream D ms'" "waits D rest ms'"
    using run_stream[OF assms, of "buf @ piece" "concat pieces" ms] by auto
  then show ?case
    using Cons.IH[of rest ms'] Cons.prems(1) by (simp add: outs_def)
qed

lemma feed_all:
  assumes "ok D" "[] \<notin> set pieces" "concat pieces = concat (map (wr D) ms)"
  shows "feed (run D) [] pieces = Some (concat (map out ms), [])"
proof -
  have "waits D [] ms"
    using wr_nonempty[THEN not_sym] by (cases ms) (auto simp: waits_def strict_prefix_def)
  then show ?thesis
    using feed_stream[OF assms(1,2), of "[]" ms] assms(3) by (simp add: stream_def outs_def)
qed

end

section \<open>The two directions\<close>

text \<open>Only a finished file can be updated: \<open>updated\<close> of any other status is not transmitted.\<close>

definition received :: "status_message \<Rightarrow> status_message" where
  "received msg =
     (case msg of urlProcessed url updated status \<Rightarrow> urlProcessed url (updated \<and> status = Successful) status | _ \<Rightarrow> msg)"

definition command_received :: "command_message \<Rightarrow> worker_signal" where
  "command_received msg = (case msg of processIds ids \<Rightarrow> newDocumentIds ids | setIndexSpeed speed \<Rightarrow> indexSpeed speed)"

lemma stream_okD:
  assumes "stream_ok D"
  shows "ds_readString D (ds_writeString D str @ rest) = Some (str, rest)" "ds_readString D (ds_writeString D str) = Some (str, [])"
    "strict_prefix b (ds_writeString D str) \<Longrightarrow> ds_readString D b = None"
    "ds_readIds D (ds_writeIds D ids @ rest) = Some (ids, rest)" "ds_readIds D (ds_writeIds D ids) = Some (ids, [])"
    "strict_prefix b (ds_writeIds D ids) \<Longrightarrow> ds_readIds D b = None"
  using assms unfolding stream_ok_def by (metis append_Nil2)+

lemma processStatusData_Nil [simp]: "processStatusData D [] = Some ([], [])"
  by (subst processStatusData.simps) simp

lemma event_url:
  "WorkerPipe_urlProcessed updated status \<noteq> 66"
  "event_signal (WorkerPipe_urlProcessed updated status) url = [urlProcessed url (updated \<and> status = Successful) status]"
  by (cases status; simp add: WorkerPipe_urlProcessed_def event_signal_def)+

lemma not_fast: "speed \<noteq> Fast \<longleftrightarrow> speed = Slow"
  by (cases speed) simp_all

interpretation status_pipe: framed stream_ok WorkerPipe_write processStatusData "\<lambda>msg. [received msg]"
proof unfold_locales
  fix D :: stream_api and msg b
  show "WorkerPipe_write D msg \<noteq> []"
    by (cases msg) (simp_all add: WorkerPipe_write_def)
  assume ok: "stream_ok D"
  note reads = stream_okD[OF ok]
  show "processStatusData D b = Some ([], b)" if "strict_prefix b (WorkerPipe_write D msg)" "b \<noteq> []"
    using that reads
    by (subst processStatusData.simps, cases msg) (auto simp: WorkerPipe_write_def event_url split: list.splits)
  show "processStatusData D (WorkerPipe_write D msg @ b) =
      (if b = [] then Some ([received msg], [])
       else Option.bind (processStatusData D b) (\<lambda>(sigs, rest). Some ([received msg] @ sigs, rest)))"
    using reads
    by (subst processStatusData.simps, cases msg)
      (simp_all add: WorkerPipe_write_def event_url received_def, simp_all add: event_signal_def)
qed

interpretation command_pipe: framed stream_ok ControllerPipe_write processIdData "\<lambda>msg. [command_received msg]"
proof unfold_locales
  fix D :: stream_api and msg b
  show "ControllerPipe_write D msg \<noteq> []"
    by (cases msg) (simp_all add: ControllerPipe_write_def)
  assume ok: "stream_ok D"
  note reads = stream_okD[OF ok]
  show "processIdData D b = Some ([], b)" if "strict_prefix b (ControllerPipe_write D msg)" "b \<noteq> []"
    using that reads
    by (subst processIdData.simps, cases msg) (auto simp: ControllerPipe_write_def split: list.splits)
  show "processIdData D (ControllerPipe_write D msg @ b) =
      (if b = [] then Some ([command_received msg], [])
       else Option.bind (processIdData D b) (\<lambda>(sigs, rest). Some ([command_received msg] @ sigs, rest)))"
    using reads
    by (subst processIdData.simps, cases msg)
      (auto simp: ControllerPipe_write_def command_received_def command_signal_def not_fast)
qed

lemma pipes_deliver:
  assumes "stream_ok D" "[] \<notin> set pieces"
  shows "concat pieces = concat (map (WorkerPipe_write D) msgs) \<Longrightarrow>
      feed (processStatusData D) [] pieces = Some (map received msgs, [])"
    and "concat pieces = concat (map (ControllerPipe_write D) cmds) \<Longrightarrow>
      feed (processIdData D) [] pieces = Some (map command_received cmds, [])"
  using status_pipe.feed_all[OF assms] command_pipe.feed_all[OF assms] by simp_all

end
