(* ===== verification/ContentMonitors.thy ===== *)
theory ContentMonitors
  imports CommandPipe
begin

text \<open>
  The parts of \<open>filecontentindexer.cpp\<close> and \<open>extractorprocess.cpp\<close> that talk to others: the monitors that
  registered over D-Bus, the idle state of the session, and how the exit of the extractor process is read.
\<close>

section \<open>Monitors and the idle state\<close>

definition IDLE_MONITOR_SERVICE :: QString where
  "IDLE_MONITOR_SERVICE = qs ''org.kde.baloo_idle_monitor''"

text \<open>
  \<open>fm_watched\<close> are the services of the \<open>QDBusServiceWatcher\<close>; \<open>fm_fetching\<close> counts the calls for the idle
  state that have not been answered.
\<close>

record content_monitors =
  fm_registeredMonitors :: "QString list"
  fm_watched :: "QString list"
  fm_sessionIdle :: bool
  fm_fetching :: nat

datatype indexer_signal =
  indexSpeedChanged bool | startedIndexingFile QString | finishedIndexingFile QString bool FileStatus

definition fetchIdleState :: "content_monitors \<Rightarrow> content_monitors" where
  "fetchIdleState c = c\<lparr>fm_fetching := Suc (fm_fetching c)\<rparr>"

definition addWatchedService :: "QString \<Rightarrow> content_monitors \<Rightarrow> content_monitors" where
  "addWatchedService service c = (if service \<in> set (fm_watched c) then c else c\<lparr>fm_watched := fm_watched c @ [service]\<rparr>)"

definition removeWatchedService :: "QString \<Rightarrow> content_monitors \<Rightarrow> content_monitors" where
  "removeWatchedService service c = c\<lparr>fm_watched := removeAll service (fm_watched c)\<rparr>"

definition FileContentIndexer_new :: content_monitors where
  "FileContentIndexer_new = fetchIdleState (addWatchedService IDLE_MONITOR_SERVICE
     \<lparr>fm_registeredMonitors = [], fm_watched = [], fm_sessionIdle = False, fm_fetching = 0\<rparr>)"

definition sessionIdle :: "bool \<Rightarrow> content_monitors \<Rightarrow> content_monitors \<times> indexer_signal list" where
  "sessionIdle isIdle c =
     (c\<lparr>fm_sessionIdle := isIdle\<rparr>, if isIdle \<noteq> fm_sessionIdle c then [indexSpeedChanged isIdle] else [])"

text \<open>What \<open>idlePropertiesChanged\<close> finds under \<open>idle\<close>, and the answer to \<open>fetchIdleState\<close>, if they are booleans.\<close>

definition idlePropertiesChanged :: "bool option \<Rightarrow> content_monitors \<Rightarrow> content_monitors \<times> indexer_signal list" where
  "idlePropertiesChanged idle c = (case idle of None \<Rightarrow> (c, []) | Some isIdle \<Rightarrow> sessionIdle isIdle c)"

definition fetchIdleState_finished :: "bool option \<Rightarrow> content_monitors \<Rightarrow> content_monitors \<times> indexer_signal list" where
  "fetchIdleState_finished reply c =
     (let c' = c\<lparr>fm_fetching := fm_fetching c - 1\<rparr>
      in case reply of None \<Rightarrow> (c', []) | Some isIdle \<Rightarrow> sessionIdle isIdle c')"

definition serviceUnregistered :: "QString \<Rightarrow> content_monitors \<Rightarrow> content_monitors" where
  "serviceUnregistered service c =
     (if service = IDLE_MONITOR_SERVICE then c\<lparr>fm_sessionIdle := False\<rparr>
      else removeWatchedService service (c\<lparr>fm_registeredMonitors := removeAll service (fm_registeredMonitors c)\<rparr>))"

definition serviceRegistered :: "QString \<Rightarrow> content_monitors \<Rightarrow> content_monitors" where
  "serviceRegistered service c = (if service = IDLE_MONITOR_SERVICE then fetchIdleState c else c)"

definition registerMonitor :: "QString \<Rightarrow> content_monitors \<Rightarrow> content_monitors" where
  "registerMonitor serviceName c =
     (if serviceName \<notin> set (fm_registeredMonitors c)
      then addWatchedService serviceName (c\<lparr>fm_registeredMonitors := fm_registeredMonitors c @ [serviceName]\<rparr>)
      else c)"

definition unregisterMonitor :: "QString \<Rightarrow> content_monitors \<Rightarrow> content_monitors" where
  "unregisterMonitor serviceName c =
     (if serviceName \<in> set (fm_registeredMonitors c)
      then removeWatchedService serviceName (c\<lparr>fm_registeredMonitors := removeAll serviceName (fm_registeredMonitors c)\<rparr>)
      else c)"

text \<open>What a message of the extractor makes the indexer signal over D-Bus.\<close>

definition forward_message :: "content_monitors \<Rightarrow> status_message \<Rightarrow> indexer_signal list" where
  "forward_message c msg =
     (if fm_registeredMonitors c = [] then []
      else case msg of
             urlStarted url \<Rightarrow> [startedIndexingFile url]
           | urlProcessed url updated status \<Rightarrow> [finishedIndexingFile url (status = Successful \<and> updated) status]
           | batchFinished \<Rightarrow> [])"

section \<open>The exit of the extractor process\<close>

datatype exit_status = NormalExit | CrashExit

text \<open>The handler of \<open>QProcess::finished\<close>: whether \<open>failed\<close> is emitted.\<close>

definition ExtractorProcess_finished :: "int \<Rightarrow> exit_status \<Rightarrow> bool" where
  "ExtractorProcess_finished exitCode exitStatus =
     (if exitStatus = CrashExit then True
      else if exitCode = 1 then True
      else if exitCode = 2 then True
      else if exitCode = 3 then True
      else if exitCode = 253 then True
      else if exitCode \<noteq> 0 then True
      else False)"

definition ExtractorProcess_setIndexFast :: "bool \<Rightarrow> command_message" where
  "ExtractorProcess_setIndexFast fast = setIndexSpeed (if fast then Fast else Slow)"

section \<open>Registered monitors are watched\<close>

datatype monitor_event =
  Ev_register QString | Ev_unregister QString | Ev_serviceGone QString | Ev_serviceCame QString
| Ev_idleChanged "bool option" | Ev_idleReply "bool option"

primrec monitor_step :: "monitor_event \<Rightarrow> content_monitors \<Rightarrow> content_monitors" where
  "monitor_step (Ev_register s) c = registerMonitor s c"
| "monitor_step (Ev_unregister s) c = unregisterMonitor s c"
| "monitor_step (Ev_serviceGone s) c = serviceUnregistered s c"
| "monitor_step (Ev_serviceCame s) c = serviceRegistered s c"
| "monitor_step (Ev_idleChanged b) c = fst (idlePropertiesChanged b c)"
| "monitor_step (Ev_idleReply b) c = fst (fetchIdleState_finished b c)"

lemmas monitor_defs = registerMonitor_def unregisterMonitor_def serviceUnregistered_def serviceRegistered_def
  idlePropertiesChanged_def fetchIdleState_finished_def sessionIdle_def addWatchedService_def
  removeWatchedService_def fetchIdleState_def Let_def

definition monitors_inv :: "content_monitors \<Rightarrow> bool" where
  "monitors_inv c \<longleftrightarrow> distinct (fm_registeredMonitors c) \<and> distinct (fm_watched c) \<and>
     set (fm_registeredMonitors c) \<subseteq> set (fm_watched c)"

lemma monitor_step_inv: "monitors_inv c \<Longrightarrow> monitors_inv (monitor_step ev c)"
  by (cases ev) (auto simp: monitors_inv_def monitor_defs distinct_removeAll split: option.split)

lemma monitors_watched: "monitors_inv (fold monitor_step events FileContentIndexer_new)"
proof -
  have "monitors_inv FileContentIndexer_new"
    by (simp add: FileContentIndexer_new_def monitors_inv_def monitor_defs)
  then show ?thesis
    by (induction events rule: rev_induct) (auto intro: monitor_step_inv)
qed

text \<open>A monitor that has registered and not left since is signalled every file; one that left is forgotten.\<close>

lemma registered_until_gone:
  "s \<in> set (fm_registeredMonitors (registerMonitor s c))"
  "s \<notin> set (fm_registeredMonitors (unregisterMonitor s c))"
  "s \<noteq> IDLE_MONITOR_SERVICE \<Longrightarrow> s \<notin> set (fm_registeredMonitors (serviceUnregistered s c))"
  by (auto simp: monitor_defs)

lemma process_failed_iff: "ExtractorProcess_finished exitCode exitStatus \<longleftrightarrow> exitStatus = CrashExit \<or> exitCode \<noteq> 0"
  by (auto simp: ExtractorProcess_finished_def)

end
