(* ===== verification/IndexConfig.thy ===== *)
theory IndexConfig
  imports Prelude "HOL-Library.List_Lexorder"
begin

text \<open>
  \<open>fileindexerconfig.cpp\<close>, \<open>regexpcache.cpp\<close> and \<open>fileexcludefilters.cpp\<close>: which folders and files are
  indexed. The settings, \<open>QFileInfo\<close>, \<open>QDir::cleanPath\<close> and the regular expressions of Qt are
  parameters. A folder entry is a path that ends with a slash; the folder cache is a list of entries.
\<close>

section \<open>The default filters\<close>

text \<open>The names are ASCII; \<open>qs\<close> makes them strings of code units.\<close>

definition s_defaultFileExcludeFilters :: "string list" where
  "s_defaultFileExcludeFilters =
    [''*~'', ''*.part'', ''*.o'', ''*.la'', ''*.lo'', ''*.loT'', ''*.moc'', ''moc_*.cpp'', ''qrc_*.cpp'', ''ui_*.h'',
     ''cmake_install.cmake'', ''CMakeCache.txt'', ''CTestTestfile.cmake'', ''libtool'', ''config.status'',
     ''confdefs.h'', ''autom4te'', ''conftest'', ''confstat'', ''Makefile.am'', ''*.gcode'', ''.ninja_deps'',
     ''.ninja_log'', ''build.ninja'', ''*.csproj'', ''*.m4'', ''*.rej'', ''*.gmo'', ''*.pc'', ''*.omf'', ''*.aux'',
     ''*.tmp'', ''*.po'', ''*.vm*'', ''*.nvram'', ''*.rcore'', ''*.swp'', ''*.swap'', ''lzo'', ''litmain.sh'',
     ''*.orig'', ''.histfile.*'', ''.xsession-errors*'', ''*.map'', ''*.so'', ''*.a'', ''*.db'', ''*.qrc'',
     ''*.ini'', ''*.init'', ''*.img'', ''*.vdi'', ''*.vbox*'', ''vbox.log'', ''*.qcow2'', ''*.vmdk'', ''*.vhd'',
     ''*.vhdx'', ''*.sql'', ''*.sql.gz'', ''*.ytdl'', ''*.tfstate*'', ''*.class'', ''*.pyc'', ''*.pyo'', ''*.elc'',
     ''*.qmlc'', ''*.jsc'', ''*.fastq'', ''*.fq'', ''*.gb'', ''*.fasta'', ''*.fna'', ''*.gbff'', ''*.faa'', ''*.fna'']"

definition s_defaultFolderExcludeFilters :: "string list" where
  "s_defaultFolderExcludeFilters =
    [''po'', ''CVS'', ''.svn'', ''.git'', ''_darcs'', ''.bzr'', ''.hg'', ''CMakeFiles'', ''CMakeTmp'',
     ''CMakeTmpQmake'', ''.moc'', ''.obj'', ''.pch'', ''.uic'', ''.npm'', ''.yarn'', ''.yarn-cache'',
     ''__pycache__'', ''node_modules'', ''node_packages'', ''nbproject'', ''.terraform'', ''.venv'', ''venv'',
     ''core-dumps'', ''lost+found'', ''.snapshots'']"

definition s_sourceCodeMimeTypes :: "string list" where
  "s_sourceCodeMimeTypes =
    [''text/css'', ''text/x-c++src'', ''text/x-c++hdr'', ''text/x-csrc'', ''text/x-chdr'', ''text/x-python'',
     ''text/x-assembly'', ''text/x-java'', ''text/x-objsrc'', ''text/x-ruby'', ''text/x-scheme'', ''text/x-pascal'',
     ''text/x-fortran'', ''text/x-erlang'', ''text/x-cmake'', ''text/x-lua'', ''text/x-yacc'', ''text/x-sed'',
     ''text/x-haskell'', ''text/x-copying'', ''text/x-readme'', ''text/x-qml'', ''text/asp'', ''text/jsx'',
     ''text/csx'', ''text/rust'', ''text/vnd.trolltech.linguist'', ''application/x-awk'', ''application/x-cgi'',
     ''application/x-csh'', ''application/x-ipynb+json'', ''application/x-java'', ''application/x-javascript'',
     ''application/x-perl'', ''application/x-php'', ''application/x-python'', ''application/x-sh'',
     ''application/xml'', ''application/javascript'', ''application/json'', ''application/geo+json'',
     ''application/json-patch+json'', ''application/ld+json'', ''application/x-ipynb+json'',
     ''application/pgp-encrypted'', ''model/obj'']"

definition defaultExcludeFilterList :: "QString list" where
  "defaultExcludeFilterList = map qs s_defaultFileExcludeFilters @ map qs s_defaultFolderExcludeFilters"

definition defaultExcludeFilterListVersion :: int where
  "defaultExcludeFilterListVersion = max 9 5"

definition sourceCodeMimeTypes :: "QString list" where
  "sourceCodeMimeTypes = map qs s_sourceCodeMimeTypes"

definition defaultExcludeMimetypesVersion :: int where
  "defaultExcludeMimetypesVersion = 4 + 1"

section \<open>RegExpCache\<close>

text \<open>A regular expression is its pattern; \<open>rx\<close> tells whether a pattern has a match in a string.\<close>

type_synonym regex_api = "QString \<Rightarrow> QString \<Rightarrow> bool"

record RegExpCache =
  m_exactMatches :: "QString list"
  m_regexpCache :: "QString list"

definition exactMatch :: "regex_api \<Rightarrow> RegExpCache \<Rightarrow> QString \<Rightarrow> bool" where
  "exactMatch rx c str =
     (if str \<in> set (m_exactMatches c) then True else list_ex (\<lambda>filter. rx filter str) (m_regexpCache c))"

text \<open>\<open>suffixOnlyRe\<close>: a star, a dot and a suffix without dot, star and question mark; the suffix is captured.\<close>

fun suffixOnly :: "QString \<Rightarrow> QString option" where
  "suffixOnly (a # b # r) =
     (if a = 42 \<and> b = 46 \<and> r \<noteq> [] \<and> list_all (\<lambda>c. c \<noteq> 46 \<and> c \<noteq> 42 \<and> c \<noteq> 63) r then Some r else None)"
| "suffixOnly _ = None"

text \<open>The three replacements: a dot is escaped, then a question mark is any character, then a star any string.\<close>

definition replace_char :: "16 word \<Rightarrow> QString \<Rightarrow> QString \<Rightarrow> QString" where
  "replace_char c by str = concat (map (\<lambda>x. if x = c then by else [x]) str)"

definition glob_regex :: "QString \<Rightarrow> QString" where
  "glob_regex f = qs ''^'' @ replace_char 42 (qs ''.*'') (replace_char 63 (qs ''.'') (replace_char 46 [92, 46] f)) @ qs ''$''"

definition join_with :: "QString \<Rightarrow> QString list \<Rightarrow> QString" where
  "join_with sep strs = (case strs of [] \<Rightarrow> [] | s # ss \<Rightarrow> s @ concat (map (\<lambda>x. sep @ x) ss))"

definition add_filter ::
  "QString list \<times> QString list \<times> QString list \<Rightarrow> QString \<Rightarrow> QString list \<times> QString list \<times> QString list" where
  "add_filter = (\<lambda>(exact, endings, regexps) f.
     if 42 \<notin> set f \<and> 63 \<notin> set f then (exact @ [f], endings, regexps)
     else case suffixOnly f of
            Some suffx \<Rightarrow> (exact, endings @ [suffx], regexps)
          | None \<Rightarrow> (exact, endings, regexps @ [glob_regex f]))"

definition rebuildCacheFromFilterList :: "QString list \<Rightarrow> RegExpCache" where
  "rebuildCacheFromFilterList filters =
     (case foldl add_filter ([], [], []) filters of (exact, endings, regexps) \<Rightarrow>
        let suffixMatch = qs ''^.*'' @ [92, 46] @ qs ''('' @ join_with (qs ''|'') endings @ qs '')$''
        in \<lparr>m_exactMatches = exact, m_regexpCache = suffixMatch # regexps\<rparr>)"

section \<open>The folder cache\<close>

record FolderConfig =
  fc_path :: QString
  fc_isIncluded :: bool

definition FolderConfig_less :: "FolderConfig \<Rightarrow> FolderConfig \<Rightarrow> bool" where
  "FolderConfig_less a b \<longleftrightarrow> length (fc_path a) > length (fc_path b) \<or>
     length (fc_path a) = length (fc_path b) \<and> fc_path a < fc_path b"

fun normalizeTrailingSlashes_chop :: "QString \<Rightarrow> QString" where
  "normalizeTrailingSlashes_chop rev_path =
     (case rev_path of [] \<Rightarrow> [] | c # cs \<Rightarrow> if c = 47 then normalizeTrailingSlashes_chop cs else rev_path)"

declare normalizeTrailingSlashes_chop.simps [simp del]

definition normalizeTrailingSlashes :: "QString \<Rightarrow> QString" where
  "normalizeTrailingSlashes path = rev (normalizeTrailingSlashes_chop (rev path)) @ [47]"

text \<open>\<open>std::lower_bound\<close> on the sorted cache, and the insertion at that place.\<close>

definition addFolderConfig ::
  "(QString \<Rightarrow> QString) \<Rightarrow> FolderConfig \<Rightarrow> FolderConfig list \<Rightarrow> bool \<times> FolderConfig list" where
  "addFolderConfig cleanPath config cache =
     (if fc_path config = [] then (False, cache)
      else
        let newConfig = config\<lparr>fc_path := cleanPath (fc_path config) @ [47]\<rparr>;
            before = takeWhile (\<lambda>e. FolderConfig_less e newConfig) cache;
            after = dropWhile (\<lambda>e. FolderConfig_less e newConfig) cache
        in if after \<noteq> [] \<and> fc_path (hd after) = fc_path newConfig then (False, cache)
           else (True, before @ [newConfig] @ after))"

text \<open>\<open>cleanup\<close>, from an entry on: \<open>keepAllIncluded\<close> is true.\<close>

primrec cleanup :: "FolderConfig list \<Rightarrow> FolderConfig list" where
  "cleanup [] = []"
| "cleanup (entry # rest) =
     (if fc_isIncluded entry then entry # cleanup rest
      else
        case List.find (\<lambda>parent. prefix (fc_path parent) (fc_path entry)) rest of
          Some parent \<Rightarrow> if fc_isIncluded entry = fc_isIncluded parent then cleanup rest else entry # cleanup rest
        | None \<Rightarrow> if \<not> fc_isIncluded entry then cleanup rest else entry # cleanup rest)"

text \<open>A storage device: its mount path and whether it is usable.\<close>

type_synonym device = "QString \<times> bool"

definition add_all :: "(QString \<Rightarrow> QString) \<Rightarrow> bool \<Rightarrow> QString list \<Rightarrow> FolderConfig list \<Rightarrow> FolderConfig list" where
  "add_all cleanPath included folders cache =
     foldl (\<lambda>cache folder. snd (addFolderConfig cleanPath \<lparr>fc_path = folder, fc_isIncluded = included\<rparr> cache)) cache folders"

definition ignored_media :: "QString list \<Rightarrow> device list \<Rightarrow> QString list" where
  "ignored_media includeFolders allMedia =
     map fst (filter (\<lambda>(mountPath, usable). \<not> usable \<and> mountPath \<noteq> [] \<and> mountPath \<notin> set includeFolders) allMedia)"

definition buildFolderCache ::
  "(QString \<Rightarrow> QString) \<Rightarrow> QString list \<Rightarrow> QString list \<Rightarrow> device list \<Rightarrow> FolderConfig list" where
  "buildFolderCache cleanPath includeFolders excludeFolders allMedia =
     (let cache = add_all cleanPath True includeFolders [];
          cache = add_all cleanPath False excludeFolders cache;
          cache = add_all cleanPath False (ignored_media includeFolders allMedia) cache
      in cleanup cache)"

text \<open>\<open>folderInFolderList\<close>: \<open>Some folder\<close> is the result true.\<close>

definition folderInFolderList :: "FolderConfig list \<Rightarrow> QString \<Rightarrow> QString option" where
  "folderInFolderList cache path =
     (let p = normalizeTrailingSlashes path
      in case List.find (\<lambda>entry. prefix (fc_path entry) p) cache of
           Some entry \<Rightarrow> if fc_isIncluded entry then Some (fc_path entry) else None
         | None \<Rightarrow> None)"

section \<open>FileIndexerConfig\<close>

record file_info =
  fi_isDir :: "QString \<Rightarrow> bool"
  fi_isFile :: "QString \<Rightarrow> bool"
  fi_isSymLink :: "QString \<Rightarrow> bool"
  fi_isHidden :: "QString \<Rightarrow> bool"
  fi_exists :: "QString \<Rightarrow> bool"
  fi_absolutePath :: "QString \<Rightarrow> QString"
  fi_fileName :: "QString \<Rightarrow> QString"

record BalooSettings =
  bs_folders :: "QString list"
  bs_excludedFolders :: "QString list"
  bs_excludedFilters :: "QString list"
  bs_excludedFiltersVersion :: int
  bs_excludedMimetypes :: "QString list"
  bs_indexHiddenFolders :: bool
  bs_onlyBasicIndexing :: bool
  bs_indexingEnabled :: bool
  bs_dbVersion :: int

record FileIndexerConfig =
  ic_settings :: BalooSettings
  ic_folderCache :: "FolderConfig list"
  ic_folderCacheDirty :: bool
  ic_excludeFilterRegExpCache :: RegExpCache
  ic_excludeMimetypes :: "QString list"
  ic_indexHidden :: bool
  ic_onlyBasicIndexing :: bool
  ic_maxUncomittedFiles :: u32

definition updateExcludeFilters :: "BalooSettings \<Rightarrow> BalooSettings" where
  "updateExcludeFilters settings =
     (let version = defaultExcludeFilterListVersion; filters = bs_excludedFilters settings
      in if bs_excludedFiltersVersion settings < version then
           settings\<lparr>bs_excludedFilters := rev (remdups (rev (filters @ defaultExcludeFilterList))),
             bs_excludedFiltersVersion := version\<rparr>
         else settings)"

text \<open>\<open>forceConfigUpdate\<close>, after the settings have been read as \<open>settings\<close>.\<close>

definition forceConfigUpdate :: "BalooSettings \<Rightarrow> FileIndexerConfig \<Rightarrow> FileIndexerConfig" where
  "forceConfigUpdate settings c =
     c\<lparr>ic_settings := settings, ic_folderCacheDirty := True,
       ic_excludeFilterRegExpCache := rebuildCacheFromFilterList (bs_excludedFilters settings),
       ic_excludeMimetypes := bs_excludedMimetypes settings,
       ic_indexHidden := bs_indexHiddenFolders settings,
       ic_onlyBasicIndexing := bs_onlyBasicIndexing settings\<rparr>"

definition FileIndexerConfig_new :: "BalooSettings \<Rightarrow> FileIndexerConfig" where
  "FileIndexerConfig_new settings =
     (let s = updateExcludeFilters settings
      in forceConfigUpdate s
           \<lparr>ic_settings = s, ic_folderCache = [], ic_folderCacheDirty = True,
            ic_excludeFilterRegExpCache = \<lparr>m_exactMatches = [], m_regexpCache = []\<rparr>, ic_excludeMimetypes = [],
            ic_indexHidden = False, ic_onlyBasicIndexing = False, ic_maxUncomittedFiles = 40\<rparr>)"

text \<open>The const functions build the cache first, where it is dirty; here that is a step of its own.\<close>

definition refreshFolderCache :: "(QString \<Rightarrow> QString) \<Rightarrow> device list \<Rightarrow> FileIndexerConfig \<Rightarrow> FileIndexerConfig" where
  "refreshFolderCache cleanPath allMedia c =
     (if \<not> ic_folderCacheDirty c then c
      else c\<lparr>ic_folderCache := buildFolderCache cleanPath (bs_folders (ic_settings c)) (bs_excludedFolders (ic_settings c)) allMedia,
             ic_folderCacheDirty := False\<rparr>)"

definition config_includeFolders :: "FileIndexerConfig \<Rightarrow> QString list" where
  "config_includeFolders c = map fc_path (filter fc_isIncluded (ic_folderCache c))"

definition config_excludeFolders :: "FileIndexerConfig \<Rightarrow> QString list" where
  "config_excludeFolders c = map fc_path (filter (\<lambda>e. \<not> fc_isIncluded e) (ic_folderCache c))"

definition shouldFileBeIndexed :: "regex_api \<Rightarrow> FileIndexerConfig \<Rightarrow> QString \<Rightarrow> bool" where
  "shouldFileBeIndexed rx c fileName =
     (if \<not> ic_indexHidden c \<and> prefix [46] fileName then False
      else \<not> exactMatch rx (ic_excludeFilterRegExpCache c) fileName)"

definition shouldFolderBeIndexed :: "regex_api \<Rightarrow> FileIndexerConfig \<Rightarrow> QString \<Rightarrow> bool" where
  "shouldFolderBeIndexed rx c path =
     (let normalizedPath = normalizeTrailingSlashes path
      in case folderInFolderList (ic_folderCache c) normalizedPath of
           None \<Rightarrow> False
         | Some folder \<Rightarrow>
             if folder = normalizedPath then True
             else list_all (shouldFileBeIndexed rx c) (split_skip_empty 47 (drop (length folder) normalizedPath) []))"

definition shouldBeIndexed :: "regex_api \<Rightarrow> 'z file_info_scheme \<Rightarrow> FileIndexerConfig \<Rightarrow> QString \<Rightarrow> bool" where
  "shouldBeIndexed rx fi c path =
     (if fi_isDir fi path then shouldFolderBeIndexed rx c path
      else shouldFolderBeIndexed rx c (fi_absolutePath fi path) \<and> (\<not> fi_isHidden fi path \<or> ic_indexHidden c) \<and>
           shouldFileBeIndexed rx c (fi_fileName fi path))"

definition shouldMimeTypeBeIndexed :: "FileIndexerConfig \<Rightarrow> QString \<Rightarrow> bool" where
  "shouldMimeTypeBeIndexed c mimeType \<longleftrightarrow> mimeType \<notin> set (ic_excludeMimetypes c)"

definition canBeSearched :: "regex_api \<Rightarrow> 'z file_info_scheme \<Rightarrow> FileIndexerConfig \<Rightarrow> QString \<Rightarrow> bool" where
  "canBeSearched rx fi c folder =
     (let path = fi_absolutePath fi folder
      in if \<not> fi_isDir fi folder then False
         else if shouldFolderBeIndexed rx c path then True
         else list_ex (\<lambda>entry. fc_isIncluded entry \<and> prefix path (fc_path entry)) (ic_folderCache c))"

definition setDatabaseVersion :: "int \<Rightarrow> FileIndexerConfig \<Rightarrow> FileIndexerConfig" where
  "setDatabaseVersion version c = c\<lparr>ic_settings := (ic_settings c)\<lparr>bs_dbVersion := version\<rparr>\<rparr>"

section \<open>The decision for a folder\<close>

text \<open>
  The configured folders in order (the first entry for a folder counts), and the decision of the longest
  configured folder that a path starts with: \<open>Some folder\<close> where that folder is included.
\<close>

definition configured :: "(QString \<Rightarrow> QString) \<Rightarrow> bool \<Rightarrow> QString list \<Rightarrow> (QString \<times> bool) list" where
  "configured cleanPath included folders = map (\<lambda>f. (cleanPath f @ [47], included)) (filter (\<lambda>f. f \<noteq> []) folders)"

definition folder_settings ::
  "(QString \<Rightarrow> QString) \<Rightarrow> QString list \<Rightarrow> QString list \<Rightarrow> device list \<Rightarrow> QString \<Rightarrow> bool option" where
  "folder_settings cleanPath includeFolders excludeFolders allMedia =
     map_of (configured cleanPath True includeFolders @ configured cleanPath False excludeFolders @
             configured cleanPath False (ignored_media includeFolders allMedia))"

primrec nearest_folder :: "(QString \<Rightarrow> bool option) \<Rightarrow> QString \<Rightarrow> nat \<Rightarrow> QString option" where
  "nearest_folder m p 0 = (if m [] = Some True then Some [] else None)"
| "nearest_folder m p (Suc n) =
     (case m (take (Suc n) p) of
        Some included \<Rightarrow> if included then Some (take (Suc n) p) else None
      | None \<Rightarrow> nearest_folder m p n)"

text \<open>The same over the cache: its order, the settings it holds and the first entry that fits.\<close>

definition in_order :: "FolderConfig list \<Rightarrow> bool" where
  "in_order cache = sorted_wrt FolderConfig_less cache"

definition cache_map :: "FolderConfig list \<Rightarrow> QString \<Rightarrow> bool option" where
  "cache_map cache = map_of (map (\<lambda>e. (fc_path e, fc_isIncluded e)) cache)"

definition first_folder :: "FolderConfig list \<Rightarrow> QString \<Rightarrow> QString option" where
  "first_folder cache p =
     (case List.find (\<lambda>entry. prefix (fc_path entry) p) cache of
        Some entry \<Rightarrow> if fc_isIncluded entry then Some (fc_path entry) else None
      | None \<Rightarrow> None)"

lemma cache_map_simps [simp]:
  "cache_map [] = Map.empty"
  "cache_map (e # es) = (cache_map es)(fc_path e \<mapsto> fc_isIncluded e)"
  by (simp_all add: cache_map_def)

lemma cache_map_append: "cache_map (xs @ ys) = cache_map ys ++ cache_map xs"
  by (simp add: cache_map_def)

lemma cache_map_None: "cache_map cache q = None \<longleftrightarrow> q \<notin> fc_path ` set cache"
  by (induction cache) auto

lemma in_order_simps [simp]:
  "in_order []"
  "in_order (e # es) \<longleftrightarrow> (\<forall>x \<in> set es. FolderConfig_less e x) \<and> in_order es"
  by (simp_all add: in_order_def)

lemma first_folder_simps [simp]:
  "first_folder [] p = None"
  "first_folder (e # es) p =
     (if prefix (fc_path e) p then if fc_isIncluded e then Some (fc_path e) else None else first_folder es p)"
  by (simp_all add: first_folder_def)

lemma FolderConfig_less_order:
  "\<not> (FolderConfig_less a b \<and> fc_path a = fc_path b)"
  "FolderConfig_less a b \<Longrightarrow> FolderConfig_less b c \<Longrightarrow> FolderConfig_less a c"
  "FolderConfig_less a b \<or> fc_path a = fc_path b \<or> FolderConfig_less b a"
  by (auto simp: FolderConfig_less_def)

lemma FolderConfig_less_length: "FolderConfig_less a b \<Longrightarrow> length (fc_path b) \<le> length (fc_path a)"
  by (auto simp: FolderConfig_less_def)

text \<open>Insertion keeps the order, and an entry that is already there keeps its setting.\<close>

lemma takeWhile_dropWhile_in_order:
  assumes "in_order cache"
  shows "in_order (takeWhile P cache)" "in_order (dropWhile P cache)"
  using assms by (simp_all add: in_order_def sorted_wrt_takeWhile sorted_wrt_dropWhile)

lemma addFolderConfig_sorted:
  assumes "in_order cache" and "f \<noteq> []"
  shows "in_order (snd (addFolderConfig cp \<lparr>fc_path = f, fc_isIncluded = b\<rparr> cache))"
    "cache_map (snd (addFolderConfig cp \<lparr>fc_path = f, fc_isIncluded = b\<rparr> cache)) =
       [cp f @ [47] \<mapsto> b] ++ cache_map cache"
proof -
  define n where "n = \<lparr>fc_path = cp f @ [47], fc_isIncluded = b\<rparr>"
  define xs where "xs = takeWhile (\<lambda>e. FolderConfig_less e n) cache"
  define ys where "ys = dropWhile (\<lambda>e. FolderConfig_less e n) cache"
  have split: "cache = xs @ ys"
    by (simp add: xs_def ys_def)
  have xs_less: "\<forall>x \<in> set xs. FolderConfig_less x n"
    unfolding xs_def by (auto dest: set_takeWhileD)
  have add: "snd (addFolderConfig cp \<lparr>fc_path = f, fc_isIncluded = b\<rparr> cache) =
               (if ys \<noteq> [] \<and> fc_path (hd ys) = fc_path n then cache else xs @ n # ys)"
    using assms(2) by (simp add: addFolderConfig_def n_def xs_def ys_def Let_def)
  have ordered: "in_order (xs @ ys)"
    using assms(1) split by simp
  show "in_order (snd (addFolderConfig cp \<lparr>fc_path = f, fc_isIncluded = b\<rparr> cache))"
    "cache_map (snd (addFolderConfig cp \<lparr>fc_path = f, fc_isIncluded = b\<rparr> cache)) =
       [cp f @ [47] \<mapsto> b] ++ cache_map cache"
  proof (atomize (full), cases "ys \<noteq> [] \<and> fc_path (hd ys) = fc_path n")
    case True
    then have "fc_path n \<in> fc_path ` set cache"
      using split by (metis Un_iff hd_in_set imageI set_append)
    then have "cache_map cache (cp f @ [47]) \<noteq> None"
      by (simp add: cache_map_None n_def)
    then show "in_order (snd (addFolderConfig cp \<lparr>fc_path = f, fc_isIncluded = b\<rparr> cache)) \<and>
        cache_map (snd (addFolderConfig cp \<lparr>fc_path = f, fc_isIncluded = b\<rparr> cache)) =
        [cp f @ [47] \<mapsto> b] ++ cache_map cache"
      using True assms(1) by (auto simp: add fun_eq_iff map_add_def split: option.split)
  next
    case False
    have ys_less: "\<forall>y \<in> set ys. FolderConfig_less n y"
    proof (cases ys)
      case (Cons y zs)
      then have "\<not> FolderConfig_less y n"
        by (metis ys_def hd_dropWhile list.discI list.sel(1))
      then have "FolderConfig_less n y"
        using False Cons FolderConfig_less_order(3) by auto
      then show ?thesis
        using ordered Cons FolderConfig_less_order(2) by (auto simp: in_order_def sorted_wrt_append)
    qed simp
    have fresh: "fc_path n \<notin> fc_path ` set (xs @ ys)"
    proof
      assume "fc_path n \<in> fc_path ` set (xs @ ys)"
      then obtain x where "fc_path x = fc_path n" and "FolderConfig_less x n \<or> FolderConfig_less n x"
        using xs_less ys_less by auto
      then show False
        using FolderConfig_less_order(1) by metis
    qed
    have "in_order (xs @ n # ys)"
      using ordered xs_less ys_less FolderConfig_less_order(2)
      by (auto simp: in_order_def sorted_wrt_append)
    moreover have "cache_map (xs @ n # ys) = [fc_path n \<mapsto> b] ++ cache_map (xs @ ys)"
    proof
      fix k
      have "cache_map xs (fc_path n) = None" "cache_map ys (fc_path n) = None"
        using fresh by (auto simp: cache_map_None)
      then show "cache_map (xs @ n # ys) k = ([fc_path n \<mapsto> b] ++ cache_map (xs @ ys)) k"
        by (cases "k = fc_path n") (simp_all add: cache_map_append map_add_def n_def split: option.split)
    qed
    ultimately show "in_order (snd (addFolderConfig cp \<lparr>fc_path = f, fc_isIncluded = b\<rparr> cache)) \<and>
        cache_map (snd (addFolderConfig cp \<lparr>fc_path = f, fc_isIncluded = b\<rparr> cache)) =
        [cp f @ [47] \<mapsto> b] ++ cache_map cache"
      unfolding add using False by (auto simp: split n_def)
  qed
qed

lemma add_all_sorted:
  "in_order cache \<Longrightarrow>
     in_order (add_all cp b folders cache) \<and>
     cache_map (add_all cp b folders cache) = map_of (configured cp b folders) ++ cache_map cache"
proof (induction folders arbitrary: cache)
  case (Cons f folders)
  show ?case
  proof (cases "f = []")
    case True
    then show ?thesis
      using Cons by (simp add: add_all_def configured_def addFolderConfig_def)
  next
    case False
    let ?new = "snd (addFolderConfig cp \<lparr>fc_path = f, fc_isIncluded = b\<rparr> cache)"
    have "map_of (configured cp b folders) ++ ([cp f @ [47] \<mapsto> b] ++ cache_map cache) =
          map_of (configured cp b (f # folders)) ++ cache_map cache"
      using False
      by (auto simp: configured_def fun_eq_iff map_add_def dest!: map_of_SomeD split: option.splits)
    then show ?thesis
      using Cons.IH[of ?new] addFolderConfig_sorted[OF Cons.prems False] by (simp add: add_all_def)
  qed
qed (simp add: add_all_def configured_def)

text \<open>The cleaned cache decides as the cache does.\<close>

lemma first_folder_below:
  assumes "in_order (e # es)" and "prefix (fc_path e) p"
  shows "List.find (\<lambda>x. prefix (fc_path x) p) es = List.find (\<lambda>x. prefix (fc_path x) (fc_path e)) es"
proof -
  have "prefix (fc_path x) p \<longleftrightarrow> prefix (fc_path x) (fc_path e)" if "x \<in> set es" for x
    using that assms FolderConfig_less_length prefix_length_prefix by (metis in_order_simps(2) prefix_order.trans)
  then show ?thesis
    by (metis (mono_tags, lifting) find_cong)
qed

lemma first_folder_cleanup: "in_order cache \<Longrightarrow> first_folder (cleanup cache) p = first_folder cache p"
proof (induction cache)
  case (Cons e es)
  have below: "prefix (fc_path e) p \<Longrightarrow>
      List.find (\<lambda>x. prefix (fc_path x) p) es = List.find (\<lambda>x. prefix (fc_path x) (fc_path e)) es"
    using first_folder_below[OF Cons.prems] .
  show ?case
    using Cons below by (auto simp: first_folder_def split: option.splits)
qed simp

text \<open>The first entry that fits is the longest one.\<close>

lemma nearest_folder_skip:
  assumes "n \<le> N" and "\<And>k. n < k \<Longrightarrow> k \<le> N \<Longrightarrow> m (take k p) = None"
  shows "nearest_folder m p N = nearest_folder m p n"
  using assms
proof (induction N)
  case (Suc N)
  then show ?case
    by (cases "n = Suc N") auto
qed simp

lemma nearest_folder_cong:
  "(\<And>k. k \<le> n \<Longrightarrow> m (take k p) = m' (take k p)) \<Longrightarrow> nearest_folder m p n = nearest_folder m' p n"
proof (induction n)
  case 0
  then show ?case
    using "0"[of 0] by simp
next
  case (Suc n)
  then show ?case
    using Suc.prems[of "Suc n"] by (auto split: option.split)
qed

lemma nearest_folder_at:
  "n \<le> length p \<Longrightarrow> m (take n p) = Some b \<Longrightarrow> nearest_folder m p n = (if b then Some (take n p) else None)"
  by (cases n) auto

lemma first_folder_nearest:
  "in_order cache \<Longrightarrow> first_folder cache p = nearest_folder (cache_map cache) p (length p)"
proof (induction cache)
  case Nil
  have "nearest_folder Map.empty p n = None" for n
    by (induction n) simp_all
  then show ?case
    by simp
next
  case (Cons e es)
  show ?case
  proof (cases "prefix (fc_path e) p")
    case True
    let ?n = "length (fc_path e)"
    have at: "take ?n p = fc_path e" and len: "?n \<le> length p"
      using True by (auto simp: prefix_def)
    have "cache_map (e # es) (take k p) = None" if "?n < k" "k \<le> length p" for k
    proof -
      have "take k p \<noteq> fc_path x" if "x \<in> set (e # es)" for x
      proof
        assume "take k p = fc_path x"
        then have "length (fc_path x) = k"
          using \<open>k \<le> length p\<close> by (metis length_take min.absorb2)
        then show False
          using that \<open>?n < k\<close> Cons.prems FolderConfig_less_length[of e x] by auto
      qed
      then show ?thesis
        by (auto simp: cache_map_None simp del: cache_map_simps)
    qed
    then have "nearest_folder (cache_map (e # es)) p (length p) = nearest_folder (cache_map (e # es)) p ?n"
      using len nearest_folder_skip by blast
    also have "\<dots> = (if fc_isIncluded e then Some (fc_path e) else None)"
      using nearest_folder_at[OF len, of "cache_map (e # es)" "fc_isIncluded e"] at by simp
    finally show ?thesis
      using True by (simp del: cache_map_simps)
  next
    case False
    have "cache_map (e # es) (take k p) = cache_map es (take k p)" for k
      using False take_is_prefix[of k p] by auto
    then show ?thesis
      using Cons False nearest_folder_cong[of "length p" "cache_map (e # es)" p "cache_map es"]
      by (simp del: cache_map_simps)
  qed
qed

lemma normalizeTrailingSlashes_idem [simp]:
  "normalizeTrailingSlashes (normalizeTrailingSlashes p) = normalizeTrailingSlashes p"
proof -
  have chop: "normalizeTrailingSlashes_chop r = dropWhile (\<lambda>c. c = 47) r" for r
    by (induction r) (simp_all add: normalizeTrailingSlashes_chop.simps)
  have "r = [] \<or> hd r \<noteq> 47 \<Longrightarrow> dropWhile (\<lambda>c. c = 47) r = r" for r :: QString
    by (cases r) auto
  then show ?thesis
    by (simp add: normalizeTrailingSlashes_def chop)
qed

lemma buildFolderCache_decides:
  "folderInFolderList (buildFolderCache cp incl excl media) path =
     nearest_folder (folder_settings cp incl excl media)
       (normalizeTrailingSlashes path) (length (normalizeTrailingSlashes path))"
proof -
  define c1 where "c1 = add_all cp True incl []"
  define c2 where "c2 = add_all cp False excl c1"
  define c3 where "c3 = add_all cp False (ignored_media incl media) c2"
  have s1: "in_order c1 \<and> cache_map c1 = map_of (configured cp True incl)"
    using add_all_sorted[of "[]" cp True incl] by (simp add: c1_def)
  have s2: "in_order c2 \<and> cache_map c2 = map_of (configured cp False excl) ++ cache_map c1"
    using add_all_sorted s1 unfolding c2_def by blast
  have s3: "in_order c3 \<and>
      cache_map c3 = map_of (configured cp False (ignored_media incl media)) ++ cache_map c2"
    using add_all_sorted s2 unfolding c3_def by blast
  have "cache_map c3 = folder_settings cp incl excl media"
    using s1 s2 s3 by (simp add: folder_settings_def)
  then show ?thesis
    using first_folder_nearest[of c3] first_folder_cleanup[of c3] s3
    by (simp add: folderInFolderList_def buildFolderCache_def c1_def c2_def c3_def first_folder_def Let_def)
qed

text \<open>The decision for a path, after the configuration has been read and the cache was built from it.\<close>

lemma shouldFolderBeIndexed_decides:
  defines "p \<equiv> \<lambda>path. normalizeTrailingSlashes path"
  assumes "config = refreshFolderCache cp media (forceConfigUpdate settings c)"
  shows "shouldFolderBeIndexed rx config path =
     (case nearest_folder (folder_settings cp (bs_folders settings) (bs_excludedFolders settings) media)
             (p path) (length (p path)) of
        None \<Rightarrow> False
      | Some folder \<Rightarrow> list_all (shouldFileBeIndexed rx config) (split_skip_empty 47 (drop (length folder) (p path)) []))"
proof -
  have cache: "ic_folderCache config =
      buildFolderCache cp (bs_folders settings) (bs_excludedFolders settings) media"
    by (simp add: assms(2) refreshFolderCache_def forceConfigUpdate_def)
  show ?thesis
    by (auto simp: shouldFolderBeIndexed_def cache buildFolderCache_decides p_def Let_def split: option.split)
qed

end
