(* ===== verification/BasicIndexing.thy ===== *)
theory BasicIndexing
  imports TermIndex IdUtils UrlDB IndexConfig
begin

text \<open>
  \<open>basicindexingjob.cpp\<close>: what is indexed of a file without reading its content. The file system, the
  MIME database, \<open>QFile::encodeName\<close> and KFileMetaData's attributes and type numbers are the record
  \<open>file_world\<close>, which extends the \<open>QFileInfo\<close> of the configuration; a job reads one state of it.
\<close>

datatype KFileType =
  Type_Archive | Type_Audio | Type_Video | Type_Image | Type_Document | Type_Spreadsheet | Type_Presentation
| Type_Text | Type_Folder

text \<open>
  The filter of a \<open>FilteredDirIterator\<close>; \<open>fw_entries\<close> are the paths that \<open>QDirIterator\<close> gives for it: readable
  entries without \<open>.\<close>, \<open>..\<close> and symbolic links.
\<close>

datatype dir_filter = DirsOnly | FilesAndDirs

text \<open>\<open>um_queryAttributes\<close>: the file has tags, a rating or a comment.\<close>

record UserMetaData =
  um_queryAttributes :: bool
  um_tags :: "QString list"
  um_rating :: int
  um_userComment :: QString

record file_world = file_info +
  fw_fs :: fs_api
  fw_encodeName :: "QString \<Rightarrow> bytes"
  fw_decodeName :: "bytes \<Rightarrow> QString"
  fw_lastModified :: "QString \<Rightarrow> int"
  fw_metadataChangeTime :: "QString \<Rightarrow> int"
  fw_mimeTypeForFile :: "QString \<Rightarrow> QString"
  fw_userMetaData :: "QString \<Rightarrow> UserMetaData"
  fw_typeNumber :: "KFileType \<Rightarrow> int"
  fw_entries :: "dir_filter \<Rightarrow> QString \<Rightarrow> QString list"

section \<open>\<open>QByteArray::number\<close>\<close>

fun digits_of :: "nat \<Rightarrow> bytes" where
  "digits_of n = (if n < 10 then [word_of_nat (48 + n)] else digits_of (n div 10) @ [word_of_nat (48 + n mod 10)])"

declare digits_of.simps [simp del]

definition QByteArray_number :: "int \<Rightarrow> bytes" where
  "QByteArray_number i = (if i < 0 then 45 # digits_of (nat (- i)) else digits_of (nat i))"

section \<open>Attributes and types\<close>

definition indexXAttr_tag :: "qt_text \<Rightarrow> TermGenerator \<Rightarrow> QString \<Rightarrow> TermGenerator" where
  "indexXAttr_tag qt tg tag =
     (let tg1 = TermGenerator_indexXattrText qt tg tag (lit ''TA'')
      in tg1\<lparr>m_doc := Document_addXattrTerm (m_doc tg1) (lit ''TAG-'' @ qt_toUtf8 qt tag)\<rparr>)"

definition indexXAttr :: "qt_text \<Rightarrow> 'z file_world_scheme \<Rightarrow> QString \<Rightarrow> Document \<Rightarrow> Document" where
  "indexXAttr qt w url doc =
     (let userMetaData = fw_userMetaData w url
      in if \<not> um_queryAttributes userMetaData then doc
         else
           let tg1 = foldl (indexXAttr_tag qt) (TermGenerator_new doc) (um_tags userMetaData);
               rating = um_rating userMetaData;
               tg2 = (if rating \<noteq> 0
                      then tg1\<lparr>m_doc := Document_addXattrTerm (m_doc tg1) (lit ''R'' @ QByteArray_number rating)\<rparr>
                      else tg1);
               comment = um_userComment userMetaData;
               tg3 = (if comment \<noteq> [] then TermGenerator_indexXattrText qt tg2 comment (lit ''C'') else tg2)
           in m_doc tg3)"

text \<open>The entries of \<open>typeMapper\<close>; the order of the values of one key does not matter to the callers.\<close>

definition typeMapper :: "(string \<times> KFileType) list" where
  "typeMapper =
    [(''text/plain'', Type_Document), (''application/msword'', Type_Document),
     (''application/x-scribus'', Type_Document),
     (''application/vnd.openxmlformats-officedocument.presentationml.presentation'', Type_Presentation),
     (''application/vnd.openxmlformats-officedocument.presentationml.slideshow'', Type_Presentation),
     (''application/vnd.openxmlformats-officedocument.presentationml.template'', Type_Presentation),
     (''application/vnd.openxmlformats-officedocument.spreadsheetml.sheet'', Type_Spreadsheet),
     (''application/vnd.oasis.opendocument.presentation'', Type_Presentation),
     (''application/vnd.oasis.opendocument.spreadsheet'', Type_Spreadsheet),
     (''application/pdf'', Type_Document), (''application/postscript'', Type_Document),
     (''application/x-dvi'', Type_Document), (''application/rtf'', Type_Document),
     (''application/epub+zip'', Type_Document), (''application/vnd.amazon.mobi8-ebook'', Type_Document),
     (''application/x-mobipocket-ebook'', Type_Document), (''application/vnd.comicbook-rar'', Type_Document),
     (''application/vnd.comicbook+zip'', Type_Document), (''application/x-cb7'', Type_Document),
     (''application/x-cbt'', Type_Document), (''application/gzip'', Type_Archive),
     (''application/x-tar'', Type_Archive), (''application/x-tarz'', Type_Archive),
     (''application/x-arc'', Type_Archive), (''application/x-archive'', Type_Archive),
     (''application/x-bzip'', Type_Archive), (''application/x-cpio'', Type_Archive),
     (''application/x-lha'', Type_Archive), (''application/x-lhz'', Type_Archive),
     (''application/x-lrzip'', Type_Archive), (''application/x-lz4'', Type_Archive),
     (''application/x-lzip'', Type_Archive), (''application/x-lzma'', Type_Archive),
     (''application/x-lzop'', Type_Archive), (''application/x-7z-compressed'', Type_Archive),
     (''application/x-ace'', Type_Archive), (''application/x-astrotite-afa'', Type_Archive),
     (''application/x-alz'', Type_Archive), (''application/vnd.android.package-archive'', Type_Archive),
     (''application/x-arj'', Type_Archive), (''application/vnd.ms-cab-compressed'', Type_Archive),
     (''application/x-cfs-compressed'', Type_Archive), (''application/x-dar'', Type_Archive),
     (''application/x-lzh'', Type_Archive), (''application/x-lzx'', Type_Archive),
     (''application/vnd.rar'', Type_Archive), (''application/x-stuffit'', Type_Archive),
     (''application/x-stuffitx'', Type_Archive), (''application/x-tzo'', Type_Archive),
     (''application/x-ustar'', Type_Archive), (''application/x-xar'', Type_Archive),
     (''application/x-xz'', Type_Archive), (''application/x-zoo'', Type_Archive),
     (''application/zip'', Type_Archive), (''application/zlib'', Type_Archive),
     (''application/zstd'', Type_Archive), (''application/wps-office.doc'', Type_Document),
     (''application/wps-office.xls'', Type_Document), (''application/wps-office.xls'', Type_Spreadsheet),
     (''application/wps-office.pot'', Type_Document), (''application/wps-office.pot'', Type_Presentation),
     (''application/wps-office.wps'', Type_Document), (''application/wps-office.docx'', Type_Document),
     (''application/wps-office.xlsx'', Type_Document), (''application/wps-office.xlsx'', Type_Spreadsheet),
     (''application/wps-office.pptx'', Type_Document), (''application/wps-office.pptx'', Type_Presentation),
     (''text/markdown'', Type_Document), (''image/vnd.djvu+multipage'', Type_Document),
     (''application/x-lyx'', Type_Document)]"

definition typesForMimeType :: "QString \<Rightarrow> KFileType list" where
  "typesForMimeType mimeType =
     (let types = [];
          types = (if prefix (qs ''audio/'') mimeType then types @ [Type_Audio] else types);
          types = (if prefix (qs ''video/'') mimeType then types @ [Type_Video] else types);
          types = (if prefix (qs ''image/'') mimeType then types @ [Type_Image] else types);
          types = (if prefix (qs ''text/'') mimeType then types @ [Type_Text] else types);
          types = (if sublist (qs ''document'') mimeType then types @ [Type_Document] else types);
          types = (if sublist (qs ''powerpoint'') mimeType then types @ [Type_Presentation, Type_Document] else types);
          types = (if sublist (qs ''excel'') mimeType then types @ [Type_Spreadsheet, Type_Document] else types);
          types = (if prefix (qs ''application/x-'') mimeType \<and> suffix (qs ''-compressed-tar'') mimeType
                   then types @ [Type_Archive] else types)
      in types @ map snd (filter (\<lambda>(name, type). qs name = mimeType) typeMapper))"

section \<open>BasicIndexingJob\<close>

datatype IndexingLevel = NoLevel | MarkForContentIndexing

definition chop_slash :: "QString \<Rightarrow> QString" where
  "chop_slash path = (if path \<noteq> [] \<and> last path = 47 then butlast path else path)"

record BasicIndexingJob =
  bj_filePath :: QString
  bj_mimetype :: QString
  bj_indexingLevel :: IndexingLevel

definition BasicIndexingJob_new :: "QString \<Rightarrow> QString \<Rightarrow> IndexingLevel \<Rightarrow> BasicIndexingJob" where
  "BasicIndexingJob_new filePath mimetype level =
     \<lparr>bj_filePath = chop_slash filePath, bj_mimetype = mimetype, bj_indexingLevel = level\<rparr>"

definition type_term :: "'z file_world_scheme \<Rightarrow> KFileType \<Rightarrow> bytes" where
  "type_term w type = lit ''T'' @ QByteArray_number (fw_typeNumber w type)"

text \<open>\<open>index\<close>: \<open>Some doc\<close> is the result true with \<open>m_doc = doc\<close>.\<close>

definition BasicIndexingJob_index :: "qt_text \<Rightarrow> 'z file_world_scheme \<Rightarrow> BasicIndexingJob \<Rightarrow> Document option" where
  "BasicIndexingJob_index qt w job =
     (let url = fw_encodeName w (bj_filePath job);
          lastSlash = lastIndexOf url slash;
          fileName = drop (nat (lastSlash + 1)) url;
          filePath = take (nat lastSlash) url
      in case filePathToStat (fw_fs w) filePath of
           None \<Rightarrow> None
         | Some dirStat \<Rightarrow>
             (case filePathToStat (fw_fs w) url of
                None \<Rightarrow> None
              | Some statBuf \<Rightarrow>
                  let doc1 = Document_setUrl (Document_setId
                        (Document_setParentId Document_new (statBufToId dirStat)) (statBufToId statBuf)) url;
                      tg = TermGenerator_indexFileNameText qt (TermGenerator_new doc1) (fw_decodeName w fileName);
                      tg = TermGenerator_indexMimetype qt tg
                             (if st_size statBuf = 0 then qs ''application/x-zerosize'' else bj_mimetype job);
                      doc2 = Document_setCTime (Document_setMTime (m_doc tg) (word_of_int (st_mtime statBuf)))
                               (word_of_int (st_ctime statBuf));
                      doc3 =
                        (if st_isdir statBuf then Document_addTerm doc2 (type_term w Type_Folder)
                         else if st_size statBuf > 0 then
                           foldl (\<lambda>doc type. Document_addTerm doc (type_term w type))
                             (if bj_indexingLevel job = MarkForContentIndexing
                              then Document_setContentIndexing doc2 True else doc2)
                             (typesForMimeType (bj_mimetype job))
                         else doc2)
                  in Some (indexXAttr qt w (bj_filePath job) doc3)))"

end
