(* ===== verification/DirIterator.thy ===== *)
theory DirIterator
  imports BasicIndexing "HOL-Library.Multiset"
begin

text \<open>
  \<open>filtereddiriterator.cpp\<close>: the walk over a folder with a stack of directories that wait. \<open>m_currentIter\<close>
  is the list of the paths its \<open>QDirIterator\<close> has left, \<open>m_paths\<close> the stack with the top first; \<open>QFileInfo\<close>
  is a function of the path. At the end: every walk over a finite tree ends and sees each accepted path.
\<close>

record FilteredDirIterator =
  fd_config :: "FileIndexerConfig option"
  fd_filter :: dir_filter
  fd_folder :: QString
  fd_currentIter :: "QString list option"
  fd_paths :: "QString list"
  fd_firstItem :: bool
  fd_filePath :: QString

definition FilteredDirIterator_new ::
  "regex_api \<Rightarrow> 'z file_world_scheme \<Rightarrow> FileIndexerConfig option \<Rightarrow> QString \<Rightarrow> dir_filter \<Rightarrow> FilteredDirIterator" where
  "FilteredDirIterator_new rx w config folder flt =
     (let it = \<lparr>fd_config = config, fd_filter = flt, fd_folder = folder, fd_currentIter = None, fd_paths = [],
                fd_firstItem = False, fd_filePath = []\<rparr>
      in if (case config of None \<Rightarrow> True | Some c \<Rightarrow> shouldFolderBeIndexed rx c folder)
         then it\<lparr>fd_currentIter := Some (fw_entries w flt folder), fd_firstItem := True\<rparr>
         else it)"

definition shouldIndexHidden :: "FileIndexerConfig option \<Rightarrow> bool" where
  "shouldIndexHidden config = (case config of None \<Rightarrow> False | Some c \<Rightarrow> ic_indexHidden c)"

definition shouldIndexFolder ::
  "regex_api \<Rightarrow> 'z file_world_scheme \<Rightarrow> FileIndexerConfig option \<Rightarrow> QString \<Rightarrow> bool" where
  "shouldIndexFolder rx w config path =
     (case config of
        None \<Rightarrow> \<not> fi_isHidden w path
      | Some c \<Rightarrow>
          (case folderInFolderList (ic_folderCache c) path of
             None \<Rightarrow> False
           | Some folder \<Rightarrow>
               if folder = path \<or> folder = path @ [47] then True
               else if \<not> shouldIndexHidden config \<and> fi_isHidden w path then False
               else shouldFileBeIndexed rx c (fi_fileName w path)))"

definition shouldIndexFile ::
  "regex_api \<Rightarrow> 'z file_world_scheme \<Rightarrow> FileIndexerConfig option \<Rightarrow> QString \<Rightarrow> bool" where
  "shouldIndexFile rx w config path =
     (if \<not> shouldIndexHidden config \<and> fi_isHidden w path then False
      else case config of None \<Rightarrow> True | Some c \<Rightarrow> shouldFileBeIndexed rx c (fi_fileName w path))"

text \<open>The loop of \<open>next\<close>: the path found, and what is left of the directory and the stack.\<close>

function next_loop ::
  "regex_api \<Rightarrow> 'z file_world_scheme \<Rightarrow> FileIndexerConfig option \<Rightarrow> dir_filter \<Rightarrow> QString list \<Rightarrow> QString list \<Rightarrow>
   (QString \<times> QString list \<times> QString list) option" where
  "next_loop rx w config flt current paths =
     (case current of
        [] \<Rightarrow>
          (case paths of
             [] \<Rightarrow> None
           | path # paths' \<Rightarrow> next_loop rx w config flt (fw_entries w flt path) paths')
      | path # rest \<Rightarrow>
          if fi_isDir w path then
            if shouldIndexFolder rx w config path then Some (path, rest, path # paths)
            else next_loop rx w config flt rest paths
          else if fi_isFile w path then
            if shouldIndexFile rx w config path then Some (path, rest, paths)
            else next_loop rx w config flt rest paths
          else next_loop rx w config flt rest paths)"
  by pat_completeness auto
termination
  by (relation "inv_image (less_than <*lex*> less_than) (\<lambda>(_, _, _, _, current, paths). (length paths, length current))")
    auto

declare next_loop.simps [simp del]

definition FilteredDirIterator_next ::
  "regex_api \<Rightarrow> 'z file_world_scheme \<Rightarrow> FilteredDirIterator \<Rightarrow> QString \<times> FilteredDirIterator" where
  "FilteredDirIterator_next rx w it =
     (if fd_firstItem it then (fd_folder it, it\<lparr>fd_firstItem := False, fd_filePath := fd_folder it\<rparr>)
      else
        case fd_currentIter it of
          None \<Rightarrow> ([], it\<lparr>fd_filePath := []\<rparr>)
        | Some current \<Rightarrow>
            (case next_loop rx w (fd_config it) (fd_filter it) current (fd_paths it) of
               None \<Rightarrow> ([], it\<lparr>fd_currentIter := None, fd_paths := [], fd_filePath := []\<rparr>)
             | Some (path, current', paths') \<Rightarrow>
                 (path, it\<lparr>fd_currentIter := Some current', fd_paths := paths', fd_filePath := path\<rparr>)))"

section \<open>The whole walk\<close>

text \<open>\<open>while (!it.next().isEmpty())\<close>, with the paths that it sees; \<open>None\<close> if it does not end.\<close>

partial_function (option) walk ::
  "regex_api \<Rightarrow> 'z file_world_scheme \<Rightarrow> FilteredDirIterator \<Rightarrow> QString list option" where
  "walk rx w it =
     (case FilteredDirIterator_next rx w it of
        (path, it') \<Rightarrow> if path = [] then Some [] else Option.bind (walk rx w it') (\<lambda>seen. Some (path # seen)))"

text \<open>The accepted paths below a directory, down to a depth.\<close>

definition accepts_path ::
  "regex_api \<Rightarrow> 'z file_world_scheme \<Rightarrow> FileIndexerConfig option \<Rightarrow> QString \<Rightarrow> bool" where
  "accepts_path rx w config path =
     (if fi_isDir w path then shouldIndexFolder rx w config path
      else fi_isFile w path \<and> shouldIndexFile rx w config path)"

primrec tree_paths ::
  "regex_api \<Rightarrow> 'z file_world_scheme \<Rightarrow> FileIndexerConfig option \<Rightarrow> dir_filter \<Rightarrow> nat \<Rightarrow> QString \<Rightarrow> QString list" where
  "tree_paths rx w config flt 0 folder = []"
| "tree_paths rx w config flt (Suc n) folder =
     concat (map (\<lambda>path.
       if accepts_path rx w config path
       then path # (if fi_isDir w path then tree_paths rx w config flt n path else []) else [])
     (fw_entries w flt folder))"

text \<open>A finite tree: the entries of a directory have a smaller rank, and no path is empty.\<close>

definition tree_ranked :: "'z file_world_scheme \<Rightarrow> dir_filter \<Rightarrow> (QString \<Rightarrow> nat) \<Rightarrow> bool" where
  "tree_ranked w flt rank \<longleftrightarrow>
     (\<forall>folder. \<forall>path \<in> set (fw_entries w flt folder). rank path < rank folder \<and> path \<noteq> [])"

lemma tree_rankedD:
  "tree_ranked w flt rank \<Longrightarrow> path \<in> set (fw_entries w flt folder) \<Longrightarrow> rank path < rank folder \<and> path \<noteq> []"
  by (simp add: tree_ranked_def)

text \<open>Any depth that covers the rank gives the same paths.\<close>

lemma tree_paths_depth:
  assumes "tree_ranked w flt rank"
  shows "rank folder \<le> n \<Longrightarrow> rank folder \<le> n' \<Longrightarrow>
    tree_paths rx w config flt n folder = tree_paths rx w config flt n' folder"
proof (induction n arbitrary: n' folder)
  case 0
  then have "fw_entries w flt folder = []"
    using tree_rankedD[OF assms, of "hd (fw_entries w flt folder)" folder]
    by (metis hd_in_set le_zero_eq not_less0)
  then show ?case
    by (cases n') simp_all
next
  case (Suc n)
  show ?case
  proof (cases n')
    case 0
    then have "fw_entries w flt folder = []"
      using Suc.prems tree_rankedD[OF assms, of "hd (fw_entries w flt folder)" folder]
      by (metis hd_in_set le_zero_eq not_less0)
    then show ?thesis
      by (simp add: 0)
  next
    case (Suc m)
    have "tree_paths rx w config flt n path = tree_paths rx w config flt m path"
      if "path \<in> set (fw_entries w flt folder)" for path
      using that Suc.IH[of path m] Suc.prems Suc tree_rankedD[OF assms that] by simp
    then show ?thesis
      by (auto simp: Suc intro!: arg_cong[where f = concat])
  qed
qed

text \<open>What a walk that stands in a directory still sees.\<close>

definition seen_at ::
  "regex_api \<Rightarrow> 'z file_world_scheme \<Rightarrow> FileIndexerConfig option \<Rightarrow> dir_filter \<Rightarrow> (QString \<Rightarrow> nat) \<Rightarrow> QString \<Rightarrow> QString list" where
  "seen_at rx w config flt rank path =
     (if accepts_path rx w config path
      then path # (if fi_isDir w path then tree_paths rx w config flt (rank path) path else []) else [])"

definition to_see ::
  "regex_api \<Rightarrow> 'z file_world_scheme \<Rightarrow> FileIndexerConfig option \<Rightarrow> dir_filter \<Rightarrow> (QString \<Rightarrow> nat) \<Rightarrow>
   QString list \<Rightarrow> QString list \<Rightarrow> QString multiset" where
  "to_see rx w config flt rank current paths =
     mset (concat (map (seen_at rx w config flt rank) current)) +
     mset (concat (map (\<lambda>d. tree_paths rx w config flt (rank d) d) paths))"

lemma tree_paths_entries:
  assumes "tree_ranked w flt rank"
  shows "tree_paths rx w config flt (rank folder) folder =
    concat (map (seen_at rx w config flt rank) (fw_entries w flt folder))"
proof -
  have "tree_paths rx w config flt (rank folder) folder = tree_paths rx w config flt (Suc (rank folder)) folder"
    by (rule tree_paths_depth[OF assms]) simp_all
  also have "\<dots> = concat (map (seen_at rx w config flt rank) (fw_entries w flt folder))"
    using tree_paths_depth[OF assms, of _ "rank folder"] tree_rankedD[OF assms, of _ folder]
    by (auto simp: seen_at_def less_imp_le intro!: arg_cong[where f = concat])
  finally show ?thesis .
qed

text \<open>The loop of \<open>next\<close> takes one path out of what is to be seen, or there was none.\<close>

lemma next_loop_Cons:
  "next_loop rx w config flt (path # rest) paths =
     (if accepts_path rx w config path
      then Some (path, rest, if fi_isDir w path then path # paths else paths)
      else next_loop rx w config flt rest paths)"
  by (subst next_loop.simps) (simp add: accepts_path_def)

lemma next_loop_Nil:
  "next_loop rx w config flt [] [] = None"
  "next_loop rx w config flt [] (d # ds) = next_loop rx w config flt (fw_entries w flt d) ds"
  by (subst next_loop.simps, simp)+

lemma to_see_Cons:
  "to_see rx w config flt rank (path # rest) paths =
     (if accepts_path rx w config path
      then add_mset path (to_see rx w config flt rank rest (if fi_isDir w path then path # paths else paths))
      else to_see rx w config flt rank rest paths)"
  by (simp add: to_see_def seen_at_def)

lemma next_loop_to_see:
  assumes "tree_ranked w flt rank"
  shows "case next_loop rx w config flt current paths of
      None \<Rightarrow> to_see rx w config flt rank current paths = {#}
    | Some (path, current', paths') \<Rightarrow>
        to_see rx w config flt rank current paths = add_mset path (to_see rx w config flt rank current' paths')"
  (is "?P current paths")
proof (induction paths arbitrary: current)
  case Nil
  show ?case
  proof (induction current)
    case Nil
    then show ?case
      by (simp add: next_loop_Nil to_see_def)
  next
    case (Cons path rest)
    then show ?case
      by (auto simp: next_loop_Cons to_see_Cons split: option.splits)
  qed
next
  case (Cons d ds)
  note outer = Cons
  show ?case
  proof (induction current)
    case Nil
    have "to_see rx w config flt rank [] (d # ds) = to_see rx w config flt rank (fw_entries w flt d) ds"
      using tree_paths_entries[OF assms] by (simp add: to_see_def)
    then show ?case
      using outer[of "fw_entries w flt d"] by (auto simp: next_loop_Nil split: option.splits)
  next
    case (Cons path rest)
    then show ?case
      by (auto simp: next_loop_Cons to_see_Cons split: option.splits)
  qed
qed

text \<open>The paths found are entries, so none is empty.\<close>

definition no_empty :: "QString list \<Rightarrow> bool" where
  "no_empty paths \<longleftrightarrow> [] \<notin> set paths"

lemma next_loop_no_empty:
  assumes "tree_ranked w flt rank"
  shows "no_empty current \<Longrightarrow> next_loop rx w config flt current paths = Some (path, current', paths') \<Longrightarrow>
    path \<noteq> [] \<and> no_empty current'"
proof (induction paths arbitrary: current)
  case Nil
  then show ?case
  proof (induction current)
    case Nil
    then show ?case
      by (simp add: next_loop_Nil)
  next
    case (Cons p rest)
    then show ?case
      by (auto simp: next_loop_Cons no_empty_def split: if_splits)
  qed
next
  case (Cons d ds)
  note outer = Cons.IH
  have entries: "no_empty (fw_entries w flt d)"
    using tree_rankedD[OF assms, of _ d] by (auto simp: no_empty_def)
  from Cons.prems show ?case
  proof (induction current)
    case Nil
    then have "next_loop rx w config flt (fw_entries w flt d) ds = Some (path, current', paths')"
      by (simp add: next_loop_Nil)
    then show ?case
      by (rule outer[OF entries])
  next
    case (Cons p rest)
    then show ?case
      by (auto simp: next_loop_Cons no_empty_def split: if_splits)
  qed
qed

lemma walk_from:
  assumes "tree_ranked w (fd_filter it) rank" "\<not> fd_firstItem it"
    and "fd_currentIter it = Some current" "no_empty current"
  shows "\<exists>seen. walk rx w it = Some seen \<and>
    mset seen = to_see rx w (fd_config it) (fd_filter it) rank current (fd_paths it)"
  using assms
proof (induction "size (to_see rx w (fd_config it) (fd_filter it) rank current (fd_paths it))"
    arbitrary: it current)
  case 0
  then have "to_see rx w (fd_config it) (fd_filter it) rank current (fd_paths it) = {#}"
    by simp
  moreover from this have "next_loop rx w (fd_config it) (fd_filter it) current (fd_paths it) = None"
    using next_loop_to_see[OF "0.prems"(1), of rx "fd_config it" current "fd_paths it"]
    by (auto split: option.splits)
  ultimately show ?case
    using "0.prems" by (subst walk.simps) (simp add: FilteredDirIterator_next_def)
next
  case (Suc n)
  show ?case
  proof (cases "next_loop rx w (fd_config it) (fd_filter it) current (fd_paths it)")
    case None
    then show ?thesis
      using next_loop_to_see[OF Suc.prems(1), of rx "fd_config it" current "fd_paths it"] Suc.prems
      by (subst walk.simps) (simp add: FilteredDirIterator_next_def)
  next
    case (Some r)
    then obtain path cur ps where found: "next_loop rx w (fd_config it) (fd_filter it) current (fd_paths it) =
        Some (path, cur, ps)"
      by (metis prod_cases3)
    define it' where "it' = it\<lparr>fd_currentIter := Some cur, fd_paths := ps, fd_filePath := path\<rparr>"
    have step: "to_see rx w (fd_config it) (fd_filter it) rank current (fd_paths it) =
        add_mset path (to_see rx w (fd_config it) (fd_filter it) rank cur ps)"
      using next_loop_to_see[OF Suc.prems(1), of rx "fd_config it" current "fd_paths it"] found by simp
    note ne = next_loop_no_empty[OF Suc.prems(1,4) found]
    have "n = size (to_see rx w (fd_config it') (fd_filter it') rank cur (fd_paths it'))"
      using Suc.hyps(2) step by (simp add: it'_def)
    then obtain seen where "walk rx w it' = Some seen"
      "mset seen = to_see rx w (fd_config it') (fd_filter it') rank cur (fd_paths it')"
      using Suc.hyps(1)[of it' cur] Suc.prems ne by (auto simp: it'_def)
    then show ?thesis
      using found ne Suc.prems step by (subst walk.simps) (simp add: FilteredDirIterator_next_def it'_def)
  qed
qed

lemma walk_folder:
  assumes "tree_ranked w flt rank" "folder \<noteq> []"
    and "case config of None \<Rightarrow> True | Some c \<Rightarrow> shouldFolderBeIndexed rx c folder"
  shows "\<exists>seen. walk rx w (FilteredDirIterator_new rx w config folder flt) = Some seen \<and>
    mset seen = mset (folder # tree_paths rx w config flt (rank folder) folder)"
proof -
  let ?it = "FilteredDirIterator_new rx w config folder flt"
  define it' where "it' = ?it\<lparr>fd_firstItem := False, fd_filePath := folder\<rparr>"
  have it: "?it = \<lparr>fd_config = config, fd_filter = flt, fd_folder = folder,
      fd_currentIter = Some (fw_entries w flt folder), fd_paths = [], fd_firstItem = True, fd_filePath = []\<rparr>"
    using assms(3) by (simp add: FilteredDirIterator_new_def Let_def)
  have "no_empty (fw_entries w flt folder)"
    using tree_rankedD[OF assms(1), of _ folder] by (auto simp: no_empty_def)
  then obtain seen where seen: "walk rx w it' = Some seen"
    "mset seen = to_see rx w config flt rank (fw_entries w flt folder) []"
    using walk_from[of w it' rank "fw_entries w flt folder" rx] assms(1) it by (auto simp: it'_def)
  have "to_see rx w config flt rank (fw_entries w flt folder) [] =
      mset (tree_paths rx w config flt (rank folder) folder)"
    using tree_paths_entries[OF assms(1)] by (simp add: to_see_def)
  moreover have "walk rx w ?it = Some (folder # seen)"
    using seen(1) assms(2) it by (subst walk.simps) (simp add: FilteredDirIterator_next_def it'_def)
  ultimately show ?thesis
    using seen(2) by auto
qed

text \<open>A folder that is not to be indexed is not walked.\<close>

lemma walk_not_indexed:
  "\<not> shouldFolderBeIndexed rx c folder \<Longrightarrow>
     walk rx w (FilteredDirIterator_new rx w (Some c) folder flt) = Some []"
  by (subst walk.simps) (simp add: FilteredDirIterator_new_def FilteredDirIterator_next_def)

end
