(* ===== verification/IndexJobs.thy ===== *)
theory IndexJobs
  imports DirIterator Sessions UrlTree
begin

text \<open>
  The indexing jobs: \<open>newfileindexer.cpp\<close>, \<open>modifiedfileindexer.cpp\<close>, \<open>xattrindexer.cpp\<close>,
  \<open>firstrunindexer.cpp\<close>, \<open>unindexedfileiterator.cpp\<close>, \<open>unindexedfileindexer.cpp\<close>, \<open>indexcleaner.cpp\<close> and
  \<open>metadatamover.cpp\<close>, as functions on the environment of the database. A job works on one state \<open>w\<close> of the
  files and a configuration \<open>c\<close> whose folder cache is built. Where LMDB gives no transaction the getters
  of the code have no store to read (they assert one): the job then leaves the file alone.
\<close>

record ('e, 's) indexer_api =
  ia_lmdb :: "'s lmdb"
  ia_env :: "('e, 's) mdb_env"
  ia_json :: "QString \<Rightarrow> bytes"
  ia_text :: qt_text
  ia_regex :: regex_api

definition in_txn :: "'s Transaction \<Rightarrow> ('s \<Rightarrow> 's Transaction) \<Rightarrow> 's Transaction" where
  "in_txn T f = (case t_txn T of None \<Rightarrow> T | Some s \<Rightarrow> f s)"

text \<open>A transaction object that is opened, used by \<open>f\<close>, committed and destroyed.\<close>

definition run_transaction ::
  "('e, 's) indexer_api \<Rightarrow> ('s Transaction \<Rightarrow> 's Transaction) \<Rightarrow> 'e \<Rightarrow> 'e" where
  "run_transaction A f e =
     (let (ok, e', T) = Transaction_commit (ia_env A) (ia_lmdb A) e (f (Transaction_new (ia_env A) ReadWrite e))
      in Transaction_destroy (ia_env A) e' T)"

definition indexing_level :: "FileIndexerConfig \<Rightarrow> IndexingLevel" where
  "indexing_level c = (if ic_onlyBasicIndexing c then NoLevel else MarkForContentIndexing)"

definition file_name_of :: "QString \<Rightarrow> QString" where
  "file_name_of path = rev (takeWhile (\<lambda>c. c \<noteq> 47) (rev path))"

definition job_document ::
  "('e, 's) indexer_api \<Rightarrow> 'z file_world_scheme \<Rightarrow> QString \<Rightarrow> QString \<Rightarrow> IndexingLevel \<Rightarrow> Document option" where
  "job_document A w filePath mimetype level =
     BasicIndexingJob_index (ia_text A) w (BasicIndexingJob_new filePath mimetype level)"

definition add_doc :: "('e, 's) indexer_api \<Rightarrow> 'z file_world_scheme \<Rightarrow> Document \<Rightarrow> 's Transaction \<Rightarrow> 's Transaction" where
  "add_doc A w doc = Transaction_addDocument (ia_lmdb A) (ia_json A) (fw_fs w) doc"

definition replace_doc ::
  "('e, 's) indexer_api \<Rightarrow> Document \<Rightarrow> DocumentOperations \<Rightarrow> 's Transaction \<Rightarrow> 's Transaction" where
  "replace_doc A doc operations = Transaction_replaceDocument (ia_lmdb A) (ia_json A) doc operations"

section \<open>NewFileIndexer\<close>

definition NewFileIndexer_mimetype ::
  "('e, 's) indexer_api \<Rightarrow> 'z file_world_scheme \<Rightarrow> FileIndexerConfig \<Rightarrow> QString \<Rightarrow> QString option" where
  "NewFileIndexer_mimetype A w c filePath =
     (if fi_isSymLink w filePath then None
      else if fi_isDir w filePath then
        if \<not> shouldFolderBeIndexed (ia_regex A) c filePath then None else Some (qs ''inode/directory'')
      else if \<not> shouldFileBeIndexed (ia_regex A) c (file_name_of filePath) then None
      else Some (fw_mimeTypeForFile w filePath))"

definition NewFileIndexer_file ::
  "('e, 's) indexer_api \<Rightarrow> 'z file_world_scheme \<Rightarrow> FileIndexerConfig \<Rightarrow> 's Transaction \<Rightarrow> QString \<Rightarrow> 's Transaction" where
  "NewFileIndexer_file A w c T path =
     (let filePath = chop_slash path
      in case NewFileIndexer_mimetype A w c filePath of
           None \<Rightarrow> T
         | Some mimetype \<Rightarrow>
             (case job_document A w filePath mimetype (indexing_level c) of
                None \<Rightarrow> T
              | Some doc \<Rightarrow>
                  in_txn T (\<lambda>s. if Transaction_hasDocument (ia_lmdb A) s (m_id doc) then T else add_doc A w doc T)))"

definition NewFileIndexer_run ::
  "('e, 's) indexer_api \<Rightarrow> 'z file_world_scheme \<Rightarrow> FileIndexerConfig \<Rightarrow> QString list \<Rightarrow> 'e \<Rightarrow> 'e" where
  "NewFileIndexer_run A w c files = run_transaction A (\<lambda>T. foldl (NewFileIndexer_file A w c) T files)"

section \<open>ModifiedFileIndexer\<close>

text \<open>A stored time is an unsigned 32-bit number, the time of the file a 64-bit number of seconds.\<close>

definition mTime_changed :: "'z file_world_scheme \<Rightarrow> TimeInfo \<Rightarrow> QString \<Rightarrow> bool" where
  "mTime_changed w timeInfo path \<longleftrightarrow> uint (mTime timeInfo) \<noteq> fw_lastModified w path"

definition cTime_changed :: "'z file_world_scheme \<Rightarrow> TimeInfo \<Rightarrow> QString \<Rightarrow> bool" where
  "cTime_changed w timeInfo path \<longleftrightarrow> uint (cTime timeInfo) \<noteq> fw_metadataChangeTime w path"

definition deferred_document :: "'z file_world_scheme \<Rightarrow> u64 \<Rightarrow> QString \<Rightarrow> Document" where
  "deferred_document w fileId filePath =
     Document_setContentIndexing
       (Document_setCTime
         (Document_setMTime (Document_setId Document_new fileId) (word_of_int (fw_lastModified w filePath)))
         (word_of_int (fw_metadataChangeTime w filePath)))
       True"

definition ModifiedFileIndexer_known ::
  "('e, 's) indexer_api \<Rightarrow> 'z file_world_scheme \<Rightarrow> IndexingLevel \<Rightarrow> QString \<Rightarrow> u64 \<Rightarrow> bool \<Rightarrow> bool \<Rightarrow> bool \<Rightarrow>
   's Transaction \<Rightarrow> 's Transaction" where
  "ModifiedFileIndexer_known A w level filePath fileId isKnownFile mTimeChanged cTimeChanged T =
     (if \<not> mTimeChanged \<and> \<not> cTimeChanged then T
      else if \<not> cTimeChanged \<and> fi_isDir w filePath then T
      else if \<not> cTimeChanged \<and> level = MarkForContentIndexing
      then replace_doc A (deferred_document w fileId filePath) DocumentTime T
      else
        let mimetype = (if fi_isDir w filePath then qs ''inode/directory'' else fw_mimeTypeForFile w filePath)
        in case job_document A w filePath mimetype level of
             None \<Rightarrow> T
           | Some doc \<Rightarrow>
               if isKnownFile \<and> m_id doc = fileId then
                 let ops = XAttrTerms OR DocumentTime OR FileNameTerms OR DocumentUrl;
                     ops = (if level \<noteq> MarkForContentIndexing then ops OR (DocumentTerms OR DocumentData) else ops)
                 in replace_doc A doc ops T
               else add_doc A w doc T)"

definition ModifiedFileIndexer_file ::
  "('e, 's) indexer_api \<Rightarrow> 'z file_world_scheme \<Rightarrow> FileIndexerConfig \<Rightarrow> 's Transaction \<Rightarrow> QString \<Rightarrow> 's Transaction" where
  "ModifiedFileIndexer_file A w c T path =
     (let filePath = chop_slash path
      in if \<not> shouldFileBeIndexed (ia_regex A) c (file_name_of filePath) then T
         else
           let fileId = filePathToId (fw_fs w) (fw_encodeName w filePath)
           in if fileId = 0 then T
              else if fi_isSymLink w filePath then T
              else in_txn T (\<lambda>s.
                let isKnownFile = Transaction_hasDocument (ia_lmdb A) s fileId;
                    timeInfo = Transaction_documentTimeInfo (ia_lmdb A) s fileId
                in ModifiedFileIndexer_known A w (indexing_level c) filePath fileId isKnownFile
                     (if isKnownFile then mTime_changed w timeInfo filePath else True)
                     (if isKnownFile then cTime_changed w timeInfo filePath else True) T))"

definition ModifiedFileIndexer_run ::
  "('e, 's) indexer_api \<Rightarrow> 'z file_world_scheme \<Rightarrow> FileIndexerConfig \<Rightarrow> QString list \<Rightarrow> 'e \<Rightarrow> 'e" where
  "ModifiedFileIndexer_run A w c files = run_transaction A (\<lambda>T. foldl (ModifiedFileIndexer_file A w c) T files)"

section \<open>XAttrIndexer\<close>

definition XAttrIndexer_file ::
  "('e, 's) indexer_api \<Rightarrow> 'z file_world_scheme \<Rightarrow> FileIndexerConfig \<Rightarrow> 's Transaction \<Rightarrow> QString \<Rightarrow> 's Transaction" where
  "XAttrIndexer_file A w c T path =
     (let filePath = chop_slash path
      in if \<not> shouldFileBeIndexed (ia_regex A) c (file_name_of filePath) then T
         else
           case job_document A w filePath (fw_mimeTypeForFile w filePath) NoLevel of
             None \<Rightarrow> T
           | Some doc \<Rightarrow>
               in_txn T (\<lambda>s.
                 if \<not> Transaction_hasDocument (ia_lmdb A) s (m_id doc)
                 then add_doc A w (Document_setContentIndexing doc (indexing_level c = MarkForContentIndexing)) T
                 else replace_doc A doc (XAttrTerms OR DocumentTime OR FileNameTerms OR DocumentUrl) T))"

definition XAttrIndexer_run ::
  "('e, 's) indexer_api \<Rightarrow> 'z file_world_scheme \<Rightarrow> FileIndexerConfig \<Rightarrow> QString list \<Rightarrow> 'e \<Rightarrow> 'e" where
  "XAttrIndexer_run A w c files = run_transaction A (\<lambda>T. foldl (XAttrIndexer_file A w c) T files)"

section \<open>FirstRunIndexer\<close>

text \<open>\<open>commit\<close> and \<open>reset\<close> after every 20001 documents; the counter starts again.\<close>

definition commit_reset :: "('e, 's) indexer_api \<Rightarrow> 'e \<Rightarrow> 's Transaction \<Rightarrow> 'e \<times> 's Transaction" where
  "commit_reset A e T =
     (let (ok, e1, T1) = Transaction_commit (ia_env A) (ia_lmdb A) e T
      in Transaction_reset (ia_env A) ReadWrite e1 T1)"

definition count_document :: "('e, 's) indexer_api \<Rightarrow> nat \<Rightarrow> 'e \<Rightarrow> 's Transaction \<Rightarrow> nat \<times> 'e \<times> 's Transaction" where
  "count_document A transactionDocumentCount e T =
     (if Suc transactionDocumentCount > 20000 then (0, commit_reset A e T)
      else (Suc transactionDocumentCount, e, T))"

text \<open>One path of the walk: the body of the inner loop.\<close>

definition FirstRunIndexer_file ::
  "('e, 's) indexer_api \<Rightarrow> 'z file_world_scheme \<Rightarrow> FileIndexerConfig \<Rightarrow> nat \<times> 'e \<times> 's Transaction \<Rightarrow> QString \<Rightarrow>
   nat \<times> 'e \<times> 's Transaction" where
  "FirstRunIndexer_file A w c = (\<lambda>(n, e, T) path.
     let mimetype = (if fi_isDir w path then qs ''inode/directory'' else fw_mimeTypeForFile w path)
     in case job_document A w path mimetype (indexing_level c) of
          None \<Rightarrow> (n, e, T)
        | Some doc \<Rightarrow>
            (case t_txn T of
               None \<Rightarrow> (n, e, T)
             | Some s \<Rightarrow>
                 if Transaction_hasDocument (ia_lmdb A) s (m_id doc) then (n, e, T)
                 else count_document A n e (add_doc A w doc T)))"

partial_function (option) FirstRunIndexer_loop ::
  "('e, 's) indexer_api \<Rightarrow> 'z file_world_scheme \<Rightarrow> FileIndexerConfig \<Rightarrow> FilteredDirIterator \<Rightarrow>
   nat \<times> 'e \<times> 's Transaction \<Rightarrow> (nat \<times> 'e \<times> 's Transaction) option" where
  "FirstRunIndexer_loop A w c it state =
     (case FilteredDirIterator_next (ia_regex A) w it of
        (path, it') \<Rightarrow>
          if path = [] then Some state
          else FirstRunIndexer_loop A w c it' (FirstRunIndexer_file A w c state path))"

definition finish_folder :: "('e, 's) indexer_api \<Rightarrow> nat \<times> 'e \<times> 's Transaction \<Rightarrow> 'e" where
  "finish_folder A = (\<lambda>(n, e, T).
     let (ok, e', T') = Transaction_commit (ia_env A) (ia_lmdb A) e T in Transaction_destroy (ia_env A) e' T')"

definition FirstRunIndexer_folder ::
  "('e, 's) indexer_api \<Rightarrow> 'z file_world_scheme \<Rightarrow> FileIndexerConfig \<Rightarrow> QString \<Rightarrow> 'e \<Rightarrow> 'e option" where
  "FirstRunIndexer_folder A w c folder e =
     map_option (finish_folder A)
       (FirstRunIndexer_loop A w c (FilteredDirIterator_new (ia_regex A) w (Some c) folder FilesAndDirs)
         (0, e, Transaction_new (ia_env A) ReadWrite e))"

primrec each_folder :: "(QString \<Rightarrow> 'e \<Rightarrow> 'e option) \<Rightarrow> QString list \<Rightarrow> 'e \<Rightarrow> 'e option" where
  "each_folder f [] e = Some e"
| "each_folder f (folder # folders) e = Option.bind (f folder e) (each_folder f folders)"

definition FirstRunIndexer_run ::
  "('e, 's) indexer_api \<Rightarrow> 'z file_world_scheme \<Rightarrow> FileIndexerConfig \<Rightarrow> QString list \<Rightarrow> 'e \<Rightarrow> 'e option" where
  "FirstRunIndexer_run A w c folders = each_folder (FirstRunIndexer_folder A w c) folders"

section \<open>UnIndexedFileIterator and UnindexedFileIndexer\<close>

text \<open>\<open>shouldIndex\<close>: the MIME type and whether the two times changed, for a path that is to be indexed.\<close>

definition UnIndexedFileIterator_shouldIndex ::
  "('e, 's) indexer_api \<Rightarrow> 'z file_world_scheme \<Rightarrow> 's \<Rightarrow> QString \<Rightarrow> (QString \<times> bool \<times> bool) option" where
  "UnIndexedFileIterator_shouldIndex A w s filePath =
     (if \<not> fi_exists w filePath then None
      else
        let fileId = filePathToId (fw_fs w) (fw_encodeName w filePath)
        in if fileId = 0 then None
           else
             let timeInfo = Transaction_documentTimeInfo (ia_lmdb A) s fileId;
                 unknown = (mTime timeInfo = 0 \<and> cTime timeInfo = 0 \<and> \<not> Transaction_hasDocument (ia_lmdb A) s fileId);
                 mTimeChanged = (unknown \<or> mTime_changed w timeInfo filePath);
                 cTimeChanged = (unknown \<or> cTime_changed w timeInfo filePath)
             in if fi_isDir w filePath then
                  if cTimeChanged then Some (qs ''inode/directory'', mTimeChanged, cTimeChanged) else None
                else if mTimeChanged \<or> cTimeChanged
                then Some (fw_mimeTypeForFile w filePath, mTimeChanged, cTimeChanged)
                else None)"

text \<open>
  The body of the loop for a path the iterator gives, with what \<open>shouldIndex\<close> found out. The code also calls
  \<open>setContentIndexing\<close> on what \<open>document()\<close> returns, which is a copy: that has no effect.
\<close>

definition UnindexedFileIndexer_update ::
  "('e, 's) indexer_api \<Rightarrow> 'z file_world_scheme \<Rightarrow> IndexingLevel \<Rightarrow> 's \<Rightarrow> QString \<Rightarrow> bool \<Rightarrow> bool \<Rightarrow> Document \<Rightarrow>
   's Transaction \<Rightarrow> 's Transaction" where
  "UnindexedFileIndexer_update A w level s filePath mTimeChanged cTimeChanged doc T =
     (if Transaction_hasDocument (ia_lmdb A) s (m_id doc) then
        let ops = DocumentTime;
            ops = (if cTimeChanged then
                     let ops = ops OR XAttrTerms
                     in if fw_decodeName w (Transaction_documentUrl (ia_lmdb A) s (m_id doc)) \<noteq> filePath
                        then ops OR (FileNameTerms OR DocumentUrl) else ops
                   else ops);
            ops = (if mTimeChanged \<and> level \<noteq> MarkForContentIndexing then ops OR (DocumentTerms OR DocumentData) else ops)
        in replace_doc A doc ops T
      else add_doc A w doc T)"

definition UnindexedFileIndexer_file ::
  "('e, 's) indexer_api \<Rightarrow> 'z file_world_scheme \<Rightarrow> FileIndexerConfig \<Rightarrow> nat \<times> 'e \<times> 's Transaction \<Rightarrow> QString \<Rightarrow>
   nat \<times> 'e \<times> 's Transaction" where
  "UnindexedFileIndexer_file A w c = (\<lambda>(n, e, T) path.
     case t_txn T of
       None \<Rightarrow> (n, e, T)
     | Some s \<Rightarrow>
         (case UnIndexedFileIterator_shouldIndex A w s path of
            None \<Rightarrow> (n, e, T)
          | Some (mimetype, mTimeChanged, cTimeChanged) \<Rightarrow>
              (case job_document A w path mimetype (indexing_level c) of
                 None \<Rightarrow> (n, e, T)
               | Some doc \<Rightarrow>
                   count_document A n e
                     (UnindexedFileIndexer_update A w (indexing_level c) s path mTimeChanged cTimeChanged doc T))))"

partial_function (option) UnindexedFileIndexer_loop ::
  "('e, 's) indexer_api \<Rightarrow> 'z file_world_scheme \<Rightarrow> FileIndexerConfig \<Rightarrow> FilteredDirIterator \<Rightarrow>
   nat \<times> 'e \<times> 's Transaction \<Rightarrow> (nat \<times> 'e \<times> 's Transaction) option" where
  "UnindexedFileIndexer_loop A w c it state =
     (case FilteredDirIterator_next (ia_regex A) w it of
        (path, it') \<Rightarrow>
          if path = [] then Some state
          else UnindexedFileIndexer_loop A w c it' (UnindexedFileIndexer_file A w c state path))"

definition UnindexedFileIndexer_folder ::
  "('e, 's) indexer_api \<Rightarrow> 'z file_world_scheme \<Rightarrow> FileIndexerConfig \<Rightarrow> QString \<Rightarrow> 'e \<Rightarrow> 'e option" where
  "UnindexedFileIndexer_folder A w c folder e =
     map_option (finish_folder A)
       (UnindexedFileIndexer_loop A w c (FilteredDirIterator_new (ia_regex A) w (Some c) folder FilesAndDirs)
         (0, e, Transaction_new (ia_env A) ReadWrite e))"

definition UnindexedFileIndexer_run ::
  "('e, 's) indexer_api \<Rightarrow> 'z file_world_scheme \<Rightarrow> FileIndexerConfig \<Rightarrow> 'e \<Rightarrow> 'e option" where
  "UnindexedFileIndexer_run A w c = each_folder (UnindexedFileIndexer_folder A w c) (config_includeFolders c)"

section \<open>IndexCleaner\<close>

definition shouldDelete ::
  "('e, 's) indexer_api \<Rightarrow> 'z file_world_scheme \<Rightarrow> FileIndexerConfig \<Rightarrow> bytes \<Rightarrow> bool" where
  "shouldDelete A w c baUrl =
     (let url = fw_decodeName w baUrl
      in if \<not> fi_exists w url then True else \<not> shouldBeIndexed (ia_regex A) w c url)"

text \<open>The recursive removal may not end on a store that is not a tree: \<open>None\<close>.\<close>

definition IndexCleaner_folder ::
  "('e, 's) indexer_api \<Rightarrow> 'z file_world_scheme \<Rightarrow> FileIndexerConfig \<Rightarrow> QString \<Rightarrow> 'e \<Rightarrow> 'e option" where
  "IndexCleaner_folder A w c folder e =
     (let T = Transaction_new (ia_env A) ReadWrite e;
          i = filePathToId (fw_fs w) (fw_encodeName w folder);
          removed =
            (case t_txn T of
               None \<Rightarrow> Some T
             | Some s \<Rightarrow>
                 if i > 0 \<and> Transaction_hasDocument (ia_lmdb A) s i
                 then map_option snd (Transaction_removeRecursively_if (ia_lmdb A) (shouldDelete A w c) i T)
                 else Some T)
      in map_option (\<lambda>T. finish_folder A (0, e, T)) removed)"

definition IndexCleaner_run ::
  "('e, 's) indexer_api \<Rightarrow> 'z file_world_scheme \<Rightarrow> FileIndexerConfig \<Rightarrow> 'e \<Rightarrow> 'e option" where
  "IndexCleaner_run A w c = each_folder (IndexCleaner_folder A w c) (config_excludeFolders c)"

section \<open>MetadataMover\<close>

datatype mover_signal = fileRemoved QString | movedWithoutData QString

definition MetadataMover_removeMetadata ::
  "('e, 's) indexer_api \<Rightarrow> 'z file_world_scheme \<Rightarrow> QString \<Rightarrow> 's Transaction \<Rightarrow> (mover_signal list \<times> 's Transaction) option" where
  "MetadataMover_removeMetadata A w url T =
     (case t_txn T of
        None \<Rightarrow> Some ([], T)
      | Some s \<Rightarrow>
          let i = Transaction_documentId (ia_lmdb A) s (fw_encodeName w url)
          in if i = 0 then Some ([fileRemoved url], T)
             else
               let isDir = (url \<noteq> [] \<and> last url = 47)
               in if \<not> isDir then Some ([fileRemoved url], Transaction_removeDocument (ia_lmdb A) i T)
                  else map_option (\<lambda>(u, T'). ([fileRemoved url], T')) (Transaction_removeRecursively (ia_lmdb A) i T))"

definition moved_document ::
  "('e, 's) indexer_api \<Rightarrow> 'z file_world_scheme \<Rightarrow> u64 \<Rightarrow> u64 \<Rightarrow> bytes \<Rightarrow> Document" where
  "moved_document A w i parent toPath =
     Document_setUrl (Document_setParentId (Document_setId
       (m_doc (TermGenerator_indexFileNameText (ia_text A) (TermGenerator_new Document_new)
          (fw_decodeName w (filename_of_url toPath)))) i) parent) toPath"

definition MetadataMover_updateMetadata ::
  "('e, 's) indexer_api \<Rightarrow> 'z file_world_scheme \<Rightarrow> QString \<Rightarrow> QString \<Rightarrow> 's Transaction \<Rightarrow> mover_signal list \<times> 's Transaction" where
  "MetadataMover_updateMetadata A w from to' T =
     (let to' = chop_slash to'; normalizedFrom = chop_slash from
      in case t_txn T of
           None \<Rightarrow> ([], T)
         | Some s \<Rightarrow>
             let i = Transaction_documentId (ia_lmdb A) s (fw_encodeName w normalizedFrom)
             in if i = 0 then ([movedWithoutData to'], T)
                else
                  let toPath = fw_encodeName w to';
                      parentPath = take (nat (lastIndexOf toPath slash + 1)) toPath;
                      parent = Transaction_documentId (ia_lmdb A) s parentPath
                  in if parent = 0 then ([movedWithoutData (fw_decodeName w parentPath)], T)
                     else ([], replace_doc A (moved_document A w i parent toPath) (DocumentUrl OR FileNameTerms) T))"

definition MetadataMover_moveFileMetadata ::
  "('e, 's) indexer_api \<Rightarrow> 'z file_world_scheme \<Rightarrow> QString \<Rightarrow> QString \<Rightarrow> 'e \<Rightarrow> (mover_signal list \<times> 'e) option" where
  "MetadataMover_moveFileMetadata A w from to' e =
     map_option (\<lambda>(sigs, T). let (sigs', T') = MetadataMover_updateMetadata A w from to' T
                            in (sigs @ sigs', finish_folder A (0, e, T')))
       (MetadataMover_removeMetadata A w to' (Transaction_new (ia_env A) ReadWrite e))"

definition MetadataMover_removeFileMetadata ::
  "('e, 's) indexer_api \<Rightarrow> 'z file_world_scheme \<Rightarrow> QString \<Rightarrow> 'e \<Rightarrow> (mover_signal list \<times> 'e) option" where
  "MetadataMover_removeFileMetadata A w path e =
     map_option (\<lambda>(sigs, T). (sigs, finish_folder A (0, e, T)))
       (MetadataMover_removeMetadata A w path (Transaction_new (ia_env A) ReadWrite e))"

section \<open>The walks of the jobs\<close>

lemma FirstRunIndexer_loop_walk:
  "walk (ia_regex A) w it = Some seen \<Longrightarrow>
     FirstRunIndexer_loop A w c it state = Some (foldl (FirstRunIndexer_file A w c) state seen)"
proof (induction seen arbitrary: it state)
  case Nil
  then show ?case
    by (subst FirstRunIndexer_loop.simps, subst (asm) walk.simps)
      (auto split: prod.splits if_splits Option.bind_splits)
next
  case (Cons path seen)
  then show ?case
    by (subst FirstRunIndexer_loop.simps, subst (asm) (2) walk.simps)
      (auto split: prod.splits if_splits Option.bind_splits)
qed

lemma UnindexedFileIndexer_loop_walk:
  "walk (ia_regex A) w it = Some seen \<Longrightarrow>
     UnindexedFileIndexer_loop A w c it state = Some (foldl (UnindexedFileIndexer_file A w c) state seen)"
proof (induction seen arbitrary: it state)
  case Nil
  then show ?case
    by (subst UnindexedFileIndexer_loop.simps, subst (asm) walk.simps)
      (auto split: prod.splits if_splits Option.bind_splits)
next
  case (Cons path seen)
  then show ?case
    by (subst UnindexedFileIndexer_loop.simps, subst (asm) (2) walk.simps)
      (auto split: prod.splits if_splits Option.bind_splits)
qed

text \<open>On a finite tree of files both jobs end, and have handled every accepted path of the folder.\<close>

lemma folder_walk_ends:
  assumes "tree_ranked w FilesAndDirs rank" "folder \<noteq> []" "shouldFolderBeIndexed (ia_regex A) c folder"
  obtains seen where "mset seen = mset (folder # tree_paths (ia_regex A) w (Some c) FilesAndDirs (rank folder) folder)"
    "FirstRunIndexer_folder A w c folder e =
       Some (finish_folder A (foldl (FirstRunIndexer_file A w c) (0, e, Transaction_new (ia_env A) ReadWrite e) seen))"
    "UnindexedFileIndexer_folder A w c folder e =
       Some (finish_folder A (foldl (UnindexedFileIndexer_file A w c) (0, e, Transaction_new (ia_env A) ReadWrite e) seen))"
proof -
  obtain seen where seen: "walk (ia_regex A) w (FilteredDirIterator_new (ia_regex A) w (Some c) folder FilesAndDirs) = Some seen"
    "mset seen = mset (folder # tree_paths (ia_regex A) w (Some c) FilesAndDirs (rank folder) folder)"
    using walk_folder[OF assms(1,2), where config = "Some c" and rx = "ia_regex A"] assms(3) by auto
  show ?thesis
    by (rule that[OF seen(2)])
      (simp_all add: FirstRunIndexer_folder_def UnindexedFileIndexer_folder_def
        FirstRunIndexer_loop_walk[OF seen(1)] UnindexedFileIndexer_loop_walk[OF seen(1)])
qed

end
