(* ===== verification/JobDocs.thy ===== *)
theory JobDocs
  imports IndexJobs
begin

text \<open>
  The documents the jobs build: every word fits the tables, and the three groups of words use different
  prefixes, so that no word of one group is a word of another.
\<close>

section \<open>Words of the three groups\<close>

definition content_word :: "bytes \<Rightarrow> bool" where
  "content_word t \<longleftrightarrow> t \<noteq> [] \<and> hd t \<notin> {67, 70, 82} \<and> \<not> prefix (lit ''TA'') t"

definition xattr_word :: "bytes \<Rightarrow> bool" where
  "xattr_word t \<longleftrightarrow> t \<noteq> [] \<and> (hd t \<in> {67, 82} \<or> prefix (lit ''TA'') t)"

definition name_word :: "bytes \<Rightarrow> bool" where
  "name_word t \<longleftrightarrow> t \<noteq> [] \<and> hd t = 70"

lemma word_groups_apart:
  "content_word t \<Longrightarrow> \<not> xattr_word t" "content_word t \<Longrightarrow> \<not> name_word t" "xattr_word t \<Longrightarrow> \<not> name_word t"
  by (auto simp: content_word_def xattr_word_def name_word_def lit_def prefix_def)

text \<open>
  What Baloo relies on in the words Qt's boundary finder, normalisation and lower case make of a text: they
  are short, have no control characters and do not start with a capital letter. The two MIME types the
  jobs make up have words.
\<close>

definition text_ok :: "qt_text \<Rightarrow> bool" where
  "text_ok qt \<longleftrightarrow>
     (\<forall>str. \<forall>t \<in> set (TermGenerator_termList qt str).
        length t \<le> 100 \<and> 0 \<notin> set t \<and> 1 \<notin> set t \<and> \<not> (65 \<le> hd t \<and> hd t \<le> 90)) \<and>
     TermGenerator_termList qt (qs ''inode/directory'') \<noteq> [] \<and>
     TermGenerator_termList qt (qs ''application/x-zerosize'') \<noteq> []"

text \<open>
  What the jobs rely on in the files: tags that fit into a key, at most \<open>2 ^ 32 - 1\<close> words in the attributes
  of a file, MIME types that have words, and C++ \<open>int\<close>s where the code has them.
\<close>

definition int_ok :: "int \<Rightarrow> bool" where
  "int_ok i \<longleftrightarrow> - (2 ^ 31) \<le> i \<and> i < 2 ^ 31"

definition attributes_ok :: "qt_text \<Rightarrow> UserMetaData \<Rightarrow> bool" where
  "attributes_ok qt um \<longleftrightarrow>
     (\<forall>tag \<in> set (um_tags um). word_ok (lit ''TAG-'' @ qt_toUtf8 qt tag)) \<and> int_ok (um_rating um) \<and>
     sum_list (map (\<lambda>tag. length (TermGenerator_termList qt tag)) (um_tags um)) +
       length (TermGenerator_termList qt (um_userComment um)) < 2 ^ 32"

definition world_ok :: "qt_text \<Rightarrow> 'z file_world_scheme \<Rightarrow> bool" where
  "world_ok qt w \<longleftrightarrow>
     (\<forall>path. attributes_ok qt (fw_userMetaData w path)) \<and>
     (\<forall>path. TermGenerator_termList qt (fw_mimeTypeForFile w path) \<noteq> []) \<and>
     (\<forall>type. int_ok (fw_typeNumber w type))"

lemma text_ok_term:
  assumes "text_ok qt" "t \<in> set (TermGenerator_termList qt str)"
  shows "t \<noteq> []" "length t \<le> 100" "term_bytes_ok t" "\<not> (65 \<le> hd t \<and> hd t \<le> 90)"
  using assms termList_ok[of qt str] by (auto simp: text_ok_def term_bytes_ok_def term_of_text_def)

text \<open>Prefixes of at most ten capital letters, digits and dashes keep a word good.\<close>

lemma prefixed_word_ok:
  assumes "text_ok qt" "t \<in> set (TermGenerator_termList qt str)" "length pre \<le> 100" "term_bytes_ok pre"
  shows "word_ok (pre @ t)"
  using text_ok_term[OF assms(1,2)] assms(3,4) by (auto simp: word_ok_def term_bytes_ok_def)

lemma lits [simp]:
  "lit ''F'' = [70]" "lit ''M'' = [77]" "lit ''T'' = [84]" "lit ''R'' = [82]" "lit ''C'' = [67]"
  "lit ''TA'' = [84, 65]" "lit ''TAG-'' = [84, 65, 71, 45]" "lit ''X'' = [88]"
  by (simp_all add: lit_def)

section \<open>Numbers\<close>

lemma digits_of_length: "n < 10 ^ Suc k \<Longrightarrow> length (digits_of n) \<le> Suc k"
proof (induction k arbitrary: n)
  case 0
  then show ?case
    by (subst digits_of.simps) simp
next
  case (Suc k)
  have "n div 10 < 10 ^ Suc k"
    using Suc.prems by (simp add: div_less_iff_less_mult mult.commute)
  then show ?case
    using Suc.IH[of "n div 10"] by (subst digits_of.simps) simp
qed

lemma digit_byte: "n < 10 \<Longrightarrow> (word_of_nat (48 + n) :: u8) \<in> {48, 49, 50, 51, 52, 53, 54, 55, 56, 57}"
  by (auto simp: less_Suc_eq numeral_eq_Suc)

lemma digits_of_bytes: "set (digits_of n) \<subseteq> {48, 49, 50, 51, 52, 53, 54, 55, 56, 57} \<and> digits_of n \<noteq> []"
proof (induction n rule: digits_of.induct)
  case (1 n)
  show ?case
  proof (cases "n < 10")
    case True
    then show ?thesis
      using digit_byte[of n] by (subst (1 2) digits_of.simps) simp
  next
    case False
    then show ?thesis
      using 1 digit_byte[of "n mod 10"] by (subst (1 2) digits_of.simps) simp
  qed
qed

lemma number_word:
  assumes "int_ok i"
  shows "length (QByteArray_number i) \<le> 11" "term_bytes_ok (QByteArray_number i)"
    "QByteArray_number i \<noteq> []" "hd (QByteArray_number i) \<noteq> 65"
proof -
  have len: "length (digits_of (nat j)) \<le> 10" if "j \<le> 2 ^ 31" for j :: int
    using that digits_of_length[of "nat j" 9] by (simp add: nat_less_iff)
  have bytes: "set (digits_of n) \<inter> {0, 1, 65} = {}" "digits_of n \<noteq> []" for n
    using digits_of_bytes[of n] by auto
  show "length (QByteArray_number i) \<le> 11"
    using len[of i] len[of "- i"] assms by (auto simp: QByteArray_number_def int_ok_def)
  show "term_bytes_ok (QByteArray_number i)" "QByteArray_number i \<noteq> []"
    using bytes by (auto simp: QByteArray_number_def term_bytes_ok_def)
  show "hd (QByteArray_number i) \<noteq> 65"
  proof (cases "i < 0")
    case False
    have "hd (digits_of (nat i)) \<in> set (digits_of (nat i))"
      using bytes(2) by simp
    then have "hd (digits_of (nat i)) \<noteq> 65"
      using bytes(1)[of "nat i"] by auto
    then show ?thesis
      using False by (simp add: QByteArray_number_def)
  qed (simp add: QByteArray_number_def)
qed

section \<open>Good documents\<close>

definition group_good :: "(bytes \<Rightarrow> bool) \<Rightarrow> nat \<Rightarrow> term_map \<Rightarrow> bool" where
  "group_good class n m \<longleftrightarrow> (\<forall>(t, td) \<in> set m. class t \<and> word_ok t \<and> length td \<le> n)"

definition doc_good :: "nat \<Rightarrow> Document \<Rightarrow> bool" where
  "doc_good n doc \<longleftrightarrow> group_good content_word n (m_terms doc) \<and> group_good xattr_word n (m_xattrTerms doc) \<and>
     group_good name_word n (m_fileNameTerms doc)"

lemma set_qmap_insert_sub: "set (qmap_insert k v m) \<subseteq> insert (k, v) (set m)"
  by (induction m) auto

lemma group_good_update:
  assumes "group_good class n m" "class t" "word_ok t" "n \<le> n'" "\<And>td. length td \<le> n \<Longrightarrow> length (f td) \<le> n'"
  shows "group_good class n' (qmap_update t [] f m)"
proof -
  have "length (case map_of m t of None \<Rightarrow> [] | Some v \<Rightarrow> v) \<le> n"
    using assms(1) by (auto simp: group_good_def split: option.split dest: map_of_SomeD)
  then have "length (f (case map_of m t of None \<Rightarrow> [] | Some v \<Rightarrow> v)) \<le> n'"
    by (rule assms(5))
  then show ?thesis
    using assms(1-4) set_qmap_insert_sub[of t "f (case map_of m t of None \<Rightarrow> [] | Some v \<Rightarrow> v)" m]
    by (force simp: group_good_def qmap_update_def)
qed

lemma group_good_mono: "group_good class n m \<Longrightarrow> n \<le> n' \<Longrightarrow> group_good class n' m"
  by (force simp: group_good_def)

lemma doc_good_mono: "doc_good n doc \<Longrightarrow> n \<le> n' \<Longrightarrow> doc_good n' doc"
  by (auto simp: doc_good_def intro: group_good_mono)

lemma doc_good_add:
  "doc_good n doc \<Longrightarrow> content_word t \<Longrightarrow> word_ok t \<Longrightarrow> doc_good n (Document_addTerm doc t)"
  "doc_good n doc \<Longrightarrow> xattr_word t \<Longrightarrow> word_ok t \<Longrightarrow> doc_good n (Document_addXattrTerm doc t)"
  "doc_good n doc \<Longrightarrow> name_word t \<Longrightarrow> word_ok t \<Longrightarrow> doc_good n (Document_addFileNameTerm doc t)"
  "doc_good n doc \<Longrightarrow> content_word t \<Longrightarrow> word_ok t \<Longrightarrow> doc_good (Suc n) (Document_addPositionTerm doc t p)"
  "doc_good n doc \<Longrightarrow> xattr_word t \<Longrightarrow> word_ok t \<Longrightarrow> doc_good (Suc n) (Document_addXattrPositionTerm doc t p)"
  by (auto simp: doc_good_def Document_op_defs intro: group_good_update group_good_mono)

lemma doc_good_fields [simp]:
  "doc_good n (Document_setId doc i) = doc_good n doc"
  "doc_good n (Document_setParentId doc i) = doc_good n doc"
  "doc_good n (Document_setUrl doc url) = doc_good n doc"
  "doc_good n (Document_setMimetype doc mime) = doc_good n doc"
  "doc_good n (Document_setContentIndexing doc b) = doc_good n doc"
  "doc_good n (Document_setMTime doc time) = doc_good n doc"
  "doc_good n (Document_setCTime doc time) = doc_good n doc"
  "doc_good n (Document_setData doc dat) = doc_good n doc"
  "doc_good n Document_new"
  by (simp_all add: doc_good_def Document_op_defs Document_new_def group_good_def)

section \<open>The documents of the jobs\<close>

lemma doc_good_fold:
  assumes "doc_good n (m_doc g)"
    and "\<And>g t. t \<in> set ts \<Longrightarrow> doc_good n (m_doc g) \<Longrightarrow> doc_good n (m_doc (step g t))"
  shows "doc_good n (m_doc (foldl step g ts))"
  using assms by (induction ts arbitrary: g) auto

lemma doc_good_fileName:
  assumes "text_ok qt" "doc_good n (m_doc g)"
  shows "doc_good n (m_doc (TermGenerator_indexFileNameText qt g str))"
  unfolding TermGenerator_indexFileNameText_def
  by (rule doc_good_fold[OF assms(2)])
    (use prefixed_word_ok[OF assms(1), of _ str "[70]"] in \<open>auto simp: name_word_def term_bytes_ok_def intro: doc_good_add\<close>)

lemma doc_good_mimetype:
  assumes "text_ok qt" "doc_good n (m_doc g)"
  shows "doc_good n (m_doc (TermGenerator_indexMimetype qt g str))"
proof -
  have "doc_good n (m_doc (foldl (\<lambda>g t. g\<lparr>m_doc := Document_addTerm (m_doc g) (lit ''M'' @ t)\<rparr>) g
      (TermGenerator_termList qt str)))"
    by (rule doc_good_fold[OF assms(2)])
      (use prefixed_word_ok[OF assms(1), of _ str "[77]"] in
        \<open>auto simp: content_word_def term_bytes_ok_def intro: doc_good_add\<close>)
  then show ?thesis
    by (simp add: TermGenerator_indexMimetype_def Let_def)
qed

lemma xattr_fold_good:
  assumes "\<forall>t \<in> set ts. word_ok (pre @ t) \<and> xattr_word (pre @ t)"
  shows "doc_good n (m_doc g) \<Longrightarrow> doc_good (n + length ts) (m_doc (foldl (\<lambda>g t.
      \<lparr>m_doc = Document_addXattrPositionTerm (m_doc g) (pre @ t) (m_position g), m_position = m_position g + 1\<rparr>) g ts))"
  using assms
proof (induction ts arbitrary: g n)
  case (Cons t ts)
  let ?g = "\<lparr>m_doc = Document_addXattrPositionTerm (m_doc g) (pre @ t) (m_position g), m_position = m_position g + 1\<rparr>"
  have "doc_good (Suc n) (m_doc ?g)"
    using Cons.prems by (auto intro: doc_good_add)
  from Cons.IH[OF this] show ?case
    using Cons.prems by simp
qed simp

lemma doc_good_xattrText:
  assumes "text_ok qt" "doc_good n (m_doc g)" "pre \<in> {lit ''TA'', lit ''C''}"
  shows "doc_good (n + length (TermGenerator_termList qt str)) (m_doc (TermGenerator_indexXattrText qt g str pre))"
proof -
  have "term_bytes_ok pre" "length pre \<le> 100"
    using assms(3) by (auto simp: term_bytes_ok_def)
  then have words: "\<forall>t \<in> set (TermGenerator_termList qt str). word_ok (pre @ t) \<and> xattr_word (pre @ t)"
    using prefixed_word_ok[OF assms(1)] assms(3) by (auto simp: xattr_word_def)
  have "doc_good (n + length (TermGenerator_termList qt str))
      (Document_addXattrTerm (m_doc g) (pre @ (TermGenerator_termList qt str ! 0)))"
    if "length (TermGenerator_termList qt str) = 1"
    using words that assms(2) by (intro doc_good_add doc_good_mono[OF assms(2)]) auto
  then show ?thesis
    using xattr_fold_good[OF words assms(2)] by (simp add: TermGenerator_indexXattrText_def Let_def)
qed

lemma tags_good:
  assumes "text_ok qt" "\<forall>tag \<in> set tags. word_ok (lit ''TAG-'' @ qt_toUtf8 qt tag)"
  shows "doc_good n (m_doc g) \<Longrightarrow>
    doc_good (n + sum_list (map (\<lambda>tag. length (TermGenerator_termList qt tag)) tags))
      (m_doc (foldl (indexXAttr_tag qt) g tags))"
  using assms(2)
proof (induction tags arbitrary: g n)
  case (Cons tag tags)
  have "doc_good (n + length (TermGenerator_termList qt tag)) (m_doc (indexXAttr_tag qt g tag))"
    using doc_good_xattrText[OF assms(1) Cons.prems(1), of "lit ''TA''" tag] Cons.prems(2)
    by (auto simp: indexXAttr_tag_def Let_def xattr_word_def intro!: doc_good_add)
  from Cons.IH[OF this] show ?case
    using Cons.prems(2) by (simp add: add.assoc)
qed simp

lemma doc_good_indexXAttr:
  assumes "text_ok qt" "attributes_ok qt (fw_userMetaData w url)" "doc_good 0 doc"
  shows "doc_good (2 ^ 32 - 1) (indexXAttr qt w url doc)"
proof -
  define um where "um = fw_userMetaData w url"
  define k where "k = sum_list (map (\<lambda>tag. length (TermGenerator_termList qt tag)) (um_tags um))"
  define tg1 where "tg1 = foldl (indexXAttr_tag qt) (TermGenerator_new doc) (um_tags um)"
  define tg2 where "tg2 = (if um_rating um \<noteq> 0
      then tg1\<lparr>m_doc := Document_addXattrTerm (m_doc tg1) (lit ''R'' @ QByteArray_number (um_rating um))\<rparr> else tg1)"
  have tags: "\<forall>tag \<in> set (um_tags um). word_ok (lit ''TAG-'' @ qt_toUtf8 qt tag)"
    and rating: "int_ok (um_rating um)"
    and total: "k + length (TermGenerator_termList qt (um_userComment um)) < 2 ^ 32"
    using assms(2) by (auto simp: attributes_ok_def um_def k_def)
  have "doc_good k (m_doc tg1)"
    using tags_good[OF assms(1) tags, of 0 "TermGenerator_new doc"] assms(3)
    by (simp add: tg1_def k_def TermGenerator_new_def)
  then have 2: "doc_good k (m_doc tg2)"
    using number_word[OF rating]
    by (auto simp: tg2_def xattr_word_def word_ok_def term_bytes_ok_def intro!: doc_good_add)
  have 3: "doc_good (k + length (TermGenerator_termList qt (um_userComment um)))
      (m_doc (TermGenerator_indexXattrText qt tg2 (um_userComment um) (lit ''C'')))"
    by (rule doc_good_xattrText[OF assms(1) 2]) simp
  have "indexXAttr qt w url doc = (if \<not> um_queryAttributes um then doc
      else m_doc (if um_userComment um \<noteq> [] then TermGenerator_indexXattrText qt tg2 (um_userComment um) (lit ''C'') else tg2))"
    by (simp add: indexXAttr_def Let_def um_def[symmetric] tg1_def[symmetric] tg2_def[symmetric])
  then show ?thesis
    using assms(3) 2 3 total by (auto intro: doc_good_mono)
qed

lemma type_term_good: "int_ok (fw_typeNumber w type) \<Longrightarrow> content_word (type_term w type) \<and> word_ok (type_term w type)"
  using number_word[of "fw_typeNumber w type"]
  by (cases "QByteArray_number (fw_typeNumber w type)")
    (auto simp: type_term_def content_word_def word_ok_def term_bytes_ok_def)

lemma m_terms_addTerm [simp]: "m_terms (Document_addTerm doc t) \<noteq> []"
  by (simp add: Document_addTerm_def qmap_update_def qmap_insert_not_Nil)

lemma m_terms_fold [simp]:
  "m_terms doc \<noteq> [] \<Longrightarrow> m_terms (foldl (\<lambda>doc type. Document_addTerm doc (f type)) doc types) \<noteq> []"
  by (induction types arbitrary: doc) auto

lemma m_terms_mimetype:
  assumes "TermGenerator_termList qt str \<noteq> []"
  shows "m_terms (m_doc (TermGenerator_indexMimetype qt g str)) \<noteq> []"
proof -
  have "ts \<noteq> [] \<Longrightarrow> m_terms (m_doc (foldl (\<lambda>g t. g\<lparr>m_doc := Document_addTerm (m_doc g) (lit ''M'' @ t)\<rparr>) g ts)) \<noteq> []" for ts
    by (induction ts rule: rev_induct) simp_all
  then show ?thesis
    using assms by (simp add: TermGenerator_indexMimetype_def Let_def Document_setMimetype_def)
qed

lemma doc_fields_fold:
  assumes "\<And>g t. F (m_doc (step g t)) = F (m_doc g)"
  shows "F (m_doc (foldl step g ts)) = F (m_doc g)"
  by (induction ts arbitrary: g) (simp_all add: assms)

lemma indexXattrText_fields:
  "m_terms (m_doc (TermGenerator_indexXattrText qt g str pre)) = m_terms (m_doc g)"
  "m_id (m_doc (TermGenerator_indexXattrText qt g str pre)) = m_id (m_doc g)"
  "m_url (m_doc (TermGenerator_indexXattrText qt g str pre)) = m_url (m_doc g)"
  by (auto simp: TermGenerator_indexXattrText_def Let_def Document_op_defs
      intro: doc_fields_fold[where F = m_terms] doc_fields_fold[where F = m_id] doc_fields_fold[where F = m_url])

lemma indexXAttr_fields:
  "m_terms (indexXAttr qt w url doc) = m_terms doc" "m_id (indexXAttr qt w url doc) = m_id doc"
  "m_url (indexXAttr qt w url doc) = m_url doc"
proof -
  have tag: "m_terms (m_doc (indexXAttr_tag qt g tag)) = m_terms (m_doc g)"
    "m_id (m_doc (indexXAttr_tag qt g tag)) = m_id (m_doc g)"
    "m_url (m_doc (indexXAttr_tag qt g tag)) = m_url (m_doc g)" for g tag
    by (simp_all add: indexXAttr_tag_def Let_def indexXattrText_fields Document_addXattrTerm_def)
  note folds = doc_fields_fold[where F = m_terms and step = "indexXAttr_tag qt", OF tag(1)]
    doc_fields_fold[where F = m_id and step = "indexXAttr_tag qt", OF tag(2)]
    doc_fields_fold[where F = m_url and step = "indexXAttr_tag qt", OF tag(3)]
  show "m_terms (indexXAttr qt w url doc) = m_terms doc" "m_id (indexXAttr qt w url doc) = m_id doc"
    "m_url (indexXAttr qt w url doc) = m_url doc"
    by (simp_all add: indexXAttr_def Let_def indexXattrText_fields folds TermGenerator_new_def
        Document_addXattrTerm_def)
qed

lemma indexFileNameText_fields:
  "m_id (m_doc (TermGenerator_indexFileNameText qt g str)) = m_id (m_doc g)"
  "m_url (m_doc (TermGenerator_indexFileNameText qt g str)) = m_url (m_doc g)"
  unfolding TermGenerator_indexFileNameText_def
  by (rule doc_fields_fold; simp add: Document_addFileNameTerm_def)+

lemma indexMimetype_fields:
  "m_id (m_doc (TermGenerator_indexMimetype qt g str)) = m_id (m_doc g)"
  "m_url (m_doc (TermGenerator_indexMimetype qt g str)) = m_url (m_doc g)"
proof -
  have "m_id (m_doc (foldl (\<lambda>g t. g\<lparr>m_doc := Document_addTerm (m_doc g) (lit ''M'' @ t)\<rparr>) g ts)) = m_id (m_doc g)"
    "m_url (m_doc (foldl (\<lambda>g t. g\<lparr>m_doc := Document_addTerm (m_doc g) (lit ''M'' @ t)\<rparr>) g ts)) = m_url (m_doc g)" for ts
    by (rule doc_fields_fold; simp add: Document_addTerm_def)+
  then show "m_id (m_doc (TermGenerator_indexMimetype qt g str)) = m_id (m_doc g)"
    "m_url (m_doc (TermGenerator_indexMimetype qt g str)) = m_url (m_doc g)"
    by (simp_all add: TermGenerator_indexMimetype_def Let_def Document_setMimetype_def)
qed

lemma foldl_addTerm_fields:
  "m_id (foldl (\<lambda>doc type. Document_addTerm doc (f type)) doc types) = m_id doc"
  "m_url (foldl (\<lambda>doc type. Document_addTerm doc (f type)) doc types) = m_url doc"
  by (induction types arbitrary: doc) (simp_all add: Document_addTerm_def)

lemma foldl_addTerm_good:
  "doc_good n doc \<Longrightarrow> \<forall>type. content_word (f type) \<and> word_ok (f type) \<Longrightarrow>
   doc_good n (foldl (\<lambda>doc type. Document_addTerm doc (f type)) doc types)"
  by (induction types arbitrary: doc) (auto intro: doc_good_add)

text \<open>The document of \<open>index\<close> has the id of the path and its url; there is one iff the file and its folder exist.\<close>

lemmas index_fields = indexXAttr_fields Document_setCTime_def Document_setMTime_def
    Document_setContentIndexing_def Document_addTerm_def foldl_addTerm_fields[unfolded Document_addTerm_def]
    indexMimetype_fields indexFileNameText_fields TermGenerator_new_def
    Document_setUrl_def Document_setId_def Document_setParentId_def

lemma BasicIndexingJob_index_url:
  assumes "BasicIndexingJob_index qt w job = Some doc"
  shows "m_id doc = filePathToId (fw_fs w) (fw_encodeName w (bj_filePath job))"
    and "m_url doc = fw_encodeName w (bj_filePath job)"
  using assms
  by (auto simp: BasicIndexingJob_index_def Let_def index_fields filePathToId_def split: option.splits)

lemma BasicIndexingJob_index_exists:
  "BasicIndexingJob_index qt w job \<noteq> None \<longleftrightarrow>
     (let url = fw_encodeName w (bj_filePath job)
      in filePathToStat (fw_fs w) (take (nat (lastIndexOf url slash)) url) \<noteq> None \<and>
         filePathToStat (fw_fs w) url \<noteq> None)"
  by (auto simp: BasicIndexingJob_index_def Let_def split: option.splits)

text \<open>What every client of \<open>index\<close> gets: a good document of the file with the id of its path.\<close>

lemma BasicIndexingJob_index_good:
  assumes "text_ok qt" "world_ok qt w" "TermGenerator_termList qt (bj_mimetype job) \<noteq> []"
    and "BasicIndexingJob_index qt w job = Some doc"
  shows "doc_good (2 ^ 32 - 1) doc" "m_terms doc \<noteq> []" "group_good content_word 0 (m_terms doc)"
proof -
  define url where "url = fw_encodeName w (bj_filePath job)"
  obtain dirStat statBuf where stat: "filePathToStat (fw_fs w) url = Some statBuf"
    "filePathToStat (fw_fs w) (take (nat (lastIndexOf url slash)) url) = Some dirStat"
    using assms(4) by (auto simp: BasicIndexingJob_index_def Let_def url_def split: option.splits)
  define doc1 where "doc1 = Document_setUrl (Document_setId
      (Document_setParentId Document_new (statBufToId dirStat)) (statBufToId statBuf)) url"
  define tg1 where "tg1 = TermGenerator_indexFileNameText qt (TermGenerator_new doc1)
      (fw_decodeName w (drop (nat (lastIndexOf url slash + 1)) url))"
  define tg2 where "tg2 = TermGenerator_indexMimetype qt tg1
      (if st_size statBuf = 0 then qs ''application/x-zerosize'' else bj_mimetype job)"
  define doc2 where "doc2 = Document_setCTime (Document_setMTime (m_doc tg2) (word_of_int (st_mtime statBuf)))
      (word_of_int (st_ctime statBuf))"
  define marked where "marked = (if bj_indexingLevel job = MarkForContentIndexing
      then Document_setContentIndexing doc2 True else doc2)"
  define doc3 where "doc3 = (if st_isdir statBuf then Document_addTerm doc2 (type_term w Type_Folder)
      else if st_size statBuf > 0 then
        foldl (\<lambda>doc type. Document_addTerm doc (type_term w type)) marked (typesForMimeType (bj_mimetype job))
      else doc2)"
  have doc: "doc = indexXAttr qt w (bj_filePath job) doc3"
    using assms(4) stat unfolding BasicIndexingJob_index_def Let_def doc3_def marked_def doc2_def tg2_def tg1_def
      doc1_def url_def by simp
  have types: "\<forall>type. content_word (type_term w type) \<and> word_ok (type_term w type)"
    using assms(2) type_term_good[of w] by (auto simp: world_ok_def)
  have "doc_good 0 (m_doc tg1)"
    unfolding tg1_def by (rule doc_good_fileName[OF assms(1)]) (simp add: TermGenerator_new_def doc1_def)
  then have "doc_good 0 (m_doc tg2)"
    unfolding tg2_def by (rule doc_good_mimetype[OF assms(1)])
  then have good: "doc_good 0 doc3"
    using types by (auto simp: doc3_def doc2_def marked_def intro!: doc_good_add foldl_addTerm_good)
  show "group_good content_word 0 (m_terms doc)"
    using good by (simp add: doc indexXAttr_fields doc_good_def)
  from good show "doc_good (2 ^ 32 - 1) doc"
    using doc_good_indexXAttr[OF assms(1), of w "bj_filePath job"] assms(2) by (simp add: doc world_ok_def)
  have "m_terms (m_doc tg2) \<noteq> []"
    using assms(1,3) unfolding tg2_def by (intro m_terms_mimetype) (auto simp: text_ok_def)
  then show "m_terms doc \<noteq> []"
    by (auto simp: doc indexXAttr_fields doc3_def marked_def doc2_def Document_setCTime_def Document_setMTime_def
        Document_setContentIndexing_def)
qed

end
