(* ===== verification/JobInv.thy ===== *)
theory JobInv
  imports JobDocs
begin

text \<open>
  The index under the indexing jobs. Beside \<open>index_inv\<close> the store keeps that every document with words is
  in the file tree (so a document that \<open>hasDocument\<close> does not know has no words) and that the stored groups
  of words use their prefixes. Every operation the jobs perform keeps this, so every job does.
\<close>

section \<open>Which documents are known\<close>

lemma has_put:
  "lmdb_ok L \<Longrightarrow> DocumentUrlDB_contains L (IdFilenameDB_put L idFilenameDbi s i path) j \<longleftrightarrow>
     j \<noteq> 0 \<and> j = i \<or> DocumentUrlDB_contains L s j"
  by (auto simp: DocumentUrlDB_contains_def IdFilenameDB_contains_def IdFilenameDB_put_def mdb_get_put
      le_bytes_64_inject)

lemma has_del:
  "lmdb_ok L \<Longrightarrow> DocumentUrlDB_contains L (IdFilenameDB_del L idFilenameDbi s i) j \<longleftrightarrow>
     j \<noteq> i \<and> DocumentUrlDB_contains L s j"
  by (auto simp: DocumentUrlDB_contains_def IdFilenameDB_contains_def IdFilenameDB_del_def mdb_get_del
      le_bytes_64_inject)

lemma has_tree [simp]:
  "lmdb_ok L \<Longrightarrow> DocumentUrlDB_contains L (IdTreeDB_set L idTreeDbi s i subs) j = DocumentUrlDB_contains L s j"
  by (simp add: DocumentUrlDB_contains_def IdFilenameDB_contains_def IdTreeDB_set_def lmdb_simps)

lemma has_cong:
  assumes "lmdb_ok L" "mdb_scan L s' idFilenameDbi = mdb_scan L s idFilenameDbi"
  shows "DocumentUrlDB_contains L s' j = DocumentUrlDB_contains L s j"
  using assms by (simp add: DocumentUrlDB_contains_def IdFilenameDB_contains_def mdb_get_scan)

lemma has_add:
  "lmdb_ok L \<Longrightarrow> DocumentUrlDB_contains L (DocumentUrlDB_add L s i p nm) j \<longleftrightarrow>
     i \<noteq> 0 \<and> nm \<noteq> [] \<and> j = i \<or> DocumentUrlDB_contains L s j"
  by (auto simp: DocumentUrlDB_add_def Let_def has_put)

lemma has_url_del:
  "lmdb_ok L \<Longrightarrow> DocumentUrlDB_contains L (DocumentUrlDB_del L s i) j \<longleftrightarrow> j \<noteq> i \<and> DocumentUrlDB_contains L s j"
  by (cases "i = 0")
    (auto simp: DocumentUrlDB_del_def removeOne_def Let_def has_del DocumentUrlDB_contains_def[of L s 0])

lemma has_updateUrl:
  "lmdb_ok L \<Longrightarrow> DocumentUrlDB_contains L s j \<Longrightarrow> DocumentUrlDB_contains L (DocumentUrlDB_updateUrl L s i p nm) j"
  by (auto simp: DocumentUrlDB_updateUrl_def removeOne_def Let_def has_put)

lemma has_addPath_loop:
  "lmdb_ok L \<Longrightarrow> DocumentUrlDB_contains L s j \<Longrightarrow>
   DocumentUrlDB_contains L (snd (DocumentUrlDB_addPath_loop L fs s arr i)) j"
proof (induction L fs s arr i rule: DocumentUrlDB_addPath_loop.induct)
  case (1 L fs s arr i)
  show ?case
    using "1.IH"[OF _ _ refl refl _ refl refl] "1.prems"
    by (subst DocumentUrlDB_addPath_loop.simps) (simp add: Let_def has_add)
qed

lemma has_addPath:
  "lmdb_ok L \<Longrightarrow> DocumentUrlDB_contains L s j \<Longrightarrow> DocumentUrlDB_contains L (snd (DocumentUrlDB_addPath L fs s url)) j"
  by (simp add: DocumentUrlDB_addPath_def has_addPath_loop)

lemma has_addDocument_url:
  assumes "lmdb_ok L" "addDocument_url L fs s doc = (ok, s')"
  shows "DocumentUrlDB_contains L s j \<Longrightarrow> DocumentUrlDB_contains L s' j"
    and "ok \<Longrightarrow> DocumentUrlDB_contains L s' (m_id doc)"
  using assms
  by (auto simp: addDocument_url_def Let_def DocumentUrlDB_put_def has_add has_addPath split: if_splits)

section \<open>The store\<close>

definition groups_ok :: "'s lmdb \<Rightarrow> 's \<Rightarrow> u64 \<Rightarrow> bool" where
  "groups_ok L s i \<longleftrightarrow>
     (\<forall>t \<in> set (DocumentDB_get L docTermsDbi s i). content_word t) \<and>
     (\<forall>t \<in> set (DocumentDB_get L docXattrTermsDbi s i). xattr_word t) \<and>
     (\<forall>t \<in> set (DocumentDB_get L docFilenameTermsDbi s i). name_word t)"

definition store_ok :: "'s lmdb \<Rightarrow> 's \<Rightarrow> bool" where
  "store_ok L s \<longleftrightarrow> (\<forall>i. groups_ok L s i \<and> (doc_words L s i \<noteq> {} \<longrightarrow> DocumentUrlDB_contains L s i))"

definition doc_class :: "Document \<Rightarrow> bool" where
  "doc_class doc \<longleftrightarrow> (\<forall>t \<in> fst ` set (m_terms doc). content_word t) \<and>
     (\<forall>t \<in> fst ` set (m_xattrTerms doc). xattr_word t) \<and> (\<forall>t \<in> fst ` set (m_fileNameTerms doc). name_word t)"

lemma doc_good_class:
  assumes "doc_good (2 ^ 32 - 1) doc"
  shows "doc_class doc" "m_terms doc \<noteq> [] \<Longrightarrow> doc_ok doc"
    "(operations AND DocumentTerms \<noteq> 0 \<longrightarrow> m_terms doc \<noteq> []) \<Longrightarrow> doc_fits doc operations"
  using assms
  by (fastforce simp: doc_good_def doc_class_def doc_ok_def doc_fits_def group_good_def terms_ok_def)+

text \<open>What matters of a store: the rows of words and which ids are known.\<close>

lemma store_okI:
  assumes "store_ok L s"
    and rows: "\<And>j d. d \<in> {docTermsDbi, docXattrTermsDbi, docFilenameTermsDbi} \<Longrightarrow> j \<noteq> i \<Longrightarrow>
      DocumentDB_get L d s' j = DocumentDB_get L d s j"
    and has: "\<And>j. j \<noteq> i \<Longrightarrow> DocumentUrlDB_contains L s j \<Longrightarrow> DocumentUrlDB_contains L s' j"
    and new: "groups_ok L s' i" "doc_words L s' i \<noteq> {} \<Longrightarrow> DocumentUrlDB_contains L s' i"
  shows "store_ok L s'"
  unfolding store_ok_def
proof (intro allI)
  fix j
  show "groups_ok L s' j \<and> (doc_words L s' j \<noteq> {} \<longrightarrow> DocumentUrlDB_contains L s' j)"
  proof (cases "j = i")
    case False
    then show ?thesis
      using assms(1) has[of j] by (simp add: store_ok_def groups_ok_def doc_words_def rows)
  qed (use new in simp)
qed

lemma store_ok_cong:
  assumes "lmdb_ok L" "store_ok L s"
    and "\<And>d. d \<in> {docTermsDbi, docXattrTermsDbi, docFilenameTermsDbi, idFilenameDbi} \<Longrightarrow> mdb_scan L s' d = mdb_scan L s d"
  shows "store_ok L s'"
proof -
  have "DocumentDB_get L d s' j = DocumentDB_get L d s j"
    if "d \<in> {docTermsDbi, docXattrTermsDbi, docFilenameTermsDbi}" for d j
    using that assms(3) by (intro document_tbl.get_cong[OF assms(1)]) auto
  then show ?thesis
    using assms(2) has_cong[OF assms(1) assms(3)] by (simp add: store_ok_def groups_ok_def doc_words_def)
qed

lemma store_ok_add:
  assumes "lmdb_ok L" "store_ok L (m_txn W)" "doc_ok doc" "doc_class doc"
    and "\<not> DocumentUrlDB_contains L (m_txn W) (m_id doc)"
  shows "store_ok L (m_txn (WriteTransaction_addDocument L json fs W doc))" (is "store_ok L (m_txn ?W)")
proof -
  obtain ok s where url: "addDocument_url L fs (m_txn W) doc = (ok, s)" by (metis prod.exhaust)
  have scan: "\<not> url_dbi d \<Longrightarrow> mdb_scan L s d = mdb_scan L (m_txn W) d" for d
    using addDocument_url_scan[OF assms(1), of d fs "m_txn W" doc] url by simp
  have rows: "DocumentDB_get L d s j = DocumentDB_get L d (m_txn W) j"
    if "d \<in> {docTermsDbi, docXattrTermsDbi, docFilenameTermsDbi}" for d j
    using that scan by (intro document_tbl.get_cong[OF assms(1)]) auto
  note has = has_addDocument_url[OF assms(1) url]
  have none: "doc_words L (m_txn W) (m_id doc) = {}"
    using assms(2,5) by (auto simp: store_ok_def)
  show ?thesis
  proof (cases ok)
    case False
    then have W: "m_txn ?W = s" by (simp add: addDocument_split url)
    show ?thesis
      unfolding W by (rule store_okI[OF assms(2), where i = "m_id doc"])
        (use rows has none in \<open>auto simp: groups_ok_def doc_words_def\<close>)
  next
    case True
    then have W: "m_txn ?W = addDocument_rows L json s doc" by (simp add: addDocument_split url)
    note reads = addDocument_rows_reads[OF assms(1,3)]
    have known: "DocumentUrlDB_contains L (addDocument_rows L json s doc) j = DocumentUrlDB_contains L s j" for j
      by (rule has_cong[OF assms(1)]) (simp add: reads)
    show ?thesis
      unfolding W
    proof (rule store_okI[OF assms(2), where i = "m_id doc"])
      show "groups_ok L (addDocument_rows L json s doc) (m_id doc)"
        using assms(4) none rows by (auto simp: groups_ok_def reads doc_class_def doc_words_def)
    qed (use True has rows known in \<open>auto simp: reads\<close>)
  qed
qed

lemma store_ok_remove:
  assumes "lmdb_ok L" "store_ok L (m_txn W)"
  shows "store_ok L (m_txn (WriteTransaction_removeDocument L W i))"
proof -
  let ?s6 = "DocumentDB_del L docFilenameTermsDbi
     (DocumentDB_del L docXattrTermsDbi (DocumentDB_del L docTermsDbi (m_txn W) i) i) i"
  note reads = removeDocument_rows_reads[OF assms(1)]
  have "mdb_scan L ?s6 idFilenameDbi = mdb_scan L (m_txn W) idFilenameDbi"
    using assms(1) by (simp add: row_write_defs lmdb_simps)
  note s6 = has_cong[OF assms(1) this]
  have known: "DocumentUrlDB_contains L (removeDocument_rows L (m_txn W) i) j \<longleftrightarrow>
      j \<noteq> i \<and> DocumentUrlDB_contains L (m_txn W) j" for j
  proof -
    have "mdb_scan L (removeDocument_rows L (m_txn W) i) idFilenameDbi = mdb_scan L (DocumentUrlDB_del L ?s6 i) idFilenameDbi"
      by (rule reads(7)) simp
    from has_cong[OF assms(1) this] show ?thesis
      by (simp add: has_url_del[OF assms(1)] s6)
  qed
  show ?thesis
    unfolding removeDocument_split wtxn.select_convs
    by (rule store_okI[OF assms(2), where i = i]) (auto simp: known reads groups_ok_def doc_words_def)
qed

lemma store_ok_replace:
  assumes "lmdb_ok L" "store_ok L (m_txn W)" "doc_fits doc operations" "doc_class doc"
    and "DocumentUrlDB_contains L (m_txn W) (m_id doc)"
  shows "store_ok L (m_txn (WriteTransaction_replaceDocument L json W doc operations))" (is "store_ok L (m_txn ?W)")
proof -
  note rows = replaceDocument_terms[OF assms(1,3)]
  let ?s = "replace_other_rows L json (replace_terms_rows L (m_txn W) doc operations) doc operations"
  have "mdb_scan L ?s idFilenameDbi = mdb_scan L (m_txn W) idFilenameDbi"
    using assms(1) by (simp add: replace_other_rows_scan replace_terms_rows_scan)
  note s = has_cong[OF assms(1) this]
  have has: "DocumentUrlDB_contains L (m_txn ?W) j" if "DocumentUrlDB_contains L (m_txn W) j" for j
    using that s has_updateUrl[OF assms(1)] by (simp add: replaceDocument_split[OF assms(1)] Let_def)
  show ?thesis
  proof (rule store_okI[OF assms(2), where i = "m_id doc"])
    have "groups_ok L (m_txn W) (m_id doc)" using assms(2) by (simp add: store_ok_def)
    then show "groups_ok L (m_txn ?W) (m_id doc)"
      using assms(4) by (auto simp: groups_ok_def rows doc_class_def doc_group_def)
  qed (use has assms(5) in \<open>auto simp: rows\<close>)
qed

lemma store_ok_apart:
  assumes "store_ok L s" "doc_class doc"
  shows "groups_apart L s doc operations"
proof -
  have old: "groups_ok L s (m_id doc)" using assms(1) by (simp add: store_ok_def)
  have "content_word t" if "t \<in> set (DocumentDB_get L docTermsDbi s (m_id doc)) \<union> new_words doc operations docTermsDbi" for t
    using that old assms(2) by (auto simp: groups_ok_def doc_class_def new_words_def doc_group_def split: if_splits)
  moreover have "xattr_word t"
    if "t \<in> set (DocumentDB_get L docXattrTermsDbi s (m_id doc)) \<union> new_words doc operations docXattrTermsDbi" for t
    using that old assms(2) by (auto simp: groups_ok_def doc_class_def new_words_def doc_group_def split: if_splits)
  moreover have "name_word t"
    if "t \<in> set (DocumentDB_get L docFilenameTermsDbi s (m_id doc)) \<union> new_words doc operations docFilenameTermsDbi" for t
    using that old assms(2) by (auto simp: groups_ok_def doc_class_def new_words_def doc_group_def split: if_splits)
  ultimately show ?thesis
    using word_groups_apart unfolding groups_apart_def Let_def by (metis (no_types, lifting) disjoint_iff)
qed

end
