(* ===== verification/Extractor.thy ===== *)
theory Extractor
  imports IndexJobs CommandPipe
begin

text \<open>
  The extractor process: \<open>extractor/result.cpp\<close>, which turns what the KFileMetaData plugins report into a
  document, and \<open>extractor/app.cpp\<close>, which works through a batch of ids and commits the documents. The
  plugins, strict MIME types and JSON are parameters; the clock is the argument \<open>early\<close> of a step.
\<close>

section \<open>Result\<close>

text \<open>A \<open>QVariant\<close> by the types the code tells apart: dates are given by their ISO form.\<close>

datatype prop_value =
  PV_Bool bool | PV_Int int | PV_Date bytes | PV_DateTime bytes | PV_String QString | PV_StringList "QString list"

text \<open>A \<open>PropertyMultiMap\<close> is the list of its entries, by ascending key, the newest first for one key.\<close>

type_synonym property_map = "(int \<times> prop_value) list"

definition multi_insert :: "int \<Rightarrow> 'v \<Rightarrow> (int \<times> 'v) list \<Rightarrow> (int \<times> 'v) list" where
  "multi_insert k v m = takeWhile (\<lambda>e. fst e < k) m @ (k, v) # dropWhile (\<lambda>e. fst e < k) m"

record ExtractResult =
  r_doc :: Document
  r_text :: "QString list"
  r_map :: property_map

datatype extract_call = EC_add int prop_value | EC_append QString | EC_addType KFileType

definition Result_add :: "int \<Rightarrow> prop_value \<Rightarrow> ExtractResult \<Rightarrow> ExtractResult" where
  "Result_add property value r =
     (case value of
        PV_StringList valueList \<Rightarrow>
          r\<lparr>r_map := foldl (\<lambda>m val. multi_insert property (PV_String val) m) (r_map r) valueList\<rparr>
      | _ \<Rightarrow> r\<lparr>r_map := multi_insert property value (r_map r)\<rparr>)"

definition Result_append :: "QString \<Rightarrow> ExtractResult \<Rightarrow> ExtractResult" where
  "Result_append str r = r\<lparr>r_text := r_text r @ [str]\<rparr>"

definition Result_addType :: "'z file_world_scheme \<Rightarrow> KFileType \<Rightarrow> ExtractResult \<Rightarrow> ExtractResult" where
  "Result_addType w type r = r\<lparr>r_doc := Document_addTerm (r_doc r) (type_term w type)\<rparr>"

definition run_extract_call :: "'z file_world_scheme \<Rightarrow> ExtractResult \<Rightarrow> extract_call \<Rightarrow> ExtractResult" where
  "run_extract_call w r call =
     (case call of
        EC_add property value \<Rightarrow> Result_add property value r
      | EC_append str \<Rightarrow> Result_append str r
      | EC_addType type \<Rightarrow> Result_addType w type r)"

definition indexProperty_value :: "qt_text \<Rightarrow> TermGenerator \<Rightarrow> int \<times> prop_value \<Rightarrow> TermGenerator" where
  "indexProperty_value qt tg = (\<lambda>(property, value).
     let pre = lit ''X'' @ QByteArray_number property @ lit ''-'';
         add = (\<lambda>t. tg\<lparr>m_doc := Document_addTerm (m_doc tg) t\<rparr>)
     in case value of
          PV_Bool b \<Rightarrow> add pre
        | PV_Int i \<Rightarrow> add (pre @ QByteArray_number i)
        | PV_Date isoDate \<Rightarrow> add (pre @ isoDate)
        | PV_DateTime isoDate \<Rightarrow> add (pre @ isoDate)
        | PV_String val \<Rightarrow> if val \<noteq> [] then TermGenerator_indexProperty qt tg val pre else tg
        | PV_StringList vals \<Rightarrow>
            (case vals of
               [val] \<Rightarrow> if val \<noteq> [] then TermGenerator_indexProperty qt tg val pre else tg
             | _ \<Rightarrow> tg))"

definition Result_indexProperties :: "qt_text \<Rightarrow> TermGenerator \<Rightarrow> property_map \<Rightarrow> TermGenerator" where
  "Result_indexProperties qt tg properties = foldl (indexProperty_value qt) tg properties"

definition Result_indexText :: "qt_text \<Rightarrow> TermGenerator \<Rightarrow> QString list \<Rightarrow> TermGenerator" where
  "Result_indexText qt tg blocks = foldl (TermGenerator_indexText qt) tg blocks"

text \<open>\<open>jdoc\<close> gives the compact JSON of the properties with the MIME type under \<open>M\<close>.\<close>

definition Result_finish :: "qt_text \<Rightarrow> (property_map \<Rightarrow> QString \<Rightarrow> bytes) \<Rightarrow> ExtractResult \<Rightarrow> ExtractResult" where
  "Result_finish qt jdoc r =
     (let doc = Document_setData (r_doc r) (jdoc (r_map r) (m_mimetype (r_doc r)));
          tg = Result_indexProperties qt (TermGenerator_new doc) (r_map r)
      in r\<lparr>r_doc := m_doc (Result_indexText qt tg (r_text r))\<rparr>)"

section \<open>App\<close>

datatype IndexState = Pending | DoesNotExist | RemoveIndex | SkipIndex | Succeeded | Committed

record BatchInfo =
  bi_id :: u64
  bi_path :: bytes
  bi_state :: IndexState
  bi_result :: "Document option"

record extract_world = file_world +
  ew_strictMimeType :: "QString \<Rightarrow> QString"
  ew_size :: "QString \<Rightarrow> int"
  ew_extract :: "QString \<Rightarrow> QString \<Rightarrow> extract_call list"
  ew_jdoc :: "property_map \<Rightarrow> QString \<Rightarrow> bytes"

definition App_extract ::
  "qt_text \<Rightarrow> 'z extract_world_scheme \<Rightarrow> QString \<Rightarrow> QString \<Rightarrow> Document \<Rightarrow> Document" where
  "App_extract qt w url mimetype doc =
     r_doc (Result_finish qt (ew_jdoc w)
       (foldl (run_extract_call w) \<lparr>r_doc = doc, r_text = [], r_map = []\<rparr> (ew_extract w url mimetype)))"

text \<open>The file with its new state, and what the worker reports.\<close>

definition App_index ::
  "('e, 's) indexer_api \<Rightarrow> 'z extract_world_scheme \<Rightarrow> FileIndexerConfig \<Rightarrow> BatchInfo \<Rightarrow> BatchInfo \<times> status_message list" where
  "App_index A w c info =
     (let url = fw_decodeName w (bi_path info);
          ends = (\<lambda>state status. (info\<lparr>bi_state := state\<rparr>, [urlProcessed url False status]));
          mimetype = ew_strictMimeType w url
      in if url = [] then (info\<lparr>bi_state := DoesNotExist\<rparr>, [])
         else if \<not> fi_exists w url then ends DoesNotExist ErrorFileNotFound
         else if \<not> shouldBeIndexed (ia_regex A) w c url then ends RemoveIndex IgnoredFilename
         else if \<not> shouldMimeTypeBeIndexed c mimetype then ends SkipIndex IgnoredMimetype
         else if (prefix (qs ''text/'') mimetype \<or> mimetype = qs ''application/mbox'') \<and>
                 ew_size w url \<ge> 10 * 1024 * 1024
         then ends SkipIndex IgnoredTooLarge
         else
           map_prod id (Cons (urlStarted url))
             (case job_document A w url mimetype NoLevel of
                None \<Rightarrow> ends DoesNotExist ErrorFileNotFound
              | Some doc \<Rightarrow>
                  if m_id doc \<noteq> bi_id info then ends RemoveIndex ErrorFileNotFound
                  else (info\<lparr>bi_state := Succeeded, bi_result := Some (App_extract (ia_text A) w url mimetype doc)\<rparr>,
                        [urlProcessed url True Successful])))"

text \<open>\<open>ap_sent\<close> are the messages given to \<open>m_workerPipe\<close>.\<close>

record App =
  ap_batch :: "BatchInfo list"
  ap_consecutiveErrors :: u32
  ap_sent :: "status_message list"

text \<open>
  What a slot does next: it schedules itself again or \<open>processNextFile\<close> for the new batch, has finished the
  batch, or exits with a code.
\<close>

datatype app_next = Again | BatchReady | BatchFinished | Exit int

text \<open>A read-only transaction that begins and is destroyed again.\<close>

definition read_store :: "('e, 's) indexer_api \<Rightarrow> 'e \<Rightarrow> 's option" where
  "read_store A e = t_txn (Transaction_new (ia_env A) ReadOnly e)"

definition App_slotNewBatch ::
  "('e, 's) indexer_api \<Rightarrow> FileIndexerConfig \<Rightarrow> u64 list \<Rightarrow> 'e \<Rightarrow> App \<Rightarrow> app_next \<times> App" where
  "App_slotNewBatch A c ids e a =
     (let add = (\<lambda>path state. a\<lparr>ap_batch := ap_batch a @
                  map (\<lambda>i. \<lparr>bi_id = i, bi_path = path i, bi_state = state, bi_result = None\<rparr>) ids\<rparr>)
      in if ic_onlyBasicIndexing c then (BatchReady, add (\<lambda>i. []) SkipIndex)
         else
           case read_store A e of
             Some s \<Rightarrow>
               (BatchReady, (add (Transaction_documentUrl (ia_lmdb A) s) Pending)\<lparr>ap_consecutiveErrors := 0\<rparr>)
           | None \<Rightarrow>
               if ap_consecutiveErrors a > 10 then (Exit 3, a\<lparr>ap_consecutiveErrors := ap_consecutiveErrors a + 1\<rparr>)
               else (Again, a\<lparr>ap_consecutiveErrors := ap_consecutiveErrors a + 1\<rparr>))"

text \<open>One \<open>info\<close> of the loop that commits; the transaction is valid.\<close>

definition App_commit_info ::
  "('e, 's) indexer_api \<Rightarrow> 's Transaction \<Rightarrow> BatchInfo \<Rightarrow> 's Transaction" where
  "App_commit_info A T info =
     (case bi_state info of
        DoesNotExist \<Rightarrow> Transaction_removeDocument (ia_lmdb A) (bi_id info) T
      | RemoveIndex \<Rightarrow> Transaction_removeDocument (ia_lmdb A) (bi_id info) T
      | SkipIndex \<Rightarrow> Transaction_removePhaseOne (ia_lmdb A) (bi_id info) T
      | Succeeded \<Rightarrow>
          in_txn T (\<lambda>s.
            if \<not> Transaction_inPhaseOne (ia_lmdb A) s (bi_id info) then T
            else if \<not> Transaction_hasDocument (ia_lmdb A) s (bi_id info) then T
            else if Transaction_documentUrl (ia_lmdb A) s (bi_id info) \<noteq> bi_path info then T
            else
              case bi_result info of
                None \<Rightarrow> T
              | Some doc \<Rightarrow>
                  Transaction_removeFailed (ia_lmdb A) (bi_id info)
                    (Transaction_removePhaseOne (ia_lmdb A) (bi_id info)
                      (replace_doc A doc (DocumentTerms OR DocumentData) T)))
      | Pending \<Rightarrow> T
      | Committed \<Rightarrow> T)"

definition info_committed :: "BatchInfo \<Rightarrow> BatchInfo" where
  "info_committed info = (if bi_state info = Pending then info else info\<lparr>bi_state := Committed, bi_result := None\<rparr>)"

text \<open>\<open>std::find_if\<close> for the first pending file, which \<open>index\<close> works on.\<close>

primrec index_first ::
  "('e, 's) indexer_api \<Rightarrow> 'z extract_world_scheme \<Rightarrow> FileIndexerConfig \<Rightarrow> BatchInfo list \<Rightarrow>
   status_message list option \<times> BatchInfo list" where
  "index_first A w c [] = (None, [])"
| "index_first A w c (info # infos) =
     (if bi_state info = Pending
      then let (info', sent) = App_index A w c info in (Some sent, info' # infos)
      else map_prod id (Cons info) (index_first A w c infos))"

definition App_processNextFile ::
  "('e, 's) indexer_api \<Rightarrow> 'z extract_world_scheme \<Rightarrow> FileIndexerConfig \<Rightarrow> bool \<Rightarrow> 'e \<times> App \<Rightarrow> app_next \<times> 'e \<times> App" where
  "App_processNextFile A w c early = (\<lambda>(e, a).
     let (found, batch) = index_first A w c (ap_batch a);
         a = a\<lparr>ap_batch := batch, ap_sent := ap_sent a @ (case found of None \<Rightarrow> [] | Some sent \<Rightarrow> sent)\<rparr>
     in if found \<noteq> None \<and> early then (Again, e, a)
        else
          let T = Transaction_new (ia_env A) ReadWrite e
          in if \<not> Transaction_isValid T then
               if ap_consecutiveErrors a > 10 then (Exit 3, e, a\<lparr>ap_consecutiveErrors := ap_consecutiveErrors a + 1\<rparr>)
               else (Again, e, a\<lparr>ap_consecutiveErrors := ap_consecutiveErrors a + 1\<rparr>)
             else
               let T' = foldl (App_commit_info A) T batch;
                   (ok, e', T'') = Transaction_commit (ia_env A) (ia_lmdb A) e T';
                   a = a\<lparr>ap_consecutiveErrors := 0, ap_batch := map info_committed batch\<rparr>
               in if \<not> ok then (Exit 2, e', a)
                  else if list_ex (\<lambda>info. bi_state info = Pending) batch
                  then (Again, Transaction_destroy (ia_env A) e' T'', a)
                  else (BatchFinished, Transaction_destroy (ia_env A) e' T'',
                        a\<lparr>ap_batch := [], ap_sent := ap_sent a @ [batchFinished]\<rparr>))"

text \<open>The batch under a clock: \<open>Some\<close> with the end that was reached, \<open>None\<close> while it is not finished.\<close>

primrec App_run ::
  "('e, 's) indexer_api \<Rightarrow> 'z extract_world_scheme \<Rightarrow> FileIndexerConfig \<Rightarrow> bool list \<Rightarrow> 'e \<times> App \<Rightarrow>
   (app_next \<times> 'e \<times> App) option" where
  "App_run A w c [] ea = None"
| "App_run A w c (early # clock) ea =
     (let r = App_processNextFile A w c early ea
      in if fst r = Again then App_run A w c clock (snd r) else Some r)"

end
