(* ===== verification/ExtractDocs.thy ===== *)
theory ExtractDocs
  imports Extractor JobDocs
begin

text \<open>The documents the extractor builds from what the plugins report are good documents.\<close>

text \<open>
  What the code relies on in the plugins: property numbers and values are C++ \<open>int\<close>s, dates are printable and
  short, and the text has at most \<open>2 ^ 32 - 1\<close> words.
\<close>

definition value_ok :: "prop_value \<Rightarrow> bool" where
  "value_ok value =
     (case value of
        PV_Int i \<Rightarrow> int_ok i
      | PV_Date isoDate \<Rightarrow> term_bytes_ok isoDate \<and> length isoDate \<le> 100
      | PV_DateTime isoDate \<Rightarrow> term_bytes_ok isoDate \<and> length isoDate \<le> 100
      | _ \<Rightarrow> True)"

definition call_ok :: "extract_call \<Rightarrow> bool" where
  "call_ok call = (case call of EC_add property value \<Rightarrow> int_ok property \<and> value_ok value | _ \<Rightarrow> True)"

definition call_words :: "qt_text \<Rightarrow> extract_call \<Rightarrow> nat" where
  "call_words qt call = (case call of EC_append str \<Rightarrow> length (TermGenerator_termList qt str) | _ \<Rightarrow> 0)"

definition extract_ok :: "qt_text \<Rightarrow> 'z extract_world_scheme \<Rightarrow> bool" where
  "extract_ok qt w \<longleftrightarrow>
     (\<forall>url mimetype. (\<forall>call \<in> set (ew_extract w url mimetype). call_ok call) \<and>
        sum_list (map (call_words qt) (ew_extract w url mimetype)) < 2 ^ 32) \<and>
     (\<forall>url. TermGenerator_termList qt (ew_strictMimeType w url) \<noteq> [])"

text \<open>What the calls collect.\<close>

definition result_ok :: "qt_text \<Rightarrow> Document \<Rightarrow> nat \<Rightarrow> ExtractResult \<Rightarrow> bool" where
  "result_ok qt doc n r \<longleftrightarrow>
     group_good content_word 0 (m_terms (r_doc r)) \<and> m_terms (r_doc r) \<noteq> [] \<and> m_id (r_doc r) = m_id doc \<and>
     m_xattrTerms (r_doc r) = m_xattrTerms doc \<and> m_fileNameTerms (r_doc r) = m_fileNameTerms doc \<and>
     (\<forall>(k, v) \<in> set (r_map r). int_ok k \<and> value_ok v) \<and>
     sum_list (map (\<lambda>str. length (TermGenerator_termList qt str)) (r_text r)) = n"

lemma set_multi_insert: "set (multi_insert k v m) = insert (k, v) (set m)"
proof -
  have "set m = set (takeWhile (\<lambda>e. fst e < k) m) \<union> set (dropWhile (\<lambda>e. fst e < k) m)"
    by (metis set_append takeWhile_dropWhile_id)
  then show ?thesis
    by (auto simp: multi_insert_def)
qed

lemma set_multi_insert_fold:
  "set (foldl (\<lambda>m val. multi_insert k (PV_String val) m) m vals) = (\<lambda>val. (k, PV_String val)) ` set vals \<union> set m"
  by (induction vals arbitrary: m) (auto simp: set_multi_insert)

lemma run_extract_call_ok:
  assumes "\<forall>type. int_ok (fw_typeNumber w type)" "call_ok call" "result_ok qt doc n r"
  shows "result_ok qt doc (n + call_words qt call) (run_extract_call w r call)"
proof (cases call)
  case (EC_add k v)
  then show ?thesis
    using assms(2,3)
    by (cases v) (auto simp: run_extract_call_def Result_add_def result_ok_def set_multi_insert set_multi_insert_fold
        call_ok_def value_ok_def call_words_def)
next
  case (EC_append str)
  then show ?thesis
    using assms(3) by (auto simp: run_extract_call_def Result_append_def result_ok_def call_words_def)
next
  case (EC_addType type)
  have "content_word (type_term w type)" "word_ok (type_term w type)"
    using type_term_good[of w type] assms(1) by auto
  then show ?thesis
    using assms(3) EC_addType
    by (auto simp: run_extract_call_def Result_addType_def result_ok_def call_words_def Document_addTerm_def
        qmap_update_def[symmetric] qmap_insert_not_Nil intro: group_good_update)
      (simp add: qmap_update_def qmap_insert_not_Nil)
qed

lemma run_extract_calls_ok:
  assumes "\<forall>type. int_ok (fw_typeNumber w type)"
  shows "result_ok qt doc n r \<Longrightarrow> \<forall>call \<in> set calls. call_ok call \<Longrightarrow>
    result_ok qt doc (n + sum_list (map (call_words qt) calls)) (foldl (run_extract_call w) r calls)"
proof (induction calls arbitrary: n r)
  case (Cons call calls)
  have "result_ok qt doc (n + call_words qt call) (run_extract_call w r call)"
    using run_extract_call_ok[OF assms, of call qt doc n r] Cons.prems by simp
  from Cons.IH[OF this] show ?case
    using Cons.prems(2) by (simp add: add.assoc)
qed simp

text \<open>Indexing the properties and the text; \<open>keeps_rest\<close>: only the content words change.\<close>

definition keeps_rest :: "Document \<Rightarrow> Document \<Rightarrow> bool" where
  "keeps_rest doc doc' \<longleftrightarrow> m_id doc' = m_id doc \<and> m_xattrTerms doc' = m_xattrTerms doc \<and>
     m_fileNameTerms doc' = m_fileNameTerms doc \<and> (m_terms doc \<noteq> [] \<longrightarrow> m_terms doc' \<noteq> [])"

lemma keeps_rest_trans: "keeps_rest a b \<Longrightarrow> keeps_rest b c \<Longrightarrow> keeps_rest a c"
  by (simp add: keeps_rest_def)

lemma keeps_rest_add:
  "keeps_rest doc doc" "keeps_rest doc (Document_addTerm doc t)" "keeps_rest doc (Document_addPositionTerm doc t p)"
  by (simp_all add: keeps_rest_def Document_op_defs qmap_update_def qmap_insert_not_Nil)

lemma keeps_rest_fold:
  assumes "\<And>g t. keeps_rest (m_doc g) (m_doc (step g t))"
  shows "keeps_rest (m_doc g) (m_doc (foldl step g ts))"
  by (induction ts arbitrary: g) (auto intro: keeps_rest_add keeps_rest_trans assms)

lemma content_group_add:
  "group_good content_word n (m_terms doc) \<Longrightarrow> content_word t \<Longrightarrow> word_ok t \<Longrightarrow>
     group_good content_word n (m_terms (Document_addTerm doc t))"
  "group_good content_word n (m_terms doc) \<Longrightarrow> content_word t \<Longrightarrow> word_ok t \<Longrightarrow>
     group_good content_word (Suc n) (m_terms (Document_addPositionTerm doc t p))"
  by (auto simp: Document_op_defs intro: group_good_update)

lemma indexProperty_good:
  assumes "text_ok qt" "content_word pre" "term_bytes_ok pre" "length pre \<le> 100"
    and "group_good content_word n (m_terms (m_doc g))"
  shows "group_good content_word n (m_terms (m_doc (TermGenerator_indexProperty qt g str pre)))"
proof -
  have "set ts \<subseteq> set (TermGenerator_termList qt str) \<Longrightarrow> group_good content_word n (m_terms (m_doc g)) \<Longrightarrow>
      group_good content_word n (m_terms (m_doc (foldl (\<lambda>g t. g\<lparr>m_doc := Document_addTerm (m_doc g) (pre @ t)\<rparr>) g ts)))"
    for ts and g :: TermGenerator
  proof (induction ts arbitrary: g)
    case (Cons t ts)
    have "word_ok (pre @ t)"
      using prefixed_word_ok[OF assms(1), of t str pre] assms(3,4) Cons.prems by auto
    moreover have "content_word (pre @ t)"
      using assms(2) text_ok_term(4)[OF assms(1), of t str] Cons.prems
      by (cases pre; cases "tl pre"; cases t) (auto simp: content_word_def prefix_Cons)
    ultimately show ?case
      using Cons by (auto intro!: Cons.IH content_group_add)
  qed simp
  then show ?thesis
    using assms(5) by (simp add: TermGenerator_indexProperty_def)
qed

lemma indexProperty_value_good:
  assumes "text_ok qt" "int_ok k" "value_ok v" "group_good content_word n (m_terms (m_doc g))"
  shows "group_good content_word n (m_terms (m_doc (indexProperty_value qt g (k, v))))"
    and "keeps_rest (m_doc g) (m_doc (indexProperty_value qt g (k, v)))"
proof -
  let ?pre = "lit ''X'' @ QByteArray_number k @ lit ''-''"
  have dash: "lit ''-'' = [45]" by (simp add: lit_def)
  have pre: "content_word ?pre" "term_bytes_ok ?pre" "length ?pre \<le> 13"
    using number_word[OF assms(2)] by (auto simp: dash content_word_def term_bytes_ok_def)
  have add: "content_word (?pre @ x)" "word_ok (?pre @ x)" if "term_bytes_ok x" "length x \<le> 100" for x
    using that pre by (auto simp: content_word_def word_ok_def term_bytes_ok_def)
  have num: "term_bytes_ok (QByteArray_number i)" "length (QByteArray_number i) \<le> 100" if "int_ok i" for i
    using number_word[OF that] by auto
  have rest: "keeps_rest (m_doc g) (m_doc (TermGenerator_indexProperty qt g str ?pre))" for str
    unfolding TermGenerator_indexProperty_def by (rule keeps_rest_fold) (simp add: keeps_rest_add)
  have good: "group_good content_word n (m_terms (m_doc (TermGenerator_indexProperty qt g str ?pre)))" for str
    by (rule indexProperty_good[OF assms(1) pre(1,2) _ assms(4)]) (use pre(3) in simp)
  show "keeps_rest (m_doc g) (m_doc (indexProperty_value qt g (k, v)))"
    using rest by (auto simp: indexProperty_value_def Let_def keeps_rest_add split: prop_value.split list.split)
  have bare: "content_word ?pre" "word_ok ?pre" using add[of "[]"] by (simp_all add: term_bytes_ok_def)
  show "group_good content_word n (m_terms (m_doc (indexProperty_value qt g (k, v))))"
  proof (cases v)
    case (PV_Bool b)
    then show ?thesis
      using content_group_add(1)[OF assms(4) bare] by (simp add: indexProperty_value_def Let_def)
  next
    case (PV_Int i)
    then show ?thesis
      using content_group_add(1)[OF assms(4) add[OF num]] assms(3)
      by (simp add: indexProperty_value_def Let_def value_ok_def)
  next
    case (PV_Date isoDate)
    then show ?thesis
      using content_group_add(1)[OF assms(4) add[of isoDate]] assms(3)
      by (simp add: indexProperty_value_def Let_def value_ok_def)
  next
    case (PV_DateTime isoDate)
    then show ?thesis
      using content_group_add(1)[OF assms(4) add[of isoDate]] assms(3)
      by (simp add: indexProperty_value_def Let_def value_ok_def)
  next
    case (PV_String str)
    then show ?thesis
      using good assms(4) by (simp add: indexProperty_value_def Let_def)
  next
    case (PV_StringList strs)
    then show ?thesis
      using good assms(4) by (auto simp: indexProperty_value_def Let_def split: list.split)
  qed
qed

lemma indexProperties_good:
  assumes "text_ok qt"
  shows "\<forall>(k, v) \<in> set m. int_ok k \<and> value_ok v \<Longrightarrow> group_good content_word n (m_terms (m_doc g)) \<Longrightarrow>
    group_good content_word n (m_terms (m_doc (Result_indexProperties qt g m))) \<and>
    keeps_rest (m_doc g) (m_doc (Result_indexProperties qt g m))"
proof (induction m arbitrary: g)
  case (Cons e m)
  obtain k v where e: "e = (k, v)" by (cases e)
  have ok: "int_ok k" "value_ok v" using Cons.prems(1) e by auto
  note step = indexProperty_value_good[OF assms ok Cons.prems(2)]
  show ?case
    using Cons.IH[OF _ step(1)] Cons.prems(1) step(2) keeps_rest_trans
    by (auto simp: Result_indexProperties_def e)
qed (simp add: Result_indexProperties_def keeps_rest_add)

lemma indexText_good:
  assumes "text_ok qt" "group_good content_word n (m_terms (m_doc g))"
  shows "group_good content_word (n + length (TermGenerator_termList qt str))
      (m_terms (m_doc (TermGenerator_indexText qt g str)))"
    and "keeps_rest (m_doc g) (m_doc (TermGenerator_indexText qt g str))"
proof -
  have "set ts \<subseteq> set (TermGenerator_termList qt str) \<Longrightarrow> group_good content_word n (m_terms (m_doc g)) \<Longrightarrow>
      group_good content_word (n + length ts) (m_terms (m_doc (foldl indexText_step g ts)))" for ts n g
  proof (induction ts arbitrary: n g)
    case (Cons t ts)
    have "word_ok t"
      using text_ok_term[OF assms(1), of t str] Cons.prems by (auto simp: word_ok_def)
    moreover have "content_word t"
      using text_ok_term[OF assms(1), of t str] Cons.prems by (cases t) (auto simp: content_word_def)
    ultimately have "group_good content_word (Suc n) (m_terms (m_doc (indexText_step g t)))"
      using Cons.prems by (simp add: indexText_step_def content_group_add)
    from Cons.IH[OF _ this] show ?case
      using Cons.prems by simp
  qed simp
  then show "group_good content_word (n + length (TermGenerator_termList qt str))
      (m_terms (m_doc (TermGenerator_indexText qt g str)))"
    using assms(2) by (simp add: TermGenerator_indexText_def)
  show "keeps_rest (m_doc g) (m_doc (TermGenerator_indexText qt g str))"
    unfolding TermGenerator_indexText_def
    by (rule keeps_rest_fold) (simp add: indexText_step_def keeps_rest_add)
qed

lemma indexTexts_good:
  assumes "text_ok qt"
  shows "group_good content_word n (m_terms (m_doc g)) \<Longrightarrow>
    group_good content_word (n + sum_list (map (\<lambda>str. length (TermGenerator_termList qt str)) strs))
      (m_terms (m_doc (Result_indexText qt g strs))) \<and>
    keeps_rest (m_doc g) (m_doc (Result_indexText qt g strs))"
proof (induction strs arbitrary: n g)
  case (Cons str strs)
  note step = indexText_good[OF assms Cons.prems, of str]
  show ?case
    using Cons.IH[OF step(1)] keeps_rest_trans[OF step(2)] by (simp add: Result_indexText_def add.assoc)
qed (simp add: Result_indexText_def keeps_rest_add)

lemma App_extract_good:
  assumes "text_ok qt" "world_ok qt w" "extract_ok qt w"
    and "doc_good (2 ^ 32 - 1) doc" "group_good content_word 0 (m_terms doc)" "m_terms doc \<noteq> []"
  shows "doc_good (2 ^ 32 - 1) (App_extract qt w url mimetype doc)"
    and "m_terms (App_extract qt w url mimetype doc) \<noteq> []" "m_id (App_extract qt w url mimetype doc) = m_id doc"
proof -
  let ?calls = "ew_extract w url mimetype"
  define n where "n = sum_list (map (call_words qt) ?calls)"
  define r where "r = foldl (run_extract_call w) \<lparr>r_doc = doc, r_text = [], r_map = []\<rparr> ?calls"
  have types: "\<forall>type. int_ok (fw_typeNumber w type)" using assms(2) by (simp add: world_ok_def)
  have n: "n < 2 ^ 32" and calls: "\<forall>call \<in> set ?calls. call_ok call"
    using assms(3) by (auto simp: extract_ok_def n_def)
  have "result_ok qt doc 0 \<lparr>r_doc = doc, r_text = [], r_map = []\<rparr>"
    using assms(5,6) by (simp add: result_ok_def)
  from run_extract_calls_ok[OF types this calls] have r: "result_ok qt doc n r"
    by (simp add: r_def n_def)
  let ?doc = "Document_setData (r_doc r) (ew_jdoc w (r_map r) (m_mimetype (r_doc r)))"
  let ?tg = "Result_indexProperties qt (TermGenerator_new ?doc) (r_map r)"
  have 1: "group_good content_word 0 (m_terms (m_doc ?tg)) \<and> keeps_rest ?doc (m_doc ?tg)"
    using indexProperties_good[OF assms(1), of "r_map r" 0 "TermGenerator_new ?doc"] r
    by (simp add: result_ok_def TermGenerator_new_def Document_setData_def)
  then have 2: "group_good content_word n (m_terms (m_doc (Result_indexText qt ?tg (r_text r)))) \<and>
      keeps_rest ?doc (m_doc (Result_indexText qt ?tg (r_text r)))"
    using indexTexts_good[OF assms(1), of 0 ?tg "r_text r"] keeps_rest_trans[of ?doc "m_doc ?tg"] r
    by (auto simp: result_ok_def)
  have doc: "App_extract qt w url mimetype doc = m_doc (Result_indexText qt ?tg (r_text r))"
    by (simp add: App_extract_def Result_finish_def r_def Let_def)
  show "doc_good (2 ^ 32 - 1) (App_extract qt w url mimetype doc)"
    using 2 r n assms(4)
    by (auto simp: doc doc_good_def keeps_rest_def result_ok_def Document_setData_def intro: group_good_mono)
  show "m_terms (App_extract qt w url mimetype doc) \<noteq> []" "m_id (App_extract qt w url mimetype doc) = m_id doc"
    using 2 r by (auto simp: doc keeps_rest_def result_ok_def Document_setData_def)
qed

end
