(* ===== verification/JobRuns.thy ===== *)
theory JobRuns
  imports JobInv ExtractDocs
begin

text \<open>
  The jobs of the daemon on one database, in any order: \<open>run_job\<close> runs one, and \<open>run_jobs\<close> a sequence, each
  with the files and the configuration of its time. Every job keeps the index.
\<close>

section \<open>Transactions\<close>

definition job_inv :: "'s lmdb \<Rightarrow> 's Transaction \<Rightarrow> bool" where
  "job_inv L T \<longleftrightarrow> txn_inv L T \<and> (\<forall>s. t_txn T = Some s \<longrightarrow> store_ok L s)"

definition env_inv :: "('e, 's) indexer_api \<Rightarrow> ('e \<Rightarrow> 's) \<Rightarrow> 'e \<Rightarrow> bool" where
  "env_inv A st e \<longleftrightarrow> index_inv (ia_lmdb A) \<lparr>m_txn = st e, m_pendingOperations = []\<rparr> \<and> store_ok (ia_lmdb A) (st e)"

lemma job_inv_write:
  assumes "job_inv L T"
    and "\<And>s m. t_txn T = Some s \<Longrightarrow> store_ok L s \<Longrightarrow> index_inv L \<lparr>m_txn = s, m_pendingOperations = m\<rparr> \<Longrightarrow>
      index_inv L (f \<lparr>m_txn = s, m_pendingOperations = m\<rparr>) \<and>
      store_ok L (m_txn (f \<lparr>m_txn = s, m_pendingOperations = m\<rparr>))"
  shows "job_inv L (write_with f T)"
proof -
  have "txn_inv L (write_with f T)"
    by (rule txn_invI_write) (use assms in \<open>auto simp: job_inv_def\<close>)
  moreover have "store_ok L s'" if "t_txn (write_with f T) = Some s'" for s'
  proof (cases "t_txn T = None \<or> t_writeTrans T = None")
    case True
    then show ?thesis
      using that assms(1) by (auto simp: write_with_def job_inv_def split: option.splits)
  next
    case False
    then obtain s m where sm: "t_txn T = Some s" "t_writeTrans T = Some m" by auto
    moreover from this have "index_inv L \<lparr>m_txn = s, m_pendingOperations = m\<rparr>" "store_ok L s"
      using assms(1) by (auto simp: job_inv_def txn_inv_def)
    ultimately show ?thesis
      using that assms(2) by (auto simp: write_with_def Let_def)
  qed
  ultimately show ?thesis
    by (simp add: job_inv_def)
qed

lemma job_inv_write_option:
  assumes "job_inv L T" "write_with_option f r0 T = Some (r, T')"
    and "\<And>s m r W. f \<lparr>m_txn = s, m_pendingOperations = m\<rparr> = Some (r, W) \<Longrightarrow> store_ok L s \<Longrightarrow>
      index_inv L \<lparr>m_txn = s, m_pendingOperations = m\<rparr> \<Longrightarrow> index_inv L W \<and> store_ok L (m_txn W)"
  shows "job_inv L T'"
proof (cases "t_txn T = None \<or> t_writeTrans T = None")
  case True
  then have "T' = T" using assms(2) by (auto simp: write_with_option_def split: option.splits)
  then show ?thesis using assms(1) by simp
next
  case False
  then obtain s m where sm: "t_txn T = Some s" "t_writeTrans T = Some m" by auto
  then obtain W where W: "f \<lparr>m_txn = s, m_pendingOperations = m\<rparr> = Some (r, W)"
    and T': "T' = T\<lparr>t_txn := Some (m_txn W), t_writeTrans := Some (m_pendingOperations W)\<rparr>"
    using assms(2) by (auto simp: write_with_option_def)
  have "index_inv L W \<and> store_ok L (m_txn W)"
    by (rule assms(3)[OF W]) (use assms(1) sm in \<open>auto simp: job_inv_def txn_inv_def\<close>)
  then show ?thesis by (simp add: T' job_inv_def txn_inv_def)
qed

lemma job_inv_store:
  assumes "lmdb_ok L" "job_inv L T"
    and "\<And>s d. d \<notin> {contentIndexingDbi, failedIdDbi} \<Longrightarrow> mdb_scan L (f s) d = mdb_scan L s d"
  shows "job_inv L (store_with f T)"
proof -
  have "store_ok L (f s)" if "t_txn T = Some s" for s
  proof (rule store_ok_cong[OF assms(1)])
    show "store_ok L s" using assms(2) that by (simp add: job_inv_def)
  qed (rule assms(3), auto)
  then show ?thesis
    using txn_invI_store[OF assms(1) _ assms(3)] assms(2) by (auto simp: job_inv_def store_with_def)
qed

lemmas job_store_simps = DocumentIdDB_put_def DocumentIdDB_del_def lmdb_simps

lemma job_inv_phases:
  assumes "lmdb_ok L" "job_inv L T"
  shows "job_inv L (Transaction_removePhaseOne L i T)" "job_inv L (Transaction_addFailed L i T)"
    "job_inv L (Transaction_removeFailed L i T)"
  unfolding Transaction_removePhaseOne_def Transaction_addFailed_def Transaction_removeFailed_def
  by (rule job_inv_store[OF assms]; simp add: job_store_simps assms(1))+

lemma job_inv_removeDocument:
  assumes "lmdb_ok L" "job_inv L T"
  shows "job_inv L (Transaction_removeDocument L i T)"
  unfolding Transaction_removeDocument_def
  by (rule job_inv_write[OF assms(2)])
    (use index_inv_removeDocument[OF assms(1)] store_ok_remove[OF assms(1)] in fastforce)

lemma write_keeps:
  assumes "lmdb_ok L" "index_inv L W \<and> store_ok L (m_txn W)"
  shows "index_inv L (WriteTransaction_removeDocument L W i) \<and> store_ok L (m_txn (WriteTransaction_removeDocument L W i))"
  using assms index_inv_removeDocument[OF assms(1)] store_ok_remove[OF assms(1)] by blast

lemma job_inv_removeRecursively:
  assumes "lmdb_ok L" "job_inv L T" "Transaction_removeRecursively L i T = Some (r, T')"
  shows "job_inv L T'"
proof (rule job_inv_write_option[OF assms(2) assms(3)[unfolded Transaction_removeRecursively_def]])
  fix s m and u :: unit and W
  assume "map_option (Pair ()) (WriteTransaction_removeRecursively L \<lparr>m_txn = s, m_pendingOperations = m\<rparr> i) = Some (u, W)"
    and start: "store_ok L s" "index_inv L \<lparr>m_txn = s, m_pendingOperations = m\<rparr>"
  then have run: "WriteTransaction_removeRecursively L \<lparr>m_txn = s, m_pendingOperations = m\<rparr> i = Some W"
    by auto
  show "index_inv L W \<and> store_ok L (m_txn W)"
    by (rule removeRecursively_keeps[where P = "\<lambda>W. index_inv L W \<and> store_ok L (m_txn W)" and L = L,
          OF write_keeps[OF assms(1)] run]) (use start in simp_all)
qed

lemma job_inv_removeRecursively_if:
  assumes "lmdb_ok L" "job_inv L T" "Transaction_removeRecursively_if L del i T = Some (r, T')"
  shows "job_inv L T'"
proof (rule job_inv_write_option[OF assms(2) assms(3)[unfolded Transaction_removeRecursively_if_def]])
  fix s m b W
  assume run: "WriteTransaction_removeRecursively_if L del \<lparr>m_txn = s, m_pendingOperations = m\<rparr> i = Some (b, W)"
    and "store_ok L s" "index_inv L \<lparr>m_txn = s, m_pendingOperations = m\<rparr>"
  then have "index_inv L (snd (b, W)) \<and> store_ok L (m_txn (snd (b, W)))"
    by (intro removeRecursively_if_keeps[where P = "\<lambda>W. index_inv L W \<and> store_ok L (m_txn W)" and L = L,
          OF write_keeps[OF assms(1)] run]) simp_all
  then show "index_inv L W \<and> store_ok L (m_txn W)" by simp
qed

lemma job_inv_add:
  assumes "lmdb_ok (ia_lmdb A)" "job_inv (ia_lmdb A) T" "t_txn T = Some s"
    and "\<not> Transaction_hasDocument (ia_lmdb A) s (m_id doc)" "doc_good (2 ^ 32 - 1) doc" "m_terms doc \<noteq> []"
  shows "job_inv (ia_lmdb A) (add_doc A w doc T)"
  unfolding add_doc_def Transaction_addDocument_def
proof (rule job_inv_write[OF assms(2)])
  fix s' m
  assume s': "t_txn T = Some s'" and ok: "store_ok (ia_lmdb A) s'"
    and inv: "index_inv (ia_lmdb A) \<lparr>m_txn = s', m_pendingOperations = m\<rparr>"
  note good = doc_good_class(1)[OF assms(5)] doc_good_class(2)[OF assms(5,6)]
  have none: "\<not> DocumentUrlDB_contains (ia_lmdb A) s' (m_id doc)"
    using assms(3,4) s' by (simp add: Transaction_hasDocument_def)
  then have "doc_words (ia_lmdb A) s' (m_id doc) = {}"
    using ok by (auto simp: store_ok_def)
  then show "index_inv (ia_lmdb A) (WriteTransaction_addDocument (ia_lmdb A) (ia_json A) (fw_fs w)
        \<lparr>m_txn = s', m_pendingOperations = m\<rparr> doc) \<and>
      store_ok (ia_lmdb A) (m_txn (WriteTransaction_addDocument (ia_lmdb A) (ia_json A) (fw_fs w)
        \<lparr>m_txn = s', m_pendingOperations = m\<rparr> doc))"
    using index_inv_addDocument[OF assms(1) inv good(2)] store_ok_add[OF assms(1) _ good(2,1)] ok none by simp
qed

lemma job_inv_replace:
  assumes "lmdb_ok (ia_lmdb A)" "job_inv (ia_lmdb A) T" "t_txn T = Some s"
    and "Transaction_hasDocument (ia_lmdb A) s (m_id doc)" "doc_good (2 ^ 32 - 1) doc"
    and "operations AND DocumentTerms \<noteq> 0 \<longrightarrow> m_terms doc \<noteq> []"
  shows "job_inv (ia_lmdb A) (replace_doc A doc operations T)"
  unfolding replace_doc_def Transaction_replaceDocument_def
proof (rule job_inv_write[OF assms(2)])
  fix s' m
  assume s': "t_txn T = Some s'" and ok: "store_ok (ia_lmdb A) s'"
    and inv: "index_inv (ia_lmdb A) \<lparr>m_txn = s', m_pendingOperations = m\<rparr>"
  note good = doc_good_class(1)[OF assms(5)] doc_good_class(3)[OF assms(5,6)]
  have "DocumentUrlDB_contains (ia_lmdb A) s' (m_id doc)"
    using assms(3,4) s' by (simp add: Transaction_hasDocument_def)
  then show "index_inv (ia_lmdb A) (WriteTransaction_replaceDocument (ia_lmdb A) (ia_json A)
        \<lparr>m_txn = s', m_pendingOperations = m\<rparr> doc operations) \<and>
      store_ok (ia_lmdb A) (m_txn (WriteTransaction_replaceDocument (ia_lmdb A) (ia_json A)
        \<lparr>m_txn = s', m_pendingOperations = m\<rparr> doc operations))"
    using index_inv_replaceDocument[OF assms(1) inv good(2)] store_ok_replace[OF assms(1) _ good(2,1)] ok
      store_ok_apart[OF ok good(1)] by simp
qed

section \<open>The environment\<close>

lemma env_inv_new:
  assumes "mdb_env_ok (ia_env A) st" "env_inv A st e"
  shows "job_inv (ia_lmdb A) (Transaction_new (ia_env A) type e)"
proof -
  have "s = st e" if "t_txn (Transaction_new (ia_env A) type e) = Some s" for s
    using that mdb_env_okD(1)[OF assms(1), of e]
    by (auto simp: Transaction_new_def Transaction_init_def split: sum.splits)
  then show ?thesis
    using Transaction_new_inv[OF assms(1)] assms(2) by (auto simp: job_inv_def env_inv_def)
qed

lemma job_inv_None: "t_txn T = None \<Longrightarrow> job_inv L T"
  by (simp add: job_inv_def txn_inv_def)

lemma env_inv_commit:
  assumes "lmdb_ok (ia_lmdb A)" "mdb_env_ok (ia_env A) st" "env_inv A st e" "job_inv (ia_lmdb A) T"
    and "Transaction_commit (ia_env A) (ia_lmdb A) e T = (ok, e', T')"
  shows "env_inv A st e'" "job_inv (ia_lmdb A) T'"
proof -
  let ?L = "ia_lmdb A"
  show "job_inv ?L T'"
    using assms(4,5) by (auto simp: Transaction_commit_def Let_def intro: job_inv_None split: option.splits prod.splits if_splits)
  note st = commit_stores[OF assms(2,5)]
  show "env_inv A st e'"
  proof (cases ok)
    case True
    then obtain s m where sm: "t_txn T = Some s" "t_writeTrans T = Some m"
      "st e' = m_txn (WriteTransaction_commit ?L \<lparr>m_txn = s, m_pendingOperations = m\<rparr>)"
      using st by auto
    define W where "W = \<lparr>m_txn = s, m_pendingOperations = m\<rparr>"
    have inv: "index_inv ?L W" and ok: "store_ok ?L (m_txn W)"
      using assms(4) sm by (auto simp: job_inv_def txn_inv_def W_def)
    have "\<lparr>m_txn = st e', m_pendingOperations = []\<rparr> = WriteTransaction_commit ?L W"
      using sm(3) by (simp add: W_def WriteTransaction_commit_def)
    then have "index_inv ?L \<lparr>m_txn = st e', m_pendingOperations = []\<rparr>"
      using index_inv_commit[OF assms(1) inv] by simp
    moreover have "store_ok ?L (st e')"
      unfolding sm(3) W_def[symmetric]
      by (rule store_ok_cong[OF assms(1) ok]) (auto intro!: commit_reads(4)[OF assms(1) index_invD(1,2)[OF inv]])
    ultimately show ?thesis by (simp add: env_inv_def)
  next
    case False
    then show ?thesis using st assms(3) by (simp add: env_inv_def)
  qed
qed

lemma env_inv_destroy:
  "mdb_env_ok (ia_env A) st \<Longrightarrow> env_inv A st e \<Longrightarrow> env_inv A st (Transaction_destroy (ia_env A) e T)"
  by (simp add: env_inv_def abort_keeps(2))

lemma Transaction_init_inv:
  assumes "mdb_env_ok (ia_env A) st" "env_inv A st e" "t_txn T = None"
  shows "job_inv (ia_lmdb A) (Transaction_init (ia_env A) ReadWrite e T)"
  using assms mdb_env_okD(1)[OF assms(1), of e]
  by (auto simp: Transaction_init_def job_inv_def txn_inv_def env_inv_def split: sum.splits)

lemma env_inv_reset:
  assumes "mdb_env_ok (ia_env A) st" "env_inv A st e" "Transaction_reset (ia_env A) ReadWrite e T = (e', T')"
  shows "env_inv A st e'" "job_inv (ia_lmdb A) T'"
proof -
  show e': "env_inv A st e'"
    using abort_keeps(3)[OF assms(1), of ReadWrite e T] assms(2,3) by (simp add: env_inv_def)
  obtain T0 where "t_txn T0 = None" "T' = Transaction_init (ia_env A) ReadWrite e' T0"
    using assms(3)
  proof (cases "t_txn T")
    case None
    then show thesis
      using assms(3) by (intro that[of T]) (auto simp: Transaction_reset_def)
  next
    case (Some s)
    then show thesis
      using that[of "T\<lparr>t_txn := None, t_writeTrans := None\<rparr>"] assms(3)
      by (auto simp: Transaction_reset_def Transaction_abort_def)
  qed
  then show "job_inv (ia_lmdb A) T'"
    using Transaction_init_inv[OF assms(1) e'] by simp
qed

text \<open>A state of the database and an open transaction.\<close>

definition open_inv :: "('e, 's) indexer_api \<Rightarrow> ('e \<Rightarrow> 's) \<Rightarrow> nat \<times> 'e \<times> 's Transaction \<Rightarrow> bool" where
  "open_inv A st = (\<lambda>(n, e, T). env_inv A st e \<and> job_inv (ia_lmdb A) T)"

definition api_ok :: "('e, 's) indexer_api \<Rightarrow> ('e \<Rightarrow> 's) \<Rightarrow> bool" where
  "api_ok A st \<longleftrightarrow> lmdb_ok (ia_lmdb A) \<and> mdb_env_ok (ia_env A) st \<and> text_ok (ia_text A)"

lemma finish_folder_inv:
  assumes "api_ok A st" "open_inv A st state"
  shows "env_inv A st (finish_folder A state)"
proof -
  obtain n e T where state: "state = (n, e, T)" by (metis prod_cases3)
  obtain ok e' T' where commit: "Transaction_commit (ia_env A) (ia_lmdb A) e T = (ok, e', T')" by (metis prod_cases3)
  have "env_inv A st e'"
    using env_inv_commit(1)[OF _ _ _ _ commit] assms by (auto simp: open_inv_def api_ok_def state)
  then show ?thesis
    using assms(1) by (simp add: finish_folder_def state commit env_inv_destroy api_ok_def)
qed

lemma count_document_inv:
  assumes "api_ok A st" "env_inv A st e" "job_inv (ia_lmdb A) T"
  shows "open_inv A st (count_document A n e T)"
proof -
  obtain ok e1 T1 where commit: "Transaction_commit (ia_env A) (ia_lmdb A) e T = (ok, e1, T1)" by (metis prod_cases3)
  obtain e2 T2 where reset: "Transaction_reset (ia_env A) ReadWrite e1 T1 = (e2, T2)" by (metis prod.exhaust)
  have "env_inv A st e1"
    using env_inv_commit(1)[OF _ _ _ _ commit] assms by (auto simp: api_ok_def)
  from env_inv_reset[OF _ this reset] show ?thesis
    using assms by (simp add: count_document_def commit_reset_def commit reset open_inv_def api_ok_def)
qed

lemma run_transaction_inv:
  assumes "api_ok A st" "env_inv A st e" "\<And>T. job_inv (ia_lmdb A) T \<Longrightarrow> job_inv (ia_lmdb A) (f T)"
  shows "env_inv A st (run_transaction A f e)"
proof -
  have "open_inv A st (0, e, f (Transaction_new (ia_env A) ReadWrite e))"
    using assms env_inv_new[of A st e ReadWrite] by (auto simp: open_inv_def api_ok_def)
  from finish_folder_inv[OF assms(1) this] show ?thesis
    by (simp add: run_transaction_def finish_folder_def)
qed

lemma foldl_keeps: "(\<And>x y. y \<in> set ys \<Longrightarrow> P x \<Longrightarrow> P (f x y)) \<Longrightarrow> P x \<Longrightarrow> P (foldl f x ys)"
  by (induction ys arbitrary: x) auto

lemma each_folder_keeps:
  "(\<And>folder e e'. f folder e = Some e' \<Longrightarrow> P e \<Longrightarrow> P e') \<Longrightarrow> each_folder f folders e = Some e' \<Longrightarrow> P e \<Longrightarrow> P e'"
  by (induction folders arbitrary: e) (auto split: Option.bind_splits)

section \<open>The jobs\<close>

lemma job_document_good:
  assumes "api_ok A st" "world_ok (ia_text A) w" "TermGenerator_termList (ia_text A) mimetype \<noteq> []"
    and "job_document A w path mimetype level = Some doc"
  shows "doc_good (2 ^ 32 - 1) doc" "m_terms doc \<noteq> []" "group_good content_word 0 (m_terms doc)"
    and "m_id doc = filePathToId (fw_fs w) (fw_encodeName w (chop_slash path))"
  using BasicIndexingJob_index_good[of "ia_text A" w "BasicIndexingJob_new path mimetype level" doc]
    BasicIndexingJob_index_url[of "ia_text A" w "BasicIndexingJob_new path mimetype level" doc] assms
  by (simp_all add: api_ok_def job_document_def BasicIndexingJob_new_def)

lemma mimetypes_have_words:
  assumes "api_ok A st" "world_ok (ia_text A) w"
  shows "TermGenerator_termList (ia_text A) (qs ''inode/directory'') \<noteq> []"
    "TermGenerator_termList (ia_text A) (fw_mimeTypeForFile w path) \<noteq> []"
  using assms by (auto simp: api_ok_def text_ok_def world_ok_def)

lemma in_txn_inv:
  "job_inv L T \<Longrightarrow> (\<And>s. t_txn T = Some s \<Longrightarrow> job_inv L (f s)) \<Longrightarrow> job_inv L (in_txn T f)"
  by (simp add: in_txn_def split: option.split)

lemma NewFileIndexer_file_inv:
  assumes "api_ok A st" "world_ok (ia_text A) w" "job_inv (ia_lmdb A) T"
  shows "job_inv (ia_lmdb A) (NewFileIndexer_file A w c T path)"
proof (cases "NewFileIndexer_mimetype A w c (chop_slash path)")
  case None
  then show ?thesis using assms(3) by (simp add: NewFileIndexer_file_def)
next
  case (Some mimetype)
  then have mime: "TermGenerator_termList (ia_text A) mimetype \<noteq> []"
    using mimetypes_have_words[OF assms(1,2)] by (auto simp: NewFileIndexer_mimetype_def split: if_splits)
  show ?thesis
  proof (cases "job_document A w (chop_slash path) mimetype (indexing_level c)")
    case None
    then show ?thesis using assms(3) Some by (simp add: NewFileIndexer_file_def)
  next
    case doc: (Some doc)
    note good = job_document_good[OF assms(1,2) mime doc]
    show ?thesis
      using assms Some doc good(1,2)
      by (auto simp: NewFileIndexer_file_def api_ok_def intro!: in_txn_inv job_inv_add)
  qed
qed

lemma operations_simps [simp]:
  "DocumentTime AND DocumentTerms = 0" "(DocumentUrl OR FileNameTerms) AND DocumentTerms = 0"
  by (simp_all add: DocumentOperation_defs)

lemma chop_slash_twice: "\<not> suffix [47, 47] path \<Longrightarrow> chop_slash (chop_slash path) = chop_slash path"
proof -
  assume no: "\<not> suffix [47, 47] path"
  show ?thesis
  proof (cases "path \<noteq> [] \<and> last path = 47")
    case True
    then have path: "path = butlast path @ [47]" by (metis append_butlast_last_id)
    have "butlast path = [] \<or> last (butlast path) \<noteq> 47"
    proof (rule ccontr)
      assume "\<not> ?thesis"
      then have "butlast path = butlast (butlast path) @ [47]" by (metis append_butlast_last_id)
      then have "path = butlast (butlast path) @ [47, 47]" using path by (metis append.assoc append_Cons append_Nil)
      then show False using no by (metis suffix_def)
    qed
    then show ?thesis using True by (auto simp: chop_slash_def)
  qed (auto simp: chop_slash_def)
qed

lemma if_chain_keeps: "P x \<Longrightarrow> (c \<Longrightarrow> P y) \<Longrightarrow> P z \<Longrightarrow> P (if a then x else if b then x else if c then y else z)"
  by simp

lemma ModifiedFileIndexer_known_inv:
  assumes "api_ok A st" "world_ok (ia_text A) w" "job_inv (ia_lmdb A) T" "t_txn T = Some s"
    and "chop_slash filePath = filePath" "fileId = filePathToId (fw_fs w) (fw_encodeName w filePath)"
    and "known = Transaction_hasDocument (ia_lmdb A) s fileId" "\<not> known \<Longrightarrow> cTimeChanged"
  shows "job_inv (ia_lmdb A) (ModifiedFileIndexer_known A w level filePath fileId known mTimeChanged cTimeChanged T)"
proof -
  have L: "lmdb_ok (ia_lmdb A)" using assms(1) by (simp add: api_ok_def)
  have deferred: "job_inv (ia_lmdb A) (replace_doc A (deferred_document w fileId filePath) DocumentTime T)" if known
    using that assms(7)
    by (intro job_inv_replace[OF L assms(3,4)])
      (simp_all add: deferred_document_def Document_op_defs doc_good_def Document_new_def group_good_def)
  let ?mime = "if fi_isDir w filePath then qs ''inode/directory'' else fw_mimeTypeForFile w filePath"
  have mime: "TermGenerator_termList (ia_text A) ?mime \<noteq> []"
    using mimetypes_have_words[OF assms(1,2)] by simp
  have indexed: "job_inv (ia_lmdb A) (if known \<and> m_id doc = fileId then replace_doc A doc ops T else add_doc A w doc T)"
    if doc: "job_document A w filePath ?mime level = Some doc" for doc ops
  proof -
    note good = job_document_good[OF assms(1,2) mime doc]
    have i: "m_id doc = fileId" using good(4) assms(5,6) by simp
    show ?thesis
      using job_inv_replace[OF L assms(3,4), of doc ops] job_inv_add[OF L assms(3,4), of doc w] good(1,2) assms(7) i
      by simp
  qed
  show ?thesis
    unfolding ModifiedFileIndexer_known_def Let_def
  proof (rule if_chain_keeps[where P = "job_inv (ia_lmdb A)"])
    show "job_inv (ia_lmdb A) (replace_doc A (deferred_document w fileId filePath) DocumentTime T)"
      if "\<not> cTimeChanged \<and> level = MarkForContentIndexing"
      using that assms(8) deferred by blast
  qed (use assms(3) indexed in \<open>auto simp only: split: option.split\<close>)
qed

lemma ModifiedFileIndexer_file_inv:
  assumes "api_ok A st" "world_ok (ia_text A) w" "\<not> suffix [47, 47] path" "job_inv (ia_lmdb A) T"
  shows "job_inv (ia_lmdb A) (ModifiedFileIndexer_file A w c T path)"
proof -
  have "job_inv (ia_lmdb A) (ModifiedFileIndexer_known A w level (chop_slash path) fileId known
      (if known then m else True) (if known then ch else True) T)"
    if "t_txn T = Some s" "fileId = filePathToId (fw_fs w) (fw_encodeName w (chop_slash path))"
      "known = Transaction_hasDocument (ia_lmdb A) s fileId" for s level fileId known m ch
    by (rule ModifiedFileIndexer_known_inv[OF assms(1,2,4) that(1) chop_slash_twice[OF assms(3)] that(2,3)]) simp
  then show ?thesis
    using assms(4) by (simp add: ModifiedFileIndexer_file_def Let_def in_txn_inv)
qed

lemma XAttrIndexer_file_inv:
  assumes "api_ok A st" "world_ok (ia_text A) w" "job_inv (ia_lmdb A) T"
  shows "job_inv (ia_lmdb A) (XAttrIndexer_file A w c T path)"
proof -
  have L: "lmdb_ok (ia_lmdb A)" using assms(1) by (simp add: api_ok_def)
  have "job_inv (ia_lmdb A) (if \<not> Transaction_hasDocument (ia_lmdb A) s (m_id doc)
      then add_doc A w (Document_setContentIndexing doc b) T else replace_doc A doc ops T)"
    if "t_txn T = Some s" "job_document A w (chop_slash path) (fw_mimeTypeForFile w (chop_slash path)) NoLevel = Some doc"
    for s doc b ops
  proof -
    note good = job_document_good[OF assms(1,2) mimetypes_have_words(2)[OF assms(1,2)] that(2)]
    then show ?thesis
      using job_inv_replace[OF L assms(3) that(1), of doc ops]
        job_inv_add[OF L assms(3) that(1), of "Document_setContentIndexing doc b" w]
      by (auto simp: Document_setContentIndexing_def doc_good_def)
  qed
  then show ?thesis
    using assms(3) by (auto simp: XAttrIndexer_file_def Let_def intro!: in_txn_inv split: option.split)
qed

lemma FirstRunIndexer_file_inv:
  assumes "api_ok A st" "world_ok (ia_text A) w" "open_inv A st state"
  shows "open_inv A st (FirstRunIndexer_file A w c state path)"
proof -
  obtain n e T where state: "state = (n, e, T)" by (metis prod_cases3)
  have inv: "env_inv A st e" "job_inv (ia_lmdb A) T" using assms(3) by (auto simp: open_inv_def state)
  have L: "lmdb_ok (ia_lmdb A)" using assms(1) by (simp add: api_ok_def)
  let ?mime = "if fi_isDir w path then qs ''inode/directory'' else fw_mimeTypeForFile w path"
  have mime: "TermGenerator_termList (ia_text A) ?mime \<noteq> []"
    using mimetypes_have_words[OF assms(1,2)] by simp
  have "open_inv A st (if Transaction_hasDocument (ia_lmdb A) s (m_id doc) then (n, e, T)
      else count_document A n e (add_doc A w doc T))"
    if "t_txn T = Some s" "job_document A w path ?mime (indexing_level c) = Some doc" for s doc
    using job_document_good(1,2)[OF assms(1,2) mime that(2)] inv assms(3)
    by (auto simp: state intro!: count_document_inv[OF assms(1)] job_inv_add[OF L inv(2) that(1)])
  then show ?thesis
    using assms(3) unfolding FirstRunIndexer_file_def state Let_def prod.case
    by (simp only: split: option.split) blast
qed

lemma UnindexedFileIndexer_update_inv:
  assumes "api_ok A st" "job_inv (ia_lmdb A) T" "t_txn T = Some s"
    and "doc_good (2 ^ 32 - 1) doc" "m_terms doc \<noteq> []"
  shows "job_inv (ia_lmdb A) (UnindexedFileIndexer_update A w level s path m ch doc T)"
proof -
  have L: "lmdb_ok (ia_lmdb A)" using assms(1) by (simp add: api_ok_def)
  show ?thesis
    using job_inv_replace[OF L assms(2,3), of doc] job_inv_add[OF L assms(2,3), of doc w] assms(4,5)
    by (simp add: UnindexedFileIndexer_update_def Let_def del: if_split split: if_split)
qed

lemma UnindexedFileIndexer_file_inv:
  assumes "api_ok A st" "world_ok (ia_text A) w" "open_inv A st state"
  shows "open_inv A st (UnindexedFileIndexer_file A w c state path)"
proof -
  obtain n e T where state: "state = (n, e, T)" by (metis prod_cases3)
  have inv: "env_inv A st e" "job_inv (ia_lmdb A) T" using assms(3) by (auto simp: open_inv_def state)
  have "open_inv A st (count_document A n e (UnindexedFileIndexer_update A w level s path m ch doc T))"
    if "t_txn T = Some s" "UnIndexedFileIterator_shouldIndex A w s path = Some (mimetype, m, ch)"
      "job_document A w path mimetype (indexing_level c) = Some doc" for s mimetype m ch doc level
  proof -
    have mime: "TermGenerator_termList (ia_text A) mimetype \<noteq> []"
      using that(2) mimetypes_have_words[OF assms(1,2)]
      by (auto simp: UnIndexedFileIterator_shouldIndex_def Let_def split: if_splits)
    show ?thesis
      using job_document_good(1,2)[OF assms(1,2) mime that(3)] inv
      by (intro count_document_inv[OF assms(1)] UnindexedFileIndexer_update_inv[OF assms(1) _ that(1)])
  qed
  then show ?thesis
    using assms(3) unfolding UnindexedFileIndexer_file_def state prod.case
    by (simp only: split: option.split prod.split) blast
qed

lemma map_optionD: "map_option f x = Some y \<Longrightarrow> \<exists>z. x = Some z \<and> y = f z"
  by (cases x) auto

text \<open>A loop that ends has handled some paths one after another.\<close>

lemma FirstRunIndexer_loop_folds:
  assumes "FirstRunIndexer_loop A w c it state = Some state'"
  shows "\<exists>seen. state' = foldl (FirstRunIndexer_file A w c) state seen"
proof (rule FirstRunIndexer_loop.raw_induct[OF _ assms])
  fix f A w c it state r
  assume IH: "\<And>A w c it state r. f A w c it state = Some r \<Longrightarrow>
      \<exists>seen. r = foldl (FirstRunIndexer_file A w c) state seen"
    and run: "(case FilteredDirIterator_next (ia_regex A) w it of
      (path, it') \<Rightarrow> if path = [] then Some state else f A w c it' (FirstRunIndexer_file A w c state path)) = Some r"
  obtain path it' where step: "FilteredDirIterator_next (ia_regex A) w it = (path, it')" by (metis prod.exhaust)
  show "\<exists>seen. r = foldl (FirstRunIndexer_file A w c) state seen"
  proof (cases "path = []")
    case True
    then show ?thesis using run step by (intro exI[of _ "[]"]) simp
  next
    case False
    then have "f A w c it' (FirstRunIndexer_file A w c state path) = Some r"
      using run step by simp
    from IH[OF this] obtain seen where "r = foldl (FirstRunIndexer_file A w c) (FirstRunIndexer_file A w c state path) seen" ..
    then show ?thesis by (intro exI[of _ "path # seen"]) simp
  qed
qed

lemma UnindexedFileIndexer_loop_folds:
  assumes "UnindexedFileIndexer_loop A w c it state = Some state'"
  shows "\<exists>seen. state' = foldl (UnindexedFileIndexer_file A w c) state seen"
proof (rule UnindexedFileIndexer_loop.raw_induct[OF _ assms])
  fix f A w c it state r
  assume IH: "\<And>A w c it state r. f A w c it state = Some r \<Longrightarrow>
      \<exists>seen. r = foldl (UnindexedFileIndexer_file A w c) state seen"
    and run: "(case FilteredDirIterator_next (ia_regex A) w it of
      (path, it') \<Rightarrow> if path = [] then Some state else f A w c it' (UnindexedFileIndexer_file A w c state path)) = Some r"
  obtain path it' where step: "FilteredDirIterator_next (ia_regex A) w it = (path, it')" by (metis prod.exhaust)
  show "\<exists>seen. r = foldl (UnindexedFileIndexer_file A w c) state seen"
  proof (cases "path = []")
    case True
    then show ?thesis using run step by (intro exI[of _ "[]"]) simp
  next
    case False
    then have "f A w c it' (UnindexedFileIndexer_file A w c state path) = Some r"
      using run step by simp
    from IH[OF this] obtain seen where "r = foldl (UnindexedFileIndexer_file A w c) (UnindexedFileIndexer_file A w c state path) seen" ..
    then show ?thesis by (intro exI[of _ "path # seen"]) simp
  qed
qed

lemma start_inv:
  "api_ok A st \<Longrightarrow> env_inv A st e \<Longrightarrow> open_inv A st (0, e, Transaction_new (ia_env A) ReadWrite e)"
  using env_inv_new[of A st e ReadWrite] by (simp add: api_ok_def open_inv_def)

lemma FirstRunIndexer_run_inv:
  assumes "api_ok A st" "world_ok (ia_text A) w" "FirstRunIndexer_run A w c folders e = Some e'" "env_inv A st e"
  shows "env_inv A st e'"
proof (rule each_folder_keeps[where P = "env_inv A st", OF _ assms(3)[unfolded FirstRunIndexer_run_def] assms(4)])
  fix folder e e'
  assume run: "FirstRunIndexer_folder A w c folder e = Some e'" and inv: "env_inv A st e"
  from map_optionD[OF run[unfolded FirstRunIndexer_folder_def]]
  obtain state where loop: "FirstRunIndexer_loop A w c (FilteredDirIterator_new (ia_regex A) w (Some c) folder FilesAndDirs)
      (0, e, Transaction_new (ia_env A) ReadWrite e) = Some state"
    and e': "e' = finish_folder A state" by blast
  obtain seen where state: "state = foldl (FirstRunIndexer_file A w c) (0, e, Transaction_new (ia_env A) ReadWrite e) seen"
    using FirstRunIndexer_loop_folds[OF loop] ..
  have "open_inv A st state"
    unfolding state
    by (rule foldl_keeps[where P = "open_inv A st", OF FirstRunIndexer_file_inv[OF assms(1,2)] start_inv[OF assms(1) inv]])
  then show "env_inv A st e'"
    unfolding e' by (rule finish_folder_inv[OF assms(1)])
qed

lemma UnindexedFileIndexer_run_inv:
  assumes "api_ok A st" "world_ok (ia_text A) w" "UnindexedFileIndexer_run A w c e = Some e'" "env_inv A st e"
  shows "env_inv A st e'"
proof (rule each_folder_keeps[where P = "env_inv A st", OF _ assms(3)[unfolded UnindexedFileIndexer_run_def] assms(4)])
  fix folder e e'
  assume run: "UnindexedFileIndexer_folder A w c folder e = Some e'" and inv: "env_inv A st e"
  from map_optionD[OF run[unfolded UnindexedFileIndexer_folder_def]]
  obtain state where loop: "UnindexedFileIndexer_loop A w c (FilteredDirIterator_new (ia_regex A) w (Some c) folder FilesAndDirs)
      (0, e, Transaction_new (ia_env A) ReadWrite e) = Some state"
    and e': "e' = finish_folder A state" by blast
  obtain seen where state: "state = foldl (UnindexedFileIndexer_file A w c) (0, e, Transaction_new (ia_env A) ReadWrite e) seen"
    using UnindexedFileIndexer_loop_folds[OF loop] ..
  have "open_inv A st state"
    unfolding state
    by (rule foldl_keeps[where P = "open_inv A st", OF UnindexedFileIndexer_file_inv[OF assms(1,2)] start_inv[OF assms(1) inv]])
  then show "env_inv A st e'"
    unfolding e' by (rule finish_folder_inv[OF assms(1)])
qed

lemma IndexCleaner_run_inv:
  assumes "api_ok A st" "IndexCleaner_run A w c e = Some e'" "env_inv A st e"
  shows "env_inv A st e'"
proof (rule each_folder_keeps[where P = "env_inv A st", OF _ assms(2)[unfolded IndexCleaner_run_def] assms(3)])
  fix folder e e'
  assume run: "IndexCleaner_folder A w c folder e = Some e'" and inv: "env_inv A st e"
  have L: "lmdb_ok (ia_lmdb A)" using assms(1) by (simp add: api_ok_def)
  let ?T = "Transaction_new (ia_env A) ReadWrite e"
  have T: "job_inv (ia_lmdb A) ?T"
    using start_inv[OF assms(1) inv] by (simp add: open_inv_def)
  obtain T' where e': "e' = finish_folder A (0, e, T')" and "job_inv (ia_lmdb A) T'"
    using run T job_inv_removeRecursively_if[OF L T]
    by (auto simp: IndexCleaner_folder_def Let_def split: option.splits if_splits)
  then show "env_inv A st e'"
    using inv by (auto intro!: finish_folder_inv[OF assms(1)] simp: open_inv_def)
qed

lemma removeMetadata_inv:
  assumes "api_ok A st" "job_inv (ia_lmdb A) T" "MetadataMover_removeMetadata A w url T = Some (sigs, T')"
  shows "job_inv (ia_lmdb A) T'"
proof -
  have L: "lmdb_ok (ia_lmdb A)" using assms(1) by (simp add: api_ok_def)
  show ?thesis
    using assms(2,3) job_inv_removeDocument[OF L] job_inv_removeRecursively[OF L assms(2)]
    by (auto simp: MetadataMover_removeMetadata_def Let_def split: option.splits if_splits)
qed

text \<open>An id that \<open>documentId\<close> finds is known.\<close>

lemma getId_loop_known:
  "DocumentUrlDB_getId_loop L s fileName ids = i \<Longrightarrow> i \<noteq> 0 \<Longrightarrow> DocumentUrlDB_contains L s i"
proof (induction ids)
  case (Cons k ids)
  then show ?case
    by (auto simp: DocumentUrlDB_contains_def split: option.splits if_splits
        intro: contains_IdFilenameDB_get)
qed simp

lemma documentId_loop_known:
  "Transaction_documentId_loop L s p ns = i \<Longrightarrow> i \<noteq> 0 \<Longrightarrow> p = 0 \<or> DocumentUrlDB_contains L s p \<Longrightarrow>
   DocumentUrlDB_contains L s i"
proof (induction ns arbitrary: p)
  case (Cons n ns)
  let ?q = "DocumentUrlDB_getId L s p n"
  have "?q \<noteq> 0 \<Longrightarrow> DocumentUrlDB_contains L s ?q"
    using getId_loop_known[OF refl] by (auto simp: DocumentUrlDB_getId_def split: if_splits)
  then show ?case
    using Cons.IH[of p] Cons.IH[of ?q] Cons.prems by (auto simp: Let_def split: if_splits)
qed auto

lemma documentId_known:
  "Transaction_documentId L s path = i \<Longrightarrow> i \<noteq> 0 \<Longrightarrow> Transaction_hasDocument L s i"
  unfolding Transaction_documentId_def Transaction_hasDocument_def by (rule documentId_loop_known) auto

lemma moved_document_good:
  assumes "api_ok A st"
  shows "doc_good n (moved_document A w i parent toPath)" "m_id (moved_document A w i parent toPath) = i"
proof -
  have "doc_good n (m_doc (TermGenerator_indexFileNameText (ia_text A) (TermGenerator_new Document_new) str))" for str
    using assms by (intro doc_good_fileName) (simp_all add: api_ok_def TermGenerator_new_def)
  then show "doc_good n (moved_document A w i parent toPath)"
    by (simp add: moved_document_def)
  show "m_id (moved_document A w i parent toPath) = i"
    by (simp add: moved_document_def Document_setUrl_def Document_setParentId_def Document_setId_def)
qed

lemma updateMetadata_inv:
  assumes "api_ok A st" "job_inv (ia_lmdb A) T"
  shows "job_inv (ia_lmdb A) (snd (MetadataMover_updateMetadata A w from to' T))"
proof -
  have L: "lmdb_ok (ia_lmdb A)" using assms(1) by (simp add: api_ok_def)
  have "job_inv (ia_lmdb A) (replace_doc A (moved_document A w i parent toPath) (DocumentUrl OR FileNameTerms) T)"
    if "t_txn T = Some s" "Transaction_documentId (ia_lmdb A) s path = i" "i \<noteq> 0" for s path i parent toPath
    by (rule job_inv_replace[OF L assms(2) that(1)])
      (simp_all add: documentId_known[OF that(2,3)] moved_document_good[OF assms(1)])
  then show ?thesis
    using assms(2) by (auto simp: MetadataMover_updateMetadata_def Let_def split: option.split)
qed

lemma MetadataMover_inv:
  assumes "api_ok A st" "env_inv A st e"
  shows "MetadataMover_moveFileMetadata A w from to' e = Some (sigs, e') \<Longrightarrow> env_inv A st e'"
    "MetadataMover_removeFileMetadata A w path e = Some (sigs, e') \<Longrightarrow> env_inv A st e'"
proof -
  have T: "job_inv (ia_lmdb A) (Transaction_new (ia_env A) ReadWrite e)"
    using start_inv[OF assms] by (simp add: open_inv_def)
  note remove = removeMetadata_inv[OF assms(1) T]
  show "env_inv A st e'" if "MetadataMover_moveFileMetadata A w from to' e = Some (sigs, e')"
  proof -
    from map_optionD[OF that[unfolded MetadataMover_moveFileMetadata_def]]
    obtain sigs1 T1 where 1: "MetadataMover_removeMetadata A w to' (Transaction_new (ia_env A) ReadWrite e) = Some (sigs1, T1)"
      and e': "e' = finish_folder A (0, e, snd (MetadataMover_updateMetadata A w from to' T1))"
      by (auto simp: Let_def split_beta)
    show ?thesis
      unfolding e' using updateMetadata_inv[OF assms(1) remove[OF 1]] assms(2)
      by (intro finish_folder_inv[OF assms(1)]) (simp add: open_inv_def)
  qed
  show "env_inv A st e'" if "MetadataMover_removeFileMetadata A w path e = Some (sigs, e')"
  proof -
    from map_optionD[OF that[unfolded MetadataMover_removeFileMetadata_def]]
    obtain T1 where 1: "MetadataMover_removeMetadata A w path (Transaction_new (ia_env A) ReadWrite e) = Some (sigs, T1)"
      and e': "e' = finish_folder A (0, e, T1)"
      by (auto simp: split_beta)
    show ?thesis
      unfolding e' using remove[OF 1] assms(2)
      by (intro finish_folder_inv[OF assms(1)]) (simp add: open_inv_def)
  qed
qed

section \<open>The extractor\<close>

text \<open>What waits in a batch: a result belongs to its id and is a good document.\<close>

definition info_ok :: "BatchInfo \<Rightarrow> bool" where
  "info_ok info \<longleftrightarrow> (case bi_result info of None \<Rightarrow> True
     | Some doc \<Rightarrow> m_id doc = bi_id info \<and> doc_good (2 ^ 32 - 1) doc \<and> m_terms doc \<noteq> [])"

lemma App_index_ok:
  assumes "api_ok A st" "world_ok (ia_text A) w" "extract_ok (ia_text A) w" "info_ok info"
  shows "info_ok (fst (App_index A w c info))"
proof -
  let ?url = "fw_decodeName w (bi_path info)"
  have mime: "TermGenerator_termList (ia_text A) (ew_strictMimeType w ?url) \<noteq> []"
    using assms(3) by (simp add: extract_ok_def)
  have words: "text_ok (ia_text A)" using assms(1) by (simp add: api_ok_def)
  have "info_ok (info\<lparr>bi_state := Succeeded,
      bi_result := Some (App_extract (ia_text A) w ?url (ew_strictMimeType w ?url) doc)\<rparr>)"
    if "job_document A w ?url (ew_strictMimeType w ?url) NoLevel = Some doc" "m_id doc = bi_id info" for doc
    using App_extract_good[OF words assms(2,3) job_document_good(1,3,2)[OF assms(1,2) mime that(1)]] that(2)
    by (simp add: info_ok_def)
  moreover have "info_ok (info\<lparr>bi_state := state\<rparr>)" for state
    using assms(4) by (auto simp: info_ok_def split: option.splits)
  ultimately show ?thesis
    by (auto simp: App_index_def Let_def split: option.split)
qed

lemma index_first_ok:
  assumes "api_ok A st" "world_ok (ia_text A) w" "extract_ok (ia_text A) w"
  shows "\<forall>info \<in> set batch. info_ok info \<Longrightarrow> \<forall>info \<in> set (snd (index_first A w c batch)). info_ok info"
  using App_index_ok[OF assms] by (induction batch) (auto simp: split_beta)

lemma App_commit_info_inv:
  assumes "api_ok A st" "job_inv (ia_lmdb A) T" "info_ok info"
  shows "job_inv (ia_lmdb A) (App_commit_info A T info)"
proof -
  have L: "lmdb_ok (ia_lmdb A)" using assms(1) by (simp add: api_ok_def)
  have "job_inv (ia_lmdb A) (Transaction_removeFailed (ia_lmdb A) (bi_id info)
      (Transaction_removePhaseOne (ia_lmdb A) (bi_id info) (replace_doc A doc (DocumentTerms OR DocumentData) T)))"
    if "t_txn T = Some s" "Transaction_hasDocument (ia_lmdb A) s (bi_id info)" "bi_result info = Some doc" for s doc
    using assms(3) that
    by (intro job_inv_phases[OF L] job_inv_replace[OF L assms(2) that(1)]) (auto simp: info_ok_def)
  then have "job_inv (ia_lmdb A) (App_commit_info A T info)" if "bi_state info = Succeeded"
    using that assms(2) by (auto simp: App_commit_info_def intro!: in_txn_inv split: option.split)
  then show ?thesis
    using assms(2) job_inv_removeDocument[OF L assms(2)] job_inv_phases(1)[OF L assms(2)]
    by (cases "bi_state info") (simp_all add: App_commit_info_def)
qed

definition app_inv :: "('e, 's) indexer_api \<Rightarrow> ('e \<Rightarrow> 's) \<Rightarrow> 'e \<times> App \<Rightarrow> bool" where
  "app_inv A st = (\<lambda>(e, a). env_inv A st e \<and> (\<forall>info \<in> set (ap_batch a). info_ok info))"

lemma info_ok_committed: "info_ok info \<Longrightarrow> info_ok (info_committed info)"
  by (simp add: info_committed_def info_ok_def)

lemma App_processNextFile_inv:
  assumes "api_ok A st" "world_ok (ia_text A) w" "extract_ok (ia_text A) w" "app_inv A st ea"
  shows "app_inv A st (snd (App_processNextFile A w c early ea))"
proof -
  obtain e a where ea: "ea = (e, a)" by (cases ea)
  have inv: "env_inv A st e" and infos: "\<forall>info \<in> set (ap_batch a). info_ok info"
    using assms(4) by (auto simp: app_inv_def ea)
  obtain found batch where first: "index_first A w c (ap_batch a) = (found, batch)" by (cases "index_first A w c (ap_batch a)")
  have ok: "\<forall>info \<in> set batch. info_ok info"
    using index_first_ok[OF assms(1-3) infos, of c] first by simp
  let ?T = "foldl (App_commit_info A) (Transaction_new (ia_env A) ReadWrite e) batch"
  obtain r e' T where commit: "Transaction_commit (ia_env A) (ia_lmdb A) e ?T = (r, e', T)" by (metis prod_cases3)
  have "job_inv (ia_lmdb A) ?T"
    by (rule foldl_keeps[where P = "job_inv (ia_lmdb A)"])
      (use App_commit_info_inv[OF assms(1)] ok start_inv[OF assms(1) inv] in \<open>auto simp: open_inv_def\<close>)
  then have e': "env_inv A st e'" "env_inv A st (Transaction_destroy (ia_env A) e' T)"
    using env_inv_commit(1)[OF _ _ inv _ commit] assms(1) env_inv_destroy[of A st e' T] by (auto simp: api_ok_def)
  show ?thesis
    using ok inv e' info_ok_committed
    by (auto simp: App_processNextFile_def ea first commit Let_def app_inv_def)
qed

lemma App_run_inv:
  assumes "api_ok A st" "world_ok (ia_text A) w" "extract_ok (ia_text A) w"
  shows "App_run A w c clock ea = Some r \<Longrightarrow> app_inv A st ea \<Longrightarrow> app_inv A st (snd r)"
proof (induction clock arbitrary: ea)
  case (Cons early clock)
  note step = App_processNextFile_inv[OF assms Cons.prems(2), of c early]
  show ?case
    using Cons.IH[OF _ step] Cons.prems(1) step by (auto simp: Let_def split: if_splits)
qed simp

lemma App_slotNewBatch_inv:
  assumes "app_inv A st (e, a)" "App_slotNewBatch A c ids e a = (r, a')"
  shows "app_inv A st (e, a')"
  using assms
  by (auto simp: App_slotNewBatch_def Let_def app_inv_def info_ok_def split: if_splits option.splits)

end
