(* ===== verification/ContentIndexer.thy ===== *)
theory ContentIndexer
  imports Extractor
begin

text \<open>
  \<open>filecontentindexer.cpp\<close> and \<open>filecontentindexerprovider.cpp\<close>: the loop that hands batches of ids to the
  extractor process and halves the batch when the process dies. What the process does to the database and
  reports is the parameter \<open>X\<close>, by the number of the round; \<open>stop\<close> tells what the two reads of \<open>m_stop\<close> in a
  round give. At the end: the loop ends and singles out exactly the files on which the extractor dies.
\<close>

section \<open>FileContentIndexerProvider\<close>

definition provider_fetch :: "('e, 's) indexer_api \<Rightarrow> u32 \<Rightarrow> 'e \<Rightarrow> u64 list" where
  "provider_fetch A n e =
     (case read_store A e of None \<Rightarrow> [] | Some s \<Rightarrow> Transaction_fetchPhaseOneIds (ia_lmdb A) s (sint n))"

definition provider_size :: "('e, 's) indexer_api \<Rightarrow> 'e \<Rightarrow> u32" where
  "provider_size A e = (case read_store A e of None \<Rightarrow> 0 | Some s \<Rightarrow> Transaction_phaseOneSize (ia_lmdb A) s)"

definition provider_markFailed :: "('e, 's) indexer_api \<Rightarrow> u64 \<Rightarrow> 'e \<Rightarrow> bool \<times> 'e" where
  "provider_markFailed A i e =
     (let T = Transaction_new (ia_env A) ReadWrite e;
          T1 = in_txn T (\<lambda>s. if \<not> Transaction_hasFailed (ia_lmdb A) s i
                             then Transaction_addFailed (ia_lmdb A) i T else T);
          (ok, e', T2) = Transaction_commit (ia_env A) (ia_lmdb A) e (Transaction_removePhaseOne (ia_lmdb A) i T1)
      in (ok, Transaction_destroy (ia_env A) e' T2))"

section \<open>The loop\<close>

text \<open>A round of the extractor: whether it died, the files it finished and whether each was updated.\<close>

record 'e extractor_round =
  xr_failed :: bool
  xr_finished :: "(QString \<times> bool) list"
  xr_env :: 'e

record 'e FileContentIndexer =
  ci_batchSize :: u32
  ci_finishedCount :: u32
  ci_progress :: "u32 list"
  ci_changed :: "QString list list"
  ci_env :: 'e

datatype loop_result = LoopDone | LoopExit int

text \<open>\<open>onFileFinished\<close> for the files of a round.\<close>

definition file_finished :: "u32 \<Rightarrow> 'e FileContentIndexer \<Rightarrow> QString \<times> bool \<Rightarrow> 'e FileContentIndexer" where
  "file_finished totalCount c file =
     (let n = ci_finishedCount c + 1
      in c\<lparr>ci_finishedCount := n, ci_progress := ci_progress c @ [totalCount - n]\<rparr>)"

definition loop_round ::
  "('e, 's) indexer_api \<Rightarrow> u32 \<Rightarrow> u32 \<Rightarrow> 'e extractor_round \<Rightarrow> u64 list \<Rightarrow> bool \<Rightarrow> 'e FileContentIndexer \<Rightarrow>
   loop_result + 'e FileContentIndexer" where
  "loop_round A m_batchSize totalCount r idList stop c =
     (let c1 = (foldl (file_finished totalCount) c (xr_finished r))\<lparr>ci_env := xr_env r\<rparr>;
          batchSize = word_of_nat (length idList);
          reset = (\<lambda>c'. c'\<lparr>ci_finishedCount := ci_finishedCount c,
                         ci_progress := ci_progress c1 @ [totalCount - ci_finishedCount c]\<rparr>)
      in if xr_failed r \<and> \<not> stop then
           if batchSize = 1 then
             (case provider_markFailed A (hd idList) (xr_env r) of
                (ok, e') \<Rightarrow> if \<not> ok then Inl (LoopExit 1)
                           else Inr (reset (c1\<lparr>ci_batchSize := m_batchSize, ci_env := e'\<rparr>)))
           else Inr (reset (c1\<lparr>ci_batchSize := batchSize div 2\<rparr>))
         else Inr (c1\<lparr>ci_batchSize := batchSize,
                      ci_changed := ci_changed c1 @ [map fst (filter snd (xr_finished r))]\<rparr>))"

partial_function (option) FileContentIndexer_loop ::
  "('e, 's) indexer_api \<Rightarrow> (nat \<Rightarrow> 'e \<Rightarrow> u64 list \<Rightarrow> 'e extractor_round) \<Rightarrow> (nat \<Rightarrow> bool \<times> bool) \<Rightarrow> u32 \<Rightarrow> u32 \<Rightarrow>
   nat \<Rightarrow> 'e FileContentIndexer \<Rightarrow> (loop_result \<times> 'e FileContentIndexer) option" where
  "FileContentIndexer_loop A X stop m_batchSize totalCount k c =
     (let idList = provider_fetch A (ci_batchSize c) (ci_env c)
      in if idList = [] \<or> fst (stop k) then Some (LoopDone, c)
         else
           case loop_round A m_batchSize totalCount (X k (ci_env c) idList) idList (snd (stop k)) c of
             Inl r \<Rightarrow> Some (r, c)
           | Inr c' \<Rightarrow> FileContentIndexer_loop A X stop m_batchSize totalCount (Suc k) c')"

definition FileContentIndexer_run ::
  "('e, 's) indexer_api \<Rightarrow> (nat \<Rightarrow> 'e \<Rightarrow> u64 list \<Rightarrow> 'e extractor_round) \<Rightarrow> (nat \<Rightarrow> bool \<times> bool) \<Rightarrow> u32 \<Rightarrow> 'e \<Rightarrow>
   (loop_result \<times> 'e FileContentIndexer) option" where
  "FileContentIndexer_run A X stop m_batchSize e =
     FileContentIndexer_loop A X stop m_batchSize (provider_size A e) 0
       \<lparr>ci_batchSize = m_batchSize, ci_finishedCount = 0, ci_progress = [], ci_changed = [], ci_env = e\<rparr>"

section \<open>Phases\<close>

definition phase_ids :: "'s lmdb \<Rightarrow> 's \<Rightarrow> u64 set" where
  "phase_ids L s = {i. DocumentIdDB_contains L contentIndexingDbi s i}"

definition failed_ids :: "'s lmdb \<Rightarrow> 's \<Rightarrow> u64 set" where
  "failed_ids L s = {i. DocumentIdDB_contains L failedIdDbi s i}"

text \<open>Transactions begin and commit.\<close>

definition env_works :: "('e, 's) mdb_env \<Rightarrow> ('e \<Rightarrow> 's) \<Rightarrow> bool" where
  "env_works E st \<longleftrightarrow> (\<forall>e ro. mdb_txn_begin E e ro = Inr (st e)) \<and>
     (\<forall>e s. fst (mdb_txn_commit E e s) = 0 \<and> st (snd (mdb_txn_commit E e s)) = s) \<and>
     (\<forall>e s. st (mdb_txn_abort E e s) = st e)"

text \<open>
  The extractor dies on a batch exactly if the batch has one of the ids \<open>bad\<close>. It takes ids of the batch out
  of the first phase, but no bad one, and all of them if it lives; it marks no id as failed.
\<close>

definition extractor_ok ::
  "('e, 's) indexer_api \<Rightarrow> ('e \<Rightarrow> 's) \<Rightarrow> u64 set \<Rightarrow> (nat \<Rightarrow> 'e \<Rightarrow> u64 list \<Rightarrow> 'e extractor_round) \<Rightarrow> bool" where
  "extractor_ok A st bad X \<longleftrightarrow>
     (\<forall>k e ids. let r = X k e ids; P = phase_ids (ia_lmdb A) (st e); P' = phase_ids (ia_lmdb A) (st (xr_env r));
                  F = failed_ids (ia_lmdb A) (st e); F' = failed_ids (ia_lmdb A) (st (xr_env r))
        in P' \<subseteq> P \<and> P - set ids \<subseteq> P' \<and> P \<inter> bad \<subseteq> P' \<and> F' \<subseteq> F \<and> F \<inter> bad \<subseteq> F' \<and>
           (xr_failed r \<longleftrightarrow> set ids \<inter> bad \<noteq> {}) \<and> (\<not> xr_failed r \<longrightarrow> P' \<inter> set ids = {}))"

lemma phase_ids_scan:
  assumes "lmdb_ok L"
  shows "phase_ids L s = set (map (\<lambda>e. le_word (fst e)) (mdb_scan L s contentIndexingDbi))"
proof (intro set_eqI iffI)
  fix i
  assume "i \<in> phase_ids L s"
  then obtain v where "mdb_get L s contentIndexingDbi (le_bytes 8 i) = Some v"
    by (auto simp: phase_ids_def DocumentIdDB_contains_def)
  then have "(le_bytes 8 i, v) \<in> set (mdb_scan L s contentIndexingDbi)"
    using mdb_get_iff[OF assms] by simp
  then have "le_word (fst (le_bytes 8 i, v)) \<in> set (map (\<lambda>e. le_word (fst e)) (mdb_scan L s contentIndexingDbi))"
    unfolding list.set_map by (rule imageI)
  moreover have "le_word (fst (le_bytes 8 i, v)) = i" by (simp add: codec_simps)
  ultimately show "i \<in> set (map (\<lambda>e. le_word (fst e)) (mdb_scan L s contentIndexingDbi))"
    by metis
next
  fix i :: u64
  assume "i \<in> set (map (\<lambda>e. le_word (fst e)) (mdb_scan L s contentIndexingDbi))"
  then obtain k v where kv: "(k, v) \<in> set (mdb_scan L s contentIndexingDbi)" and i: "i = le_word k" by auto
  have "length k = 8"
    using mdb_scan_key_ok[OF assms kv] by (simp add: key_ok_def)
  then have "le_bytes 8 i = k"
    unfolding i by (intro le_bytes_le_word) auto
  then show "i \<in> phase_ids L s"
    using kv mdb_get_iff[OF assms, of contentIndexingDbi s k v] by (simp add: phase_ids_def DocumentIdDB_contains_def)
qed

lemma provider_fetch_ids:
  assumes "lmdb_ok (ia_lmdb A)" "env_works (ia_env A) st" "unat n < 2 ^ 31"
  shows "set (provider_fetch A n e) \<subseteq> phase_ids (ia_lmdb A) (st e)"
    and "length (provider_fetch A n e) \<le> unat n"
    and "provider_fetch A n e = [] \<Longrightarrow> n \<noteq> 0 \<Longrightarrow> phase_ids (ia_lmdb A) (st e) = {}"
proof -
  have "read_store A e = Some (st e)"
    using assms(2) by (simp add: read_store_def Transaction_new_def Transaction_init_def env_works_def)
  moreover have "nat (sint n) = unat n"
  proof -
    have u: "uint n = int (unat n)" by simp
    have "int (unat n) < int (2 ^ 31)" using assms(3) by (simp only: of_nat_less_iff)
    then have "uint n < 2 ^ 31" unfolding u by simp
    then have "signed_take_bit 31 (uint n) = uint n"
      by (intro signed_take_bit_int_eq_self order_trans[OF _ uint_ge_0]) simp_all
    then show ?thesis
      unfolding sint_uint u by simp
  qed
  ultimately have fetch: "provider_fetch A n e =
      take (unat n) (map (\<lambda>e. le_word (fst e)) (mdb_scan (ia_lmdb A) (st e) contentIndexingDbi))"
    by (simp add: provider_fetch_def Transaction_fetchPhaseOneIds_def DocumentIdDB_fetchItems_def take_map)
  show "set (provider_fetch A n e) \<subseteq> phase_ids (ia_lmdb A) (st e)"
    unfolding fetch phase_ids_scan[OF assms(1)] by (rule set_take_subset)
  show "length (provider_fetch A n e) \<le> unat n"
    by (simp add: fetch)
  show "phase_ids (ia_lmdb A) (st e) = {}" if "provider_fetch A n e = []" "n \<noteq> 0"
    using that unfolding fetch phase_ids_scan[OF assms(1)] by (simp add: unat_eq_0)
qed

lemma finite_phase_ids [simp]: "finite (phase_ids L s)"
  by simp

lemma markFailed_ids:
  assumes "lmdb_ok (ia_lmdb A)" "env_works (ia_env A) st" "provider_markFailed A i e = (ok, e')"
  shows "ok" "phase_ids (ia_lmdb A) (st e') = phase_ids (ia_lmdb A) (st e) - {i}"
    "failed_ids (ia_lmdb A) (st e') = insert i (failed_ids (ia_lmdb A) (st e))"
proof -
  let ?L = "ia_lmdb A"
  define s where "s = (if DocumentIdDB_contains ?L failedIdDbi (st e) i then st e else DocumentIdDB_put ?L failedIdDbi (st e) i)"
  define s' where "s' = DocumentIdDB_del ?L contentIndexingDbi s i"
  have T: "Transaction_new (ia_env A) ReadWrite e = \<lparr>t_txn = Some (st e), t_writeTrans = Some [], t_lastError = 0\<rparr>"
    using assms(2) by (simp add: Transaction_new_def Transaction_init_def env_works_def)
  have txn: "Transaction_removePhaseOne ?L i (in_txn (Transaction_new (ia_env A) ReadWrite e)
      (\<lambda>s. if \<not> Transaction_hasFailed ?L s i then Transaction_addFailed ?L i (Transaction_new (ia_env A) ReadWrite e)
            else Transaction_new (ia_env A) ReadWrite e)) =
      \<lparr>t_txn = Some s', t_writeTrans = Some [], t_lastError = 0\<rparr>"
    by (simp add: T in_txn_def Transaction_hasFailed_def Transaction_addFailed_def Transaction_removePhaseOne_def
        store_with_def s_def s'_def)
  have commit: "WriteTransaction_commit ?L \<lparr>m_txn = s', m_pendingOperations = []\<rparr> =
      \<lparr>m_txn = s', m_pendingOperations = []\<rparr>"
    by (simp add: WriteTransaction_commit_def)
  obtain e1 where e1: "mdb_txn_commit (ia_env A) e s' = (0, e1)" "st e1 = s'"
    using assms(2) unfolding env_works_def by (metis prod.collapse)
  have "provider_markFailed A i e = (True, e1)"
    unfolding provider_markFailed_def Let_def txn
    by (simp add: Transaction_commit_def commit e1 Transaction_destroy_def)
  then have "ok" and e': "st e' = s'" using assms(3) e1 by auto
  then show "ok" "phase_ids ?L (st e') = phase_ids ?L (st e) - {i}" "failed_ids ?L (st e') = insert i (failed_ids ?L (st e))"
    using assms(1)
    by (auto simp: phase_ids_def failed_ids_def s'_def s_def DocumentIdDB_del_def DocumentIdDB_put_def
        id_tbl.get_del id_tbl.get_put id_tbl.get_other split: if_splits)
qed

section \<open>The loop singles out the bad files\<close>

lemma halved_length:
  fixes n :: nat
  assumes "n \<le> b" "b < 2 ^ 31"
  shows "unat (word_of_nat n :: u32) = n" "unat ((word_of_nat n :: u32) div 2) = n div 2"
    "(word_of_nat n :: u32) = 1 \<longleftrightarrow> n = 1"
proof -
  have "n < 2 ^ 32" using assms by simp
  then show n: "unat (word_of_nat n :: u32) = n"
    by (simp add: unat_of_nat)
  then show "unat ((word_of_nat n :: u32) div 2) = n div 2"
    by (simp add: unat_div)
  show "(word_of_nat n :: u32) = 1 \<longleftrightarrow> n = 1"
    using n by (metis of_nat_1 unat_1)
qed

text \<open>What a round keeps of the ids: \<open>P\<close> in the first phase and \<open>F\<close> failed before it, \<open>P'\<close> and \<open>F'\<close> after it.\<close>

definition ids_step :: "u64 set \<Rightarrow> u64 set \<Rightarrow> u64 set \<Rightarrow> u64 set \<Rightarrow> u64 set \<Rightarrow> bool" where
  "ids_step bad P F P' F' \<longleftrightarrow>
     P' \<subseteq> P \<and> bad \<inter> P \<subseteq> P' \<union> F' \<and> F \<inter> bad \<subseteq> F' \<and> F' \<subseteq> F \<union> (bad \<inter> P)"

lemma ids_step_trans:
  assumes "ids_step bad P F P1 F1" "ids_step bad P1 F1 P2 F2"
  shows "ids_step bad P F P2 F2"
  using assms unfolding ids_step_def by blast

abbreviation ci_phase :: "('e, 's) indexer_api \<Rightarrow> ('e \<Rightarrow> 's) \<Rightarrow> 'e FileContentIndexer \<Rightarrow> u64 set" where
  "ci_phase A st c \<equiv> phase_ids (ia_lmdb A) (st (ci_env c))"

abbreviation ci_failed :: "('e, 's) indexer_api \<Rightarrow> ('e \<Rightarrow> 's) \<Rightarrow> 'e FileContentIndexer \<Rightarrow> u64 set" where
  "ci_failed A st c \<equiv> failed_ids (ia_lmdb A) (st (ci_env c))"

abbreviation ci_smaller ::
  "('e, 's) indexer_api \<Rightarrow> ('e \<Rightarrow> 's) \<Rightarrow> ('e FileContentIndexer \<times> 'e FileContentIndexer) set" where
  "ci_smaller A st \<equiv> measures [\<lambda>c. card (ci_phase A st c), \<lambda>c. unat (ci_batchSize c)]"

definition size_ok :: "u32 \<Rightarrow> bool" where
  "size_ok b \<longleftrightarrow> 1 \<le> unat b \<and> unat b < 2 ^ 31"

lemma loop_round_lives:
  "\<not> xr_failed r \<Longrightarrow> \<exists>c'. loop_round A m_batchSize totalCount r ids stop c = Inr c' \<and> ci_env c' = xr_env r \<and>
     ci_batchSize c' = word_of_nat (length ids)"
  by (simp add: loop_round_def Let_def)

lemma loop_round_one:
  "xr_failed r \<Longrightarrow> provider_markFailed A i (xr_env r) = (ok, e') \<Longrightarrow> ok \<Longrightarrow>
   \<exists>c'. loop_round A m_batchSize totalCount r [i] False c = Inr c' \<and> ci_env c' = e' \<and> ci_batchSize c' = m_batchSize"
  by (simp add: loop_round_def Let_def)

lemma loop_round_more:
  "xr_failed r \<Longrightarrow> (word_of_nat (length ids) :: u32) \<noteq> 1 \<Longrightarrow>
   \<exists>c'. loop_round A m_batchSize totalCount r ids False c = Inr c' \<and> ci_env c' = xr_env r \<and>
     ci_batchSize c' = word_of_nat (length ids) div 2"
  by (simp add: loop_round_def Let_def)

lemma loop_round_step:
  assumes "lmdb_ok (ia_lmdb A)" "env_works (ia_env A) st" "extractor_ok A st bad X"
    and "size_ok m_batchSize" "size_ok (ci_batchSize c)"
    and ids: "provider_fetch A (ci_batchSize c) (ci_env c) = ids" "ids \<noteq> []"
  obtains c' where "loop_round A m_batchSize totalCount (X k (ci_env c) ids) ids False c = Inr c'"
    "(c', c) \<in> ci_smaller A st" "size_ok (ci_batchSize c')"
    "ids_step bad (ci_phase A st c) (ci_failed A st c) (ci_phase A st c') (ci_failed A st c')"
proof -
  define r where "r = X k (ci_env c) ids"
  let ?P = "ci_phase A st c" and ?F = "ci_failed A st c"
  let ?P' = "phase_ids (ia_lmdb A) (st (xr_env r))" and ?F' = "failed_ids (ia_lmdb A) (st (xr_env r))"
  have X: "?P' \<subseteq> ?P" "?P \<inter> bad \<subseteq> ?P'" "?F' \<subseteq> ?F" "?F \<inter> bad \<subseteq> ?F'"
    "xr_failed r \<longleftrightarrow> set ids \<inter> bad \<noteq> {}" "\<not> xr_failed r \<Longrightarrow> ?P' \<inter> set ids = {}"
    using assms(3) unfolding extractor_ok_def Let_def r_def by blast+
  have b: "unat (ci_batchSize c) < 2 ^ 31" using assms(5) by (simp add: size_ok_def)
  note fetch = provider_fetch_ids[OF assms(1,2) b, of "ci_env c", unfolded ids(1)]
  note len = halved_length[OF fetch(2) b]
  have step: "ids_step bad ?P ?F ?P' ?F'" using X by (auto simp: ids_step_def)
  note found = that[folded r_def]
  consider (lives) "\<not> xr_failed r" | (one) "xr_failed r" "length ids = 1" | (more) "xr_failed r" "length ids \<noteq> 1"
    by blast
  then show thesis
  proof cases
    case lives
    obtain c' where c': "loop_round A m_batchSize totalCount r ids False c = Inr c'" "ci_env c' = xr_env r"
      "ci_batchSize c' = word_of_nat (length ids)"
      using loop_round_lives[OF lives] by blast
    obtain i where "i \<in> set ids" using ids(2) by (cases ids) auto
    then have "?P' \<subset> ?P" using X(1) X(6)[OF lives] fetch(1) by blast
    then have "card ?P' < card ?P" by (rule psubset_card_mono[OF finite_phase_ids])
    then show thesis
      using len(1) b fetch(2) ids(2) step
      by (intro found[OF c'(1)]) (simp_all add: c'(2,3) size_ok_def Suc_le_eq)
  next
    case one
    then obtain i where i: "ids = [i]" "i \<in> bad" using X(5) by (auto simp: length_Suc_conv)
    obtain ok e' where mark: "provider_markFailed A i (xr_env r) = (ok, e')" by fastforce
    note marked = markFailed_ids[OF assms(1,2) mark]
    obtain c' where c': "loop_round A m_batchSize totalCount r [i] False c = Inr c'" "ci_env c' = e'"
      "ci_batchSize c' = m_batchSize"
      using loop_round_one[OF one(1) mark marked(1)] by blast
    have "ci_phase A st c' \<subset> ?P" using X(1) fetch(1) by (auto simp: c' marked i)
    then have "card (ci_phase A st c') < card ?P" by (rule psubset_card_mono[OF finite_phase_ids])
    moreover have "ids_step bad ?P ?F (ci_phase A st c') (ci_failed A st c')"
      using step fetch(1) i by (auto simp: ids_step_def c' marked)
    ultimately show thesis
      using assms(4) by (intro found[OF c'(1)[folded i(1)]]) (simp_all add: c'(3))
  next
    case more
    obtain c' where c': "loop_round A m_batchSize totalCount r ids False c = Inr c'" "ci_env c' = xr_env r"
      "ci_batchSize c' = word_of_nat (length ids) div 2"
      using loop_round_more[OF more(1)] more(2) len(3) by blast
    have two: "2 \<le> length ids" using more(2) ids(2) by (cases ids) (auto simp: Suc_le_eq)
    have half: "unat (ci_batchSize c') = length ids div 2" by (simp only: c' len(2))
    have "card ?P' \<le> card ?P" using X(1) by (intro card_mono) auto
    moreover have "unat (ci_batchSize c') < unat (ci_batchSize c)" using half two fetch(2) by linarith
    moreover have "size_ok (ci_batchSize c')"
    proof -
      have "1 \<le> length ids div 2" "length ids div 2 \<le> length ids" using two by linarith+
      then show ?thesis
        unfolding size_ok_def half using fetch(2) b order_trans le_less_trans by metis
    qed
    ultimately show thesis
      using step by (intro found[OF c'(1)]) (auto simp: c'(2) le_less)
  qed
qed

text \<open>
  If transactions work and nobody stops it, the loop ends with no id left in the first phase. The failed ids
  are those that were failed and not seen healthy, and the ids of the first phase on which the extractor dies.
\<close>

lemma FileContentIndexer_loop_isolates:
  assumes "lmdb_ok (ia_lmdb A)" "env_works (ia_env A) st" "extractor_ok A st bad X" "size_ok m_batchSize"
    and "\<forall>k. stop k = (False, False)" "size_ok (ci_batchSize c)"
  shows "\<exists>c'. FileContentIndexer_loop A X stop m_batchSize totalCount k c = Some (LoopDone, c') \<and>
    ci_phase A st c' = {} \<and> ids_step bad (ci_phase A st c) (ci_failed A st c) {} (ci_failed A st c')"
  using wf_measures[of "[\<lambda>c. card (ci_phase A st c), \<lambda>c. unat (ci_batchSize c)]"] assms(6)
proof (induction c arbitrary: k rule: wf_induct_rule)
  case (less c)
  show ?case
  proof (cases "provider_fetch A (ci_batchSize c) (ci_env c) = []")
    case True
    have "ci_batchSize c \<noteq> 0" "unat (ci_batchSize c) < 2 ^ 31" using less.prems by (auto simp: size_ok_def)
    then have "ci_phase A st c = {}" using provider_fetch_ids(3)[OF assms(1,2) _ True] by blast
    then show ?thesis
      using True by (simp add: FileContentIndexer_loop.simps ids_step_def)
  next
    case False
    then obtain c1 where c1: "loop_round A m_batchSize totalCount
        (X k (ci_env c) (provider_fetch A (ci_batchSize c) (ci_env c))) (provider_fetch A (ci_batchSize c) (ci_env c))
        False c = Inr c1"
      "(c1, c) \<in> ci_smaller A st" "size_ok (ci_batchSize c1)"
      "ids_step bad (ci_phase A st c) (ci_failed A st c) (ci_phase A st c1) (ci_failed A st c1)"
      using loop_round_step[OF assms(1-4) less.prems refl False] by metis
    from less.IH[OF c1(2,3), of "Suc k"] obtain c' where c':
      "FileContentIndexer_loop A X stop m_batchSize totalCount (Suc k) c1 = Some (LoopDone, c')"
      "ci_phase A st c' = {}" "ids_step bad (ci_phase A st c1) (ci_failed A st c1) {} (ci_failed A st c')"
      by blast
    have "FileContentIndexer_loop A X stop m_batchSize totalCount k c = Some (LoopDone, c')"
      using False c1(1) c'(1) assms(5) by (subst FileContentIndexer_loop.simps) (simp add: Let_def)
    then show ?thesis
      using c'(2) ids_step_trans[OF c1(4) c'(3)] by blast
  qed
qed

lemma FileContentIndexer_run_isolates:
  assumes "lmdb_ok (ia_lmdb A)" "env_works (ia_env A) st" "extractor_ok A st bad X"
    and "1 \<le> unat m_batchSize" "unat m_batchSize < 2 ^ 31" "\<forall>k. stop k = (False, False)"
  obtains c where "FileContentIndexer_run A X stop m_batchSize e = Some (LoopDone, c)" "phase_ids (ia_lmdb A) (st (ci_env c)) = {}"
    "bad \<inter> phase_ids (ia_lmdb A) (st e) \<subseteq> failed_ids (ia_lmdb A) (st (ci_env c))"
    "failed_ids (ia_lmdb A) (st (ci_env c)) \<subseteq>
       failed_ids (ia_lmdb A) (st e) \<union> (bad \<inter> phase_ids (ia_lmdb A) (st e))"
proof -
  let ?c = "\<lparr>ci_batchSize = m_batchSize, ci_finishedCount = 0, ci_progress = [], ci_changed = [], ci_env = e\<rparr>"
  have "size_ok m_batchSize" using assms(4,5) by (simp add: size_ok_def)
  then obtain c where "FileContentIndexer_loop A X stop m_batchSize (provider_size A e) 0 ?c = Some (LoopDone, c)"
    "ci_phase A st c = {}" "ids_step bad (ci_phase A st ?c) (ci_failed A st ?c) {} (ci_failed A st c)"
    using FileContentIndexer_loop_isolates[OF assms(1-3) _ assms(6), where c = ?c] by force
  then show thesis
    using that[of c] by (simp add: FileContentIndexer_run_def ids_step_def)
qed

end
