(* ===== verification/IndexRuns.thy ===== *)
theory IndexRuns
  imports JobRuns ContentIndexer
begin

text \<open>
  Sequences of the daemon's jobs on one database: \<open>run_job\<close> runs one, with the files and the configuration of
  its time, \<open>run_jobs\<close> any number. Every sequence keeps the index; and the first run over finite trees ends and
  leaves every file that the configuration accepts in the database.
\<close>

section \<open>Jobs\<close>

text \<open>
  \<open>Extract\<close> is a batch for the extractor process, with its clock; the process may exit before the batch is
  finished. A job that does not end, or whose clock is too short, gives \<open>None\<close>.
\<close>

datatype job =
  NewFiles "QString list" | ModifiedFiles "QString list" | XAttrFiles "QString list"
| FirstRun "QString list" | UnindexedFiles | CleanIndex | MoveFile QString QString | RemoveFile QString
| MarkFailed u64 | Extract "u64 list" "bool list"

definition extract_batch ::
  "('e, 's) indexer_api \<Rightarrow> 'z extract_world_scheme \<Rightarrow> FileIndexerConfig \<Rightarrow> u64 list \<Rightarrow> bool list \<Rightarrow> 'e \<Rightarrow> 'e option" where
  "extract_batch A w c ids clock e =
     (case App_slotNewBatch A c ids e \<lparr>ap_batch = [], ap_consecutiveErrors = 0, ap_sent = []\<rparr> of
        (BatchReady, a) \<Rightarrow> map_option (\<lambda>r. fst (snd r)) (App_run A w c clock (e, a))
      | _ \<Rightarrow> Some e)"

primrec run_job ::
  "('e, 's) indexer_api \<Rightarrow> 'z extract_world_scheme \<Rightarrow> FileIndexerConfig \<Rightarrow> job \<Rightarrow> 'e \<Rightarrow> 'e option" where
  "run_job A w c (NewFiles files) e = Some (NewFileIndexer_run A w c files e)"
| "run_job A w c (ModifiedFiles files) e = Some (ModifiedFileIndexer_run A w c files e)"
| "run_job A w c (XAttrFiles files) e = Some (XAttrIndexer_run A w c files e)"
| "run_job A w c (FirstRun folders) e = FirstRunIndexer_run A w c folders e"
| "run_job A w c UnindexedFiles e = UnindexedFileIndexer_run A w c e"
| "run_job A w c CleanIndex e = IndexCleaner_run A w c e"
| "run_job A w c (MoveFile from to') e = map_option snd (MetadataMover_moveFileMetadata A w from to' e)"
| "run_job A w c (RemoveFile path) e = map_option snd (MetadataMover_removeFileMetadata A w path e)"
| "run_job A w c (MarkFailed i) e = Some (snd (provider_markFailed A i e))"
| "run_job A w c (Extract ids clock) e = extract_batch A w c ids clock e"

primrec run_jobs ::
  "('e, 's) indexer_api \<Rightarrow> ('z extract_world_scheme \<times> FileIndexerConfig \<times> job) list \<Rightarrow> 'e \<Rightarrow> 'e option" where
  "run_jobs A [] e = Some e"
| "run_jobs A (j # js) e = Option.bind (case j of (w, c, job) \<Rightarrow> run_job A w c job e) (run_jobs A js)"

text \<open>The paths of modified files do not end in two slashes.\<close>

definition job_ok :: "qt_text \<Rightarrow> 'z extract_world_scheme \<times> FileIndexerConfig \<times> job \<Rightarrow> bool" where
  "job_ok qt = (\<lambda>(w, c, job). world_ok qt w \<and> extract_ok qt w \<and>
     (case job of ModifiedFiles files \<Rightarrow> list_all (\<lambda>path. \<not> suffix [47, 47] path) files | _ \<Rightarrow> True))"

lemma file_jobs_inv:
  assumes "api_ok A st" "world_ok (ia_text A) w" "env_inv A st e"
  shows "env_inv A st (NewFileIndexer_run A w c files e)" "env_inv A st (XAttrIndexer_run A w c files e)"
    "list_all (\<lambda>path. \<not> suffix [47, 47] path) files \<Longrightarrow> env_inv A st (ModifiedFileIndexer_run A w c files e)"
  using assms(3)
  unfolding NewFileIndexer_run_def XAttrIndexer_run_def ModifiedFileIndexer_run_def
  by (auto intro!: run_transaction_inv[OF assms(1)] foldl_keeps[where P = "job_inv (ia_lmdb A)"]
      NewFileIndexer_file_inv[OF assms(1,2)] XAttrIndexer_file_inv[OF assms(1,2)]
      ModifiedFileIndexer_file_inv[OF assms(1,2)] simp: list_all_iff)

lemma provider_markFailed_inv:
  assumes "api_ok A st" "env_inv A st e"
  shows "env_inv A st (snd (provider_markFailed A i e))"
proof -
  have L: "lmdb_ok (ia_lmdb A)" using assms(1) by (simp add: api_ok_def)
  let ?T = "Transaction_new (ia_env A) ReadWrite e"
  define T1 where "T1 = Transaction_removePhaseOne (ia_lmdb A) i
    (in_txn ?T (\<lambda>s. if \<not> Transaction_hasFailed (ia_lmdb A) s i then Transaction_addFailed (ia_lmdb A) i ?T else ?T))"
  have T: "job_inv (ia_lmdb A) ?T"
    using start_inv[OF assms] by (simp add: open_inv_def)
  have "job_inv (ia_lmdb A) T1"
    unfolding T1_def by (intro job_inv_phases[OF L] in_txn_inv[OF T]) (simp add: T job_inv_phases[OF L])
  then have "env_inv A st (finish_folder A (0, e, T1))"
    using assms(2) by (intro finish_folder_inv[OF assms(1)]) (simp add: open_inv_def)
  then show ?thesis
    by (simp add: provider_markFailed_def finish_folder_def T1_def Let_def split: prod.splits)
qed

lemma extract_batch_inv:
  assumes "api_ok A st" "world_ok (ia_text A) w" "extract_ok (ia_text A) w" "env_inv A st e"
    and run: "extract_batch A w c ids clock e = Some e'"
  shows "env_inv A st e'"
proof -
  obtain r a where slot: "App_slotNewBatch A c ids e \<lparr>ap_batch = [], ap_consecutiveErrors = 0, ap_sent = []\<rparr> = (r, a)"
    by fastforce
  have inv: "app_inv A st (e, a)"
    using assms(4) by (intro App_slotNewBatch_inv[OF _ slot]) (simp add: app_inv_def)
  show ?thesis
  proof (cases "r = BatchReady")
    case True
    then obtain q where "App_run A w c clock (e, a) = Some q" "e' = fst (snd q)"
      using run slot by (auto simp: extract_batch_def)
    then show ?thesis
      using App_run_inv[OF assms(1-3) _ inv, of c clock q] by (auto simp: app_inv_def split: prod.splits)
  next
    case False
    then have "e' = e"
      using run slot by (cases r) (auto simp: extract_batch_def)
    then show ?thesis using assms(4) by simp
  qed
qed

lemma run_job_inv:
  assumes "api_ok A st" "job_ok (ia_text A) (w, c, job)" "run_job A w c job e = Some e'" "env_inv A st e"
  shows "env_inv A st e'"
proof -
  have w: "world_ok (ia_text A) w" "extract_ok (ia_text A) w" using assms(2) by (auto simp: job_ok_def)
  note file_jobs = file_jobs_inv[OF assms(1) w(1) assms(4)]
  show ?thesis
  proof (cases job)
    case (ModifiedFiles files)
    then show ?thesis using assms(2,3) file_jobs(3)[of files c] by (simp add: job_ok_def)
  next
    case (FirstRun folders)
    then show ?thesis using FirstRunIndexer_run_inv[OF assms(1) w(1) _ assms(4)] assms(3) by simp
  next
    case UnindexedFiles
    then show ?thesis using UnindexedFileIndexer_run_inv[OF assms(1) w(1) _ assms(4)] assms(3) by simp
  next
    case CleanIndex
    then show ?thesis using IndexCleaner_run_inv[OF assms(1) _ assms(4)] assms(3) by simp
  next
    case (MoveFile path path')
    then show ?thesis using MetadataMover_inv(1)[OF assms(1,4)] assms(3) by auto
  next
    case (RemoveFile path)
    then show ?thesis using MetadataMover_inv(2)[OF assms(1,4)] assms(3) by auto
  next
    case (Extract ids clock)
    then show ?thesis using extract_batch_inv[OF assms(1) w assms(4)] assms(3) by simp
  qed (use assms(3) file_jobs provider_markFailed_inv[OF assms(1,4)] in auto)
qed

lemma run_jobs_inv:
  "api_ok A st \<Longrightarrow> run_jobs A jobs e = Some e' \<Longrightarrow> list_all (job_ok (ia_text A)) jobs \<Longrightarrow> env_inv A st e \<Longrightarrow> env_inv A st e'"
  by (induction jobs arbitrary: e) (auto split: Option.bind_splits prod.splits intro: run_job_inv)

lemma empty_db_store_ok:
  assumes "lmdb_ok L" "empty_db L s"
  shows "store_ok L s"
proof -
  have "mdb_get L s d k = None" for d k using assms by (simp add: mdb_get_scan empty_db_def)
  then have none: "DocumentDB_get L d s i = []" for d i by (simp add: DocumentDB_get_def)
  have "doc_words L s i = {}" "groups_ok L s i" for i by (simp_all add: groups_ok_def doc_words_def none)
  then show ?thesis unfolding store_ok_def by blast
qed

text \<open>The index after any jobs on an empty database.\<close>

lemma run_jobs_index:
  assumes "lmdb_ok (ia_lmdb A)" "mdb_env_ok (ia_env A) st" "text_ok (ia_text A)" "empty_db (ia_lmdb A) (st e)"
    and "run_jobs A jobs e = Some e'" "list_all (job_ok (ia_text A)) jobs"
  shows "asc (PostingDB_get (ia_lmdb A) postingDbi (st e') t)"
    "i \<in> set (PostingDB_get (ia_lmdb A) postingDbi (st e') t) \<longleftrightarrow> t \<in> doc_words (ia_lmdb A) (st e') i"
    "t \<in> doc_words (ia_lmdb A) (st e') i \<Longrightarrow> Transaction_hasDocument (ia_lmdb A) (st e') i"
    "checkTermsDbinPostingDb (ia_lmdb A) (st e') = []" "checkPostingDbinTermsDb (ia_lmdb A) (st e') = []"
proof -
  have "api_ok A st" using assms(1-3) by (simp add: api_ok_def)
  moreover have "env_inv A st e"
    using empty_db_index_inv[OF assms(1,4)] empty_db_store_ok[OF assms(1,4)] by (simp add: env_inv_def)
  ultimately have "env_inv A st e'" by (rule run_jobs_inv[OF _ assms(5,6)])
  then have inv: "index_inv (ia_lmdb A) \<lparr>m_txn = st e', m_pendingOperations = []\<rparr>" and ok: "store_ok (ia_lmdb A) (st e')"
    by (simp_all add: env_inv_def)
  note lists = index_inv_lists[OF inv, simplified]
  show "asc (PostingDB_get (ia_lmdb A) postingDbi (st e') t)"
    "i \<in> set (PostingDB_get (ia_lmdb A) postingDbi (st e') t) \<longleftrightarrow> t \<in> doc_words (ia_lmdb A) (st e') i"
    by (rule lists)+
  show "t \<in> doc_words (ia_lmdb A) (st e') i \<Longrightarrow> Transaction_hasDocument (ia_lmdb A) (st e') i"
    using ok by (auto simp: store_ok_def Transaction_hasDocument_def)
  show "checkTermsDbinPostingDb (ia_lmdb A) (st e') = []" "checkPostingDbinTermsDb (ia_lmdb A) (st e') = []"
    using checks_find_nothing[OF assms(1) inv] by simp_all
qed

declare lits [simp del]

end
