(* ===== verification/FirstRun.thy ===== *)
theory FirstRun
  imports IndexRuns
begin

text \<open>
  The first run of the indexer over its folders: it ends on finite trees, and then every path that the
  configuration accepts and that the file system can identify is a document of the database.
\<close>

section \<open>Known documents\<close>

definition known_docs :: "'s lmdb \<Rightarrow> 's \<Rightarrow> u64 set" where
  "known_docs L s = {i. Transaction_hasDocument L s i}"

definition path_id :: "'z file_world_scheme \<Rightarrow> QString \<Rightarrow> u64" where
  "path_id w path = filePathToId (fw_fs w) (fw_encodeName w (chop_slash path))"

text \<open>The file and its folder exist, the file has an id, and its url has a name after the last slash.\<close>

definition indexable :: "'z file_world_scheme \<Rightarrow> QString \<Rightarrow> bool" where
  "indexable w path \<longleftrightarrow>
     (let url = fw_encodeName w (chop_slash path)
      in filename_of_url url \<noteq> [] \<and> path_id w path \<noteq> 0 \<and>
         filePathToStat (fw_fs w) (take (nat (lastIndexOf url slash)) url) \<noteq> None)"

definition indexable_ids :: "'z file_world_scheme \<Rightarrow> QString set \<Rightarrow> u64 set" where
  "indexable_ids w paths = path_id w ` {path \<in> paths. indexable w path}"

lemma job_document_path:
  assumes "job_document A w path mimetype level = Some doc"
  shows "m_id doc = path_id w path" "m_url doc = fw_encodeName w (chop_slash path)"
  using BasicIndexingJob_index_url[of "ia_text A" w "BasicIndexingJob_new path mimetype level" doc] assms
  by (simp_all add: job_document_def BasicIndexingJob_new_def path_id_def)

lemma job_document_indexable: "indexable w path \<Longrightarrow> job_document A w path mimetype level \<noteq> None"
  unfolding job_document_def BasicIndexingJob_index_exists
  by (auto simp: BasicIndexingJob_new_def indexable_def path_id_def filePathToId_def Let_def split: option.splits)

lemma commit_term_files:
  "lmdb_ok L \<Longrightarrow> mdb_scan L (commit_term L s e) idFilenameDbi = mdb_scan L s idFilenameDbi"
  by (simp add: commit_term_def PostingDB_put_def PostingDB_del_def PositionDB_put_def PositionDB_del_def
      lmdb_simps Let_def split: prod.split)

lemma commit_known:
  assumes "lmdb_ok L"
  shows "known_docs L (m_txn (WriteTransaction_commit L W)) = known_docs L (m_txn W)"
proof -
  have "mdb_scan L (foldl (commit_term L) s m) idFilenameDbi = mdb_scan L s idFilenameDbi" for s m
    using commit_term_files[OF assms] by (induction m arbitrary: s) auto
  then have "mdb_scan L (m_txn (WriteTransaction_commit L W)) idFilenameDbi = mdb_scan L (m_txn W) idFilenameDbi"
    by (simp add: WriteTransaction_commit_def)
  from has_cong[OF assms this] show ?thesis
    unfolding known_docs_def Transaction_hasDocument_def by simp
qed

lemma slash_in_filename: "slash \<notin> set (filename_of_url url)"
proof -
  define k where "k = length (takeWhile (\<lambda>x. x \<noteq> slash) (rev url))"
  have "k \<le> length url" unfolding k_def by (metis length_rev length_takeWhile_le)
  then have "nat (lastIndexOf url slash + 1) = length url - k"
    by (auto simp: lastIndexOf_def k_def[symmetric] Let_def)
  then have "filename_of_url url = rev (take k (rev url))"
    by (simp add: filename_of_url_def take_rev)
  moreover have "take k (rev url) = takeWhile (\<lambda>x. x \<noteq> slash) (rev url)"
    unfolding k_def by (metis takeWhile_eq_take)
  ultimately show ?thesis
    by (auto dest: set_takeWhileD)
qed

lemma addDocument_rows_files:
  "lmdb_ok L \<Longrightarrow> mdb_scan L (addDocument_rows L json s doc) idFilenameDbi = mdb_scan L s idFilenameDbi"
  by (simp add: addDocument_rows_def Let_def DocumentDB_put_def DocumentIdDB_put_def DocumentTimeDB_put_def
      MTimeDB_put_def DocumentDataDB_put_def lmdb_simps)

lemma addDocument_known:
  assumes "lmdb_ok L"
  shows "known_docs L (m_txn W) \<subseteq> known_docs L (m_txn (WriteTransaction_addDocument L json fs W doc))"
    and "m_id doc \<noteq> 0 \<Longrightarrow> filename_of_url (m_url doc) \<noteq> [] \<Longrightarrow>
      m_id doc \<in> known_docs L (m_txn (WriteTransaction_addDocument L json fs W doc))"
proof -
  obtain ok s where url: "addDocument_url L fs (m_txn W) doc = (ok, s)" by (metis prod.exhaust)
  note has = has_addDocument_url[OF assms url]
  have rows: "DocumentUrlDB_contains L (addDocument_rows L json s doc) j = DocumentUrlDB_contains L s j" for j
    by (rule has_cong[OF assms addDocument_rows_files[OF assms]])
  show "known_docs L (m_txn W) \<subseteq> known_docs L (m_txn (WriteTransaction_addDocument L json fs W doc))"
    using has(1) rows by (auto simp: addDocument_split url known_docs_def Transaction_hasDocument_def)
  assume "m_id doc \<noteq> 0" "filename_of_url (m_url doc) \<noteq> []"
  then have "ok"
    using url slash_in_filename[of "m_url doc"]
    by (auto simp: addDocument_url_def DocumentUrlDB_put_def Let_def split: if_splits)
  then show "m_id doc \<in> known_docs L (m_txn (WriteTransaction_addDocument L json fs W doc))"
    using has(2) rows by (simp add: addDocument_split url known_docs_def Transaction_hasDocument_def)
qed

section \<open>The walk\<close>

text \<open>The transaction of a walk is open for writing and knows the ids \<open>D\<close>.\<close>

definition knows :: "('e, 's) indexer_api \<Rightarrow> u64 set \<Rightarrow> nat \<times> 'e \<times> 's Transaction \<Rightarrow> bool" where
  "knows A D = (\<lambda>(n, e, T). \<exists>s m. t_txn T = Some s \<and> t_writeTrans T = Some m \<and> D \<subseteq> known_docs (ia_lmdb A) s)"

lemma knows_start:
  "env_works (ia_env A) st \<Longrightarrow>
     knows A (known_docs (ia_lmdb A) (st e)) (0, e, Transaction_new (ia_env A) ReadWrite e)"
  by (simp add: knows_def Transaction_new_def Transaction_init_def env_works_def)

lemma commit_keeps_known:
  assumes "lmdb_ok (ia_lmdb A)" "env_works (ia_env A) st" "knows A D (n, e, T)"
    and "Transaction_commit (ia_env A) (ia_lmdb A) e T = (ok, e', T')"
  shows "D \<subseteq> known_docs (ia_lmdb A) (st e')" "t_txn T' = None"
proof -
  from assms(3) obtain s m where sm: "t_txn T = Some s" "t_writeTrans T = Some m" "D \<subseteq> known_docs (ia_lmdb A) s"
    by (auto simp: knows_def)
  have stored: "st e1 = s'" if "mdb_txn_commit (ia_env A) e s' = (rc, e1)" for s' rc e1
    using assms(2) that unfolding env_works_def by (metis snd_conv)
  then show "D \<subseteq> known_docs (ia_lmdb A) (st e')" "t_txn T' = None"
    using assms(4) sm(3) commit_known[OF assms(1), of "\<lparr>m_txn = s, m_pendingOperations = m\<rparr>"]
    by (auto simp: Transaction_commit_def sm(1,2) Let_def dest!: stored split: prod.splits if_splits)
qed

lemma knows_count:
  assumes "lmdb_ok (ia_lmdb A)" "env_works (ia_env A) st" "knows A D (n, e, T)"
  shows "knows A D (count_document A n e T)"
proof -
  obtain ok e' T' where commit: "Transaction_commit (ia_env A) (ia_lmdb A) e T = (ok, e', T')" by (metis prod_cases3)
  note kept = commit_keeps_known[OF assms commit]
  have "knows A D (0, commit_reset A e T)"
    using kept assms(2)
    by (simp add: commit_reset_def commit Transaction_reset_def Transaction_init_def knows_def env_works_def)
  moreover have "knows A D (Suc n, e, T)"
    using assms(3) by (simp add: knows_def)
  ultimately show ?thesis
    by (simp add: count_document_def)
qed

lemma finish_folder_known:
  assumes "lmdb_ok (ia_lmdb A)" "env_works (ia_env A) st" "knows A D state"
  shows "D \<subseteq> known_docs (ia_lmdb A) (st (finish_folder A state))"
proof -
  obtain n e T where state: "state = (n, e, T)" by (metis prod_cases3)
  obtain ok e' T' where commit: "Transaction_commit (ia_env A) (ia_lmdb A) e T = (ok, e', T')" by (metis prod_cases3)
  show ?thesis
    using commit_keeps_known[OF assms(1,2) assms(3)[unfolded state] commit]
    by (simp add: state finish_folder_def commit Transaction_destroy_def)
qed

lemma FirstRunIndexer_file_knows:
  assumes "lmdb_ok (ia_lmdb A)" "env_works (ia_env A) st" "knows A D state"
  shows "knows A (D \<union> indexable_ids w {path}) (FirstRunIndexer_file A w c state path)"
proof -
  obtain n e T where state: "state = (n, e, T)" by (metis prod_cases3)
  from assms(3) obtain s m where sm: "t_txn T = Some s" "t_writeTrans T = Some m" "D \<subseteq> known_docs (ia_lmdb A) s"
    by (auto simp: knows_def state)
  define mimetype where "mimetype = (if fi_isDir w path then qs ''inode/directory'' else fw_mimeTypeForFile w path)"
  show ?thesis
  proof (cases "job_document A w path mimetype (indexing_level c)")
    case None
    then have "indexable_ids w {path} = {}"
      using job_document_indexable[of w path A mimetype "indexing_level c"] by (auto simp: indexable_ids_def)
    then show ?thesis
      using None assms(3) by (simp add: FirstRunIndexer_file_def state mimetype_def[symmetric])
  next
    case (Some doc)
    note doc = job_document_path[OF Some]
    show ?thesis
    proof (cases "Transaction_hasDocument (ia_lmdb A) s (m_id doc)")
      case True
      then show ?thesis
        using Some sm doc
        by (auto simp: FirstRunIndexer_file_def state mimetype_def[symmetric] knows_def known_docs_def indexable_ids_def)
    next
      case False
      note added = addDocument_known[OF assms(1), where W = "\<lparr>m_txn = s, m_pendingOperations = m\<rparr>"
          and json = "ia_json A" and fs = "fw_fs w" and doc = doc]
      have "indexable_ids w {path} \<subseteq> known_docs (ia_lmdb A) (m_txn (WriteTransaction_addDocument (ia_lmdb A) (ia_json A)
          (fw_fs w) \<lparr>m_txn = s, m_pendingOperations = m\<rparr> doc))"
        using added(2) doc by (auto simp: indexable_ids_def indexable_def Let_def)
      then have "knows A (D \<union> indexable_ids w {path}) (n, e, add_doc A w doc T)"
        using added(1) sm by (auto simp: knows_def add_doc_def Transaction_addDocument_def write_with_def Let_def)
      from knows_count[OF assms(1,2) this] show ?thesis
        using Some False sm by (simp add: FirstRunIndexer_file_def state mimetype_def[symmetric])
    qed
  qed
qed

lemma FirstRunIndexer_files_know:
  assumes "lmdb_ok (ia_lmdb A)" "env_works (ia_env A) st"
  shows "knows A D state \<Longrightarrow> knows A (D \<union> indexable_ids w (set paths)) (foldl (FirstRunIndexer_file A w c) state paths)"
proof (induction paths arbitrary: D state)
  case (Cons path paths)
  have "D \<union> indexable_ids w (set (path # paths)) = (D \<union> indexable_ids w {path}) \<union> indexable_ids w (set paths)"
    by (auto simp: indexable_ids_def)
  then show ?case
    using Cons.IH[OF FirstRunIndexer_file_knows[OF assms Cons.prems]] by simp
qed (simp add: indexable_ids_def)

text \<open>The paths of a folder that the configuration accepts.\<close>

definition folder_paths ::
  "regex_api \<Rightarrow> 'z file_world_scheme \<Rightarrow> FileIndexerConfig \<Rightarrow> (QString \<Rightarrow> nat) \<Rightarrow> QString \<Rightarrow> QString set" where
  "folder_paths rx w c rank folder = set (folder # tree_paths rx w (Some c) FilesAndDirs (rank folder) folder)"

lemma FirstRunIndexer_folder_known:
  assumes "lmdb_ok (ia_lmdb A)" "env_works (ia_env A) st" "tree_ranked w FilesAndDirs rank"
    and "folder \<noteq> []" "shouldFolderBeIndexed (ia_regex A) c folder"
  obtains e' where "FirstRunIndexer_folder A w c folder e = Some e'"
    "known_docs (ia_lmdb A) (st e) \<union> indexable_ids w (folder_paths (ia_regex A) w c rank folder) \<subseteq>
       known_docs (ia_lmdb A) (st e')"
proof -
  obtain seen where seen: "mset seen = mset (folder # tree_paths (ia_regex A) w (Some c) FilesAndDirs (rank folder) folder)"
    "FirstRunIndexer_folder A w c folder e =
       Some (finish_folder A (foldl (FirstRunIndexer_file A w c) (0, e, Transaction_new (ia_env A) ReadWrite e) seen))"
    by (rule folder_walk_ends[OF assms(3-5), where e = e])
  have "set seen = folder_paths (ia_regex A) w c rank folder"
    using seen(1) unfolding folder_paths_def by (metis set_mset_mset)
  with finish_folder_known[OF assms(1,2) FirstRunIndexer_files_know[OF assms(1,2) knows_start[OF assms(2), where e = e],
      where w = w and paths = seen and c = c]]
  show thesis
    by (intro that[OF seen(2)]) simp
qed

lemma FirstRunIndexer_run_known:
  assumes "lmdb_ok (ia_lmdb A)" "env_works (ia_env A) st" "tree_ranked w FilesAndDirs rank"
  shows "\<forall>folder \<in> set folders. folder \<noteq> [] \<and> shouldFolderBeIndexed (ia_regex A) c folder \<Longrightarrow>
    \<exists>e'. FirstRunIndexer_run A w c folders e = Some e' \<and>
      known_docs (ia_lmdb A) (st e) \<union> indexable_ids w (\<Union> (folder_paths (ia_regex A) w c rank ` set folders)) \<subseteq>
        known_docs (ia_lmdb A) (st e')"
proof (induction folders arbitrary: e)
  case Nil
  then show ?case by (simp add: FirstRunIndexer_run_def indexable_ids_def)
next
  case (Cons folder folders)
  then obtain e1 where e1: "FirstRunIndexer_folder A w c folder e = Some e1"
    "known_docs (ia_lmdb A) (st e) \<union> indexable_ids w (folder_paths (ia_regex A) w c rank folder) \<subseteq>
       known_docs (ia_lmdb A) (st e1)"
    by (auto elim: FirstRunIndexer_folder_known[OF assms, of folder c e])
  obtain e' where e': "FirstRunIndexer_run A w c folders e1 = Some e'"
    "known_docs (ia_lmdb A) (st e1) \<union> indexable_ids w (\<Union> (folder_paths (ia_regex A) w c rank ` set folders)) \<subseteq>
       known_docs (ia_lmdb A) (st e')"
    using Cons.IH[of e1] Cons.prems by auto
  have "FirstRunIndexer_run A w c (folder # folders) e = Some e'"
    using e1(1) e'(1) by (simp add: FirstRunIndexer_run_def)
  moreover have "indexable_ids w (\<Union> (folder_paths (ia_regex A) w c rank ` set (folder # folders))) =
      indexable_ids w (folder_paths (ia_regex A) w c rank folder) \<union>
      indexable_ids w (\<Union> (folder_paths (ia_regex A) w c rank ` set folders))"
    by (auto simp: indexable_ids_def)
  ultimately show ?case
    using e1(2) e'(2) by blast
qed

lemma FirstRunIndexer_run_complete:
  assumes "lmdb_ok (ia_lmdb A)" "env_works (ia_env A) st" "tree_ranked w FilesAndDirs rank"
    and "\<forall>folder \<in> set folders. folder \<noteq> [] \<and> shouldFolderBeIndexed (ia_regex A) c folder"
  shows "\<exists>e'. FirstRunIndexer_run A w c folders e = Some e' \<and>
    (\<forall>folder \<in> set folders. \<forall>path \<in> set (folder # tree_paths (ia_regex A) w (Some c) FilesAndDirs (rank folder) folder).
       indexable w path \<longrightarrow> Transaction_hasDocument (ia_lmdb A) (st e') (path_id w path))"
proof -
  obtain e' where e': "FirstRunIndexer_run A w c folders e = Some e'"
    "known_docs (ia_lmdb A) (st e) \<union> indexable_ids w (\<Union> (folder_paths (ia_regex A) w c rank ` set folders)) \<subseteq>
       known_docs (ia_lmdb A) (st e')"
    using FirstRunIndexer_run_known[OF assms] by blast
  have "Transaction_hasDocument (ia_lmdb A) (st e') (path_id w path)"
    if "folder \<in> set folders" "indexable w path"
      "path \<in> set (folder # tree_paths (ia_regex A) w (Some c) FilesAndDirs (rank folder) folder)" for folder path
  proof -
    have "path \<in> \<Union> (folder_paths (ia_regex A) w c rank ` set folders)"
      using that(1,3) unfolding folder_paths_def by blast
    then have "path_id w path \<in> known_docs (ia_lmdb A) (st e')"
      using e'(2) that(2) unfolding indexable_ids_def by blast
    then show ?thesis by (simp add: known_docs_def)
  qed
  then show ?thesis using e'(1) by blast
qed

end
