(* ===== verification/JobSamples.thy ===== *)
theory JobSamples
  imports FirstRun Samples
begin

text \<open>
  A folder \<open>/h/d\<close> with the file \<open>/h/d/f\<close>, a configuration that includes it, and a text API whose words are
  lower case letters, digits and question marks, for the jobs.
\<close>

definition job_byte :: "16 word \<Rightarrow> u8" where
  "job_byte c = (if 97 \<le> c \<and> c \<le> 122 \<or> 48 \<le> c \<and> c \<le> 57 then ucast c else 63)"

definition job_qt :: qt_text where
  "job_qt = sample_qt\<lparr>qt_toUtf8 := map job_byte\<rparr>"

definition job_stat :: "u64 \<Rightarrow> bool \<Rightarrow> StatBuf" where
  "job_stat ino dir = \<lparr>st_dev = 1, st_ino = ino, st_isdir = dir, st_size = 7, st_mtime = 100, st_ctime = 200\<rparr>"

definition job_fs :: fs_api where
  "job_fs = \<lparr>QT_LSTAT = (\<lambda>path. if path = lit ''/h'' then Some (job_stat 2 True) else
       if path = lit ''/h/d'' then Some (job_stat 3 True) else
       if path = lit ''/h/d/f'' then Some (job_stat 4 False) else None), statvfs_fsid = \<lambda>_. Some 0\<rparr>"

definition job_world :: extract_world where
  "job_world =
    \<lparr>fi_isDir = \<lambda>path. path = qs ''/h/d'' \<or> path = qs ''/h/d/'', fi_isFile = \<lambda>path. path = qs ''/h/d/f'', fi_isSymLink = \<lambda>_. False,
     fi_isHidden = \<lambda>_. False, fi_exists = \<lambda>_. True, fi_absolutePath = \<lambda>_. qs ''/h/d'', fi_fileName = file_name_of,
     fw_fs = job_fs, fw_encodeName = map ucast, fw_decodeName = map ucast, fw_lastModified = \<lambda>_. 100,
     fw_metadataChangeTime = \<lambda>_. 200, fw_mimeTypeForFile = \<lambda>_. qs ''text/plain'',
     fw_userMetaData = \<lambda>_. \<lparr>um_queryAttributes = False, um_tags = [], um_rating = 0, um_userComment = []\<rparr>,
     fw_typeNumber = \<lambda>_. 1,
     fw_entries = \<lambda>flt path. if path = qs ''/h/d/'' then [qs ''/h/d/f''] else [],
     ew_strictMimeType = \<lambda>_. qs ''text/plain'', ew_size = \<lambda>_. 7, ew_extract = \<lambda>_ _. [EC_append (qs ''cat'')],
     ew_jdoc = \<lambda>_ _. []\<rparr>"

definition job_api :: "(ref_store, ref_store) indexer_api" where
  "job_api = \<lparr>ia_lmdb = ref_lmdb, ia_env = sample_env, ia_json = sample_json, ia_text = job_qt, ia_regex = \<lambda>_ _. False\<rparr>"

definition job_settings :: BalooSettings where
  "job_settings = \<lparr>bs_folders = [qs ''/h/d''], bs_excludedFolders = [], bs_excludedFilters = [], bs_excludedFiltersVersion = 1000,
     bs_excludedMimetypes = [], bs_indexHiddenFolders = False, bs_onlyBasicIndexing = False, bs_indexingEnabled = True,
     bs_dbVersion = 0\<rparr>"

definition job_config :: FileIndexerConfig where
  "job_config = refreshFolderCache (\<lambda>path. path) [] (FileIndexerConfig_new job_settings)"

lemma job_api_fields [simp]:
  "ia_lmdb job_api = ref_lmdb" "ia_env job_api = sample_env" "ia_text job_api = job_qt"
  "ia_regex job_api = (\<lambda>_ _. False)"
  by (simp_all add: job_api_def)

lemma job_termLists:
  "TermGenerator_termList job_qt (qs ''inode/directory'') \<noteq> []"
  "TermGenerator_termList job_qt (qs ''application/x-zerosize'') \<noteq> []"
  "TermGenerator_termList job_qt (qs ''text/plain'') \<noteq> []"
  "length (TermGenerator_termList job_qt (qs ''cat'')) = 1" "TermGenerator_termList job_qt [] = []"
  by code_simp+

lemma job_byte_ok: "job_byte c \<notin> {0, 1} \<union> {65..90}"
proof -
  have "ucast c \<notin> {0, 1 :: u8} \<union> {65..90}" if "97 \<le> c \<and> c \<le> 122 \<or> 48 \<le> c \<and> c \<le> 57"
  proof -
    have "unat (ucast c :: u8) = unat c"
      using that by (auto simp: unsigned_ucast_eq word_le_nat_alt intro!: take_bit_nat_eq_self)
    then show ?thesis using that by (auto simp: word_le_nat_alt word_unat_eq_iff)
  qed
  then show ?thesis by (auto simp: job_byte_def)
qed

lemma job_text_ok: "text_ok job_qt"
proof -
  have "length t \<le> 100 \<and> 0 \<notin> set t \<and> 1 \<notin> set t \<and> \<not> (65 \<le> hd t \<and> hd t \<le> 90)"
    if "t \<in> set (TermGenerator_termList job_qt str)" for str t
  proof -
    from termList_ok[of job_qt str] that have t: "term_of_text job_qt t" by blast
    then obtain u where u: "t = qt_toUtf8 job_qt u" "length u \<le> 25" and "t \<noteq> []"
      by (auto simp: term_of_text_def maxTermSize_def)
    have "x \<notin> {0, 1} \<union> {65..90}" if "x \<in> set t" for x
      using that job_byte_ok unfolding u(1) job_qt_def by auto
    moreover from \<open>t \<noteq> []\<close> have "hd t \<in> set t" by simp
    moreover have "length t \<le> 100" using u by (simp add: job_qt_def)
    ultimately show ?thesis by fastforce
  qed
  then show ?thesis
    using job_termLists by (auto simp: text_ok_def)
qed

lemma job_world_ok: "world_ok job_qt job_world" "extract_ok job_qt job_world"
  using job_termLists
  by (auto simp: world_ok_def attributes_ok_def int_ok_def job_world_def extract_ok_def call_ok_def call_words_def)

lemma sample_env_works: "env_works sample_env (\<lambda>e. e)"
  by (simp add: env_works_def sample_env_def)

lemma job_config_includes: "shouldFolderBeIndexed (\<lambda>_ _. False) job_config (qs ''/h/d/'')"
  "config_includeFolders job_config = [qs ''/h/d/'']"
  by code_simp+

lemma job_folder_paths:
  "tree_paths (\<lambda>_ _. False) job_world (Some job_config) FilesAndDirs (Suc 0) (qs ''/h/d/'') = [qs ''/h/d/f'']"
  "indexable job_world (qs ''/h/d/'')" "indexable job_world (qs ''/h/d/f'')"
  "path_id job_world (qs ''/h/d/'') = 0x300000001" "path_id job_world (qs ''/h/d/f'') = 0x400000001"
  "qs ''/h/d/'' \<noteq> []"
  by code_simp+

lemma job_tree: "tree_ranked job_world FilesAndDirs (\<lambda>path. if path = qs ''/h/d/'' then 1 else 0)"
  by (auto simp: tree_ranked_def job_world_def qs_def)

lemma job_first_run: "\<exists>e'. FirstRunIndexer_run job_api job_world job_config [qs ''/h/d/''] e = Some e'"
  using FirstRunIndexer_run_known[of job_api "\<lambda>e. e", OF _ _ job_tree, where folders = "[qs ''/h/d/'']"]
    job_config_includes(1) job_folder_paths(6)
  by (simp add: lmdb_ok_ref sample_env_works) blast

text \<open>A stream format: every item is marked with a byte 1, and a byte 0 ends the list.\<close>

definition write_items :: "nat \<Rightarrow> 'w::len word list \<Rightarrow> bytes" where
  "write_items n xs = concat (map (\<lambda>x. 1 # le_bytes n x) xs) @ [0]"

function read_items :: "nat \<Rightarrow> bytes \<Rightarrow> ('w::len word list \<times> bytes) option" where
  "read_items n b =
     (case b of
        [] \<Rightarrow> None
      | x # r \<Rightarrow>
          if x = 0 then Some ([], r)
          else if length r < n then None
          else map_option (\<lambda>(xs, r'). (le_word (take n r) # xs, r')) (read_items n (drop n r)))"
  by pat_completeness auto
termination
  by (relation "measure (\<lambda>(n, b). length b)") auto

declare read_items.simps [simp del]

lemma read_items_whole:
  fixes xs :: "'w::len word list"
  assumes "\<And>x :: 'w word. le_word (le_bytes n x) = x"
  shows "read_items n (write_items n xs @ rest) = Some (xs, rest)"
proof (induction xs)
  case Nil
  show ?case by (subst read_items.simps) (simp add: write_items_def)
next
  case (Cons x xs)
  then show ?case
    using assms by (subst read_items.simps) (simp add: write_items_def)
qed

lemma read_items_part:
  fixes xs :: "'w::len word list"
  assumes "\<And>x :: 'w word. le_word (le_bytes n x) = x"
  shows "strict_prefix b (write_items n xs) \<Longrightarrow> read_items n b = (None :: ('w word list \<times> bytes) option)"
proof (induction xs arbitrary: b)
  case Nil
  then show ?case
    by (subst read_items.simps) (auto simp: write_items_def split: list.split)
next
  case (Cons x xs)
  have step: "read_items n (1 # le_bytes n x @ r) = map_option (\<lambda>(xs, r'). (x # xs, r')) (read_items n r)" for r
    using assms by (subst read_items.simps) simp
  have items: "write_items n (x # xs) = 1 # le_bytes n x @ write_items n xs" by (simp add: write_items_def)
  show ?case
  proof (cases "length b \<le> n")
    case True
    then show ?thesis
      using Cons.prems by (subst read_items.simps) (auto simp: items split: list.split)
  next
    case False
    obtain later where later: "b @ later = (1 # le_bytes n x) @ write_items n xs" "later \<noteq> []"
      using Cons.prems by (auto simp: items strict_prefix_def prefix_def)
    define r where "r = drop (Suc n) b"
    have "take (Suc n) b = take (Suc n) (b @ later)" using False by simp
    also have "\<dots> = 1 # le_bytes n x" by (simp only: later(1)) simp
    finally have b: "b = (1 # le_bytes n x) @ r" unfolding r_def by (metis append_take_drop_id)
    then have r: "b = 1 # le_bytes n x @ r" "r @ later = write_items n xs" using later(1) by simp_all
    then have "strict_prefix r (write_items n xs)"
      using later(2) unfolding strict_prefix_def prefix_def by (metis append_self_conv)
    then show ?thesis
      using Cons.IH[of r] by (simp only: r(1) step) simp
  qed
qed

definition job_stream :: stream_api where
  "job_stream = \<lparr>ds_writeString = write_items 2, ds_readString = read_items 2,
     ds_writeIds = write_items 8, ds_readIds = read_items 8\<rparr>"

lemma job_stream_ok: "stream_ok job_stream"
proof -
  have 2: "le_word (le_bytes 2 x) = x" for x :: "16 word"
    by (simp add: le_word_le_bytes_take take_bit_word_eq_self)
  have 8: "le_word (le_bytes 8 x) = x" for x :: u64
    by (rule le_word_le_bytes_64)
  show ?thesis
    using read_items_whole[of 2, OF 2] read_items_whole[of 8, OF 8] read_items_part[of 2, OF 2] read_items_part[of 8, OF 8]
    unfolding stream_ok_def job_stream_def by simp
qed

text \<open>An extractor that takes its batch out of the first phase, unless it dies on the id 7.\<close>

definition job_extractor :: "nat \<Rightarrow> ref_store \<Rightarrow> u64 list \<Rightarrow> ref_store extractor_round" where
  "job_extractor k e ids =
     (if 7 \<in> set ids then \<lparr>xr_failed = True, xr_finished = [], xr_env = e\<rparr>
      else \<lparr>xr_failed = False, xr_finished = [],
             xr_env = foldl (DocumentIdDB_del ref_lmdb contentIndexingDbi) e ids\<rparr>)"

definition job_phase :: ref_store where
  "job_phase = DocumentIdDB_put ref_lmdb contentIndexingDbi (DocumentIdDB_put ref_lmdb contentIndexingDbi ref_empty 5) 7"

lemma job_del_id:
  "phase_ids ref_lmdb (DocumentIdDB_del ref_lmdb contentIndexingDbi e i) = phase_ids ref_lmdb e - {i}"
  "failed_ids ref_lmdb (DocumentIdDB_del ref_lmdb contentIndexingDbi e i) = failed_ids ref_lmdb e"
  using lmdb_ok_ref by (auto simp: phase_ids_def failed_ids_def DocumentIdDB_del_def id_tbl.get_del id_tbl.get_other)

lemma job_del_ids:
  "phase_ids ref_lmdb (foldl (DocumentIdDB_del ref_lmdb contentIndexingDbi) e ids) = phase_ids ref_lmdb e - set ids"
  by (induction ids arbitrary: e) (auto simp: job_del_id)

lemma job_del_failed:
  "failed_ids ref_lmdb (foldl (DocumentIdDB_del ref_lmdb contentIndexingDbi) e ids) = failed_ids ref_lmdb e"
  by (induction ids arbitrary: e) (auto simp: job_del_id)

lemma job_phase_ids: "phase_ids ref_lmdb job_phase = {5, 7}" "failed_ids ref_lmdb job_phase = {}"
  using lmdb_ok_ref
  by (auto simp: phase_ids_def failed_ids_def job_phase_def DocumentIdDB_put_def id_tbl.get_put id_tbl.get_other
      DocumentIdDB_contains_def[of ref_lmdb _ ref_empty] ref_empty_get)

lemma job_extractor_ok: "extractor_ok job_api (\<lambda>e. e) {7} job_extractor"
  by (auto simp: extractor_ok_def Let_def job_extractor_def job_del_ids job_del_failed)

end
