(* ===== verification/Spec2Isabelle.thy ===== *)
theory Spec2Isabelle
  imports SearchSamples DatabaseOpen PendingSpec Scheduler ContentMonitors JobSamples
begin

text \<open>
  Baloo is KDE's file indexer and search engine. Files are read by the indexers of \<open>src/file\<close>, turned
  into \<open>Document\<close>s (words with positions) by jobs that a scheduler starts, and written through \<open>Transaction\<close>s into an LMDB database
  of twelve tables; queries are parsed in \<open>src/lib\<close>, compiled into iterators over posting lists and
  read to their end. This development models the engine (\<open>src/engine\<close>, \<open>src/codecs\<close>), the search
  (\<open>src/lib\<close>) and the indexing daemon (\<open>src/file\<close>) operation by operation and proves that what is
  written is what is found.

  Parts, in the order of the layers:

  \<^item> \<open>Prelude\<close>: little-endian bytes, \<open>QMap\<close> as an ascending association list, sorted lists.
  \<^item> \<open>Coding\<close>, \<open>Codecs\<close>: \<open>src/codecs\<close>: varints, differential lists, the codecs of posting lists,
    positions and terms. Every codec is an interpretation of the locale \<open>codec\<close> (decoding inverts
    encoding).
  \<^item> \<open>Lmdb\<close>: the key/value store as a parameter \<open>L\<close> over an abstract store \<open>'s\<close>. \<open>lmdb_ok\<close> states
    what LMDB documents: reads agree with one ordered scan, a write changes one entry, tables do not
    influence each other. \<open>Lmdb_Ref\<close> is a list implementation that satisfies it.
  \<^item> \<open>Tables\<close>, \<open>UrlDB\<close>: the sub-databases (\<open>postingdb.cpp\<close> ... \<open>idtreedb.cpp\<close>, \<open>documenturldb.cpp\<close>),
    each an interpretation of the locale \<open>table\<close> (read after write). \<open>UrlTree\<close>: the tree of file
    names, its invariant \<open>url_inv\<close> (the child lists are the inverse of the parent links) and the
    lookup of paths.
  \<^item> \<open>IdUtils\<close>, \<open>Document\<close>: \<open>idutils.h\<close>, \<open>document.cpp\<close>.
  \<^item> \<open>WriteTransaction\<close>: \<open>writetransaction.cpp\<close>. \<open>WriteIndex\<close>, \<open>WriteOps\<close>, \<open>WriteTree\<close>, \<open>WriteSteps\<close>
    prove its correctness: the invariant \<open>index_inv\<close> (posting lists with the queued operations applied
    name exactly the documents whose stored term lists have the term) is kept by every operation.
  \<^item> \<open>PostingIter\<close>, \<open>AndIter\<close>, \<open>OrIter\<close>, \<open>PhraseCheck\<close>, \<open>PhraseIter\<close>, \<open>TreeIter\<close>: the iterator
    classes. The locale \<open>posting_iterator\<close> is the contract of \<open>next\<close>, \<open>docId\<close> and \<open>skipTo\<close>; the
    conjunction and disjunction are proved to keep it for any iterators that do, and every class is
    interpreted. \<open>IterObj\<close> ties the classes together as objects behind pointers; calls dispatch with
    the nesting depth as fuel, which any bound at least the depth of the object satisfies. \<open>DbIter\<close>:
    the iterators that the tables give out.
  \<^item> \<open>TermGenerator\<close>, \<open>TermIndex\<close>: \<open>termgenerator.cpp\<close>: splitting texts, positions, phrases.
  \<^item> \<open>Transaction\<close>, \<open>Sessions\<close>, \<open>Queries\<close>, \<open>QueryResults\<close>: \<open>transaction.cpp\<close> and the query classes:
    the life cycle of transactions, all getters and write operations, the consistency checks, and
    the answers of queries.
  \<^item> \<open>SearchTerm\<close>, \<open>QueryParser\<close>, \<open>SearchStore\<close>, \<open>SearchExec\<close>: \<open>src/lib\<close>: the tree of a search
    (\<open>term.cpp\<close>), its parser, the construction of the iterator and the execution of a \<open>Query\<close>.
    \<open>ParseResults\<close>: the parser keeps terms flat and inverts the printing of expressions.
    \<open>SearchResults\<close>, \<open>SearchTerms\<close>, \<open>SearchDocs\<close>: the set of documents of every kind of leaf, of
    terms, of expressions and of queries, and that the constructed iterators give it. The depth bound
    \<open>n\<close> of \<open>constructQuery\<close> is enough from the size of the term plus 3 on (a delegated property adds 2).
  \<^item> \<open>DatabaseOpen\<close>: \<open>database.cpp\<close> and the creation of the tables, with every error path and the rules
    for LMDB handles as a machine that the calls are run on.
  \<^item> \<open>QueryJson\<close>: the JSON and URL forms of a query.
  \<^item> \<open>PendingFiles\<close>, \<open>PendingSpec\<close>: the queue of file events (\<open>pendingfilequeue.cpp\<close>) and the abstract
    machine on the waiting changes that it refines.
  \<^item> \<open>Scheduler\<close>: \<open>fileindexscheduler.cpp\<close>, the state machine that starts the indexing jobs: its invariant,
    what it hands over, and that it comes to rest (\<open>settle\<close>, within 23 steps plus the pending timers).
  \<^item> \<open>IndexConfig\<close>: \<open>fileindexerconfig.cpp\<close>, \<open>regexpcache.cpp\<close> and the default filters: the folder cache and
    the decisions on paths. \<open>BasicIndexing\<close>: \<open>basicindexingjob.cpp\<close>, the document of a file. \<open>DirIterator\<close>:
    \<open>filtereddiriterator.cpp\<close>, the walk over a folder, with the proof that it ends on finite trees.
  \<^item> \<open>IndexJobs\<close>: the jobs (\<open>newfileindexer.cpp\<close>, \<open>modifiedfileindexer.cpp\<close>, \<open>xattrindexer.cpp\<close>,
    \<open>firstrunindexer.cpp\<close>, \<open>unindexedfileindexer.cpp\<close>, \<open>indexcleaner.cpp\<close>, \<open>metadatamover.cpp\<close>) over the model
    of \<open>Transaction\<close>. \<open>Extractor\<close>: the extractor process (\<open>extractor/app.cpp\<close>, \<open>result.cpp\<close>), a batch under
    a clock given as a list. \<open>JobDocs\<close>, \<open>ExtractDocs\<close> show that the documents they build fit the tables,
    \<open>JobInv\<close>, \<open>JobRuns\<close>, \<open>IndexRuns\<close> that every job, and every sequence of jobs, keeps the index;
    \<open>FirstRun\<close> that the first run leaves every accepted file in the database.
  \<^item> \<open>CommandPipe\<close>: the messages between indexer and extractor (\<open>commandpipe.cpp\<close>); the locale \<open>framed\<close> is
    the contract of one direction. \<open>ContentIndexer\<close>: the loop of \<open>filecontentindexer.cpp\<close> with the recovery
    from a dying extractor, which is a parameter by the number of the round. \<open>ContentMonitors\<close>: the
    registered monitors, the idle state and the exit codes.
  \<^item> \<open>Samples\<close>, \<open>SearchSamples\<close>, \<open>JobSamples\<close>: concrete inputs at which the properties below are applied.

  Loops that follow data of the database (\<open>removeRecursively\<close>, the directory walk, \<open>skipTo\<close>) are
  \<^theory_text>\<open>partial_function (option)\<close>: \<open>None\<close> is a call that does not return. The theorems prove that they
  return, on trees without cycles (\<open>ranked\<close>) and for iterators that satisfy their invariant.

  Parameters: LMDB (\<open>lmdb\<close>, \<open>mdb_env\<close>), the file system (\<open>fs_api\<close>), Qt's Unicode tables and boundary
  finder (\<open>qt_text\<close>), Qt's dates and KFileMetaData's properties and types (\<open>search_api\<close>), JSON, regular
  expressions and number parsing, the files a job sees (\<open>file_world\<close>, \<open>extract_world\<close>), and \<open>QDataStream\<close>
  (\<open>stream_api\<close>). Signed positions are 32-bit words;
  debug assertions, logging and return codes that are only logged are not modelled.

  Not modelled: \<open>databasesanitizer.cpp\<close>, the inotify watches and the set-up of the daemon
  (\<open>kinotify.cpp\<close>, \<open>filewatch.cpp\<close>, \<open>mainhub.cpp\<close>), the time estimate (floating point), storage devices
  (Solid), the KIO workers, QML and command line tools.
\<close>

section \<open>The index\<close>

text \<open>C7. Start from an empty database and do any sequence of \<open>addDocument\<close>, \<open>replaceDocument\<close>,
  \<open>removeDocument\<close>, both \<open>removeRecursively\<close> and \<open>commit\<close>. After a \<open>commit\<close> the posting list of every
  term is strictly ascending and names exactly the documents whose stored term lists have the term.\<close>

theorem posting_lists_exact:
  assumes "lmdb_ok L" "empty_db L s"
    and "write_steps L \<lparr>m_txn = s, m_pendingOperations = []\<rparr> W"
  shows "asc (PostingDB_get L postingDbi (m_txn (WriteTransaction_commit L W)) t) \<and>
    (\<forall>i. i \<in> set (PostingDB_get L postingDbi (m_txn (WriteTransaction_commit L W)) t) \<longleftrightarrow>
       t \<in> doc_words L (m_txn W) i)"
proof -
  have W: "index_inv L W"
    by (rule write_steps_index_inv[OF assms(1,3) empty_db_index_inv[OF assms(1,2)]])
  note commit = index_inv_lists[OF index_inv_commit[OF assms(1) W] commit_reads(5)[OF assms(1) index_invD(1,2)[OF W]]]
  show ?thesis using commit doc_words_commit[OF assms(1) W] by blast
qed

theorem posting_lists_exact_witness:
  "5 \<in> set (PostingDB_get ref_lmdb postingDbi (m_txn (WriteTransaction_commit ref_lmdb sample_added)) (lit ''cat''))"
  using posting_lists_exact[OF lmdb_ok_ref ref_empty_db sample_steps[unfolded sample_start_def], of "lit ''cat''"]
  by (simp add: sample_added_words)

text \<open>C8. On a directory tree whose links form no cycle, \<open>removeRecursively\<close> returns; it removes
  exactly the entries at and below the given id, with their words, and keeps the index consistent.\<close>

theorem removeRecursively_exact:
  assumes "lmdb_ok L" "url_inv L (m_txn W)" "ranked rk (url_tree L (m_txn W))" "i \<noteq> 0"
  shows "\<exists>W'. WriteTransaction_removeRecursively L W i = Some W' \<and>
    url_tree L (m_txn W') = without (url_tree L (m_txn W)) (subtree (url_tree L (m_txn W)) i) \<and>
    (\<forall>j. doc_words L (m_txn W') j =
       (if j \<in> subtree (url_tree L (m_txn W)) i then {} else doc_words L (m_txn W) j)) \<and>
    (index_inv L W \<longrightarrow> index_inv L W')"
  using removeRecursively_removed[OF assms] unfolding removed_def by blast

theorem removeRecursively_exact_witness:
  "\<exists>W'. WriteTransaction_removeRecursively ref_lmdb \<lparr>m_txn = sample_tree, m_pendingOperations = []\<rparr> 2 = Some W' \<and>
    url_tree ref_lmdb (m_txn W') 5 = None"
  using removeRecursively_exact[OF lmdb_ok_ref, of "\<lparr>m_txn = sample_tree, m_pendingOperations = []\<rparr>"
      sample_rank 2] sample_subtree
  by (auto simp: sample_tree_props(1) sample_ranked without_def)

text \<open>C10. \<open>commit\<close> gives every term the list and the positions that its queued operations give, one
  after the other, whatever the order of the terms in the hash; no other table changes.\<close>

theorem commit_applies_queue:
  assumes "lmdb_ok L" "lists_ok L (m_txn W)" "pending_ok (m_pendingOperations W)"
  shows "PostingDB_get L postingDbi (m_txn (WriteTransaction_commit L W)) t =
      foldl list_op (PostingDB_get L postingDbi (m_txn W) t) (pending_ops (m_pendingOperations W) t) \<and>
    PositionDB_get L positionDBi (m_txn (WriteTransaction_commit L W)) t =
      foldl pos_op (PositionDB_get L positionDBi (m_txn W) t) (pending_ops (m_pendingOperations W) t) \<and>
    (d \<notin> {postingDbi, positionDBi} \<longrightarrow>
      mdb_scan L (m_txn (WriteTransaction_commit L W)) d = mdb_scan L (m_txn W) d)"
  using commit_reads[OF assms] by simp

theorem commit_applies_queue_witness:
  "PostingDB_get ref_lmdb postingDbi (m_txn (WriteTransaction_commit ref_lmdb
     \<lparr>m_txn = ref_empty, m_pendingOperations = [(lit ''cat'', [add_op 3 [1], add_op 4 [], remove_op 3])]\<rparr>))
     (lit ''cat'') = [4]"
proof -
  let ?W = "\<lparr>m_txn = ref_empty, m_pendingOperations = [(lit ''cat'', [add_op 3 [1], add_op 4 [], remove_op 3])]\<rparr>"
  have "lists_ok ref_lmdb (m_txn ?W)" "pending_ok (m_pendingOperations ?W)"
    using index_invD(1)[OF empty_db_index_inv[OF lmdb_ok_ref ref_empty_db]]
    by (simp_all add: pending_ok_def ops_fit_def add_op_def remove_op_def)
  from commit_applies_queue[OF lmdb_ok_ref this, of "lit ''cat''" postingDbi] show ?thesis
    by (simp add: PostingDB_get_def ref_empty_get pending_ops_def list_op_def add_op_def remove_op_def
        sortedIdInsert_def sortedIdInsert_with_def sortedIdRemove_filter)
qed

text \<open>C30. Looking up the path that \<open>DocumentUrlDB::get\<close> gives for an id finds that id, for every id
  that has a path, in a tree whose names are proper and unique in their directory.\<close>

theorem documentId_roundtrip:
  assumes "url_inv L s" "url_names_ok L s" "DocumentUrlDB_get L s i \<noteq> []"
  shows "Transaction_documentId L s (DocumentUrlDB_get L s i) = i"
  by (rule documentId_DocumentUrlDB_get[OF assms])

theorem documentId_roundtrip_witness:
  "DocumentUrlDB_get ref_lmdb sample_tree 5 = lit ''/home/a'' \<and>
   Transaction_documentId ref_lmdb sample_tree (lit ''/home/a'') = 5"
  using documentId_roundtrip[OF sample_tree_props(1) sample_names, of 5]
  by (simp add: sample_path lit_def)

section \<open>Iterators\<close>

text \<open>C11. Reading a new \<open>AndPostingIterator\<close> to its end returns, and gives in ascending order the ids that
  every one of its iterators would give; with a null pointer among them it gives none.\<close>

theorem conjunction_reads:
  assumes "its \<noteq> []" "\<forall>it \<in> set its. it = None \<or> fresh n (the it)"
  shows "\<exists>ids. drain (Suc n) (ItAnd (AndPostingIterator_new its)) = Some ids \<and> asc ids \<and>
    set ids = (if None \<in> set its then {} else \<Inter>it \<in> set its. set (the (drain n (the it))))"
proof (cases "None \<in> set its")
  case True
  then have "AndPostingIterator_new its = AndPostingIterator [] 0"
    by (auto simp: AndPostingIterator_new_def list_ex_iff Option.is_none_def)
  then show ?thesis using True by (subst drain.simps) (simp add: lift_it_def)
next
  case False
  then have its: "its = map Some (map the its)" by (intro nth_equalityI) (auto simp: in_set_conv_nth)
  have fresh: "\<forall>it \<in> set (map the its). fresh n it" "map the its \<noteq> []" using assms False by auto
  note conj = fresh_and[OF fresh, folded its]
  have "set (the (drain n it)) = set (iter_rest n it)" if "it \<in> set (map the its)" for it
    using bspec[OF fresh(1) that] by (simp add: drain_rest fresh_def)
  then have "set (iter_rest (Suc n) (ItAnd (AndPostingIterator_new its))) =
      (\<Inter>it \<in> set its. set (the (drain n (the it))))" unfolding conj(2) by simp
  then show ?thesis using False fresh_ids(1)[OF conj(1)] conj(1) by (simp add: drain_rest fresh_def)
qed

theorem conjunction_reads_witness:
  "\<exists>ids. drain 2 (ItAnd (AndPostingIterator_new
     [Some (ItVector (VectorPostingIterator_new [1, 3, 4])), Some (ItVector (VectorPostingIterator_new [3, 4, 9]))]))
     = Some ids \<and> set ids = {3, 4}"
proof -
  let ?a = "ItVector (VectorPostingIterator_new [1, 3, 4])" and ?b = "ItVector (VectorPostingIterator_new [3, 4, 9])"
  have "drain 1 ?a = Some [1, 3, 4]" "drain 1 ?b = Some [3, 4, 9]"
    using fresh_vector[of "[1, 3, 4]" 0] fresh_vector[of "[3, 4, 9]" 0] by (simp_all add: drain_rest fresh_def)
  moreover have "fresh 1 ?a" "fresh 1 ?b"
    using fresh_vector(1)[of "[1, 3, 4]" 0] fresh_vector(1)[of "[3, 4, 9]" 0] by simp_all
  ultimately show ?thesis
    using conjunction_reads[of "[Some ?a, Some ?b]" 1, unfolded Suc_1] by auto
qed

text \<open>C12. Reading a new \<open>OrPostingIterator\<close> to its end returns, and gives in ascending order, each once,
  the ids that some of its iterators would give; null pointers are passed over.\<close>

theorem disjunction_reads:
  assumes "\<forall>it \<in> set its. it = None \<or> fresh n (the it)"
  shows "\<exists>a ids. OrPostingIterator_new (iter_next n) its = Some a \<and> drain (Suc n) (ItOr a) = Some ids \<and> asc ids \<and>
    set ids = (\<Union>it \<in> set its. case it of None \<Rightarrow> {} | Some i \<Rightarrow> set (the (drain n i)))"
proof -
  let ?its = "map the (filter (\<lambda>it. it \<noteq> None) its)"
  have fresh: "\<forall>it \<in> set ?its. fresh n it" using assms by auto
  have new: "OrPostingIterator_new nx (map Some ?its) = OrPostingIterator_new nx its" for nx
  proof -
    have "map the (filter (\<lambda>it. it \<noteq> None) (map Some xs)) = xs" for xs :: "posting_iter list"
      by (induction xs) auto
    then show ?thesis unfolding OrPostingIterator_new_def by (simp only:)
  qed
  obtain a where a: "OrPostingIterator_new (iter_next n) its = Some a" "fresh (Suc n) (ItOr a)"
    "set (iter_rest (Suc n) (ItOr a)) = (\<Union>it \<in> set ?its. set (iter_rest n it))"
    using fresh_or[OF fresh] unfolding new by blast
  have drained: "set (the (drain n i)) = set (iter_rest n i)" if "Some i \<in> set its" for i
    using assms that by (auto simp: drain_rest fresh_def)
  have "(\<Union>it \<in> set ?its. set (iter_rest n it)) =
      (\<Union>it \<in> set its. case it of None \<Rightarrow> {} | Some i \<Rightarrow> set (the (drain n i)))" (is "?l = ?r")
  proof
    show "?l \<subseteq> ?r" using drained by (fastforce simp del: iter_rest.simps)
    show "?r \<subseteq> ?l" using drained by (fastforce simp del: iter_rest.simps split: option.splits)
  qed
  then show ?thesis
    using a fresh_ids(1)[OF a(2)] by (intro exI[of _ a] exI[of _ "iter_rest (Suc n) (ItOr a)"])
      (simp add: drain_rest fresh_def del: iter_rest.simps)
qed

theorem disjunction_reads_witness:
  "\<exists>a ids. OrPostingIterator_new (iter_next 1)
     [Some (ItVector (VectorPostingIterator_new [1, 3])), None, Some (ItVector (VectorPostingIterator_new [3, 9]))] = Some a \<and>
     drain 2 (ItOr a) = Some ids \<and> set ids = {1, 3, 9}"
proof -
  let ?a = "ItVector (VectorPostingIterator_new [1, 3])" and ?b = "ItVector (VectorPostingIterator_new [3, 9])"
  have "drain 1 ?a = Some [1, 3]" "drain 1 ?b = Some [3, 9]"
    using fresh_vector[of "[1, 3]" 0] fresh_vector[of "[3, 9]" 0] by (simp_all add: drain_rest fresh_def)
  moreover have "fresh 1 ?a" "fresh 1 ?b"
    using fresh_vector(1)[of "[1, 3]" 0] fresh_vector(1)[of "[3, 9]" 0] by simp_all
  ultimately show ?thesis
    using disjunction_reads[of "[Some ?a, None, Some ?b]" 1, unfolded Suc_1] by auto
qed

text \<open>C27. \<open>checkIfPositionsMatch\<close> returns true exactly when there is a position at which the terms of
  the phrase stand one after another.\<close>

theorem phrase_check_decides:
  assumes "\<forall>ps \<in> set poss. sorted ps" "poss \<noteq> []"
  shows "checkIfPositionsMatch poss \<longleftrightarrow> (\<exists>p. \<forall>j < length poss. \<exists>q \<in> set (poss ! j). unat q = p + j)"
  using checkIfPositionsMatch_decides[OF assms] by (simp add: phrase_match_def aligned_def)

theorem phrase_check_decides_witness: "checkIfPositionsMatch [[1, 5], [2, 3, 6], [7]]"
  using phrase_check_decides[of "[[1, 5], [2, 3, 6], [7]]"]
  by (simp add: All_less_Suc exI[where x = 5])

text \<open>C9. A phrase is found in a text exactly when its terms are a run of consecutive terms of the
  text: the positions \<open>indexText\<close> stores and the check of the phrase iterator fit together.\<close>

theorem phrase_search_finds_runs:
  assumes "Document_inv (m_doc g)" "m_terms (m_doc g) = []" "ys \<noteq> []"
    and "unat (m_position g) + length (TermGenerator_termList qt str) \<le> 2 ^ 32"
  shows "checkIfPositionsMatch (map (term_entry (m_terms (m_doc (TermGenerator_indexText qt g str)))) ys) \<longleftrightarrow>
    sublist ys (TermGenerator_termList qt str)"
proof -
  have "term_entry (m_terms (m_doc (TermGenerator_indexText qt g str))) t =
      positions_from (m_position g) (TermGenerator_termList qt str) t" for t
    using indexText_fold[OF assms(1), of "TermGenerator_termList qt str" t] assms(2)
    by (simp add: TermGenerator_indexText_def term_entry_def)
  then show ?thesis using phrase_of_text[OF assms(4,3)] by (simp cong: map_cong)
qed

theorem phrase_search_finds_runs_witness:
  "checkIfPositionsMatch (map (term_entry (m_terms (m_doc (TermGenerator_indexText sample_qt
     (TermGenerator_new Document_new) (qs ''Ab c_ab''))))) [lit ''c'', lit ''ab''])"
proof -
  have "sublist [lit ''c'', lit ''ab''] [lit ''ab'', lit ''c'', lit ''ab'']"
    by (rule sublist_appendI[of _ "[lit ''ab'']" "[]", simplified])
  moreover have "Document_inv (m_doc (TermGenerator_new Document_new))"
    "m_terms (m_doc (TermGenerator_new Document_new)) = []" "[lit ''c'', lit ''ab''] \<noteq> []"
    "unat (m_position (TermGenerator_new Document_new)) + length (TermGenerator_termList sample_qt (qs ''Ab c_ab'')) \<le> 2 ^ 32"
    by (simp_all add: sample_termList TermGenerator_new_def Document_inv_ops(1), simp add: Document_new_def)
  ultimately show ?thesis
    using phrase_search_finds_runs sample_termList by metis
qed



text \<open>C29. The iterator that \<open>DocumentUrlDB::iter\<close> gives for a directory returns the ids of the directory
  and of everything below it, ascending.\<close>

theorem tree_iterator_reads:
  assumes "url_inv L s" "ranked rk (url_tree L s)" "i \<noteq> 0"
  shows "\<exists>ids. drain 1 (ItTree (IdTreeDB_iter L idTreeDbi s i)) = Some ids \<and> asc ids \<and>
    set ids = subtree (url_tree L s) i"
proof -
  note tree = IdTreeDB_iter_subtree[OF assms]
  have inv: "iter_inv 1 (ItTree (IdTreeDB_iter L idTreeDbi s i))" using tree(1) by simp
  have "asc (iter_docId (ItTree (IdTreeDB_iter L idTreeDbi s i)) # iter_rest 1 (ItTree (IdTreeDB_iter L idTreeDbi s i)))"
    by (rule iter.asc_rest[OF inv])
  then show ?thesis using drain_rest[OF inv] tree(2) by simp
qed

theorem tree_iterator_reads_witness:
  "\<exists>ids. drain 1 (ItTree (IdTreeDB_iter ref_lmdb idTreeDbi sample_tree 2)) = Some ids \<and> 5 \<in> set ids"
  using tree_iterator_reads[OF sample_tree_props(1) sample_ranked, of 2] sample_subtree by auto

section \<open>Transactions\<close>

text \<open>C3. Start from an empty database and run any sequence of write transactions, each ended by a
  \<open>commit\<close> that succeeds or fails, or dropped. In every committed state the posting list of a term names
  exactly the documents that store the term, and both consistency checks of \<open>balooctl\<close> report nothing.\<close>

theorem sessions_postings_exact:
  assumes "lmdb_ok L" "mdb_env_ok E st" "empty_db L (st e0)" "sessions E L e0 e"
  shows "(\<forall>t i. i \<in> set (PostingDB_get L postingDbi (st e) t) \<longleftrightarrow> t \<in> doc_words L (st e) i) \<and>
    checkTermsDbinPostingDb L (st e) = [] \<and> checkPostingDbinTermsDb L (st e) = []"
proof -
  have inv: "index_inv L \<lparr>m_txn = st e, m_pendingOperations = []\<rparr>"
    by (rule sessions_inv[OF assms(1,2,4) empty_db_index_inv[OF assms(1,3)]])
  show ?thesis
    using checks_find_nothing[OF assms(1) inv] index_inv_lists(2)[OF inv] by simp
qed

theorem sessions_postings_exact_witness:
  "checkTermsDbinPostingDb ref_lmdb (m_txn (WriteTransaction_commit ref_lmdb sample_added)) = []"
  using sessions_postings_exact[OF lmdb_ok_ref sample_env_ok ref_empty_db sample_sessions] by blast



section \<open>Queries\<close>

text \<open>C21. A query of two or more terms is answered by exactly the documents in which the terms stand one
  after another, by their positions in the position table.\<close>

theorem phrase_query_exact:
  assumes "positions_proper L s" "2 \<le> length q"
  shows "\<exists>r. Transaction_postingIterator_EngineQuery L s q = Some r \<and>
    ids_of 1 r = {d. \<exists>p. \<forall>j < length q.
      \<exists>pos \<in> set (positions_of (PositionDB_get L positionDBi s (m_term (q ! j))) d). unat pos = p + j}"
proof -
  have "phrase_docs L s (map m_term q) = {d. \<exists>p. \<forall>j < length q.
      \<exists>pos \<in> set (positions_of (PositionDB_get L positionDBi s (m_term (q ! j))) d). unat pos = p + j}"
    by (simp add: phrase_docs_def matches_def phrase_match_def aligned_def)
  moreover obtain r where "Transaction_postingIterator_EngineQuery L s q = Some r"
    "gives 1 r (phrase_docs L s (map m_term q))"
    using engine_query_phrase[OF assms] by (elim exE conjE) (rule that)
  ultimately show ?thesis using gives_ids[of 1 r] by simp
qed

theorem phrase_query_exact_witness:
  "\<exists>r. Transaction_postingIterator_EngineQuery ref_lmdb sample_index
     [\<lparr>m_term = lit ''Mab'', m_op = Equal\<rparr>, \<lparr>m_term = lit ''Mc'', m_op = Equal\<rparr>] = Some r \<and> 5 \<in> ids_of 1 r"
proof -
  let ?q = "[\<lparr>m_term = lit ''Mab'', m_op = Equal\<rparr>, \<lparr>m_term = lit ''Mc'', m_op = Equal\<rparr>]"
  have "5 \<in> {d. \<exists>p. \<forall>j < length ?q.
      \<exists>pos \<in> set (positions_of (PositionDB_get ref_lmdb positionDBi sample_index (m_term (?q ! j))) d). unat pos = p + j}"
  proof (intro CollectI exI[of _ 1] allI impI)
    fix j assume "j < length ?q"
    then have "j = 0 \<or> j = 1" by auto
    then show "\<exists>pos \<in> set (positions_of (PositionDB_get ref_lmdb positionDBi sample_index (m_term (?q ! j))) 5). unat pos = 1 + j"
      by (elim disjE) (simp_all add: sample_index_reads sample_words_apart[symmetric])
  qed
  moreover have "2 \<le> length ?q" by simp
  from phrase_query_exact[OF sample_index_proper(2) this] obtain r
    where "Transaction_postingIterator_EngineQuery ref_lmdb sample_index ?q = Some r"
      "ids_of 1 r = {d. \<exists>p. \<forall>j < length ?q.
        \<exists>pos \<in> set (positions_of (PositionDB_get ref_lmdb positionDBi sample_index (m_term (?q ! j))) d). unat pos = p + j}"
    by (elim exE conjE) (rule that)
  ultimately show ?thesis by (intro exI[of _ r] conjI) (simp_all only:)
qed

text \<open>C22. Where the names of all files are indexed, a file name query of two or more words is answered by
  exactly the files in whose name the words stand one after another.\<close>

theorem filename_query_exact:
  assumes "postings_proper L s" "2 \<le> length (q_terms q)" "names_indexed qt L s" "qt_fromUtf8 qt [] = []"
  shows "\<exists>r. Transaction_postingIterator_FilenameQuery qt L s q = Some r \<and>
    ids_of 1 r = {i. \<exists>path. url_tree L s i = Some path \<and>
      sublist (q_terms q) (TermGenerator_termList qt (qt_fromUtf8 qt (name path)))}"
  using filename_query_names[OF assms] by (elim exE conjE) (intro exI conjI, assumption, rule gives_ids)

theorem filename_query_exact_witness:
  "\<exists>r. Transaction_postingIterator_FilenameQuery sample_qt ref_lmdb sample_index
     \<lparr>q_value = [], q_property = [], q_terms = [lit ''ab'', lit ''c''], q_expandLast = False\<rparr> = Some r \<and> ids_of 1 r = {5}"
proof -
  have name: "qt_fromUtf8 sample_qt (lit ''Ab c_ab'') = qs ''Ab c_ab''" "qt_fromUtf8 sample_qt [] = []"
    by (simp_all add: sample_qt_def lit_def qs_def)
  have "sublist [lit ''ab'', lit ''c''] [lit ''ab'', lit ''c'', lit ''ab'']"
    unfolding sublist_def by (intro exI[of _ "[]"] exI[of _ "[lit ''ab'']"]) simp
  then have "{i. \<exists>path. url_tree ref_lmdb sample_index i = Some path \<and> sublist [lit ''ab'', lit ''c'']
      (TermGenerator_termList sample_qt (qt_fromUtf8 sample_qt (name path)))} = {5}"
    by (auto simp: sample_index_reads name(1) sample_termList split: if_splits)
  then show ?thesis
    using filename_query_exact[OF sample_index_proper(1) _ sample_names_indexed name(2),
        of "\<lparr>q_value = [], q_property = [], q_terms = [lit ''ab'', lit ''c''], q_expandLast = False\<rparr>"]
    by simp
qed

text \<open>C23. A mime type query of two or more words is answered by the documents that have all words and
  whose stored type has them one after another, or, for documents without a stored type, whose positions do.\<close>

theorem mimetype_query_exact:
  assumes "postings_proper L s" "positions_proper L s" "2 \<le> length (q_terms q)"
  shows "\<exists>r. Transaction_postingIterator_MimetypeQuery qt jsonString L s q = Some r \<and>
    ids_of 1 r = {i. (\<forall>t \<in> set (q_terms q). i \<in> set (PostingDB_get L postingDbi s (lit ''M'' @ t))) \<and>
      (let type = mimetype_of_data jsonString L s i
       in if type = [] then i \<in> phrase_docs L s (map (\<lambda>t. lit ''M'' @ t) (q_terms q))
          else sublist (q_terms q) (TermGenerator_termList qt type))}"
proof -
  have "q_terms q \<noteq> []" using assms(3) by auto
  moreover obtain r where "Transaction_postingIterator_MimetypeQuery qt jsonString L s q = Some r"
    "ids_of 1 r = {i. (\<forall>t \<in> set (q_terms q). i \<in> set (PostingDB_get L postingDbi s (lit ''M'' @ t))) \<and>
      (if mimetype_of_data jsonString L s i = [] then i \<in> phrase_docs L s (map (\<lambda>t. lit ''M'' @ t) (q_terms q))
       else MimetypeQuery_match qt q (mimetype_of_data jsonString L s i))}"
    using mimetype_query_ids[OF assms, of qt jsonString] by (elim exE conjE) (rule that, assumption, rule gives_ids)
  ultimately show ?thesis
    by (simp add: MimetypeQuery_match_def search_found_sublist Let_def cong: if_cong)
qed

theorem mimetype_query_exact_witness:
  "\<exists>r. Transaction_postingIterator_MimetypeQuery sample_qt (\<lambda>data key. []) ref_lmdb sample_index
     \<lparr>q_value = [], q_property = [], q_terms = [lit ''ab'', lit ''c''], q_expandLast = False\<rparr> = Some r \<and> 5 \<in> ids_of 1 r"
proof -
  have words: "lit ''M'' @ lit ''ab'' = lit ''Mab''" "lit ''M'' @ lit ''c'' = lit ''Mc''" by (simp_all add: lit_def)
  show ?thesis
    using sample_phrase mimetype_query_exact[OF sample_index_proper,
        of "\<lparr>q_value = [], q_property = [], q_terms = [lit ''ab'', lit ''c''], q_expandLast = False\<rparr>"
           sample_qt "\<lambda>data key. []"]
    by (auto simp: sample_index_reads words mimetype_of_data_def)
qed

text \<open>C24. The iterator over a range of modification times gives exactly the documents stored for a time in the
  range, both ends included; it is null only where there is none.\<close>

theorem time_range_exact:
  assumes "lmdb_ok L" "\<forall>t. 0 \<notin> set (MTimeDB_get L mtimeDbi s t)"
  shows "ids_of 1 (Transaction_mTimeRangeIter L s b e) = (\<Union>t \<in> {b..e}. set (MTimeDB_get L mtimeDbi s t))"
  using MTimeDB_iterRange_rest[OF assms, of b e] fresh_drain
  by (auto simp: ids_of_def Transaction_mTimeRangeIter_def split: option.splits)

theorem time_range_exact_witness:
  "ids_of 1 (Transaction_mTimeRangeIter ref_lmdb (MTimeDB_put ref_lmdb mtimeDbi ref_empty 70000 9) 300 80000) = {9}"
proof -
  have get: "set (MTimeDB_get ref_lmdb mtimeDbi (MTimeDB_put ref_lmdb mtimeDbi ref_empty 70000 9) t) =
      (if t = 70000 then {9} else {})" for t
  proof -
    have "i \<notin> set (MTimeDB_get ref_lmdb mtimeDbi ref_empty t)" for i
      using ref_empty_db unfolding set_MTimeDB_get[OF lmdb_ok_ref] by (simp add: empty_db_def)
    then have "set (MTimeDB_get ref_lmdb mtimeDbi ref_empty t) = {}" by (intro equals0I) (rule notE)
    then show ?thesis by (auto simp: MTimeDB_put_def set_MTimeDB_get_put[OF lmdb_ok_ref] simp del: set_empty)
  qed
  then show ?thesis
    using time_range_exact[OF lmdb_ok_ref, of "MTimeDB_put ref_lmdb mtimeDbi ref_empty 70000 9" 300 80000]
    by (auto split: if_splits)
qed

section \<open>Text and encodings\<close>

text \<open>C31. \<open>verifySurrogates\<close> accepts exactly the well-formed UTF-16 strings.\<close>

theorem verifySurrogates_decides: "verifySurrogates str = utf16_ok str"
  by (rule verifySurrogates_wf)

text \<open>C32. Every term that \<open>termList\<close> gives is not empty and the UTF-8 form of at most 25 UTF-16 units.\<close>

theorem terms_bounded:
  "\<exists>ws. TermGenerator_termList qt str = map (qt_toUtf8 qt) ws \<and>
     list_all (\<lambda>w. 1 \<le> length w \<and> length w \<le> 25 \<and> qt_toUtf8 qt w \<noteq> []) ws"
proof -
  have "\<exists>w. t = qt_toUtf8 qt w \<and> 1 \<le> length w \<and> length w \<le> 25 \<and> qt_toUtf8 qt w \<noteq> []"
    if "t \<in> set (TermGenerator_termList qt str)" for t
    using that termList_ok[of qt str] by (fastforce simp: term_of_text_def maxTermSize_def Suc_le_eq)
  then obtain f where f: "\<And>t. t \<in> set (TermGenerator_termList qt str) \<Longrightarrow>
      t = qt_toUtf8 qt (f t) \<and> 1 \<le> length (f t) \<and> length (f t) \<le> 25 \<and> qt_toUtf8 qt (f t) \<noteq> []"
    by metis
  have all: "map (qt_toUtf8 qt) (map f (TermGenerator_termList qt str)) = TermGenerator_termList qt str"
    unfolding map_map comp_def by (rule map_idI, rule sym) (rule f[THEN conjunct1])
  show ?thesis
  proof (intro exI conjI)
    show "TermGenerator_termList qt str = map (qt_toUtf8 qt) (map f (TermGenerator_termList qt str))"
      by (rule all[symmetric])
    show "list_all (\<lambda>w. 1 \<le> length w \<and> length w \<le> 25 \<and> qt_toUtf8 qt w \<noteq> [])
        (map f (TermGenerator_termList qt str))"
      unfolding list_all_iff set_map by (intro ballI, elim imageE, hypsubst) (rule f[THEN conjunct2])
  qed
qed

text \<open>C35. Reading a variable-length integer gives back the value written, for every 32-bit value, and
  leaves what follows it; it takes one to five bytes.\<close>

theorem varint_roundtrip:
  "getVarint32Ptr (encodeVarint32Internal v @ rest) = Some (v, rest) \<and>
   1 \<le> length (encodeVarint32Internal v) \<and> length (encodeVarint32Internal v) \<le> 5"
  using getVarint32Ptr_encode encodeVarint32Internal_length by blast

text \<open>C36. Decoding an encoded list of positions gives the list back.\<close>

theorem position_codec_roundtrip:
  assumes "\<forall>pos \<in> set list. length (positions pos) < 2 ^ 32"
  shows "PositionCodec_decode (PositionCodec_encode list) = list"
  by (rule position_codec.dec_enc[OF assms])

theorem position_codec_roundtrip_witness:
  "PositionCodec_decode (PositionCodec_encode [\<lparr>docId = 7, positions = [3, 200, 70000]\<rparr>]) =
   [\<lparr>docId = 7, positions = [3, 200, 70000]\<rparr>]"
  by (rule position_codec_roundtrip) simp


text \<open>C38. Decoding an encoded list of terms gives the list back, for terms without the bytes 0 and 1.\<close>

theorem terms_codec_roundtrip:
  assumes "ts \<noteq> []" "\<forall>t \<in> set ts. 0 \<notin> set t \<and> 1 \<notin> set t"
  shows "DocTermsCodec_decode (DocTermsCodec_encode ts) = ts"
  using assms by (intro doc_terms_codec.dec_enc) (simp add: term_bytes_ok_def)

theorem terms_codec_roundtrip_witness:
  "DocTermsCodec_decode (DocTermsCodec_encode [lit ''car'', lit ''cars'', lit ''dog'']) =
   [lit ''car'', lit ''cars'', lit ''dog'']"
  by (rule terms_codec_roundtrip) (simp_all add: lit_def)

section \<open>Searching\<close>

text \<open>C16. A search written from an expression (words, comparisons, groups, with or without operators) is parsed
  to the term of the expression, in which operators associate to the left.\<close>

theorem parse_expression:
  assumes "isSpace_ok qt" "expr_ok (Group es)" "\<forall>t \<in> set (group_tokens es). 34 \<notin> set t"
  shows "QueryParser_parse qt (print_tokens qt (group_tokens es)) = expr_term (Group es)"
  by (rule QueryParser_parse_group[OF assms])

theorem parse_expression_witness:
  "QueryParser_parse sample_qt (qs ''filename = ab OR zz '') = expr_term (Group sample_group)"
  using parse_expression[OF sample_isSpace sample_group_facts(1,2)] unfolding sample_group_facts(3) .

text \<open>C17. Whatever the text, the parser gives the empty term or a term in which every leaf has a comparator and
  every node is an \<open>AND\<close> or \<open>OR\<close> with at least two subterms, none of them a node with the same operation.\<close>

theorem parse_terms_flat:
  "QueryParser_parse qt str = Term_default \<or> term_flat (QueryParser_parse qt str)"
  using QueryParser_parse_shape[of qt str] by (simp add: term_shape_def)

text \<open>C1. On a consistent index \<open>constructQuery\<close> returns for the parsed text of an expression, and the
  iterator gives exactly the documents the expression means: a word is looked for in each scope, a comparison in its property,
  \<open>AND\<close> is intersection and \<open>OR\<close> union.\<close>

theorem search_expression_exact:
  assumes "lmdb_ok L" "search_index L s rk" "lower_ok qt A" "isSpace_ok qt"
    and "expr_ok (Group es)" "\<forall>t \<in> set (group_tokens es). 34 \<notin> set t"
    and "t = expandScopes scopes (QueryParser_parse qt (print_tokens qt (group_tokens es)))" "size t + 3 \<le> n"
  shows "\<exists>r. constructQuery n qt A L s t = Some r \<and>
    ids_of (n + 3) r = found (expr_docs (leaf_of qt A L s) scopes (Group es))"
  using search_expression[OF assms] unfolding answers_def
  by (elim exE conjE) (intro exI conjI, assumption, rule gives_ids)

theorem search_expression_exact_witness:
  "\<exists>n r. constructQuery n sample_qt sample_api ref_lmdb sample_index
     (expandScopes [qs ''filename''] (QueryParser_parse sample_qt (qs ''filename = ab OR zz ''))) = Some r \<and>
   5 \<in> ids_of (n + 3) r"
proof -
  let ?t = "expandScopes [qs ''filename''] (QueryParser_parse sample_qt (qs ''filename = ab OR zz ''))"
  obtain r where r: "constructQuery (size ?t + 3) sample_qt sample_api ref_lmdb sample_index ?t = Some r"
    "ids_of (size ?t + 3 + 3) r =
     found (expr_docs (leaf_of sample_qt sample_api ref_lmdb sample_index) [qs ''filename''] (Group sample_group))"
    using search_expression_exact[OF lmdb_ok_ref sample_search_index sample_lower sample_isSpace
        sample_group_facts(1,2) refl order_refl, where scopes = "[qs ''filename'']"]
    unfolding sample_group_facts(3) by (elim exE conjE) (rule that)
  have "qs ''ab'' \<noteq> []" by (simp add: qs_def)
  then have "5 \<in> found (expr_docs (leaf_of sample_qt sample_api ref_lmdb sample_index) [qs ''filename''] (Group sample_group))"
    by (simp add: sample_group_def found_def combine_docs_def connective_def token_value_def sample_filename_leaf)
  then show ?thesis using r by (intro exI conjI) (assumption, simp only:)
qed



text \<open>C18. For a time strictly between the epoch and the largest 32-bit second, the range of a comparison has
  exactly the modification times that compare with it as asked.\<close>

theorem date_filter_bounds:
  assumes "sa_dateTime A val = Some dt" "0 < dt_toSecsSinceEpoch dt" "dt_toSecsSinceEpoch dt < maxUInt32"
    and "com \<in> {Cmp_Less, Cmp_LessEqual, Cmp_Greater, Cmp_GreaterEqual}"
  shows "t \<in> {fst (calculateTimeRange A val com)..snd (calculateTimeRange A val com)} \<longleftrightarrow>
    (case com of Cmp_Less \<Rightarrow> uint t < dt_toSecsSinceEpoch dt | Cmp_LessEqual \<Rightarrow> uint t \<le> dt_toSecsSinceEpoch dt
     | Cmp_Greater \<Rightarrow> dt_toSecsSinceEpoch dt < uint t | _ \<Rightarrow> dt_toSecsSinceEpoch dt \<le> uint t)"
  by (rule calculateTimeRange_in[OF assms])

theorem date_filter_bounds_witness:
  "(70000 :: u32) \<notin> {fst (calculateTimeRange
      (sample_api\<lparr>sa_dateTime := \<lambda>_. Some \<lparr>dt_toSecsSinceEpoch = 70000, dt_startOfDay = 0, dt_endOfDay = 86399, dt_toString = []\<rparr>\<rparr>)
      [] Cmp_Greater)..snd (calculateTimeRange
      (sample_api\<lparr>sa_dateTime := \<lambda>_. Some \<lparr>dt_toSecsSinceEpoch = 70000, dt_startOfDay = 0, dt_endOfDay = 86399, dt_toString = []\<rparr>\<rparr>)
      [] Cmp_Greater)}"
  by (subst date_filter_bounds[where dt = "\<lparr>dt_toSecsSinceEpoch = 70000, dt_startOfDay = 0, dt_endOfDay = 86399, dt_toString = []\<rparr>"])
    (simp_all add: maxUInt32_def)

text \<open>C19. Walking over a result list with \<open>next()\<close> ends and sees each result once, in order, although the
  position starts at the largest \<open>size_t\<close>.\<close>

theorem results_read_once:
  assumes "length results < 2 ^ 64 - 1" "length results \<le> k"
  shows "read_results k (ResultIterator_new results) = results"
  by (rule read_results_all[OF assms])

theorem results_read_once_witness:
  "read_results 9 (ResultIterator_new [\<lparr>filePath = lit ''/a'', documentId = 5\<rparr>]) = [\<lparr>filePath = lit ''/a'', documentId = 5\<rparr>]"
  by (rule results_read_once) simp_all

section \<open>Opening the database\<close>

text \<open>C26. Over the whole life of a database object, with any calls of \<open>open\<close>, any modes and any
  failures in between, every environment and transaction that was acquired is released exactly once, in the
  order LMDB asks for, and nothing is used after its release.\<close>

theorem database_life_releases:
  "use_calls (0, 0) (snd (Database_opens os Database_new) @ fst (Database_destroy (fst (Database_opens os Database_new)))) =
   Some (0, 0)"
  by (rule Database_life)

text \<open>C25. The result of \<open>open\<close> on a closed database tells what failed: the path (missing index, missing
  permission, or an error of the environment that says so), the tables, or LMDB itself. The database is open
  afterwards exactly when the result is \<open>Success\<close>, and then it has the tables and the mode that were asked for.\<close>

theorem database_open_errors:
  assumes "\<not> m_env D"
  shows "(fst (Database_open A mode D) = Success \<longleftrightarrow> \<not> path_fails A mode \<and> \<not> env_fails A mode \<and>
      DatabaseDbis_isValid (tables_opened A mode) \<and> oa_txn_commit A = 0) \<and>
    (fst (Database_open A mode D) = InvalidDatabase \<longleftrightarrow> \<not> path_fails A mode \<and> \<not> env_fails A mode \<and>
      \<not> DatabaseDbis_isValid (tables_opened A mode)) \<and>
    (fst (Database_open A mode D) = InvalidPath \<longleftrightarrow>
      path_fails A mode \<or> oa_env_create A = 0 \<and> oa_env_open A (mode = ReadOnlyDatabase) \<in> {ENOENT, EACCES}) \<and>
    fst (Database_open A mode D) \<noteq> OpenedReadOnly \<and>
    (if fst (Database_open A mode D) = Success
     then fst (snd (Database_open A mode D)) = \<lparr>m_env = True, m_dbis = tables_opened A mode,
       m_mode = (if mode = ReadOnlyDatabase then ReadOnlyDatabase else ReadWriteDatabase)\<rparr>
     else \<not> m_env (fst (snd (Database_open A mode D))))"
  using Database_open_OpenedReadOnly[of A mode D] assms
  by (intro conjI Database_open_Success Database_open_InvalidDatabase Database_open_InvalidPath Database_open_result) auto

theorem database_open_errors_witness:
  "fst (Database_open sample_open CreateDatabase Database_new) = Success \<and>
   fst (Database_open sample_open ReadWriteDatabase Database_new) = InvalidPath"
proof -
  have n: "\<not> m_env Database_new" by (simp add: Database_new_def)
  show ?thesis
    using database_open_errors[OF n, of sample_open CreateDatabase] database_open_errors[OF n, of sample_open ReadWriteDatabase]
    by (simp add: sample_open_succeeds)
qed

section \<open>Saved searches\<close>

text \<open>C33. A query with non-negative date filters that is written as a search URL with a title is read back from
  the URL unchanged, and so is the title.\<close>

theorem query_url_roundtrip:
  assumes "json_ok J" "url_ok qt J U" "query_ok q" "utf16_ok title"
  shows "Query_fromSearchUrl qt J U (Query_toSearchUrl qt J U q title) = q \<and>
    Query_titleFromQueryUrl U (Query_toSearchUrl qt J U q title) = title"
  using Query_url_roundtrip[OF assms] by simp

theorem query_url_roundtrip_witness:
  "Query_fromSearchUrl sample_qt sample_json_api sample_url
     (Query_toSearchUrl sample_qt sample_json_api sample_url saved_query (qs ''My search'')) = saved_query"
  using query_url_roundtrip[OF json_ok_sample url_ok_sample saved_query_ok] by simp

section \<open>The indexing daemon\<close>



text \<open>C14. In every run of the scheduler at most one job is in the pool, and the state is that of the job or,
  without one, an idle state; the state last signalled is the state; and the files that wait are exactly those
  that were announced and have neither been given to a job nor been dropped by a removal or a new configuration.\<close>

theorem scheduler_consistent:
  assumes "FileIndexScheduler_new firstRun remaining = (s0, out0)" "sched_run es s0 = (s, trace)"
  shows "(case s_pool s of [] \<Rightarrow> isIndexerIdle s | [r] \<Rightarrow> s_indexerState s = job_state r | _ \<Rightarrow> False) \<and>
    shown Startup (trace_out trace) = s_indexerState s \<and> todo_of s = todo_trace trace ({}, {}, {})"
proof -
  note new = sched_new_inv[OF assms(1)]
  note run = sched_run_inv[OF assms(2) new(1)]
  have "case s_pool s of [] \<Rightarrow> isIndexerIdle s | [r] \<Rightarrow> s_indexerState s = job_state r | _ \<Rightarrow> False"
    using run by (auto simp: sched_inv_def pool_inv_def split: list.splits)
  then show ?thesis
    using run new by simp
qed

theorem scheduler_consistent_witness:
  "\<exists>s trace. sched_run [StartupFinished, IndexNewFile (qs ''/a''), TimerFired] (fst (FileIndexScheduler_new False 0)) = (s, trace) \<and>
     todo_of s = todo_trace trace ({}, {}, {})"
proof -
  let ?es = "[StartupFinished, IndexNewFile (qs ''/a''), TimerFired]"
  obtain s0 out0 where new: "FileIndexScheduler_new False 0 = (s0, out0)"
    by (cases "FileIndexScheduler_new False 0")
  obtain s trace where run: "sched_run ?es s0 = (s, trace)"
    by (cases "sched_run ?es s0")
  show ?thesis
    using scheduler_consistent[OF new run] run new by auto
qed



text \<open>C4. Any sequence of the daemon's jobs on a new database keeps the index: for every term the posting list is
  ascending and names exactly the documents that have the term among their stored words, every document with
  words is in the file tree, and both consistency checks find nothing.\<close>

theorem jobs_keep_index:
  assumes "lmdb_ok (ia_lmdb A)" "mdb_env_ok (ia_env A) st" "text_ok (ia_text A)" "empty_db (ia_lmdb A) (st e)"
    and "run_jobs A jobs e = Some e'" "list_all (job_ok (ia_text A)) jobs"
  shows "asc (PostingDB_get (ia_lmdb A) postingDbi (st e') t) \<and>
    (i \<in> set (PostingDB_get (ia_lmdb A) postingDbi (st e') t) \<longleftrightarrow> t \<in> doc_words (ia_lmdb A) (st e') i) \<and>
    (t \<in> doc_words (ia_lmdb A) (st e') i \<longrightarrow> Transaction_hasDocument (ia_lmdb A) (st e') i) \<and>
    checkTermsDbinPostingDb (ia_lmdb A) (st e') = [] \<and> checkPostingDbinTermsDb (ia_lmdb A) (st e') = []"
  using run_jobs_index[OF assms] by blast

theorem jobs_keep_index_witness:
  "\<exists>e'. run_jobs job_api [(job_world, job_config, FirstRun [qs ''/h/d/'']), (job_world, job_config, XAttrFiles [qs ''/h/d/f'']),
       (job_world, job_config, MarkFailed 0x400000001)] ref_empty = Some e' \<and>
     checkTermsDbinPostingDb ref_lmdb e' = [] \<and> (\<forall>t. asc (PostingDB_get ref_lmdb postingDbi e' t))"
proof -
  let ?jobs = "[(job_world, job_config, FirstRun [qs ''/h/d/'']), (job_world, job_config, XAttrFiles [qs ''/h/d/f'']),
       (job_world, job_config, MarkFailed 0x400000001)]"
  obtain e' where run: "run_jobs job_api ?jobs ref_empty = Some e'"
    using job_first_run[of ref_empty] by auto
  have "list_all (job_ok (ia_text job_api)) ?jobs"
    using job_world_ok by (simp add: job_ok_def)
  then show ?thesis
    using jobs_keep_index[OF _ _ _ _ run, where st = "\<lambda>e. e"] run
    by (simp add: lmdb_ok_ref sample_env_ok job_text_ok ref_empty_db)
qed

text \<open>C5. The first run over finite folders ends, and then every path of a folder that the configuration accepts,
  and that the file system can identify, is a document of the database.\<close>

theorem first_run_complete:
  assumes "lmdb_ok (ia_lmdb A)" "env_works (ia_env A) st" "tree_ranked w FilesAndDirs rank"
    and "\<forall>folder \<in> set folders. folder \<noteq> [] \<and> shouldFolderBeIndexed (ia_regex A) c folder"
  shows "\<exists>e'. FirstRunIndexer_run A w c folders e = Some e' \<and>
    (\<forall>folder \<in> set folders. \<forall>path \<in> set (folder # tree_paths (ia_regex A) w (Some c) FilesAndDirs (rank folder) folder).
       indexable w path \<longrightarrow> Transaction_hasDocument (ia_lmdb A) (st e') (path_id w path))"
  by (rule FirstRunIndexer_run_complete[OF assms])

theorem first_run_complete_witness:
  "\<exists>e'. FirstRunIndexer_run job_api job_world job_config [qs ''/h/d/''] ref_empty = Some e' \<and>
     Transaction_hasDocument ref_lmdb e' 0x300000001 \<and> Transaction_hasDocument ref_lmdb e' 0x400000001"
  using first_run_complete[where A = job_api and st = "\<lambda>e. e" and w = job_world and c = job_config
      and folders = "[qs ''/h/d/'']" and e = ref_empty, OF _ _ job_tree]
  by (simp add: lmdb_ok_ref sample_env_works job_config_includes job_folder_paths del: tree_paths.simps)



text \<open>C34. However the bytes on the pipe are cut into pieces, the messages of the extractor process arrive at the
  controller, and the commands of the controller at the process, each once, in order, with nothing left over.\<close>

theorem pipe_roundtrip:
  assumes "stream_ok D" "[] \<notin> set pieces"
  shows "(concat pieces = concat (map (WorkerPipe_write D) msgs) \<longrightarrow>
      feed (processStatusData D) [] pieces = Some (map received msgs, [])) \<and>
    (concat pieces = concat (map (ControllerPipe_write D) cmds) \<longrightarrow>
      feed (processIdData D) [] pieces = Some (map command_received cmds, []))"
  using pipes_deliver[OF assms] by blast

theorem pipe_roundtrip_witness:
  "feed (processStatusData job_stream) [] (map (\<lambda>x. [x]) (WorkerPipe_write job_stream (urlProcessed (qs ''/a'') True Successful) @
     WorkerPipe_write job_stream batchFinished)) = Some ([urlProcessed (qs ''/a'') True Successful, batchFinished], [])"
proof -
  have single: "concat (map (\<lambda>x. [x]) xs) = xs" "[] \<notin> set (map (\<lambda>x. [x]) xs)" for xs :: bytes
    by (induction xs) auto
  show ?thesis
    using pipe_roundtrip[OF job_stream_ok single(2), where msgs = "[urlProcessed (qs ''/a'') True Successful, batchFinished]"]
    by (simp add: single(1) received_def)
qed



text \<open>C40. The walk of \<open>FilteredDirIterator\<close> over a finite tree ends and sees the folder and every accepted path
  below accepted folders exactly once.\<close>

theorem dir_walk_complete:
  assumes "tree_ranked w flt rank" "folder \<noteq> []"
    and "case config of None \<Rightarrow> True | Some c \<Rightarrow> shouldFolderBeIndexed rx c folder"
  shows "\<exists>seen. walk rx w (FilteredDirIterator_new rx w config folder flt) = Some seen \<and>
    mset seen = mset (folder # tree_paths rx w config flt (rank folder) folder)"
  by (rule walk_folder[OF assms])

theorem dir_walk_complete_witness:
  "\<exists>seen. walk (\<lambda>_ _. False) job_world (FilteredDirIterator_new (\<lambda>_ _. False) job_world (Some job_config) (qs ''/h/d/'') FilesAndDirs) =
       Some seen \<and> mset seen = {#qs ''/h/d/'', qs ''/h/d/f''#}"
  using dir_walk_complete[OF job_tree, where folder = "qs ''/h/d/''" and config = "Some job_config" and rx = "\<lambda>_ _. False"]
    job_config_includes(1) job_folder_paths(1)
  by (simp add: job_folder_paths(6) del: tree_paths.simps)

end
